(* ===== verification/JsPrelude.thy ===== *)
theory JsPrelude
  imports Complex_Main "HOL-Library.Char_ord" "HOL-Library.List_Lexorder" "HOL-Library.Multiset"
begin

text \<open>
  Shared vocabulary of the development: the fragments of the JavaScript value model that the
  TypeScript sources use, and the lemmas every component builds on.

  \<^item> \<open>jsnum\<close> is the type \<open>number\<close>: the finite doubles are rationals (rounding is not modelled),
    and the three non-finite values are constructors of their own.
  \<^item> A string is a list of 8-bit code units; \<open>js_trim\<close>, \<open>starts_with\<close>, \<open>index_of\<close> and the rest
    are the \<open>String.prototype\<close> methods the sources call.
  \<^item> A \<open>Record<string, T>\<close> is an association list in property order: \<open>obj_set\<close> keeps the slot of an
    existing key, puts an integer-like key among the leading integer-like keys and appends any
    other key, which is the order \<open>Object.entries\<close> enumerates.
\<close>

section \<open>Collections of the development\<close>

named_theorems js_simps "equations of the JavaScript value model"
named_theorems obj_simps "lookup laws of ordered objects"

section \<open>Numbers\<close>

datatype jsnum = Fin rat | PosInf | NegInf | NaN

fun is_finite :: "jsnum \<Rightarrow> bool" where
  "is_finite (Fin _) = True"
| "is_finite _ = False"

fun js_add :: "jsnum \<Rightarrow> rat \<Rightarrow> jsnum" where
  "js_add (Fin x) d = Fin (x + d)"
| "js_add n _ = n"

definition clamp_ratio :: "rat \<Rightarrow> rat" where
  "clamp_ratio r = max 5 (min 95 r)"

lemma clamp_ratio_bounds: "5 \<le> clamp_ratio r" "clamp_ratio r \<le> 95"
  by (simp_all add: clamp_ratio_def)

lemma clamp_ratio_id: "5 \<le> r \<Longrightarrow> r \<le> 95 \<Longrightarrow> clamp_ratio r = r"
  by (simp add: clamp_ratio_def)

section \<open>Strings\<close>

definition is_js_space :: "char \<Rightarrow> bool" where
  "is_js_space c = (let n = of_char c :: nat in (9 \<le> n \<and> n \<le> 13) \<or> n = 32 \<or> n = 160)"

definition js_trim_start :: "string \<Rightarrow> string" where
  "js_trim_start s = dropWhile is_js_space s"

definition js_trim :: "string \<Rightarrow> string" where
  "js_trim s = rev (dropWhile is_js_space (rev (dropWhile is_js_space s)))"

text \<open>Truthiness of an optional string: neither \<open>undefined\<close>/\<open>null\<close> nor empty.\<close>

fun truthy :: "string option \<Rightarrow> bool" where
  "truthy None = False"
| "truthy (Some s) = (s \<noteq> [])"

text \<open>\<open>x || d\<close> for a string \<open>x\<close>.\<close>

definition str_or :: "string \<Rightarrow> string \<Rightarrow> string" where
  "str_or x d = (if x = [] then d else x)"

text \<open>\<open>x || ''\<close> for an optional string.\<close>

fun opt_str :: "string option \<Rightarrow> string" where
  "opt_str None = []"
| "opt_str (Some s) = s"

definition starts_with :: "string \<Rightarrow> string \<Rightarrow> bool" where
  "starts_with p s = (take (length p) s = p)"

text \<open>\<open>s.indexOf(c)\<close> and \<open>s.lastIndexOf(c)\<close> for one code unit; \<open>None\<close> is \<open>-1\<close>.\<close>

fun index_of :: "'a \<Rightarrow> 'a list \<Rightarrow> nat option" where
  "index_of c [] = None"
| "index_of c (x # xs) = (if x = c then Some 0 else map_option Suc (index_of c xs))"

fun last_index_of :: "'a \<Rightarrow> 'a list \<Rightarrow> nat option" where
  "last_index_of c [] = None"
| "last_index_of c (x # xs) =
     (case last_index_of c xs of Some n \<Rightarrow> Some (Suc n)
      | None \<Rightarrow> (if x = c then Some 0 else None))"

text \<open>\<open>parts.join(sep)\<close> and \<open>s.split(sep)\<close> for a one-unit separator.\<close>

fun js_join :: "string \<Rightarrow> string list \<Rightarrow> string" where
  "js_join sep [] = []"
| "js_join sep [x] = x"
| "js_join sep (x # y # ys) = x @ sep @ js_join sep (y # ys)"

fun js_split :: "char \<Rightarrow> string \<Rightarrow> string list" where
  "js_split c [] = [[]]"
| "js_split c (x # xs) =
     (if x = c then [] # js_split c xs
      else (case js_split c xs of [] \<Rightarrow> [[x]] | w # ws \<Rightarrow> (x # w) # ws))"

lemma index_of_None: "index_of c xs = None \<longleftrightarrow> c \<notin> set xs"
  by (induction xs) auto

lemma index_of_Some:
  "index_of c xs = Some n \<Longrightarrow> n < length xs \<and> xs ! n = c \<and> c \<notin> set (take n xs)"
  by (induction xs arbitrary: n) (auto split: if_splits)

lemma index_of_append:
  "c \<notin> set xs \<Longrightarrow> index_of c (xs @ c # ys) = Some (length xs)"
  by (induction xs) auto

lemma last_index_of_None: "last_index_of c xs = None \<longleftrightarrow> c \<notin> set xs"
  by (induction xs) (auto split: option.splits)

lemma last_index_of_append:
  "c \<notin> set ys \<Longrightarrow> last_index_of c (xs @ c # ys) = Some (length xs)"
  by (induction xs) (auto simp: last_index_of_None [THEN iffD2])

lemma starts_with_append [simp]: "starts_with p (p @ s)"
  by (simp add: starts_with_def)

lemma starts_with_iff: "starts_with p s \<longleftrightarrow> (\<exists>r. s = p @ r)"
  by (metis append_take_drop_id starts_with_append starts_with_def)

lemma js_split_nonempty [simp]: "js_split c s \<noteq> []"
  by (induction s) (auto split: list.splits)

lemma js_split_append:
  "c \<notin> set w \<Longrightarrow> js_split c (w @ c # s) = w # js_split c s"
  by (induction w) auto

lemma js_split_no_sep: "c \<notin> set w \<Longrightarrow> js_split c w = [w]"
  by (induction w) auto

lemma js_split_join:
  "ws \<noteq> [] \<Longrightarrow> (\<forall>w \<in> set ws. c \<notin> set w) \<Longrightarrow> js_split c (js_join [c] ws) = ws"
  by (induction ws rule: induct_list012) (auto simp: js_split_append js_split_no_sep)

lemma js_trim_no_space_id:
  assumes "\<forall>c \<in> set s. \<not> is_js_space c"
  shows "js_trim s = s"
proof -
  have id: "dropWhile is_js_space r = r" if "\<forall>c \<in> set r. \<not> is_js_space c" for r
    using that by (cases r) auto
  show ?thesis using assms by (simp add: js_trim_def id)
qed

lemma js_trim_ends:
  assumes "js_trim s = x # xs"
  shows "\<not> is_js_space x" and "\<not> is_js_space (last (x # xs))"
proof -
  let ?d = "dropWhile is_js_space s"
  have rev_eq: "rev (x # xs) = dropWhile is_js_space (rev ?d)"
    by (metis assms js_trim_def rev_rev_ident)
  then have ne: "dropWhile is_js_space (rev ?d) \<noteq> []"
    by (metis Nil_is_rev_conv list.distinct(1))
  have "hd (dropWhile is_js_space (rev ?d)) = last (x # xs)"
    using rev_eq by (metis hd_rev rev_rev_ident)
  then show "\<not> is_js_space (last (x # xs))"
    using hd_dropWhile [of is_js_space "rev ?d"] ne by (metis dropWhile_eq_Nil_conv)
  have split: "?d = (x # xs) @ rev (takeWhile is_js_space (rev ?d))"
    by (metis rev_eq rev_append rev_rev_ident takeWhile_dropWhile_id)
  then have "hd ?d = x" by (metis append_Cons list.sel(1))
  moreover have "?d \<noteq> []" using split by (metis append_Cons list.distinct(1))
  ultimately show "\<not> is_js_space x"
    by (metis dropWhile_eq_Nil_conv hd_dropWhile)
qed

lemma js_trim_idem [simp]: "js_trim (js_trim s) = js_trim s"
proof (cases "js_trim s")
  case Nil
  show ?thesis unfolding Nil by (simp add: js_trim_def)
next
  case (Cons x xs)
  note ends = js_trim_ends [OF Cons]
  have "dropWhile is_js_space (x # xs) = x # xs"
    using ends(1) by simp
  moreover have "dropWhile is_js_space (rev (x # xs)) = rev (x # xs)"
  proof (cases "rev (x # xs)")
    case (Cons y ys)
    then have "y = last (x # xs)" by (metis hd_rev list.sel(1))
    with ends(2) Cons show ?thesis by simp
  qed simp
  ultimately have "js_trim (x # xs) = x # xs"
    by (simp only: js_trim_def rev_rev_ident)
  with Cons show ?thesis by simp
qed

section \<open>Decimal numerals\<close>

definition digit_char :: "nat \<Rightarrow> char" where
  "digit_char d = char_of (48 + d)"

definition is_digit :: "char \<Rightarrow> bool" where
  "is_digit c = (let n = of_char c :: nat in 48 \<le> n \<and> n \<le> 57)"

definition digit_val :: "char \<Rightarrow> nat" where
  "digit_val c = of_char c - 48"

text \<open>The decimal spelling a template literal gives a non-negative integer.\<close>

fun show_nat :: "nat \<Rightarrow> string" where
  "show_nat n = (if n < 10 then [digit_char n] else show_nat (n div 10) @ [digit_char (n mod 10)])"

declare show_nat.simps [simp del]

text \<open>\<open>parseInt(s, 10)\<close> of a string of digits.\<close>

definition parse_nat :: "string \<Rightarrow> nat" where
  "parse_nat s = foldl (\<lambda>a c. 10 * a + digit_val c) 0 s"

definition all_digits :: "string \<Rightarrow> bool" where
  "all_digits s = (s \<noteq> [] \<and> list_all is_digit s)"

lemma digit_char_props:
  assumes "d < 10"
  shows "is_digit (digit_char d)" and "digit_val (digit_char d) = d"
  using assms by (simp_all add: is_digit_def digit_val_def digit_char_def)

lemma all_digits_show_nat: "all_digits (show_nat n)"
proof (induction n rule: show_nat.induct)
  case (1 n)
  then show ?case
    by (subst show_nat.simps) (auto simp: all_digits_def digit_char_props)
qed

lemma parse_show_nat [simp]: "parse_nat (show_nat n) = n"
proof (induction n rule: show_nat.induct)
  case (1 n)
  then show ?case
    by (subst show_nat.simps) (auto simp: parse_nat_def digit_char_props)
qed

lemma show_nat_inj: "show_nat m = show_nat n \<longleftrightarrow> m = n"
  by (metis parse_show_nat)

lemma show_nat_nonempty [simp]: "show_nat n \<noteq> []"
  using all_digits_show_nat [of n] by (simp add: all_digits_def)

lemma show_nat_digits: "c \<in> set (show_nat n) \<Longrightarrow> is_digit c"
  using all_digits_show_nat [of n] by (simp add: all_digits_def list_all_iff)

section \<open>Ordered objects\<close>

type_synonym 'v js_obj = "(string \<times> 'v) list"

definition is_index_key :: "string \<Rightarrow> bool" where
  "is_index_key k = (all_digits k \<and> show_nat (parse_nat k) = k \<and> parse_nat k < 4294967295)"

definition obj_get :: "'v js_obj \<Rightarrow> string \<Rightarrow> 'v option" where
  "obj_get ob k = map_of ob k"

fun obj_replace :: "string \<Rightarrow> 'v \<Rightarrow> 'v js_obj \<Rightarrow> 'v js_obj" where
  "obj_replace k v [] = []"
| "obj_replace k v ((k', v') # r) = (if k' = k then (k, v) # r else (k', v') # obj_replace k v r)"

fun obj_insert_index :: "string \<Rightarrow> 'v \<Rightarrow> 'v js_obj \<Rightarrow> 'v js_obj" where
  "obj_insert_index k v [] = [(k, v)]"
| "obj_insert_index k v ((k', v') # r) =
     (if is_index_key k' \<and> parse_nat k' < parse_nat k
      then (k', v') # obj_insert_index k v r else (k, v) # (k', v') # r)"

definition obj_set :: "'v js_obj \<Rightarrow> string \<Rightarrow> 'v \<Rightarrow> 'v js_obj" where
  "obj_set ob k v =
     (if k \<in> fst ` set ob then obj_replace k v ob
      else if is_index_key k then obj_insert_index k v ob
      else ob @ [(k, v)])"

definition obj_del :: "'v js_obj \<Rightarrow> string \<Rightarrow> 'v js_obj" where
  "obj_del ob k = filter (\<lambda>(k', _). k' \<noteq> k) ob"

definition obj_ok :: "'v js_obj \<Rightarrow> bool" where
  "obj_ok ob = distinct (map fst ob)"

definition obj_keys :: "'v js_obj \<Rightarrow> string list" where
  "obj_keys ob = map fst ob"

lemma map_of_obj_replace:
  "map_of (obj_replace k v ob) x = (if x = k \<and> k \<in> fst ` set ob then Some v else map_of ob x)"
  by (induction k v ob rule: obj_replace.induct) force+

lemma obj_get_replace:
  "k \<in> fst ` set ob \<Longrightarrow> map_of (obj_replace k v ob) = (map_of ob)(k \<mapsto> v)"
  by (simp add: fun_eq_iff map_of_obj_replace)

lemma keys_obj_replace [simp]: "map fst (obj_replace k v ob) = map fst ob"
  by (induction k v ob rule: obj_replace.induct) auto

lemma set_obj_insert_index [simp]: "set (obj_insert_index k v ob) = insert (k, v) (set ob)"
  by (induction k v ob rule: obj_insert_index.induct) auto

lemma obj_get_insert_index:
  "k \<notin> fst ` set ob \<Longrightarrow> map_of (obj_insert_index k v ob) = (map_of ob)(k \<mapsto> v)"
  by (induction k v ob rule: obj_insert_index.induct) (auto simp: fun_eq_iff)

lemma distinct_obj_insert_index:
  "k \<notin> fst ` set ob \<Longrightarrow> distinct (map fst ob) \<Longrightarrow> distinct (map fst (obj_insert_index k v ob))"
  by (induction k v ob rule: obj_insert_index.induct) (auto simp: image_iff)

lemma obj_get_set [simp, obj_simps]: "obj_get (obj_set ob k v) = (obj_get ob)(k \<mapsto> v)"
proof (cases "k \<in> fst ` set ob")
  case True
  then show ?thesis by (simp add: obj_set_def obj_get_def [abs_def] obj_get_replace)
next
  case False
  then have "map_of ob k = None" by (simp add: map_of_eq_None_iff)
  with False show ?thesis
    by (auto simp: obj_set_def obj_get_def [abs_def] obj_get_insert_index map_add_def fun_eq_iff
        split: option.splits)
qed

lemma obj_get_del [simp, obj_simps]: "obj_get (obj_del ob k) = (obj_get ob)(k := None)"
  by (induction ob) (auto simp: obj_del_def obj_get_def [abs_def] fun_eq_iff)

lemma obj_get_Nil [simp, obj_simps]: "obj_get [] k = None"
  by (simp add: obj_get_def)

lemma obj_ok_set [simp, intro]: "obj_ok ob \<Longrightarrow> obj_ok (obj_set ob k v)"
  by (auto simp: obj_ok_def obj_set_def distinct_obj_insert_index)

lemma obj_ok_del [simp, intro]: "obj_ok ob \<Longrightarrow> obj_ok (obj_del ob k)"
  unfolding obj_ok_def obj_del_def by (induction ob) auto

lemma obj_ok_Nil [simp]: "obj_ok []"
  by (simp add: obj_ok_def)

lemma obj_get_in_set: "obj_ok ob \<Longrightarrow> obj_get ob k = Some v \<longleftrightarrow> (k, v) \<in> set ob"
  by (auto simp: obj_ok_def obj_get_def dest: map_of_SomeD)

lemma obj_get_None_iff: "obj_get ob k = None \<longleftrightarrow> k \<notin> set (obj_keys ob)"
  by (simp add: obj_get_def obj_keys_def map_of_eq_None_iff)

lemma obj_get_singleton [simp]: "obj_get [(k, v)] = [k \<mapsto> v]"
  by (auto simp: obj_get_def fun_eq_iff)

text \<open>Mapping the values of an object (\<open>for (const x of Object.values(o))\<close>) keeps its keys.\<close>

definition obj_map :: "('v \<Rightarrow> 'w) \<Rightarrow> 'v js_obj \<Rightarrow> 'w js_obj" where
  "obj_map f ob = map (\<lambda>(k, v). (k, f v)) ob"

lemma obj_get_map [simp, obj_simps]: "obj_get (obj_map f ob) k = map_option f (obj_get ob k)"
  by (induction ob) (auto simp: obj_map_def obj_get_def)

lemma obj_ok_map [simp]: "obj_ok (obj_map f ob) = obj_ok ob"
  by (simp add: obj_ok_def obj_map_def case_prod_beta comp_def)

section \<open>Arrays\<close>

text \<open>\<open>xs.findIndex(p)\<close> (\<open>None\<close> is \<open>-1\<close>), \<open>xs.splice(i, 1)\<close> and \<open>xs.splice(i, 0, x)\<close>.\<close>

fun find_index :: "('a \<Rightarrow> bool) \<Rightarrow> 'a list \<Rightarrow> nat option" where
  "find_index p [] = None"
| "find_index p (x # xs) = (if p x then Some 0 else map_option Suc (find_index p xs))"

definition remove_at :: "nat \<Rightarrow> 'a list \<Rightarrow> 'a list" where
  "remove_at i xs = take i xs @ drop (Suc i) xs"

definition insert_at :: "nat \<Rightarrow> 'a \<Rightarrow> 'a list \<Rightarrow> 'a list" where
  "insert_at i x xs = take i xs @ x # drop i xs"

text \<open>\<open>xs[i]\<close>: out of range is \<open>undefined\<close>.\<close>

definition arr_at :: "'a list \<Rightarrow> nat \<Rightarrow> 'a option" where
  "arr_at xs i = (if i < length xs then Some (xs ! i) else None)"

lemma find_index_None: "find_index p xs = None \<longleftrightarrow> (\<forall>x \<in> set xs. \<not> p x)"
  by (induction xs) auto

lemma find_index_Some:
  "find_index p xs = Some i \<Longrightarrow> i < length xs \<and> p (xs ! i) \<and> (\<forall>j < i. \<not> p (xs ! j))"
proof (induction xs arbitrary: i)
  case (Cons x xs)
  show ?case
  proof (cases "p x")
    case False
    with Cons.prems obtain j where j: "i = Suc j" "find_index p xs = Some j" by auto
    with Cons.IH [OF j(2)] False show ?thesis
      by (auto simp: less_Suc_eq_0_disj)
  qed (use Cons.prems in auto)
qed simp

lemma map_remove_at: "map f (remove_at i xs) = remove_at i (map f xs)"
  by (simp add: remove_at_def take_map drop_map)

lemma map_insert_at: "map f (insert_at i x xs) = insert_at i (f x) (map f xs)"
  by (simp add: insert_at_def take_map drop_map)

lemma set_remove_at_subset: "set (remove_at i xs) \<subseteq> set xs"
  by (auto simp: remove_at_def dest: in_set_takeD in_set_dropD)

lemma distinct_remove_at: "distinct xs \<Longrightarrow> distinct (remove_at i xs)"
  unfolding remove_at_def
  by (metis distinct_append distinct_drop distinct_take set_take_disj_set_drop_if_distinct
      lessI less_imp_le)

lemma set_remove_at:
  assumes "distinct xs" and "i < length xs"
  shows "set (remove_at i xs) = set xs - {xs ! i}"
proof -
  have xs: "xs = take i xs @ xs ! i # drop (Suc i) xs"
    using assms(2) by (rule id_take_nth_drop)
  with assms(1) have d: "distinct (take i xs @ xs ! i # drop (Suc i) xs)" by simp
  have "set xs = set (take i xs @ xs ! i # drop (Suc i) xs)" using xs by simp
  with d show ?thesis by (auto simp: remove_at_def)
qed

lemma set_insert_at [simp]: "set (insert_at i x xs) = insert x (set xs)"
  unfolding insert_at_def
  by (metis Un_insert_right append_take_drop_id list.simps(15) set_append)

lemma distinct_insert_at [simp]: "distinct (insert_at i x xs) \<longleftrightarrow> distinct xs \<and> x \<notin> set xs"
proof -
  have "distinct (insert_at i x xs) \<longleftrightarrow> distinct (x # (take i xs @ drop i xs))"
    unfolding insert_at_def by (auto simp del: append_take_drop_id)
  then show ?thesis by auto
qed

section \<open>Untyped values\<close>

text \<open>What \<open>JSON.parse\<close> yields: the input of the sanitizers.\<close>

datatype js =
    JNull
  | JBool bool
  | JNum jsnum
  | JStr string
  | JArr "js list"
  | JObj "(string \<times> js) list"

text \<open>\<open>v?.name\<close>; \<open>None\<close> is \<open>undefined\<close>. The names read by the sources are not array members.\<close>

fun js_prop :: "js option \<Rightarrow> string \<Rightarrow> js option" where
  "js_prop (Some (JObj ob)) k = map_of ob k"
| "js_prop _ k = None"

text \<open>\<open>typeof v === 'object'\<close> for a truthy value.\<close>

fun js_is_object :: "js \<Rightarrow> bool" where
  "js_is_object (JObj _) = True"
| "js_is_object (JArr _) = True"
| "js_is_object _ = False"

fun js_string :: "js option \<Rightarrow> string option" where
  "js_string (Some (JStr s)) = Some s"
| "js_string _ = None"

lemma js_string_Some [simp]: "js_string v = Some s \<longleftrightarrow> v = Some (JStr s)"
  by (cases v rule: js_string.cases) auto

text \<open>
  \<open>ids.sort().join('+')\<close> is compared as one string in the sources; the sorted list is the
  order of the code units.
\<close>

definition sorted_key :: "string list \<Rightarrow> string" where
  "sorted_key ids = js_join ''+'' (sort ids)"

lemma sorted_key_mset: "mset xs = mset ys \<Longrightarrow> sorted_key xs = sorted_key ys"
proof -
  assume "mset xs = mset ys"
  then have "sort xs = sort ys" by (intro properties_for_sort) simp_all
  then show ?thesis by (simp add: sorted_key_def)
qed

lemma sorted_key_eq:
  assumes "sorted_key xs = sorted_key ys" and "xs \<noteq> []" and "ys \<noteq> []"
    and "\<forall>x \<in> set xs. CHR ''+'' \<notin> set x" and "\<forall>y \<in> set ys. CHR ''+'' \<notin> set y"
  shows "mset xs = mset ys"
proof -
  have ne: "sort xs \<noteq> []" "sort ys \<noteq> []" using assms(2,3) by (metis length_sort length_0_conv)+
  have "js_split (CHR ''+'') (js_join ''+'' (sort xs)) = sort xs"
    using ne(1) assms(4) by (intro js_split_join) auto
  moreover have "js_split (CHR ''+'') (js_join ''+'' (sort ys)) = sort ys"
    using ne(2) assms(5) by (intro js_split_join) auto
  ultimately have "sort xs = sort ys" using assms(1) unfolding sorted_key_def by metis
  then have "mset (sort xs) = mset (sort ys)" by simp
  then show ?thesis by simp
qed

lemma sorted_key_inj:
  assumes "sorted_key xs = sorted_key ys" and "length xs = length ys"
    and "\<forall>x \<in> set xs. CHR ''+'' \<notin> set x" and "\<forall>y \<in> set ys. CHR ''+'' \<notin> set y"
  shows "mset xs = mset ys"
proof (cases "xs = []")
  case False
  moreover from this have "ys \<noteq> []" using assms(2) by auto
  ultimately show ?thesis using sorted_key_eq [OF assms(1)] assms(3,4) by blast
qed (use assms(2) in simp)

end
