(* ===== verification/PaneTree.thy ===== *)
theory PaneTree
  imports JsPrelude
begin

text \<open>
  The binary split tree of \<open>src/ui/tiling\<close>: its types (\<open>types.ts\<close>) and its operations
  (\<open>paneTreeState.ts\<close>). A tree is stored as the code stores it, as an object \<open>panes\<close> from pane id
  to node, with child references by id; nothing in the type says that the references form a
  tree. Each operation takes the state and returns the new one (the code mutates a draft), with
  the operation's own result beside it.
\<close>

section \<open>Types\<close>

datatype axis = Vertical | Horizontal

datatype split_direction = DirTop | DirBottom | DirLeft | DirRight

datatype split_input = AxisDir axis | SideDir split_direction

datatype side = LeftSide | RightSide

datatype 'v pane =
    Split (split_axis: axis) (left_child: string) (right_child: string) (ratio: jsnum)
  | Content (content_value: 'v)

record 'v pane_tree =
  root_pane_id :: string
  panes :: "'v pane js_obj"
  focused_pane_id :: string
  maximized_pane_id :: "string option"

fun is_content :: "'v pane option \<Rightarrow> bool" where
  "is_content (Some (Content _)) = True"
| "is_content _ = False"

abbreviation pane_at :: "'v pane_tree \<Rightarrow> string \<Rightarrow> 'v pane option" where
  "pane_at s i \<equiv> obj_get (panes s) i"

abbreviation put_pane :: "string \<Rightarrow> 'v pane \<Rightarrow> 'v pane_tree \<Rightarrow> 'v pane_tree" where
  "put_pane i p s \<equiv> s\<lparr>panes := obj_set (panes s) i p\<rparr>"

abbreviation drop_pane :: "string \<Rightarrow> 'v pane_tree \<Rightarrow> 'v pane_tree" where
  "drop_pane i s \<equiv> s\<lparr>panes := obj_del (panes s) i\<rparr>"

section \<open>Fresh pane ids\<close>

text \<open>The capture group of \<open>^prefix-(digits)$\<close> on a key, as a number.\<close>

definition numbered_key :: "string \<Rightarrow> string \<Rightarrow> nat option" where
  "numbered_key prefix key =
     (let p = prefix @ ''-''; d = drop (length p) key
      in if starts_with p key \<and> all_digits d then Some (parse_nat d) else None)"

definition getNextIdNumber :: "'v pane_tree \<Rightarrow> string \<Rightarrow> nat" where
  "getNextIdNumber s prefix =
     foldl (\<lambda>mx key. case numbered_key prefix key of
                       Some num \<Rightarrow> (if mx < num then num else mx)
                     | None \<Rightarrow> mx) 0 (obj_keys (panes s)) + 1"

definition pane_id :: "string \<Rightarrow> nat \<Rightarrow> string" where
  "pane_id prefix n = prefix @ ''-'' @ show_nat n"

lemma pane_id_inj: "pane_id p m = pane_id p n \<longleftrightarrow> m = n"
  by (simp add: pane_id_def show_nat_inj)

text \<open>The \<open>while (state.panes[candidate])\<close> loop of \<open>generatePaneId\<close>.\<close>

function next_free_id :: "'v pane js_obj \<Rightarrow> string \<Rightarrow> nat \<Rightarrow> string" where
  "next_free_id ps prefix n =
     (if obj_get ps (pane_id prefix n) \<noteq> None then next_free_id ps prefix (n + 1)
      else pane_id prefix n)"
  by pat_completeness auto
termination
proof (relation "measure (\<lambda>(ps, prefix, n). card {k \<in> set (obj_keys ps). \<exists>m \<ge> n. k = pane_id prefix m})")
  fix ps :: "'v pane js_obj" and prefix n
  assume used: "obj_get ps (pane_id prefix n) \<noteq> None"
  let ?A = "\<lambda>i. {k \<in> set (obj_keys ps). \<exists>m \<ge> i. k = pane_id prefix m}"
  have "pane_id prefix n \<in> ?A n" using used by (auto simp: obj_get_None_iff)
  moreover have "pane_id prefix n \<notin> ?A (n + 1)" by (auto simp: pane_id_inj)
  moreover have "?A (n + 1) \<subseteq> ?A n" by (auto intro: Suc_leD)
  ultimately have "?A (n + 1) \<subset> ?A n" by blast
  then have "card (?A (n + 1)) < card (?A n)" by (intro psubset_card_mono) auto
  then show "((ps, prefix, n + 1), ps, prefix, n) \<in>
      measure (\<lambda>(ps, prefix, n). card {k \<in> set (obj_keys ps). \<exists>m \<ge> n. k = pane_id prefix m})"
    by simp
qed auto

declare next_free_id.simps [simp del]

definition generatePaneId :: "'v pane_tree \<Rightarrow> string \<Rightarrow> string" where
  "generatePaneId s prefix = next_free_id (panes s) prefix (getNextIdNumber s prefix)"

lemma next_free_id_fresh: "obj_get ps (next_free_id ps prefix n) = None"
proof (induction ps prefix n rule: next_free_id.induct)
  case (1 ps prefix n)
  then show ?case by (subst next_free_id.simps) auto
qed

lemma next_free_id_form: "\<exists>m. next_free_id ps prefix n = pane_id prefix m"
proof (induction ps prefix n rule: next_free_id.induct)
  case (1 ps prefix n)
  then show ?case by (subst next_free_id.simps) auto
qed

lemma generatePaneId_fresh [simp]: "pane_at s (generatePaneId s prefix) = None"
  by (simp add: generatePaneId_def next_free_id_fresh)

lemma generatePaneId_nonempty [simp]: "generatePaneId s prefix \<noteq> []"
  using next_free_id_form [of "panes s" prefix "getNextIdNumber s prefix"]
  by (auto simp: generatePaneId_def pane_id_def)

section \<open>Construction and directions\<close>

definition createPaneTreeState :: "'v \<Rightarrow> string \<Rightarrow> 'v pane_tree" where
  "createPaneTreeState initial_content initial_pane_id =
     (let pane = str_or initial_pane_id ''pane-1''
      in \<lparr>root_pane_id = pane, panes = [(pane, Content initial_content)],
          focused_pane_id = pane, maximized_pane_id = None\<rparr>)"

fun toAxis :: "split_input \<Rightarrow> axis" where
  "toAxis (SideDir DirTop) = Vertical"
| "toAxis (SideDir DirBottom) = Vertical"
| "toAxis (AxisDir Vertical) = Vertical"
| "toAxis (SideDir DirLeft) = Horizontal"
| "toAxis (SideDir DirRight) = Horizontal"
| "toAxis (AxisDir Horizontal) = Horizontal"

definition isFirstChild :: "split_input \<Rightarrow> bool" where
  "isFirstChild d = (d = SideDir DirTop \<or> d = SideDir DirLeft)"

fun structure_pane :: "'v pane \<Rightarrow> unit pane" where
  "structure_pane (Split a l r q) = Split a l r q"
| "structure_pane (Content _) = Content ()"

definition toStructureOnly :: "'v pane_tree \<Rightarrow> unit pane_tree" where
  "toStructureOnly s =
     \<lparr>root_pane_id = root_pane_id s, panes = obj_map structure_pane (panes s),
      focused_pane_id = focused_pane_id s, maximized_pane_id = maximized_pane_id s\<rparr>"

section \<open>Lookup\<close>

fun pane_location :: "'v pane js_obj \<Rightarrow> string \<Rightarrow> (string \<times> side) option" where
  "pane_location [] target = None"
| "pane_location ((i, Content _) # r) target = pane_location r target"
| "pane_location ((i, Split a lc rc q) # r) target =
     (if lc = target then Some (i, LeftSide)
      else if rc = target then Some (i, RightSide)
      else pane_location r target)"

definition getPaneLocation :: "'v pane_tree \<Rightarrow> string \<Rightarrow> (string \<times> side) option" where
  "getPaneLocation s target = pane_location (panes s) target"

text \<open>
  \<open>visit\<close> inside \<open>getContentPaneIds\<close>: the visited set and the result are shared by all calls, so
  both are passed through. The second recursive call starts from what the first one left.
\<close>

function visit_content ::
  "'v pane js_obj \<Rightarrow> string \<Rightarrow> string set \<times> string list \<Rightarrow> string set \<times> string list" where
  "visit_content ps i (vis, acc) =
     (if i = [] \<or> i \<in> vis then (vis, acc)
      else (case obj_get ps i of
              None \<Rightarrow> (insert i vis, acc)
            | Some (Content _) \<Rightarrow> (insert i vis, acc @ [i])
            | Some (Split _ lc rc _) \<Rightarrow>
                visit_content ps rc (visit_content ps lc (insert i vis, acc))))"
  by pat_completeness auto

lemma visit_content_grows:
  "visit_content_dom (ps, i, va) \<Longrightarrow> fst va \<subseteq> fst (visit_content ps i va)"
proof (induction ps i va rule: visit_content.pinduct)
  case (1 ps i vis acc)
  then show ?case
    by (subst visit_content.psimps) (fastforce split: option.splits pane.splits)+
qed

lemma card_visited_less:
  assumes "obj_get ps i = Some p" and "i \<notin> vis" and "insert i vis \<subseteq> vis'"
  shows "card (set (obj_keys ps) - vis') < card (set (obj_keys ps) - vis)"
proof (rule psubset_card_mono)
  have "i \<in> set (obj_keys ps)" using assms(1) obj_get_None_iff [of ps i] by auto
  with assms(2,3) show "set (obj_keys ps) - vis' \<subset> set (obj_keys ps) - vis" by blast
qed simp

termination visit_content
proof (relation "measure (\<lambda>(ps, i, vis, acc). card (set (obj_keys ps) - vis))", goal_cases)
  case (2 ps i vis acc)
  then show ?case by (auto intro: card_visited_less)
next
  case (3 ps i vis acc p a lc rc q)
  then have "insert i vis \<subseteq> fst (visit_content ps lc (insert i vis, acc))"
    using visit_content_grows by fastforce
  with 3 have "card (set (obj_keys ps) - fst (visit_content ps lc (insert i vis, acc)))
      < card (set (obj_keys ps) - vis)"
    by (intro card_visited_less) auto
  then show ?case by (auto simp: case_prod_beta)
qed auto

declare visit_content.simps [simp del]

definition getContentPaneIds :: "'v pane_tree \<Rightarrow> string list" where
  "getContentPaneIds s =
     (let (vis, result) = visit_content (panes s) (root_pane_id s) ({}, [])
      in result @ map fst (filter (\<lambda>(i, p). is_content (Some p) \<and> i \<notin> vis) (panes s)))"

definition first_id :: "string list \<Rightarrow> string option" where
  "first_id ids = (case ids of [] \<Rightarrow> None | i # _ \<Rightarrow> Some i)"

section \<open>Splitting\<close>

text \<open>Redirects one child reference of a split; anything else is left alone.\<close>

fun set_child :: "side \<Rightarrow> string \<Rightarrow> 'v pane \<Rightarrow> 'v pane" where
  "set_child LeftSide c (Split a lc rc q) = Split a c rc q"
| "set_child RightSide c (Split a lc rc q) = Split a lc c q"
| "set_child _ c (Content v) = Content v"

text \<open>\<open>if (position) \<dots>\<close>: the parent found at \<open>position\<close> now refers to \<open>c\<close>.\<close>

definition relink :: "(string \<times> side) option \<Rightarrow> string \<Rightarrow> 'v pane_tree \<Rightarrow> 'v pane_tree" where
  "relink position c s =
     (case position of
        None \<Rightarrow> s
      | Some (parent, sd) \<Rightarrow>
          (case pane_at s parent of
             Some (Split a lc rc q) \<Rightarrow> put_pane parent (set_child sd c (Split a lc rc q)) s
           | _ \<Rightarrow> s))"

definition new_split :: "split_input \<Rightarrow> string \<Rightarrow> string \<Rightarrow> 'v pane" where
  "new_split direction new other =
     (if isFirstChild direction then Split (toAxis direction) new other (Fin 50)
      else Split (toAxis direction) other new (Fin 50))"

text \<open>\<open>resolvedTargetId\<close>: the pane asked for, else the focused one, else the first leaf.\<close>

definition resolve_split_target :: "'v pane_tree \<Rightarrow> string \<Rightarrow> string option" where
  "resolve_split_target s i =
     (if is_content (pane_at s i) then Some i
      else if is_content (pane_at s (focused_pane_id s)) then Some (focused_pane_id s)
      else first_id (getContentPaneIds s))"

definition splitPaneInTree ::
  "'v pane_tree \<Rightarrow> string \<Rightarrow> split_input \<Rightarrow> 'v \<Rightarrow> string option
    \<Rightarrow> 'v pane_tree \<times> string \<times> string" where
  "splitPaneInTree s pane_to_split direction new_content new_pane_id =
     (let target = opt_str (resolve_split_target s pane_to_split)
      in if target = [] \<or> pane_at s target = None then
           (let fallback = (if truthy new_pane_id then the new_pane_id
                            else generatePaneId s ''pane'')
            in (s\<lparr>panes := obj_set (panes s) fallback (Content new_content),
                  root_pane_id := fallback, focused_pane_id := fallback,
                  maximized_pane_id := None\<rparr>, fallback, fallback))
         else
           (let new_child = (if truthy new_pane_id \<and> pane_at s (the new_pane_id) = None
                             then the new_pane_id else generatePaneId s ''pane'');
                s1 = put_pane new_child (Content new_content) s;
                position = getPaneLocation s1 target;
                parent = generatePaneId s1 ''split'';
                s2 = put_pane parent (new_split direction new_child target) s1;
                s3 = relink position parent s2;
                s4 = (if root_pane_id s3 = target then s3\<lparr>root_pane_id := parent\<rparr> else s3);
                s5 = s4\<lparr>focused_pane_id := new_child,
                        maximized_pane_id := (if truthy (maximized_pane_id s4) then None
                                              else maximized_pane_id s4)\<rparr>
            in (s5, parent, new_child)))"

section \<open>Closing and moving\<close>

record detach_result =
  sibling_id :: "string option"
  was_root :: bool

definition detachPaneFromParentSplit ::
  "'v pane_tree \<Rightarrow> string \<Rightarrow> 'v pane_tree \<times> detach_result" where
  "detachPaneFromParentSplit s i =
     (case getPaneLocation s i of
        None \<Rightarrow> (s, \<lparr>sibling_id = None, was_root = (root_pane_id s = i)\<rparr>)
      | Some (parent, sd) \<Rightarrow>
          (case pane_at s parent of
             Some (Split a lc rc q) \<Rightarrow>
               (let sibling = (if sd = LeftSide then rc else lc);
                    grandparent = getPaneLocation s parent;
                    s1 = drop_pane parent s;
                    s2 = (if grandparent = None then s1\<lparr>root_pane_id := sibling\<rparr>
                          else relink grandparent sibling s1)
                in (s2, \<lparr>sibling_id = Some sibling, was_root = False\<rparr>))
           | _ \<Rightarrow> (s, \<lparr>sibling_id = None, was_root = False\<rparr>)))"

definition repair_focus :: "string \<Rightarrow> string option \<Rightarrow> string list \<Rightarrow> 'v pane_tree \<Rightarrow> 'v pane_tree" where
  "repair_focus gone sibling remaining s =
     (if focused_pane_id s = gone \<or> \<not> is_content (pane_at s (focused_pane_id s))
      then (if truthy sibling \<and> is_content (pane_at s (the sibling))
            then s\<lparr>focused_pane_id := the sibling\<rparr>
            else (case remaining of [] \<Rightarrow> s | i # _ \<Rightarrow> s\<lparr>focused_pane_id := i\<rparr>))
      else s)"

definition closePaneInTree :: "'v pane_tree \<Rightarrow> string \<Rightarrow> 'v pane_tree \<times> bool" where
  "closePaneInTree s i =
     (if \<not> is_content (pane_at s i) then (s, False)
      else if length (getContentPaneIds s) \<le> 1 \<and> root_pane_id s = i
      then ((drop_pane i s)\<lparr>maximized_pane_id := None\<rparr>, True)
      else
        (let (s1, d) = detachPaneFromParentSplit s i;
             s2 = drop_pane i s1
         in if was_root d then (s2\<lparr>maximized_pane_id := None\<rparr>, True)
            else
              (let s3 = (if maximized_pane_id s2 = Some i then s2\<lparr>maximized_pane_id := None\<rparr> else s2);
                   remaining = getContentPaneIds s3;
                   s4 = (if length remaining \<le> 1 then s3\<lparr>maximized_pane_id := None\<rparr> else s3)
               in (repair_focus i (sibling_id d) remaining s4, remaining = []))))"

text \<open>\<open>closePane\<close> takes its two arguments in either order.\<close>

definition closePane ::
  "'v pane_tree + string \<Rightarrow> string + 'v pane_tree \<Rightarrow> ('v pane_tree \<times> bool) option" where
  "closePane a b =
     (case (a, b) of
        (Inr i, Inr s) \<Rightarrow> Some (closePaneInTree s i)
      | (Inl s, Inl i) \<Rightarrow> Some (closePaneInTree s i)
      | _ \<Rightarrow> None)"

definition movePaneInTree ::
  "'v pane_tree \<Rightarrow> string \<Rightarrow> string \<Rightarrow> split_input \<Rightarrow> 'v pane_tree \<times> bool" where
  "movePaneInTree s source target direction =
     (if source = [] \<or> target = [] \<or> source = target then (s, False)
      else if \<not> is_content (pane_at s source) \<or> \<not> is_content (pane_at s target) then (s, False)
      else
        (let (s1, d) = detachPaneFromParentSplit s source
         in if was_root d then (s1, False)
            else
              (let position = getPaneLocation s1 target;
                   parent = generatePaneId s1 ''split'';
                   s2 = put_pane parent (new_split direction source target) s1;
                   s3 = relink position parent s2;
                   s4 = (if root_pane_id s3 = target then s3\<lparr>root_pane_id := parent\<rparr> else s3)
               in (s4\<lparr>focused_pane_id := source,
                      maximized_pane_id := (if truthy (maximized_pane_id s4) then None
                                            else maximized_pane_id s4)\<rparr>, True))))"

section \<open>Swapping, resizing, maximizing\<close>

definition swapPanesInTree :: "'v pane_tree \<Rightarrow> string \<Rightarrow> string \<Rightarrow> 'v pane_tree \<times> bool" where
  "swapPanesInTree s a b =
     (if a = [] \<or> b = [] \<or> a = b then (s, False)
      else if \<not> is_content (pane_at s a) \<or> \<not> is_content (pane_at s b) then (s, False)
      else
        (case (getPaneLocation s a, getPaneLocation s b) of
           (Some (pa, sa), Some (pb, sb)) \<Rightarrow>
             (case (pane_at s pa, pane_at s pb) of
                (Some (Split xa la ra qa), Some (Split xb lb rb qb)) \<Rightarrow>
                  if pa = pb then (put_pane pa (Split xa ra la qa) s, True)
                  else (put_pane pb (set_child sb a (Split xb lb rb qb))
                         (put_pane pa (set_child sa b (Split xa la ra qa)) s), True)
              | _ \<Rightarrow> (s, False))
         | _ \<Rightarrow> (s, False)))"

definition resizeSplitInTree :: "'v pane_tree \<Rightarrow> string \<Rightarrow> jsnum \<Rightarrow> 'v pane_tree" where
  "resizeSplitInTree s i new_ratio =
     (case pane_at s i of
        Some (Split a lc rc q) \<Rightarrow>
          (case new_ratio of
             Fin r \<Rightarrow> put_pane i (Split a lc rc (Fin (max 5 (min 95 r)))) s
           | _ \<Rightarrow> s)
      | _ \<Rightarrow> s)"

fun even_ratio :: "'v pane \<Rightarrow> 'v pane" where
  "even_ratio (Split a lc rc q) = Split a lc rc (Fin 50)"
| "even_ratio (Content v) = Content v"

definition equalizeTreeRatios :: "'v pane_tree \<Rightarrow> 'v pane_tree" where
  "equalizeTreeRatios s = s\<lparr>panes := obj_map even_ratio (panes s)\<rparr>"

definition toggleMaximizePaneInTree :: "'v pane_tree \<Rightarrow> string option \<Rightarrow> 'v pane_tree" where
  "toggleMaximizePaneInTree s requested =
     (let target = (if truthy requested then the requested else focused_pane_id s)
      in if target = [] \<or> \<not> is_content (pane_at s target) then s\<lparr>maximized_pane_id := None\<rparr>
         else if length (getContentPaneIds s) \<le> 1 then s\<lparr>maximized_pane_id := None\<rparr>
         else if maximized_pane_id s = Some target then s\<lparr>maximized_pane_id := None\<rparr>
         else s\<lparr>maximized_pane_id := Some target, focused_pane_id := target\<rparr>)"

end
