(* ===== verification/PaneTreeSpec.thy ===== *)
theory PaneTreeSpec
  imports PaneTree "HOL-Library.Multiset"
begin

text \<open>
  The abstract view of \<open>PaneTree\<close>: a pane tree as an inductive binary tree, the relation
  \<open>represents\<close> between a stored state and the tree it stands for, and the abstract operations
  (replace a subtree, remove a leaf, exchange two leaves) that the stored operations are shown
  to implement in \<open>PaneTreeRefine\<close>.
\<close>

section \<open>Abstract trees\<close>

datatype 'v ptree =
    PLeaf string 'v
  | PNode string axis jsnum "'v ptree" "'v ptree"

fun pid :: "'v ptree \<Rightarrow> string" where
  "pid (PLeaf i v) = i"
| "pid (PNode i a q l r) = i"

fun ids :: "'v ptree \<Rightarrow> string list" where
  "ids (PLeaf i v) = [i]"
| "ids (PNode i a q l r) = i # ids l @ ids r"

fun leaves :: "'v ptree \<Rightarrow> (string \<times> 'v) list" where
  "leaves (PLeaf i v) = [(i, v)]"
| "leaves (PNode i a q l r) = leaves l @ leaves r"

abbreviation leaf_ids :: "'v ptree \<Rightarrow> string list" where
  "leaf_ids t \<equiv> map fst (leaves t)"

fun nodes :: "'v ptree \<Rightarrow> (string \<times> 'v pane) list" where
  "nodes (PLeaf i v) = [(i, Content v)]"
| "nodes (PNode i a q l r) = (i, Split a (pid l) (pid r) q) # nodes l @ nodes r"

definition good :: "'v ptree \<Rightarrow> bool" where
  "good t = (distinct (ids t) \<and> [] \<notin> set (ids t))"

lemma good_PLeaf [simp]: "good (PLeaf i v) \<longleftrightarrow> i \<noteq> []"
  by (auto simp: good_def)

lemma good_PNode [simp]:
  "good (PNode i a q l r) \<longleftrightarrow> i \<noteq> [] \<and> i \<notin> set (ids l) \<and> i \<notin> set (ids r) \<and> good l \<and> good r
     \<and> set (ids l) \<inter> set (ids r) = {}"
  by (auto simp: good_def)

lemma keys_nodes [simp]: "map fst (nodes t) = ids t"
  by (induction t) auto

lemma fst_set_nodes [simp]: "fst ` set (nodes t) = set (ids t)"
  by (metis keys_nodes set_map)

lemma pid_in_ids [simp, intro]: "pid t \<in> set (ids t)"
  by (cases t) auto

lemma ids_nonempty [simp]: "ids t \<noteq> []"
  by (cases t) auto

lemma leaves_nonempty [simp]: "leaves t \<noteq> []"
  by (induction t) auto

lemma leaf_ids_subset: "set (leaf_ids t) \<subseteq> set (ids t)"
  by (induction t) auto

lemma leaf_in_ids: "(x, v) \<in> set (leaves t) \<Longrightarrow> x \<in> set (ids t)"
  using leaf_ids_subset by force

lemma distinct_leaf_ids: "good t \<Longrightarrow> distinct (leaf_ids t)"
proof (induction t)
  case (PNode i a q l r)
  have "set (leaf_ids l) \<inter> set (leaf_ids r) = {}"
    using PNode.prems leaf_ids_subset [of l] leaf_ids_subset [of r]
    unfolding good_PNode by blast
  with PNode show ?case by simp
qed simp

lemma content_node_iff_leaf: "(x, Content v) \<in> set (nodes t) \<longleftrightarrow> (x, v) \<in> set (leaves t)"
  by (induction t) auto

section \<open>The representation relation\<close>

text \<open>\<open>stored m t\<close>: every node of \<open>t\<close> is where its id says, with its children's ids in it.\<close>

definition stored :: "(string \<Rightarrow> 'v pane option) \<Rightarrow> 'v ptree \<Rightarrow> bool" where
  "stored m t = (\<forall>(i, p) \<in> set (nodes t). m i = Some p)"

definition represents :: "'v pane_tree \<Rightarrow> 'v ptree \<Rightarrow> bool" where
  "represents s t \<longleftrightarrow> root_pane_id s = pid t \<and> obj_ok (panes s) \<and> good t
     \<and> stored (obj_get (panes s)) t \<and> (\<forall>k. obj_get (panes s) k \<noteq> None \<longrightarrow> k \<in> set (ids t))"

lemma stored_PLeaf [simp]: "stored m (PLeaf i v) \<longleftrightarrow> m i = Some (Content v)"
  by (simp add: stored_def)

lemma stored_PNode [simp]:
  "stored m (PNode i a q l r) \<longleftrightarrow>
     m i = Some (Split a (pid l) (pid r) q) \<and> stored m l \<and> stored m r"
  by (auto simp: stored_def)

lemma stored_cong: "stored m t \<Longrightarrow> (\<And>k. k \<in> set (ids t) \<Longrightarrow> m' k = m k) \<Longrightarrow> stored m' t"
  by (induction t) auto

lemma stored_node: "stored m t \<Longrightarrow> (i, p) \<in> set (nodes t) \<Longrightarrow> m i = Some p"
  by (auto simp: stored_def)

lemma stored_id: "stored m t \<Longrightarrow> k \<in> set (ids t) \<Longrightarrow> \<exists>p. m k = Some p \<and> (k, p) \<in> set (nodes t)"
proof -
  assume "stored m t" and "k \<in> set (ids t)"
  then have "k \<in> fst ` set (nodes t)" by simp
  then obtain p where "(k, p) \<in> set (nodes t)"
    by (elim imageE) (metis prod.collapse)
  with \<open>stored m t\<close> show ?thesis by (blast dest: stored_node)
qed

lemma stored_leaf_iff:
  assumes "stored m t" and "k \<in> set (ids t)"
  shows "m k = Some (Content v) \<longleftrightarrow> (k, v) \<in> set (leaves t)"
  using stored_id [OF assms] stored_node [OF assms(1)]
  by (metis content_node_iff_leaf option.inject)

lemma represents_content:
  assumes "represents s t"
  shows "pane_at s k = Some (Content v) \<longleftrightarrow> (k, v) \<in> set (leaves t)"
proof
  assume "pane_at s k = Some (Content v)"
  moreover from this assms have "k \<in> set (ids t)" by (auto simp: represents_def)
  ultimately show "(k, v) \<in> set (leaves t)"
    using assms by (auto simp: represents_def stored_leaf_iff)
next
  assume "(k, v) \<in> set (leaves t)"
  with assms show "pane_at s k = Some (Content v)"
    by (auto simp: represents_def stored_leaf_iff leaf_in_ids)
qed

lemma represents_is_content:
  assumes "represents s t"
  shows "is_content (pane_at s k) \<longleftrightarrow> k \<in> set (leaf_ids t)"
proof -
  have "is_content (pane_at s k) \<longleftrightarrow> (\<exists>v. pane_at s k = Some (Content v))"
    by (cases "pane_at s k" rule: is_content.cases) auto
  then show ?thesis by (auto simp: represents_content [OF assms] image_iff) force
qed

lemma represents_unused:
  "represents s t \<Longrightarrow> pane_at s k = None \<longleftrightarrow> k \<notin> set (ids t)"
  by (metis represents_def stored_id option.distinct(1))

lemma represents_map:
  assumes "represents s t"
  shows "obj_get (panes s) = map_of (nodes t)"
proof
  fix k
  have d: "distinct (map fst (nodes t))" using assms by (simp add: represents_def good_def)
  show "obj_get (panes s) k = map_of (nodes t) k"
  proof (cases "k \<in> set (ids t)")
    case True
    then show ?thesis
      using assms d stored_id by (fastforce simp: represents_def)
  next
    case False
    then show ?thesis using assms
      by (metis fst_set_nodes map_of_eq_None_iff represents_unused)
  qed
qed

lemma represents_mset:
  assumes "represents s t"
  shows "mset (panes s) = mset (nodes t)"
proof -
  have d: "distinct (map fst (panes s))" "distinct (map fst (nodes t))"
    using assms by (simp_all add: represents_def good_def obj_ok_def)
  have "map_of (panes s) = map_of (nodes t)"
    using represents_map [OF assms] by (simp add: obj_get_def [abs_def])
  then have "set (panes s) = set (nodes t)" using d by (simp add: map_of_inject_set)
  then show ?thesis
    using d by (metis distinct_map set_eq_iff_mset_eq_distinct)
qed

section \<open>Parents\<close>

fun pane_children :: "'v pane \<Rightarrow> string list" where
  "pane_children (Split a lc rc q) = [lc, rc]"
| "pane_children (Content v) = []"

definition child_refs :: "(string \<times> 'v pane) list \<Rightarrow> string list" where
  "child_refs ns = concat (map (pane_children \<circ> snd) ns)"

lemma child_refs_simps [simp]:
  "child_refs [] = []"
  "child_refs ((i, p) # ns) = pane_children p @ child_refs ns"
  "child_refs (ns @ ns') = child_refs ns @ child_refs ns'"
  by (simp_all add: child_refs_def)

lemma mset_child_refs: "mset (pid t # child_refs (nodes t)) = mset (ids t)"
proof (induction t)
  case (PNode i a q l r)
  then show ?case by (simp flip: PNode.IH add: ac_simps)
qed simp

lemma mset_child_refs_sum:
  "mset (child_refs ns) = (\<Sum>n \<in># mset ns. mset (pane_children (snd n)))"
  by (induction ns) auto

lemma mset_child_refs_cong: "mset ns = mset ns' \<Longrightarrow> mset (child_refs ns) = mset (child_refs ns')"
  by (simp add: mset_child_refs_sum)

text \<open>\<open>is_parent ns x p sd\<close>: \<open>p\<close> is a split of \<open>ns\<close> with \<open>x\<close> on side \<open>sd\<close>.\<close>

definition is_parent :: "(string \<times> 'v pane) list \<Rightarrow> string \<Rightarrow> string \<Rightarrow> side \<Rightarrow> bool" where
  "is_parent ns x p sd \<longleftrightarrow> (\<exists>a lc rc q. (p, Split a lc rc q) \<in> set ns \<and>
      (sd = LeftSide \<and> lc = x \<or> sd = RightSide \<and> rc = x))"

lemma is_parent_simps [simp]:
  "is_parent [] x p sd \<longleftrightarrow> False"
  "is_parent ((i, Content v) # ns) x p sd \<longleftrightarrow> is_parent ns x p sd"
  "is_parent ((i, Split a lc rc q) # ns) x p sd \<longleftrightarrow>
     (i = p \<and> (sd = LeftSide \<and> lc = x \<or> sd = RightSide \<and> rc = x)) \<or> is_parent ns x p sd"
  by (auto simp: is_parent_def)

lemma is_parent_child: "is_parent ns x p sd \<Longrightarrow> x \<in> set (child_refs ns)"
  by (induction ns x rule: pane_location.induct) auto

lemma pane_location_iff:
  "distinct (child_refs ns) \<Longrightarrow> pane_location ns x = Some (p, sd) \<longleftrightarrow> is_parent ns x p sd"
  by (induction ns x rule: pane_location.induct) (auto dest: is_parent_child)

lemma pane_location_None: "pane_location ns x = None \<longleftrightarrow> x \<notin> set (child_refs ns)"
  by (induction ns x rule: pane_location.induct) auto

definition parent_of :: "string \<Rightarrow> 'v ptree \<Rightarrow> (string \<times> side) option" where
  "parent_of x t = pane_location (nodes t) x"

lemma distinct_child_refs: "good t \<Longrightarrow> distinct (child_refs (nodes t))"
  using mset_child_refs [of t] by (metis distinct.simps(2) good_def mset_eq_imp_distinct_iff)

lemma root_not_child: "good t \<Longrightarrow> pid t \<notin> set (child_refs (nodes t))"
  using mset_child_refs [of t] by (metis distinct.simps(2) good_def mset_eq_imp_distinct_iff)

lemma set_child_refs: "set (child_refs (nodes t)) \<union> {pid t} = set (ids t)"
  using mset_child_refs [of t] by (metis Un_insert_right list.simps(15) mset_eq_setD sup_bot.right_neutral)

lemma represents_location:
  assumes "represents s t"
  shows "getPaneLocation s x = parent_of x t"
proof -
  have m: "mset (panes s) = mset (nodes t)" by (rule represents_mset [OF assms])
  have d: "distinct (child_refs (nodes t))" using assms by (simp add: represents_def distinct_child_refs)
  with m have d': "distinct (child_refs (panes s))"
    by (metis mset_child_refs_cong mset_eq_imp_distinct_iff)
  have "set (panes s) = set (nodes t)" using m by (rule mset_eq_setD)
  then have "is_parent (panes s) x p sd = is_parent (nodes t) x p sd" for p sd
    by (simp add: is_parent_def)
  then have "pane_location (panes s) x = Some (p, sd) \<longleftrightarrow> pane_location (nodes t) x = Some (p, sd)" for p sd
    by (simp add: pane_location_iff d d')
  then show ?thesis
    unfolding getPaneLocation_def parent_of_def by (metis option.exhaust surj_pair)
qed

lemma parent_of_root [simp]: "good t \<Longrightarrow> parent_of (pid t) t = None"
  by (simp add: parent_of_def pane_location_None root_not_child)

lemma parent_of_outside: "x \<notin> set (ids t) \<Longrightarrow> parent_of x t = None"
  using set_child_refs [of t] by (auto simp: parent_of_def pane_location_None)

lemma parent_of_inner:
  "x \<in> set (ids t) \<Longrightarrow> x \<noteq> pid t \<Longrightarrow> \<exists>p sd. parent_of x t = Some (p, sd)"
  using set_child_refs [of t]
  by (metis UnE option.exhaust pane_location_None parent_of_def singletonD surj_pair)

lemma pane_location_append:
  "pane_location (ns @ ns') x =
     (case pane_location ns x of Some p \<Rightarrow> Some p | None \<Rightarrow> pane_location ns' x)"
  by (induction ns x rule: pane_location.induct) auto

lemma parent_of_PNode:
  "parent_of x (PNode i a q l r) =
     (if pid l = x then Some (i, LeftSide) else if pid r = x then Some (i, RightSide)
      else case parent_of x l of Some p \<Rightarrow> Some p | None \<Rightarrow> parent_of x r)"
  by (simp add: parent_of_def pane_location_append split: option.split)

lemma parent_of_PLeaf [simp]: "parent_of x (PLeaf i v) = None"
  by (simp add: parent_of_def)

lemma parent_of_in_ids: "parent_of x t = Some (p, sd) \<Longrightarrow> p \<in> set (ids t)"
  by (induction t) (auto simp: parent_of_PNode split: if_splits option.splits)

section \<open>Abstract operations\<close>

text \<open>The subtree at an id, and the replacement of the subtree at an id.\<close>

fun subtree :: "string \<Rightarrow> 'v ptree \<Rightarrow> 'v ptree option" where
  "subtree x (PLeaf i v) = (if i = x then Some (PLeaf i v) else None)"
| "subtree x (PNode i a q l r) =
     (if i = x then Some (PNode i a q l r)
      else case subtree x l of Some t \<Rightarrow> Some t | None \<Rightarrow> subtree x r)"

fun replace_sub :: "string \<Rightarrow> 'v ptree \<Rightarrow> 'v ptree \<Rightarrow> 'v ptree" where
  "replace_sub x u (PLeaf i v) = (if i = x then u else PLeaf i v)"
| "replace_sub x u (PNode i a q l r) =
     (if i = x then u else PNode i a q (replace_sub x u l) (replace_sub x u r))"

text \<open>Puts a new split around the leaf \<open>x\<close>: what a pane split and a pane move do to the tree.\<close>

fun wrap_leaf :: "string \<Rightarrow> ('v ptree \<Rightarrow> 'v ptree) \<Rightarrow> 'v ptree \<Rightarrow> 'v ptree" where
  "wrap_leaf x f (PLeaf i v) = (if i = x then f (PLeaf i v) else PLeaf i v)"
| "wrap_leaf x f (PNode i a q l r) = PNode i a q (wrap_leaf x f l) (wrap_leaf x f r)"

definition new_node :: "split_input \<Rightarrow> string \<Rightarrow> 'v ptree \<Rightarrow> 'v ptree \<Rightarrow> 'v ptree" where
  "new_node direction i new old =
     (if isFirstChild direction then PNode i (toAxis direction) (Fin 50) new old
      else PNode i (toAxis direction) (Fin 50) old new)"

text \<open>Removes the leaf \<open>x\<close>; its sibling takes the place of their parent.\<close>

fun remove_leaf :: "string \<Rightarrow> 'v ptree \<Rightarrow> 'v ptree option" where
  "remove_leaf x (PLeaf i v) = (if i = x then None else Some (PLeaf i v))"
| "remove_leaf x (PNode i a q l r) =
     (case remove_leaf x l of
        None \<Rightarrow> Some r
      | Some l' \<Rightarrow> (case remove_leaf x r of None \<Rightarrow> Some l | Some r' \<Rightarrow> Some (PNode i a q l' r')))"

text \<open>Exchanges the leaves \<open>a\<close> and \<open>b\<close>, each with its own value.\<close>

fun exchange :: "string \<times> 'v \<Rightarrow> string \<times> 'v \<Rightarrow> 'v ptree \<Rightarrow> 'v ptree" where
  "exchange (a, va) (b, vb) (PLeaf i v) =
     (if i = a then PLeaf b vb else if i = b then PLeaf a va else PLeaf i v)"
| "exchange x y (PNode i a q l r) = PNode i a q (exchange x y l) (exchange x y r)"

fun map_ratio :: "(string \<Rightarrow> jsnum \<Rightarrow> jsnum) \<Rightarrow> 'v ptree \<Rightarrow> 'v ptree" where
  "map_ratio f (PLeaf i v) = PLeaf i v"
| "map_ratio f (PNode i a q l r) = PNode i a (f i q) (map_ratio f l) (map_ratio f r)"

lemma subtree_self [simp]: "subtree (pid t) t = Some t"
  by (cases t) auto

lemma subtree_None: "subtree x t = None \<longleftrightarrow> x \<notin> set (ids t)"
  by (induction t) (auto split: option.splits)

lemma subtree_pid: "subtree x t = Some w \<Longrightarrow> pid w = x"
  by (induction t) (auto split: if_splits option.splits)

lemma subtree_ids: "subtree x t = Some w \<Longrightarrow> set (ids w) \<subseteq> set (ids t)"
  by (induction t) (auto split: if_splits option.splits)

lemma subtree_nodes: "subtree x t = Some w \<Longrightarrow> set (nodes w) \<subseteq> set (nodes t)"
  by (induction t) (auto split: if_splits option.splits)

lemma subtree_good: "subtree x t = Some w \<Longrightarrow> good t \<Longrightarrow> good w"
  by (induction t) (auto split: if_splits option.splits)

lemma subtree_leaf: "good t \<Longrightarrow> (x, v) \<in> set (leaves t) \<Longrightarrow> subtree x t = Some (PLeaf x v)"
proof (induction t)
  case (PNode i a q l r)
  show ?case
  proof (cases "(x, v) \<in> set (leaves l)")
    case True
    with PNode leaf_in_ids [of x v l] show ?thesis by auto
  next
    case False
    with PNode.prems have r: "(x, v) \<in> set (leaves r)" by simp
    then have "x \<in> set (ids r)" by (rule leaf_in_ids)
    with PNode.prems have "subtree x l = None" and "x \<noteq> i" by (auto simp: subtree_None)
    with PNode r show ?thesis by simp
  qed
qed auto

lemma replace_idle: "x \<notin> set (ids t) \<Longrightarrow> replace_sub x u t = t"
  by (induction t) auto

lemma replace_root [simp]: "replace_sub (pid t) u t = u"
  by (cases t) auto

lemma pid_replace [simp]: "x \<noteq> pid t \<Longrightarrow> pid (replace_sub x u t) = pid t"
  by (cases t) auto

lemma set_ids_replace:
  "good t \<Longrightarrow> subtree x t = Some w \<Longrightarrow>
   set (ids (replace_sub x u t)) = (set (ids t) - set (ids w)) \<union> set (ids u)"
proof (induction t)
  case (PNode i a q l r)
  show ?case
  proof (cases "i = x")
    case True
    with PNode.prems show ?thesis by auto
  next
    case False
    show ?thesis
    proof (cases "subtree x l")
      case None
      with False PNode.prems have r: "subtree x r = Some w" by simp
      with None PNode show ?thesis
        using subtree_ids [OF r] False by (auto simp: subtree_None replace_idle)
    next
      case (Some w')
      with False PNode.prems have l: "subtree x l = Some w" by simp
      have "x \<in> set (ids l)" using l by (metis option.distinct(1) subtree_None)
      with PNode.prems have "x \<notin> set (ids r)" by auto
      with l PNode show ?thesis
        using subtree_ids [OF l] False by (auto simp: replace_idle)
    qed
  qed
qed (auto split: if_splits)

lemma good_replace:
  "good t \<Longrightarrow> subtree x t = Some w \<Longrightarrow> good u \<Longrightarrow>
   set (ids u) \<inter> (set (ids t) - set (ids w)) = {} \<Longrightarrow> good (replace_sub x u t)"
proof (induction t)
  case (PNode i a q l r)
  show ?case
  proof (cases "i = x")
    case True
    with PNode.prems show ?thesis by auto
  next
    case False
    show ?thesis
    proof (cases "subtree x l")
      case None
      with False PNode.prems have r: "subtree x r = Some w" by simp
      with None PNode False show ?thesis
        using subtree_ids [OF r] set_ids_replace [OF _ r, of u]
        by (auto simp: subtree_None replace_idle)
    next
      case (Some w')
      with False PNode.prems have l: "subtree x l = Some w" by simp
      have "x \<in> set (ids l)" using l by (metis option.distinct(1) subtree_None)
      with PNode.prems have "x \<notin> set (ids r)" by auto
      with l PNode False show ?thesis
        using subtree_ids [OF l] set_ids_replace [OF _ l, of u] by (auto simp: replace_idle)
    qed
  qed
qed (auto split: if_splits)

text \<open>
  The one place where a stored child reference changes: redirecting the reference to \<open>x\<close> in its
  parent to the root of \<open>u\<close> stores the tree with \<open>u\<close> in the place of the subtree at \<open>x\<close>.
\<close>

lemma stored_replace:
  assumes "stored m t" and "good t" and "subtree x t = Some w"
    and "parent_of x t = Some (p, sd)" and "m p = Some P"
    and "stored m' u" and "m' p = Some (set_child sd (pid u) P)"
    and "\<And>k. k \<in> set (ids t) \<Longrightarrow> k \<noteq> p \<Longrightarrow> k \<notin> set (ids w) \<Longrightarrow> m' k = m k"
  shows "stored m' (replace_sub x u t)"
  using assms
proof (induction t)
  case (PLeaf i v)
  then show ?case by simp
next
  case (PNode i a q l r)
  have x: "x \<noteq> i"
    using PNode.prems(2,4) parent_of_root [of "PNode i a q l r"] by auto
  have keep: "stored m' s" if "s = l \<or> s = r" "p \<notin> set (ids s)" "set (ids s) \<inter> set (ids w) = {}" for s
    using that PNode.prems(1,8) by (intro stored_cong [of m s m']) auto
  consider (l) "pid l = x" | (r) "pid l \<noteq> x" "pid r = x" | (in_l) "pid l \<noteq> x" "pid r \<noteq> x" "x \<in> set (ids l)"
    | (in_r) "pid l \<noteq> x" "pid r \<noteq> x" "x \<notin> set (ids l)" by blast
  then show ?case
  proof cases
    case l
    then have "w = l" and "p = i" and "sd = LeftSide" and "x \<notin> set (ids r)"
      using PNode.prems(2,3,4) x by (auto simp: parent_of_PNode)
    with l x PNode.prems keep [of r] show ?thesis by (auto simp: replace_idle)
  next
    case r
    then have nl: "x \<notin> set (ids l)" using PNode.prems(2) by auto
    with r have "w = r" and "p = i" and "sd = RightSide"
      using PNode.prems(2,3,4) x by (auto simp: parent_of_PNode subtree_None [THEN iffD2])
    with r nl x PNode.prems keep [of l] show ?thesis by (auto simp: replace_idle)
  next
    case in_l
    then have sub: "subtree x l = Some w"
      using PNode.prems(3) x subtree_None [of x l] by (auto split: option.splits)
    obtain p' sd' where "parent_of x l = Some (p', sd')" using parent_of_inner [of x l] in_l by auto
    then have par: "parent_of x l = Some (p, sd)" using PNode.prems(4) in_l by (simp add: parent_of_PNode)
    have p: "p \<in> set (ids l)" using par by (rule parent_of_in_ids)
    have "stored m' (replace_sub x u l)"
      using PNode.IH(1) [OF _ _ sub par] PNode.prems by auto
    moreover have "stored m' r"
      using keep [of r] p subtree_ids [OF sub] PNode.prems(2) by auto
    moreover have "m' i = m i"
      using PNode.prems(2,8) p subtree_ids [OF sub] by auto
    moreover have "x \<notin> set (ids r)" using in_l PNode.prems(2) by auto
    ultimately show ?thesis using PNode.prems(1) in_l x by (auto simp: replace_idle)
  next
    case in_r
    then have sub: "subtree x r = Some w"
      using PNode.prems(3) x by (simp add: subtree_None [THEN iffD2])
    then have xr: "x \<in> set (ids r)" by (metis option.distinct(1) subtree_None)
    have par: "parent_of x r = Some (p, sd)"
      using PNode.prems(4) in_r by (simp add: parent_of_PNode parent_of_outside)
    have p: "p \<in> set (ids r)" using par by (rule parent_of_in_ids)
    have "stored m' (replace_sub x u r)"
      using PNode.IH(2) [OF _ _ sub par] PNode.prems by auto
    moreover have "stored m' l"
      using keep [of l] p subtree_ids [OF sub] PNode.prems(2) by auto
    moreover have "m' i = m i"
      using PNode.prems(2,8) p subtree_ids [OF sub] by auto
    ultimately show ?thesis using PNode.prems(1) in_r x by (auto simp: replace_idle)
  qed
qed

end
