(* ===== verification/PaneTreeRefine.thy ===== *)
theory PaneTreeRefine
  imports PaneTreeSpec
begin

text \<open>
  The operations of \<open>paneTreeState.ts\<close> refine the abstract operations: from a state that
  represents a tree, each stored operation produces a state that represents the tree its abstract
  counterpart produces.
\<close>

section \<open>Traversal\<close>

lemma visit_stored:
  assumes "stored (obj_get ps) t" and "good t" and "set (ids t) \<inter> vis = {}"
  shows "visit_content ps (pid t) (vis, acc) = (vis \<union> set (ids t), acc @ leaf_ids t)"
  using assms
proof (induction t arbitrary: vis acc)
  case (PLeaf i v)
  then show ?case by (subst visit_content.simps) auto
next
  case (PNode i a q l r)
  have left: "visit_content ps (pid l) (insert i vis, acc)
      = (insert i vis \<union> set (ids l), acc @ leaf_ids l)"
    using PNode.prems by (intro PNode.IH(1)) auto
  have "visit_content ps (pid r) (insert i vis \<union> set (ids l), acc @ leaf_ids l)
      = (insert i vis \<union> set (ids l) \<union> set (ids r), (acc @ leaf_ids l) @ leaf_ids r)"
    using PNode.prems by (intro PNode.IH(2)) auto
  with left PNode.prems show ?case by (subst visit_content.simps) auto
qed

lemma content_ids_represents:
  assumes "represents s t"
  shows "getContentPaneIds s = leaf_ids t"
proof -
  have "visit_content (panes s) (root_pane_id s) ({}, []) = (set (ids t), leaf_ids t)"
    using assms visit_stored [of "panes s" t "{}" "[]"] by (simp add: represents_def)
  moreover have "filter (\<lambda>(i, p). is_content (Some p) \<and> i \<notin> set (ids t)) (panes s) = []"
    using assms represents_mset [OF assms] mset_eq_setD
    by (fastforce simp: filter_empty_conv represents_def obj_get_in_set)
  ultimately show ?thesis by (simp add: getContentPaneIds_def)
qed

lemma content_ids_frame [simp]:
  "getContentPaneIds (s\<lparr>maximized_pane_id := m\<rparr>) = getContentPaneIds s"
  "getContentPaneIds (s\<lparr>focused_pane_id := f\<rparr>) = getContentPaneIds s"
  by (simp_all add: getContentPaneIds_def)

lemma first_id_leaf: "first_id (leaf_ids t) = Some (hd (leaf_ids t))"
  by (cases "leaf_ids t") (auto simp: first_id_def)

section \<open>Relinking a parent\<close>

definition link ::
  "(string \<times> side) option \<Rightarrow> string \<Rightarrow> (string \<Rightarrow> 'v pane option) \<Rightarrow> (string \<Rightarrow> 'v pane option)" where
  "link position c m =
     (case position of
        None \<Rightarrow> m
      | Some (p, sd) \<Rightarrow> (case m p of None \<Rightarrow> m | Some P \<Rightarrow> m(p \<mapsto> set_child sd c P)))"

lemma link_upd_other:
  assumes "\<And>g sd. pos = Some (g, sd) \<Longrightarrow> g \<noteq> x"
  shows "(link pos c m)(x := y) = link pos c (m(x := y))"
proof (cases pos)
  case (Some gs)
  then obtain g sd where "pos = Some (g, sd)" "g \<noteq> x" using assms by (cases gs) auto
  then show ?thesis by (cases "m g") (simp_all add: link_def fun_upd_twist)
qed (simp add: link_def)

lemma set_child_Content [simp]: "set_child sd c (Content v) = Content v"
  by (cases sd) auto

lemma obj_get_relink: "obj_get (panes (relink pos c s)) = link pos c (obj_get (panes s))"
  by (auto simp: relink_def link_def split: option.splits pane.splits)

lemma relink_frame [simp]:
  "root_pane_id (relink pos c s) = root_pane_id s"
  "focused_pane_id (relink pos c s) = focused_pane_id s"
  "maximized_pane_id (relink pos c s) = maximized_pane_id s"
  by (simp_all add: relink_def split: option.splits pane.splits prod.splits)

lemma obj_ok_relink [simp]: "obj_ok (panes s) \<Longrightarrow> obj_ok (panes (relink pos c s))"
  by (simp add: relink_def split: option.splits pane.splits prod.splits)

lemma parent_not_in_subtree:
  assumes "good t" and "subtree x t = Some w" and "parent_of x t = Some (p, sd)"
  shows "p \<notin> set (ids w)"
proof
  assume "p \<in> set (ids w)"
  have "is_parent (nodes t) x p sd"
    using assms by (simp add: parent_of_def pane_location_iff distinct_child_refs)
  then obtain a lc rc q where n: "(p, Split a lc rc q) \<in> set (nodes t)" "x \<in> {lc, rc}"
    by (auto simp: is_parent_def)
  have "stored (map_of (nodes t)) t"
    using assms(1) by (auto simp: stored_def good_def)
  then have "stored (map_of (nodes t)) w"
    using subtree_nodes [OF assms(2)] by (auto simp: stored_def)
  then obtain P where P: "map_of (nodes t) p = Some P" "(p, P) \<in> set (nodes w)"
    using \<open>p \<in> set (ids w)\<close> stored_id by blast
  moreover have "map_of (nodes t) p = Some (Split a lc rc q)"
    using n(1) assms(1) by (simp add: good_def)
  ultimately have "(p, Split a lc rc q) \<in> set (nodes w)" by simp
  then have "x \<in> set (child_refs (nodes w))"
    using n(2) by (force simp: child_refs_def)
  moreover have "pid w = x" using assms(2) by (rule subtree_pid)
  ultimately show False
    using root_not_child subtree_good [OF assms(2,1)] by blast
qed

lemma graft:
  assumes rep: "represents s t" and sub: "subtree x t = Some w"
    and good: "good u" "set (ids u) \<inter> (set (ids t) - set (ids w)) = {}"
    and ok: "obj_ok (panes s')"
    and root: "root_pane_id s' = (if x = pid t then pid u else pid t)"
    and panes: "obj_get (panes s') = link (parent_of x t) (pid u) m"
    and m: "stored m u" "\<And>k. k \<notin> set (ids u) \<Longrightarrow> k \<notin> set (ids w) \<Longrightarrow> m k = pane_at s k"
      "\<And>k. k \<in> set (ids w) \<Longrightarrow> k \<notin> set (ids u) \<Longrightarrow> m k = None"
  shows "represents s' (replace_sub x u t)"
proof -
  have gt: "good t" and st: "stored (obj_get (panes s)) t"
    using rep by (simp_all add: represents_def)
  have dom: "m k \<noteq> None \<Longrightarrow> k \<in> (set (ids t) - set (ids w)) \<union> set (ids u)" for k
    using m(2,3) represents_unused [OF rep] by (metis DiffI UnI1 UnI2)
  have new_ids: "set (ids (replace_sub x u t)) = (set (ids t) - set (ids w)) \<union> set (ids u)"
    by (rule set_ids_replace [OF gt sub])
  have gr: "good (replace_sub x u t)" by (rule good_replace [OF gt sub good])
  show ?thesis
  proof (cases "x = pid t")
    case True
    then have "link (parent_of x t) (pid u) m = m" using gt by (simp add: link_def)
    with True panes m(1) dom new_ids gr ok root show ?thesis by (auto simp: represents_def)
  next
    case False
    have "x \<in> set (ids t)" using sub by (metis option.distinct(1) subtree_None)
    with False obtain p sd where par: "parent_of x t = Some (p, sd)"
      using parent_of_inner by blast
    have p: "p \<in> set (ids t)" "p \<notin> set (ids w)"
      using par gt sub by (auto intro: parent_of_in_ids dest: parent_not_in_subtree)
    with good(2) have pu: "p \<notin> set (ids u)" by blast
    obtain P where P: "pane_at s p = Some P" using st p(1) stored_id by blast
    with m(2) p pu have mp: "m p = Some P" by simp
    with panes par have s': "obj_get (panes s') = m(p \<mapsto> set_child sd (pid u) P)"
      by (simp add: link_def)
    have "stored (obj_get (panes s')) (replace_sub x u t)"
    proof (rule stored_replace [OF st gt sub par P])
      show "stored (obj_get (panes s')) u"
        using m(1) pu s' by (auto intro: stored_cong [of m u])
      show "pane_at s' p = Some (set_child sd (pid u) P)" by (simp add: s')
      show "pane_at s' k = pane_at s k"
        if "k \<in> set (ids t)" "k \<noteq> p" "k \<notin> set (ids w)" for k
        using that good(2) m(2) [of k] s' by auto
    qed
    moreover have "pane_at s' k \<noteq> None \<Longrightarrow> k \<in> set (ids (replace_sub x u t))" for k
      using dom [of k] new_ids p s' by (auto split: if_splits)
    ultimately show ?thesis using False root gr ok by (simp add: represents_def)
  qed
qed

section \<open>Splitting\<close>

lemma wrap_leaf_replace:
  "good t \<Longrightarrow> (x, v) \<in> set (leaves t) \<Longrightarrow> wrap_leaf x f t = replace_sub x (f (PLeaf x v)) t"
proof (induction t)
  case (PNode i a q l r)
  have idle: "x \<notin> set (ids s) \<Longrightarrow> wrap_leaf x f s = s" for s :: "'a ptree"
    by (induction s) auto
  show ?case
  proof (cases "(x, v) \<in> set (leaves l)")
    case True
    then have "x \<in> set (ids l)" by (rule leaf_in_ids)
    moreover from this PNode.prems have "x \<notin> set (ids r)" "x \<noteq> i" by auto
    ultimately show ?thesis using PNode True by (simp add: idle replace_idle)
  next
    case False
    with PNode.prems have r: "(x, v) \<in> set (leaves r)" by simp
    then have "x \<in> set (ids r)" by (rule leaf_in_ids)
    moreover from this PNode.prems have "x \<notin> set (ids l)" "x \<noteq> i" by auto
    ultimately show ?thesis using PNode r by (simp add: idle replace_idle)
  qed
qed auto

lemma pid_new_node [simp]: "pid (new_node d i u w) = i"
  by (simp add: new_node_def)

lemma set_ids_new_node [simp]: "set (ids (new_node d i u w)) = insert i (set (ids u) \<union> set (ids w))"
  by (auto simp: new_node_def)

lemma stored_new_node [simp]:
  "stored m (new_node d i u w) \<longleftrightarrow>
     m i = Some (new_split d (pid u) (pid w)) \<and> stored m u \<and> stored m w"
  by (auto simp: new_node_def new_split_def)

lemma good_new_node [simp]:
  "good (new_node d i u w) \<longleftrightarrow> i \<noteq> [] \<and> i \<notin> set (ids u) \<and> i \<notin> set (ids w) \<and> good u \<and> good w
     \<and> set (ids u) \<inter> set (ids w) = {}"
  by (auto simp: new_node_def)

lemma pane_location_insert_content:
  "pane_location (obj_insert_index k (Content c) ps) z = pane_location ps z"
proof (induction ps)
  case (Cons e ps)
  obtain i p where e: "e = (i, p)" by fastforce
  with Cons show ?case by (cases p) auto
qed simp

lemma pane_location_set_content:
  assumes "obj_get ps k = None"
  shows "pane_location (obj_set ps k (Content c)) y = pane_location ps y"
proof -
  have "k \<notin> fst ` set ps" using assms by (simp add: obj_get_def map_of_eq_None_iff)
  then show ?thesis
    by (simp add: obj_set_def pane_location_insert_content pane_location_append split: option.splits)
qed

lemma pane_location_del_content:
  assumes "obj_ok ps" and "obj_get ps k = Some (Content c)"
  shows "pane_location (obj_del ps k) y = pane_location ps y"
  using assms
proof (induction ps)
  case (Cons e ps)
  obtain i p where e: "e = (i, p)" by fastforce
  have id: "obj_del ps k = ps" if "k \<notin> fst ` set ps"
    using that by (induction ps) (auto simp: obj_del_def)
  show ?case
  proof (cases "i = k")
    case True
    with Cons.prems e have "p = Content c" "k \<notin> fst ` set ps" by (auto simp: obj_get_def obj_ok_def)
    with True e id show ?thesis by (simp add: obj_del_def)
  next
    case False
    with Cons e have "pane_location (obj_del ps k) y = pane_location ps y"
      by (simp add: obj_get_def obj_ok_def)
    with False e show ?thesis by (cases p) (auto simp: obj_del_def)
  qed
qed simp

lemma resolve_split_target_leaf:
  assumes "represents s t"
  shows "\<exists>y v. resolve_split_target s x = Some y \<and> (y, v) \<in> set (leaves t)
           \<and> (x \<in> set (leaf_ids t) \<longrightarrow> y = x)"
proof -
  have "\<exists>y. resolve_split_target s x = Some y \<and> y \<in> set (leaf_ids t)
          \<and> (x \<in> set (leaf_ids t) \<longrightarrow> y = x)"
    using hd_in_set [of "leaf_ids t"]
    by (simp add: resolve_split_target_def represents_is_content [OF assms]
        content_ids_represents [OF assms] first_id_leaf)
  then show ?thesis by force
qed

lemma split_represents:
  assumes rep: "represents s t" and target: "resolve_split_target s x = Some y"
    and leaf: "(y, v) \<in> set (leaves t)"
    and res: "splitPaneInTree s x d new nid = (s', parent, child)"
  shows "represents s' (wrap_leaf y (new_node d parent (PLeaf child new)) t)"
    and "parent \<notin> set (ids t)" and "child \<notin> set (ids t)" and "parent \<noteq> child" and "child \<noteq> []"
    and "focused_pane_id s' = child"
    and "maximized_pane_id s' = (if truthy (maximized_pane_id s) then None else maximized_pane_id s)"
    and "truthy nid \<and> pane_at s (the nid) = None \<Longrightarrow> child = the nid"
proof -
  have gt: "good t" using rep by (simp add: represents_def)
  have y: "pane_at s y = Some (Content v)" using leaf represents_content [OF rep] by simp
  have yid: "y \<in> set (ids t)" using leaf by (rule leaf_in_ids)
  with gt have y0: "y \<noteq> []" by (auto simp: good_def)
  define s1 where "s1 = put_pane child (Content new) s"
  define s2 where "s2 = put_pane parent (new_split d child y) s1"
  have eqs: "child = (if truthy nid \<and> pane_at s (the nid) = None then the nid
               else generatePaneId s ''pane'')"
    "parent = generatePaneId s1 ''split''"
    "root_pane_id s' = (if root_pane_id s = y then parent else root_pane_id s)"
    "panes s' = panes (relink (getPaneLocation s1 y) parent s2)"
    "focused_pane_id s' = child"
    "maximized_pane_id s' = (if truthy (maximized_pane_id s) then None else maximized_pane_id s)"
    using res y y0 by (auto simp: splitPaneInTree_def target s1_def s2_def Let_def)
  have child: "pane_at s child = None" "child \<noteq> []"
    using eqs(1) by (auto split: if_splits elim: truthy.elims)
  have "pane_at s1 parent = None" unfolding eqs(2) by simp
  then have parent: "pane_at s parent = None" "parent \<noteq> child" "parent \<noteq> []"
    using eqs(2) by (auto simp: s1_def split: if_splits)
  have loc: "getPaneLocation s1 y = parent_of y t"
  proof -
    have p: "panes s1 = obj_set (panes s) child (Content new)" by (simp add: s1_def)
    have "pane_location (obj_set (panes s) child (Content new)) y = pane_location (panes s) y"
      using child(1) by (rule pane_location_set_content)
    then show ?thesis
      using represents_location [OF rep, of y] by (simp add: getPaneLocation_def p)
  qed
  have cid: "child \<notin> set (ids t)" "parent \<notin> set (ids t)"
    using child(1) parent(1) represents_unused [OF rep] by auto
  let ?u = "new_node d parent (PLeaf child new) (PLeaf y v)"
  have "represents s' (replace_sub y ?u t)"
  proof (rule graft [OF rep subtree_leaf [OF gt leaf], where m = "obj_get (panes s2)"])
    show "good ?u" using child parent cid yid y0 by auto
    show "set (ids ?u) \<inter> (set (ids t) - set (ids (PLeaf y v))) = {}" using cid by auto
    show "obj_ok (panes s')" using rep by (simp add: eqs(4) s2_def s1_def represents_def)
    show "root_pane_id s' = (if y = pid t then pid ?u else pid t)"
      using rep eqs(3) by (auto simp: represents_def)
    show "obj_get (panes s') = link (parent_of y t) (pid ?u) (obj_get (panes s2))"
      by (simp add: eqs(4) obj_get_relink loc)
    show "stored (obj_get (panes s2)) ?u"
      using y yid cid parent by (auto simp: s2_def s1_def)
    show "pane_at s2 k = pane_at s k" if "k \<notin> set (ids ?u)" for k
      using that by (simp add: s2_def s1_def)
  qed auto
  then show "represents s' (wrap_leaf y (new_node d parent (PLeaf child new)) t)"
    by (simp add: wrap_leaf_replace [OF gt leaf])
  show "parent \<notin> set (ids t)" "child \<notin> set (ids t)" "parent \<noteq> child" "child \<noteq> []"
    "focused_pane_id s' = child"
    "maximized_pane_id s' = (if truthy (maximized_pane_id s) then None else maximized_pane_id s)"
    using cid parent(2) child(2) eqs(5,6) by auto
  show "truthy nid \<and> pane_at s (the nid) = None \<Longrightarrow> child = the nid" using eqs(1) by simp
qed

section \<open>Detaching, closing, moving\<close>

lemma remove_leaf_root: "remove_leaf x t = None \<longleftrightarrow> (\<exists>v. t = PLeaf x v)"
  by (cases t) (auto split: option.splits)

lemma remove_leaf_idle: "x \<notin> set (leaf_ids t) \<Longrightarrow> remove_leaf x t = Some t"
  by (induction t) auto

lemma remove_leaf_replace:
  "good t \<Longrightarrow> (x, v) \<in> set (leaves t) \<Longrightarrow> x \<noteq> pid t \<Longrightarrow>
   \<exists>p sd a q l r sib. parent_of x t = Some (p, sd) \<and> subtree p t = Some (PNode p a q l r)
     \<and> sib = (if sd = LeftSide then r else l) \<and> (if sd = LeftSide then l else r) = PLeaf x v
     \<and> remove_leaf x t = Some (replace_sub p sib t)"
proof (induction t)
  case (PNode i a q l r)
  have not_in: "x \<notin> set (leaf_ids s)" if "x \<notin> set (ids s)" for s :: "'a ptree"
    using that leaf_ids_subset by blast
  consider (l) "l = PLeaf x v" | (r) "r = PLeaf x v"
    | (in_l) "(x, v) \<in> set (leaves l)" "x \<noteq> pid l" | (in_r) "(x, v) \<in> set (leaves r)" "x \<noteq> pid r"
  proof -
    have root: "s = PLeaf x v" if "(x, v) \<in> set (leaves s)" "x = pid s" "good s" for s :: "'a ptree"
      using that leaf_in_ids [of x v] by (cases s) auto
    have "(x, v) \<in> set (leaves l) \<or> (x, v) \<in> set (leaves r)" "good l" "good r"
      using PNode.prems by auto
    then show ?thesis using that root by blast
  qed
  then show ?case
  proof cases
    case l
    with PNode.prems show ?thesis
      by (auto simp: parent_of_PNode replace_idle)
  next
    case r
    with PNode.prems have "x \<notin> set (ids l)" "pid l \<noteq> x" by auto
    with r PNode.prems not_in [of l] show ?thesis
      by (auto simp: parent_of_PNode replace_idle remove_leaf_idle)
  next
    case in_l
    then have xl: "x \<in> set (ids l)" using leaf_in_ids by fast
    with PNode.prems have xr: "x \<notin> set (ids r)" "x \<noteq> i" "pid r \<noteq> x" by auto
    obtain p sd a' q' l' r' sib where IH: "parent_of x l = Some (p, sd)"
      "subtree p l = Some (PNode p a' q' l' r')" "sib = (if sd = LeftSide then r' else l')"
      "(if sd = LeftSide then l' else r') = PLeaf x v" "remove_leaf x l = Some (replace_sub p sib l)"
      using PNode.IH(1) [OF _ in_l] PNode.prems by auto
    have "p \<in> set (ids l)" using IH(1) by (rule parent_of_in_ids)
    with PNode.prems have "p \<notin> set (ids r)" "p \<noteq> i" by auto
    with IH in_l xr not_in [of r] show ?thesis
      by (auto simp: parent_of_PNode replace_idle remove_leaf_idle)
  next
    case in_r
    then have "x \<in> set (ids r)" using leaf_in_ids by fast
    with PNode.prems have xl: "x \<notin> set (ids l)" "x \<noteq> i" "pid l \<noteq> x" by auto
    obtain p sd a' q' l' r' sib where IH: "parent_of x r = Some (p, sd)"
      "subtree p r = Some (PNode p a' q' l' r')" "sib = (if sd = LeftSide then r' else l')"
      "(if sd = LeftSide then l' else r') = PLeaf x v" "remove_leaf x r = Some (replace_sub p sib r)"
      using PNode.IH(2) [OF _ in_r] PNode.prems by auto
    have "p \<in> set (ids r)" using IH(1) by (rule parent_of_in_ids)
    with PNode.prems have "p \<notin> set (ids l)" "p \<noteq> i" by auto
    with IH in_r xl not_in [of l] show ?thesis
      by (auto simp: parent_of_PNode replace_idle remove_leaf_idle parent_of_outside subtree_None [THEN iffD2])
  qed
qed auto

lemma detach_represents:
  assumes rep: "represents s t" and leaf: "(x, v) \<in> set (leaves t)" and inner: "x \<noteq> pid t"
  obtains s1 sib t' where
    "detachPaneFromParentSplit s x = (s1, \<lparr>sibling_id = Some sib, was_root = False\<rparr>)"
    "remove_leaf x t = Some t'" "represents (drop_pane x s1) t'" "sib \<in> set (ids t')"
    "pane_at s1 x = Some (Content v)" "x \<notin> set (ids t')" "set (ids t') \<subseteq> set (ids t)"
    "focused_pane_id s1 = focused_pane_id s" "maximized_pane_id s1 = maximized_pane_id s"
    "obj_ok (panes s1)"
proof -
  have gt: "good t" using rep by (simp add: represents_def)
  obtain p sd a q l r sib where D: "parent_of x t = Some (p, sd)"
    "subtree p t = Some (PNode p a q l r)" "sib = (if sd = LeftSide then r else l)"
    "(if sd = LeftSide then l else r) = PLeaf x v" "remove_leaf x t = Some (replace_sub p sib t)"
    using remove_leaf_replace [OF gt leaf inner] by metis
  have gn: "good (PNode p a q l r)" using subtree_good [OF D(2) gt] .
  have st: "stored (obj_get (panes s)) t" using rep by (simp add: represents_def)
  have stn: "stored (obj_get (panes s)) (PNode p a q l r)"
    using st subtree_nodes [OF D(2)] by (auto simp: stored_def simp del: nodes.simps)
  then have P: "pane_at s p = Some (Split a (pid l) (pid r) q)" by simp
  have sids: "set (ids sib) \<subseteq> set (ids t)" "x \<notin> set (ids sib)" "p \<notin> set (ids sib)" "good sib"
    "stored (obj_get (panes s)) sib"
    using subtree_ids [OF D(2)] gn D(3,4) stn by (auto split: if_splits)
  have xp: "x \<noteq> p" using D(3,4) gn by (auto split: if_splits)
  have x: "pane_at s x = Some (Content v)" using leaf represents_content [OF rep] by simp
  define s1 where "s1 = (let s0 = drop_pane p s in if getPaneLocation s p = None
      then s0\<lparr>root_pane_id := pid sib\<rparr> else relink (getPaneLocation s p) (pid sib) s0)"
  have det: "detachPaneFromParentSplit s x = (s1, \<lparr>sibling_id = Some (pid sib), was_root = False\<rparr>)"
    using D(3) by (auto simp: detachPaneFromParentSplit_def represents_location [OF rep] D(1) P
        s1_def Let_def split: side.splits)
  have pan: "obj_get (panes s1) = link (parent_of p t) (pid sib) ((obj_get (panes s))(p := None))"
    by (simp add: s1_def represents_location [OF rep] obj_get_relink Let_def) (simp add: link_def)
  have pt: "p \<in> set (ids t)" using D(1) by (rule parent_of_in_ids)
  have par_none: "parent_of p t = None \<longleftrightarrow> p = pid t"
    using gt parent_of_inner [OF pt] by fastforce
  let ?n = "PNode p a q l r"
  have xpar: "parent_of p t = Some (g, sd') \<Longrightarrow> g \<noteq> x" for g sd'
  proof
    assume "parent_of p t = Some (g, sd')" and "g = x"
    then have "is_parent (nodes t) p x sd'"
      using gt by (simp add: parent_of_def pane_location_iff distinct_child_refs)
    then obtain a' lc rc q' where "(x, Split a' lc rc q') \<in> set (nodes t)"
      by (auto simp: is_parent_def)
    with st x show False by (auto dest: stored_node)
  qed
  have x1: "pane_at s1 x = Some (Content v)"
    using x xp xpar by (auto simp: pan link_def split: option.splits)
  have ok1: "obj_ok (panes s1)" using rep by (simp add: s1_def represents_def Let_def)
  have "represents (drop_pane x s1) (replace_sub p sib t)"
  proof (rule graft [OF rep D(2), where m = "(obj_get (panes s))(p := None, x := None)"])
    show "good sib" by (rule sids)
    show "set (ids sib) \<inter> (set (ids t) - set (ids ?n)) = {}" using D(3) by auto
    show "obj_ok (panes (drop_pane x s1))" using ok1 by simp
    show "root_pane_id (drop_pane x s1) = (if p = pid t then pid sib else pid t)"
      using rep par_none by (auto simp: s1_def represents_location [OF rep] represents_def Let_def)
    show "obj_get (panes (drop_pane x s1)) =
        link (parent_of p t) (pid sib) ((obj_get (panes s))(p := None, x := None))"
    proof -
      have "(link (parent_of p t) c m)(x := None) = link (parent_of p t) c (m(x := None))" for c and m :: "_ \<Rightarrow> 'a pane option"
        by (rule link_upd_other) (rule xpar)
      then show ?thesis by (simp add: pan)
    qed
    show "stored ((obj_get (panes s))(p := None, x := None)) sib"
    proof (rule stored_cong [OF sids(5)])
      fix k
      assume "k \<in> set (ids sib)"
      with sids(2,3) have "k \<noteq> x" "k \<noteq> p" by auto
      then show "((obj_get (panes s))(p := None, x := None)) k = pane_at s k" by simp
    qed
    show "((obj_get (panes s))(p := None, x := None)) k = pane_at s k"
      if "k \<notin> set (ids ?n)" for k
      using that D(4) by (auto split: if_splits)
    show "((obj_get (panes s))(p := None, x := None)) k = None"
      if "k \<in> set (ids ?n)" "k \<notin> set (ids sib)" for k
      using that D(3,4) by (auto split: if_splits)
  qed
  note rep' = this
  have ids': "set (ids (replace_sub p sib t)) = (set (ids t) - set (ids ?n)) \<union> set (ids sib)"
    by (rule set_ids_replace [OF gt D(2)])
  have xn: "x \<in> set (ids ?n)" using D(4) by (auto split: if_splits)
  show thesis
  proof (rule that [OF det D(5) rep' _ x1 _ _ _ _ ok1])
    show "pid sib \<in> set (ids (replace_sub p sib t))" by (simp add: ids')
    show "x \<notin> set (ids (replace_sub p sib t))" using xn sids(2) by (simp add: ids')
    show "set (ids (replace_sub p sib t)) \<subseteq> set (ids t)" using sids(1) by (auto simp: ids')
    show "focused_pane_id s1 = focused_pane_id s" "maximized_pane_id s1 = maximized_pane_id s"
      by (simp_all add: s1_def Let_def)
  qed
qed

lemma represents_single: "represents s (PLeaf x v) \<Longrightarrow> getContentPaneIds s = [x]"
  by (simp add: content_ids_represents)

lemma close_represents:
  assumes rep: "represents s t" and leaf: "(x, v) \<in> set (leaves t)" and inner: "x \<noteq> pid t"
  obtains s' t' where
    "closePaneInTree s x = (s', False)" "remove_leaf x t = Some t'" "represents s' t'"
    "x \<notin> set (ids t')" "set (ids t') \<subseteq> set (ids t)"
    "focused_pane_id s' \<in> set (leaf_ids t')"
    "focused_pane_id s \<noteq> x \<Longrightarrow> focused_pane_id s \<in> set (leaf_ids t') \<Longrightarrow>
       focused_pane_id s' = focused_pane_id s"
    "maximized_pane_id s' = (if maximized_pane_id s = Some x \<or> length (leaf_ids t') \<le> 1 then None
       else maximized_pane_id s)"
proof -
  obtain s1 sib t' where D:
    "detachPaneFromParentSplit s x = (s1, \<lparr>sibling_id = Some sib, was_root = False\<rparr>)"
    "remove_leaf x t = Some t'" "represents (drop_pane x s1) t'" "sib \<in> set (ids t')"
    "pane_at s1 x = Some (Content v)" "x \<notin> set (ids t')" "set (ids t') \<subseteq> set (ids t)"
    "focused_pane_id s1 = focused_pane_id s" "maximized_pane_id s1 = maximized_pane_id s"
    using detach_represents [OF rep leaf inner] by metis
  define s2 where "s2 = drop_pane x s1"
  define s3 where "s3 = (if maximized_pane_id s2 = Some x then s2\<lparr>maximized_pane_id := None\<rparr> else s2)"
  define s4 where "s4 = (if length (leaf_ids t') \<le> 1 then s3\<lparr>maximized_pane_id := None\<rparr> else s3)"
  have frame: "represents s3 t'" "represents s4 t'"
    using D(3) by (simp_all add: s4_def s3_def s2_def represents_def)
  have x: "is_content (pane_at s x)" using leaf represents_content [OF rep, of x v] by simp
  have root: "root_pane_id s \<noteq> x" using inner rep by (simp add: represents_def)
  have ne: "leaf_ids t' \<noteq> []" by simp
  have eq: "closePaneInTree s x = (repair_focus x (Some sib) (leaf_ids t') s4, False)"
    using x root D(1) ne content_ids_represents [OF D(3)]
    by (simp add: closePaneInTree_def Let_def s4_def s3_def s2_def)
  let ?s' = "repair_focus x (Some sib) (leaf_ids t') s4"
  have foc: "focused_pane_id s4 = focused_pane_id s"
    "maximized_pane_id s4 = (if maximized_pane_id s = Some x \<or> length (leaf_ids t') \<le> 1 then None
       else maximized_pane_id s)"
    using D(8,9) by (simp_all add: s4_def s3_def s2_def)
  have shape: "\<exists>f. ?s' = s4\<lparr>focused_pane_id := f\<rparr>"
    by (auto simp: repair_focus_def split: list.split intro: exI [of _ "focused_pane_id s4"])
  then have "represents ?s' t'" and "maximized_pane_id ?s' = maximized_pane_id s4"
    using frame(2) by (auto simp: represents_def)
  moreover have "focused_pane_id ?s' \<in> set (leaf_ids t')"
    using represents_is_content [OF frame(2)] ne
    by (auto simp: repair_focus_def split: list.split)
  moreover have "focused_pane_id ?s' = focused_pane_id s"
    if "focused_pane_id s \<noteq> x" "focused_pane_id s \<in> set (leaf_ids t')"
    using that foc(1) represents_is_content [OF frame(2)] by (simp add: repair_focus_def)
  ultimately show thesis using that [OF eq D(2)] D(6,7) foc(2) by simp
qed

lemma close_last:
  assumes "represents s (PLeaf x v)"
  shows "snd (closePaneInTree s x) = True"
  using assms represents_is_content [OF assms, of x] represents_single [OF assms]
  by (simp add: closePaneInTree_def represents_def)

lemma move_represents:
  assumes rep: "represents s t" and src: "(x, v) \<in> set (leaves t)" and tgt: "(y, w) \<in> set (leaves t)"
    and neq: "x \<noteq> y"
  obtains s' t' parent where
    "movePaneInTree s x y d = (s', True)" "remove_leaf x t = Some t'"
    "represents s' (wrap_leaf y (new_node d parent (PLeaf x v)) t')"
    "parent \<notin> set (ids t')" "parent \<noteq> x"
    "focused_pane_id s' = x"
    "maximized_pane_id s' = (if truthy (maximized_pane_id s) then None else maximized_pane_id s)"
proof -
  have gt: "good t" using rep by (simp add: represents_def)
  have ids: "x \<in> set (ids t)" "y \<in> set (ids t)" using src tgt by (auto intro: leaf_in_ids)
  then have ne: "x \<noteq> []" "y \<noteq> []" using gt by (auto simp: good_def)
  have inner: "x \<noteq> pid t"
  proof
    assume "x = pid t"
    moreover have "subtree x t = Some (PLeaf x v)" using subtree_leaf [OF gt src] .
    ultimately have "t = PLeaf x v" by simp
    with tgt neq show False by simp
  qed
  obtain s1 sib t' where D:
    "detachPaneFromParentSplit s x = (s1, \<lparr>sibling_id = Some sib, was_root = False\<rparr>)"
    "remove_leaf x t = Some t'" "represents (drop_pane x s1) t'"
    "pane_at s1 x = Some (Content v)" "x \<notin> set (ids t')" "obj_ok (panes s1)"
    "focused_pane_id s1 = focused_pane_id s" "maximized_pane_id s1 = maximized_pane_id s"
    using detach_represents [OF rep src inner] by metis
  have gt': "good t'" using D(3) by (simp add: represents_def)
  have tgt': "(y, w) \<in> set (leaves t')"
  proof -
    have leaves: "remove_leaf x u = Some u' \<Longrightarrow> (y, w) \<in> set (leaves u) \<Longrightarrow> (y, w) \<in> set (leaves u')"
      for u u' :: "'a ptree"
      using neq by (induction u arbitrary: u') (auto simp: remove_leaf_root split: if_splits option.splits)
    then show ?thesis using D(2) tgt by blast
  qed
  have y1: "pane_at s1 y = Some (Content w)"
    using represents_content [OF D(3), of y w] tgt' neq by simp
  define parent where "parent = generatePaneId s1 ''split''"
  define s2 where "s2 = put_pane parent (new_split d x y) s1"
  have p1: "pane_at s1 parent = None" "parent \<noteq> []" by (simp_all add: parent_def)
  then have pxy: "parent \<noteq> x" "parent \<noteq> y" using D(4) y1 by auto
  have loc: "getPaneLocation s1 y = parent_of y t'"
    using represents_location [OF D(3), of y] pane_location_del_content [OF D(6,4)]
    by (simp add: getPaneLocation_def)
  have pid': "parent \<notin> set (ids t')"
    using represents_unused [OF D(3), of parent] p1 pxy by simp
  define s4 where "s4 = (let s3 = relink (getPaneLocation s1 y) parent s2
    in if root_pane_id s3 = y then s3\<lparr>root_pane_id := parent\<rparr> else s3)"
  define s' where "s' = s4\<lparr>focused_pane_id := x, maximized_pane_id :=
    (if truthy (maximized_pane_id s4) then None else maximized_pane_id s4)\<rparr>"
  have content: "is_content (pane_at s x)" "is_content (pane_at s y)"
    using src tgt represents_content [OF rep, of x v] represents_content [OF rep, of y w] by simp_all
  have eq: "movePaneInTree s x y d = (s', True)"
    using ne neq content D(1)
    by (simp add: movePaneInTree_def s'_def s4_def s2_def parent_def Let_def)
  let ?u = "new_node d parent (PLeaf x v) (PLeaf y w)"
  have "represents s' (replace_sub y ?u t')"
  proof (rule graft [OF D(3) subtree_leaf [OF gt' tgt'], where m = "obj_get (panes s2)"])
    show "good ?u" using p1(2) pxy ne neq by auto
    show "set (ids ?u) \<inter> (set (ids t') - set (ids (PLeaf y w))) = {}" using D(5) pid' by auto
    show "obj_ok (panes s')" using D(6) by (simp add: s'_def s4_def s2_def Let_def)
    show "root_pane_id s' = (if y = pid t' then pid ?u else pid t')"
      using D(3) by (auto simp: s'_def s4_def s2_def represents_def Let_def)
    show "obj_get (panes s') = link (parent_of y t') (pid ?u) (obj_get (panes s2))"
      by (simp add: s'_def s4_def Let_def obj_get_relink loc)
    show "stored (obj_get (panes s2)) ?u" using D(4) y1 pxy by (simp add: s2_def)
    show "pane_at s2 k = pane_at (drop_pane x s1) k" if "k \<notin> set (ids ?u)" for k
      using that by (simp add: s2_def)
  qed auto
  then have "represents s' (wrap_leaf y (new_node d parent (PLeaf x v)) t')"
    by (simp add: wrap_leaf_replace [OF gt' tgt'])
  moreover have "focused_pane_id s' = x" by (simp add: s'_def)
  moreover have "maximized_pane_id s4 = maximized_pane_id s"
    using D(8) by (simp add: s4_def s2_def Let_def)
  ultimately show thesis using that [OF eq D(2) _ pid' pxy(1)] by (simp add: s'_def)
qed

section \<open>Swapping\<close>

definition swap_id :: "string \<Rightarrow> string \<Rightarrow> string \<Rightarrow> string" where
  "swap_id a b k = (if k = a then b else if k = b then a else k)"

fun swap_pane :: "string \<times> 'v \<Rightarrow> string \<times> 'v \<Rightarrow> string \<Rightarrow> 'v pane \<Rightarrow> 'v pane" where
  "swap_pane (a, va) (b, vb) k (Content v) = Content (if k = a then vb else if k = b then va else v)"
| "swap_pane (a, va) (b, vb) k (Split ax lc rc q) = Split ax (swap_id a b lc) (swap_id a b rc) q"

lemma swap_id_invol [simp]: "swap_id a b (swap_id a b k) = k"
  by (simp add: swap_id_def)

lemma inj_swap_id: "inj (swap_id a b)"
  by (metis injI swap_id_invol)

definition no_split :: "string \<Rightarrow> 'v ptree \<Rightarrow> bool" where
  "no_split x t = (\<forall>ax lc rc q. (x, Split ax lc rc q) \<notin> set (nodes t))"

lemma no_split_PNode [simp]: "no_split x (PNode i a q l r) \<longleftrightarrow> x \<noteq> i \<and> no_split x l \<and> no_split x r"
  by (auto simp: no_split_def)

lemma leaf_no_split: "good t \<Longrightarrow> (x, v) \<in> set (leaves t) \<Longrightarrow> no_split x t"
proof -
  assume "good t" and "(x, v) \<in> set (leaves t)"
  then have "(x, Content v) \<in> set (nodes t)" "distinct (map fst (nodes t))"
    by (simp_all add: content_node_iff_leaf good_def)
  then show "no_split x t" unfolding no_split_def by (metis eq_key_imp_eq_value pane.distinct(1))
qed

lemma pid_exchange:
  "no_split a t \<Longrightarrow> no_split b t \<Longrightarrow> pid (exchange (a, va) (b, vb) t) = swap_id a b (pid t)"
  by (cases t) (auto simp: swap_id_def)

lemma nodes_exchange:
  "no_split a t \<Longrightarrow> no_split b t \<Longrightarrow>
   nodes (exchange (a, va) (b, vb) t)
     = map (\<lambda>(k, p). (swap_id a b k, swap_pane (a, va) (b, vb) k p)) (nodes t)"
  by (induction t) (auto simp: pid_exchange swap_id_def)

lemma ids_exchange:
  assumes "no_split a t" and "no_split b t"
  shows "ids (exchange (a, va) (b, vb) t) = map (swap_id a b) (ids t)"
proof -
  have "map fst (nodes (exchange (a, va) (b, vb) t)) = map (swap_id a b) (map fst (nodes t))"
    by (simp only: nodes_exchange [OF assms] map_map) (simp add: comp_def case_prod_beta)
  then show ?thesis by simp
qed

lemma swap_parent_pane:
  assumes st: "stored m t" and gt: "good t" and ax: "m k = Some (Split ax lc rc q)"
    and k: "k \<in> set (ids t)"
    and pa: "parent_of a t = Some (pa, sa)" and pb: "parent_of b t = Some (pb, sb)" and "a \<noteq> b"
  shows "swap_pane (a, va) (b, vb) k (Split ax lc rc q) =
    (if k = pa \<and> k = pb then Split ax rc lc q
     else if k = pa then set_child sa b (Split ax lc rc q)
     else if k = pb then set_child sb a (Split ax lc rc q)
     else Split ax lc rc q)"
proof -
  have n: "(k, Split ax lc rc q) \<in> set (nodes t)"
    using st ax k by (metis option.inject stored_id)
  have uniq: "is_parent (nodes t) x p sd \<longleftrightarrow> parent_of x t = Some (p, sd)" for x p sd
    using gt by (simp add: parent_of_def pane_location_iff distinct_child_refs)
  have par: "parent_of lc t = Some (k, LeftSide)" "parent_of rc t = Some (k, RightSide)"
    using n by (auto simp flip: uniq simp: is_parent_def)
  have iffs: "x = lc \<longleftrightarrow> p = k \<and> sd = LeftSide" "x = rc \<longleftrightarrow> p = k \<and> sd = RightSide"
    if "parent_of x t = Some (p, sd)" for x p sd
  proof -
    note loc = that
    have *: "p = k \<Longrightarrow> x = (if sd = LeftSide then lc else rc)"
    proof -
      assume "p = k"
      then obtain ax' lc' rc' q' where "(k, Split ax' lc' rc' q') \<in> set (nodes t)"
        "x = (if sd = LeftSide then lc' else rc')"
        using loc uniq [of x p sd] by (auto simp: is_parent_def)
      moreover have "distinct (map fst (nodes t))" using gt by (simp add: good_def)
      ultimately show ?thesis using n by (metis eq_key_imp_eq_value pane.inject(1))
    qed
    show "x = lc \<longleftrightarrow> p = k \<and> sd = LeftSide" using * loc par(1) by auto
    show "x = rc \<longleftrightarrow> p = k \<and> sd = RightSide" using * loc par(2) by (cases sd) auto
  qed
  note ia = iffs [OF pa] and ib = iffs [OF pb]
  show ?thesis
  proof (cases "k = pa")
    case True
    then show ?thesis using ia ib \<open>a \<noteq> b\<close>
      by (cases "k = pb"; cases sa; cases sb; simp add: swap_id_def)
  next
    case False
    then show ?thesis using ia ib
      by (cases "k = pb"; cases sb; simp add: swap_id_def)
  qed
qed

lemma swap_represents:
  assumes rep: "represents s t" and a: "(a, va) \<in> set (leaves t)" and b: "(b, vb) \<in> set (leaves t)"
    and neq: "a \<noteq> b"
  obtains s' where "swapPanesInTree s a b = (s', True)"
    "represents s' (exchange (a, va) (b, vb) t)"
    "focused_pane_id s' = focused_pane_id s" "maximized_pane_id s' = maximized_pane_id s"
proof -
  have gt: "good t" and st: "stored (obj_get (panes s)) t" and ok: "obj_ok (panes s)"
    using rep by (simp_all add: represents_def)
  have ids: "a \<in> set (ids t)" "b \<in> set (ids t)" using a b by (auto intro: leaf_in_ids)
  have ne: "a \<noteq> []" "b \<noteq> []" using ids gt by (auto simp: good_def)
  have ns: "no_split a t" "no_split b t" using gt a b by (auto intro: leaf_no_split)
  have "a \<noteq> pid t \<and> b \<noteq> pid t"
    using subtree_leaf [OF gt a] subtree_leaf [OF gt b] a b neq by (cases t) (auto split: if_splits)
  then obtain pa sa pb sb where pa: "parent_of a t = Some (pa, sa)" and pb: "parent_of b t = Some (pb, sb)"
    using parent_of_inner ids by meson
  have split: "\<exists>ax lc rc q. pane_at s p = Some (Split ax lc rc q)"
    if "parent_of x t = Some (p, sd)" for x p sd
  proof -
    have "is_parent (nodes t) x p sd"
      using that gt by (simp add: parent_of_def pane_location_iff distinct_child_refs)
    then show ?thesis using st by (auto simp: is_parent_def dest: stored_node)
  qed
  obtain xa la ra qa where A: "pane_at s pa = Some (Split xa la ra qa)" using split [OF pa] by blast
  obtain xb lb rb qb where B: "pane_at s pb = Some (Split xb lb rb qb)" using split [OF pb] by blast
  define s' where "s' = (if pa = pb then put_pane pa (Split xa ra la qa) s
     else put_pane pb (set_child sb a (Split xb lb rb qb)) (put_pane pa (set_child sa b (Split xa la ra qa)) s))"
  have content: "is_content (pane_at s a)" "is_content (pane_at s b)"
    using a b represents_content [OF rep, of a va] represents_content [OF rep, of b vb] by simp_all
  have eq: "swapPanesInTree s a b = (s', True)"
    using ne neq content
    by (simp add: swapPanesInTree_def represents_location [OF rep] pa pb A B s'_def)
  let ?t = "exchange (a, va) (b, vb) t"
  have idset: "set (ids ?t) = set (ids t)"
    using ids by (auto simp: ids_exchange [OF ns] swap_id_def image_iff)
  have "distinct (ids ?t)"
    using gt inj_on_subset [OF inj_swap_id]
    by (simp add: ids_exchange [OF ns] good_def distinct_map)
  then have good': "good ?t" using gt idset by (simp add: good_def)
  have pan: "pane_at s' k = (if k = pb \<and> pa \<noteq> pb then Some (set_child sb a (Split xb lb rb qb))
      else if k = pa then Some (if pa = pb then Split xa ra la qa else set_child sa b (Split xa la ra qa))
      else pane_at s k)" for k
    by (simp add: s'_def)
  have not_par: "a \<noteq> pa" "a \<noteq> pb" "b \<noteq> pa" "b \<noteq> pb" using A B content by auto
  have "stored (obj_get (panes s')) ?t"
    unfolding stored_def nodes_exchange [OF ns]
  proof clarsimp
    fix k p
    assume kp: "(k, p) \<in> set (nodes t)"
    then have mk: "pane_at s k = Some p" using st by (blast dest: stored_node)
    have kid: "k \<in> set (ids t)" using kp by (metis fst_conv fst_set_nodes imageI)
    show "pane_at s' (swap_id a b k) = Some (swap_pane (a, va) (b, vb) k p)"
    proof (cases p)
      case (Split ax lc rc q)
      then have kab: "k \<noteq> a" "k \<noteq> b" using mk content by auto
      have "swap_pane (a, va) (b, vb) k p = (if k = pa \<and> k = pb then Split ax rc lc q
          else if k = pa then set_child sa b p else if k = pb then set_child sb a p else p)"
        using swap_parent_pane [OF st gt _ kid pa pb neq, of ax lc rc q va vb] mk Split by simp
      then show ?thesis
        using kab mk A B Split by (auto simp: swap_id_def pan)
    next
      case (Content v)
      then have kpab: "k \<noteq> pa" "k \<noteq> pb" using mk A B by auto
      have "pane_at s a = Some (Content va)" "pane_at s b = Some (Content vb)"
        using a b represents_content [OF rep] by blast+
      then show ?thesis
        using kpab not_par mk Content neq by (auto simp: swap_id_def pan)
    qed
  qed
  moreover have "pane_at s' k \<noteq> None \<Longrightarrow> k \<in> set (ids ?t)" for k
    using pan [of k] A B rep by (auto simp: idset represents_def split: if_splits)
  moreover have "root_pane_id s' = pid ?t"
  proof -
    have "pid t \<noteq> a" "pid t \<noteq> b" using \<open>a \<noteq> pid t \<and> b \<noteq> pid t\<close> by auto
    then show ?thesis using rep by (simp add: s'_def represents_def pid_exchange [OF ns] swap_id_def)
  qed
  moreover have "obj_ok (panes s')" using ok by (simp add: s'_def)
  ultimately have "represents s' ?t" using good' by (simp add: represents_def)
  then show thesis using that [OF eq] by (simp add: s'_def)
qed

section \<open>Ratios\<close>

lemma map_ratio_simps [simp]:
  "pid (map_ratio f t) = pid t" "ids (map_ratio f t) = ids t" "leaves (map_ratio f t) = leaves t"
  "good (map_ratio f t) = good t"
  by (induction t) (auto simp: good_def)

lemma stored_map_ratio:
  assumes "stored m t"
    and "\<And>k ax lc rc q. m k = Some (Split ax lc rc q) \<Longrightarrow> m' k = Some (Split ax lc rc (f k q))"
    and "\<And>k v. m k = Some (Content v) \<Longrightarrow> m' k = Some (Content v)"
  shows "stored m' (map_ratio f t)"
  using assms(1) by (induction t) (auto intro: assms(2,3))

lemma resize_represents:
  assumes rep: "represents s t"
  shows "represents (resizeSplitInTree s i (Fin r))
           (map_ratio (\<lambda>k q. if k = i then Fin (clamp_ratio r) else q) t)"
proof -
  have "stored (obj_get (panes (resizeSplitInTree s i (Fin r))))
          (map_ratio (\<lambda>k q. if k = i then Fin (clamp_ratio r) else q) t)"
    using rep unfolding represents_def
    by (intro stored_map_ratio [of "obj_get (panes s)"])
      (auto simp: resizeSplitInTree_def clamp_ratio_def split: option.splits pane.splits)
  then show ?thesis
    using rep by (auto simp: represents_def resizeSplitInTree_def split: option.splits pane.splits if_splits)
qed

lemma equalize_represents:
  assumes rep: "represents s t"
  shows "represents (equalizeTreeRatios s) (map_ratio (\<lambda>_ _. Fin 50) t)"
proof -
  have "stored (obj_get (panes (equalizeTreeRatios s))) (map_ratio (\<lambda>_ _. Fin 50) t)"
    using rep unfolding represents_def
    by (intro stored_map_ratio [of "obj_get (panes s)"]) (auto simp: equalizeTreeRatios_def)
  then show ?thesis
    using rep by (auto simp: represents_def equalizeTreeRatios_def)
qed

end
