(* ===== verification/PaneLayout.thy ===== *)
theory PaneLayout
  imports PaneTreeRefine
begin

text \<open>
  \<open>calculatePaneLayout.ts\<close>: the rectangles of the panes and of the splitters, in percent of the
  container. The recursion of \<open>layoutPane\<close> shares one visited set, so it is total on malformed
  trees too. The lemmas show that the pane rectangles of a represented tree tile the container.
\<close>

section \<open>Bounds\<close>

record pane_bounds =
  b_top :: rat
  b_left :: rat
  b_width :: rat
  b_height :: rat
  isRightmostOfRow :: bool
  isBottommostOfColumn :: bool

record pane_layout = pane_bounds +
  layout_pane_id :: string

record splitter_layout =
  splitter_pane_id :: string
  splitter_axis :: axis
  sp_top :: rat
  sp_left :: rat
  sp_width :: rat
  sp_height :: rat
  splitPaneBounds :: pane_bounds

definition layout_of :: "string \<Rightarrow> pane_bounds \<Rightarrow> pane_layout" where
  "layout_of i b = \<lparr>b_top = b_top b, b_left = b_left b, b_width = b_width b, b_height = b_height b,
     isRightmostOfRow = isRightmostOfRow b, isBottommostOfColumn = isBottommostOfColumn b,
     layout_pane_id = i\<rparr>"

fun used_ratio :: "jsnum \<Rightarrow> rat" where
  "used_ratio (Fin r) = max 5 (min 95 r)"
| "used_ratio _ = max 5 (min 95 50)"

definition left_bounds :: "axis \<Rightarrow> rat \<Rightarrow> pane_bounds \<Rightarrow> pane_bounds" where
  "left_bounds ax q b =
     (let isVertical = (ax = Vertical) in
      \<lparr>b_top = b_top b,
       b_left = b_left b,
       b_width = (if isVertical then b_width b else b_width b * (q / 100)),
       b_height = (if isVertical then b_height b * (q / 100) else b_height b),
       isRightmostOfRow = (if isVertical then isRightmostOfRow b else False),
       isBottommostOfColumn = (if isVertical then False else isBottommostOfColumn b)\<rparr>)"

definition right_bounds :: "axis \<Rightarrow> rat \<Rightarrow> pane_bounds \<Rightarrow> pane_bounds" where
  "right_bounds ax q b =
     (let isVertical = (ax = Vertical) in
      \<lparr>b_top = (if isVertical then b_top b + b_height b * (q / 100) else b_top b),
       b_left = (if isVertical then b_left b else b_left b + b_width b * (q / 100)),
       b_width = (if isVertical then b_width b else b_width b * ((100 - q) / 100)),
       b_height = (if isVertical then b_height b * ((100 - q) / 100) else b_height b),
       isRightmostOfRow = isRightmostOfRow b,
       isBottommostOfColumn = isBottommostOfColumn b\<rparr>)"

definition splitter_of :: "string \<Rightarrow> axis \<Rightarrow> rat \<Rightarrow> pane_bounds \<Rightarrow> splitter_layout" where
  "splitter_of i ax q b =
     (let splitterSize = 1 / 2 in
      if ax = Vertical then
        \<lparr>splitter_pane_id = i, splitter_axis = Vertical,
         sp_top = b_top b + b_height b * (q / 100) - splitterSize / 2, sp_left = b_left b,
         sp_width = b_width b, sp_height = splitterSize, splitPaneBounds = b\<rparr>
      else
        \<lparr>splitter_pane_id = i, splitter_axis = Horizontal,
         sp_top = b_top b, sp_left = b_left b + b_width b * (q / 100) - splitterSize / 2,
         sp_width = splitterSize, sp_height = b_height b, splitPaneBounds = b\<rparr>)"

section \<open>Layout\<close>

type_synonym layouts = "pane_layout list \<times> splitter_layout list"

function layoutPane ::
  "'v pane js_obj \<Rightarrow> string \<Rightarrow> pane_bounds \<Rightarrow> string set \<Rightarrow> string set \<times> layouts" where
  "layoutPane ps i b vis =
     (if i = [] \<or> i \<in> vis then (vis, [], [])
      else (case obj_get ps i of
              None \<Rightarrow> (insert i vis, [], [])
            | Some (Content _) \<Rightarrow> (insert i vis, [layout_of i b], [])
            | Some (Split ax lc rc q) \<Rightarrow>
                (let used = used_ratio q;
                     L = layoutPane ps lc (left_bounds ax used b) (insert i vis);
                     R = layoutPane ps rc (right_bounds ax used b) (fst L)
                 in (fst R, fst (snd L) @ fst (snd R),
                     snd (snd L) @ snd (snd R) @ [splitter_of i ax used b]))))"
  by pat_completeness auto

lemma layoutPane_grows:
  "layoutPane_dom (ps, i, b, vis) \<Longrightarrow> vis \<subseteq> fst (layoutPane ps i b vis)"
proof (induction ps i b vis rule: layoutPane.pinduct)
  case (1 ps i b vis)
  then show ?case
    by (subst layoutPane.psimps) (fastforce simp: Let_def split: option.splits pane.splits)+
qed

termination layoutPane
proof (relation "measure (\<lambda>(ps, i, b, vis). card (set (obj_keys ps) - vis))", goal_cases)
  case (2 ps i b vis p ax lc rc q used)
  then show ?case by (auto intro: card_visited_less)
next
  case (3 ps i b vis p ax lc rc q used L)
  then have "insert i vis \<subseteq> fst L" using layoutPane_grows by blast
  with 3 have "card (set (obj_keys ps) - fst L) < card (set (obj_keys ps) - vis)"
    by (intro card_visited_less) auto
  then show ?case by simp
qed auto

declare layoutPane.simps [simp del]

definition full_bounds :: pane_bounds where
  "full_bounds = \<lparr>b_top = 0, b_left = 0, b_width = 100, b_height = 100,
     isRightmostOfRow = True, isBottommostOfColumn = True\<rparr>"

definition calculatePaneLayouts :: "'v pane_tree \<Rightarrow> layouts" where
  "calculatePaneLayouts s =
     (if root_pane_id s = [] then ([], [])
      else snd (layoutPane (panes s) (root_pane_id s) full_bounds {}))"

section \<open>Agreement with the traversal\<close>

text \<open>On every state, malformed or not, the laid-out panes are the leaves the traversal visits.\<close>

lemma layout_visits:
  "visit_content ps i (vis, acc) =
     (fst (layoutPane ps i b vis), acc @ map layout_pane_id (fst (snd (layoutPane ps i b vis))))"
proof (induction ps i b vis arbitrary: acc rule: layoutPane.induct)
  case (1 ps i b vis)
  show ?case
  proof (cases "i = [] \<or> i \<in> vis")
    case False
    show ?thesis
    proof (cases "obj_get ps i")
      case (Some p)
      with 1 False show ?thesis
        by (cases p) (simp_all add: layoutPane.simps [of ps i b vis] visit_content.simps [of ps i vis acc]
            Let_def layout_of_def)
    qed (use False in \<open>simp add: layoutPane.simps visit_content.simps\<close>)
  qed (simp add: layoutPane.simps visit_content.simps)
qed

lemma layout_ids:
  "map layout_pane_id (fst (calculatePaneLayouts s))
     = snd (visit_content (panes s) (root_pane_id s) ({}, []))"
proof (cases "root_pane_id s = []")
  case True
  then show ?thesis by (simp add: calculatePaneLayouts_def visit_content.simps)
next
  case False
  then show ?thesis
    using layout_visits [of "panes s" "root_pane_id s" "{}" "[]" full_bounds]
    by (simp add: calculatePaneLayouts_def)
qed

section \<open>Layout of a represented tree\<close>

fun tree_layout :: "'v ptree \<Rightarrow> pane_bounds \<Rightarrow> pane_layout list" where
  "tree_layout (PLeaf i v) b = [layout_of i b]"
| "tree_layout (PNode i ax q l r) b =
     tree_layout l (left_bounds ax (used_ratio q) b) @ tree_layout r (right_bounds ax (used_ratio q) b)"

lemma length_tree_layout [simp]: "length (tree_layout t b) = length (leaves t)"
  by (induction t arbitrary: b) simp_all

lemma layout_stored:
  assumes "stored (obj_get ps) t" and "good t" and "set (ids t) \<inter> vis = {}"
  shows "fst (layoutPane ps (pid t) b vis) = vis \<union> set (ids t)
       \<and> fst (snd (layoutPane ps (pid t) b vis)) = tree_layout t b"
  using assms
proof (induction t arbitrary: b vis)
  case (PLeaf i v)
  then show ?case by (subst (1 2) layoutPane.simps) auto
next
  case (PNode i ax q l r)
  let ?L = "layoutPane ps (pid l) (left_bounds ax (used_ratio q) b) (insert i vis)"
  have L: "fst ?L = insert i vis \<union> set (ids l)"
    "fst (snd ?L) = tree_layout l (left_bounds ax (used_ratio q) b)"
    using PNode.IH(1) [of "insert i vis"] PNode.prems by auto
  let ?R = "layoutPane ps (pid r) (right_bounds ax (used_ratio q) b) (fst ?L)"
  have R: "fst ?R = fst ?L \<union> set (ids r)"
    "fst (snd ?R) = tree_layout r (right_bounds ax (used_ratio q) b)"
    using PNode.IH(2) [of "fst ?L"] PNode.prems L(1) by auto
  have unf: "layoutPane ps i b vis = (fst ?R, fst (snd ?L) @ fst (snd ?R),
      snd (snd ?L) @ snd (snd ?R) @ [splitter_of i ax (used_ratio q) b])"
    using PNode.prems by (simp add: layoutPane.simps [of ps i b vis] Let_def)
  have "fst (layoutPane ps i b vis) = vis \<union> set (ids (PNode i ax q l r))"
  proof -
    have "fst (layoutPane ps i b vis) = fst ?R" unfolding unf by (rule fst_conv)
    also have "\<dots> = fst ?L \<union> set (ids r)" by (rule R(1))
    also have "\<dots> = vis \<union> set (ids (PNode i ax q l r))" unfolding L(1) by auto
    finally show ?thesis .
  qed
  moreover have "fst (snd (layoutPane ps i b vis)) = tree_layout (PNode i ax q l r) b"
    unfolding unf by (simp add: L(2) R(2))
  ultimately show ?case by simp
qed

lemma layout_represents:
  assumes "represents s t"
  shows "fst (calculatePaneLayouts s) = tree_layout t full_bounds"
proof -
  have "root_pane_id s \<noteq> []" by (metis assms good_def pid_in_ids represents_def)
  then show ?thesis
    using assms layout_stored [of "panes s" t "{}" full_bounds]
    by (simp add: calculatePaneLayouts_def represents_def)
qed

section \<open>The rectangles tile the container\<close>

definition covers :: "('a) pane_bounds_scheme \<Rightarrow> rat \<Rightarrow> rat \<Rightarrow> bool" where
  "covers b x y \<longleftrightarrow> b_left b \<le> x \<and> x < b_left b + b_width b \<and> b_top b \<le> y \<and> y < b_top b + b_height b"

definition positive_area :: "('a) pane_bounds_scheme \<Rightarrow> bool" where
  "positive_area b \<longleftrightarrow> 0 < b_width b \<and> 0 < b_height b"

lemma used_ratio_bounds: "5 \<le> used_ratio q" "used_ratio q \<le> 95"
  by (cases q; simp)+

lemma positive_children:
  assumes "positive_area b" and "5 \<le> q" and "q \<le> 95"
  shows "positive_area (left_bounds ax q b)" and "positive_area (right_bounds ax q b)"
  using assms by (auto simp: positive_area_def left_bounds_def right_bounds_def Let_def)

lemma cut_at:
  fixes a w q :: rat
  shows "a + w * (q / 100) + w * ((100 - q) / 100) = a + w"
  by (simp add: field_simps)

lemma covers_children:
  assumes "positive_area b" and "5 \<le> q" and "q \<le> 95"
  shows "of_bool (covers (left_bounds ax q b) x y) + of_bool (covers (right_bounds ax q b) x y)
       = (of_bool (covers b x y) :: nat)"
proof -
  have w: "0 < b_width b * (q / 100)" "0 < b_width b * ((100 - q) / 100)"
    "0 < b_height b * (q / 100)" "0 < b_height b * ((100 - q) / 100)"
    using assms by (simp_all add: positive_area_def)
  note c = cut_at [of "b_left b" "b_width b" q] cut_at [of "b_top b" "b_height b" q]
  show ?thesis
  proof (cases ax)
    case Vertical
    then show ?thesis using w c
      by (auto simp: covers_def left_bounds_def right_bounds_def of_bool_def)
  next
    case Horizontal
    then show ?thesis using w c
      by (auto simp: covers_def left_bounds_def right_bounds_def of_bool_def)
  qed
qed

lemma tree_layout_tiles:
  "positive_area b \<Longrightarrow>
   length (filter (\<lambda>p. covers p x y) (tree_layout t b)) = of_bool (covers b x y)"
proof (induction t arbitrary: b)
  case (PLeaf i v)
  then show ?case by (simp add: layout_of_def covers_def)
next
  case (PNode i ax q l r)
  then show ?case
    using covers_children [OF PNode.prems used_ratio_bounds(1) [of q] used_ratio_bounds(2) [of q],
        where ax = ax and x = x and y = y]
      positive_children [OF PNode.prems used_ratio_bounds(1) [of q] used_ratio_bounds(2) [of q], of ax]
    by simp
qed

definition edge_flags :: "pane_bounds \<Rightarrow> pane_layout \<Rightarrow> bool" where
  "edge_flags b p \<longleftrightarrow> positive_area p
     \<and> b_left b \<le> b_left p \<and> b_left p + b_width p \<le> b_left b + b_width b
     \<and> b_top b \<le> b_top p \<and> b_top p + b_height p \<le> b_top b + b_height b
     \<and> (isRightmostOfRow p \<longleftrightarrow> isRightmostOfRow b \<and> b_left p + b_width p = b_left b + b_width b)
     \<and> (isBottommostOfColumn p \<longleftrightarrow>
          isBottommostOfColumn b \<and> b_top p + b_height p = b_top b + b_height b)"

lemma edge_flags_children:
  assumes "positive_area b" and "5 \<le> q" and "q \<le> 95"
  shows "edge_flags (left_bounds ax q b) p \<Longrightarrow> edge_flags b p"
    and "edge_flags (right_bounds ax q b) p \<Longrightarrow> edge_flags b p"
proof -
  have w: "0 < b_width b * (q / 100)" "0 < b_width b * ((100 - q) / 100)"
    "0 < b_height b * (q / 100)" "0 < b_height b * ((100 - q) / 100)"
    using assms by (simp_all add: positive_area_def)
  note c = cut_at [of "b_left b" "b_width b" q] cut_at [of "b_top b" "b_height b" q]
  show "edge_flags (left_bounds ax q b) p \<Longrightarrow> edge_flags b p"
    using w c by (cases ax) (auto simp: edge_flags_def left_bounds_def)
  show "edge_flags (right_bounds ax q b) p \<Longrightarrow> edge_flags b p"
    using w c by (cases ax) (auto simp: edge_flags_def right_bounds_def)
qed

lemma tree_layout_edges:
  "positive_area b \<Longrightarrow> p \<in> set (tree_layout t b) \<Longrightarrow> edge_flags b p"
proof (induction t arbitrary: b)
  case (PLeaf i v)
  then show ?case by (simp add: layout_of_def edge_flags_def positive_area_def)
next
  case (PNode i ax q l r)
  note pos = positive_children [OF PNode.prems(1) used_ratio_bounds(1) [of q] used_ratio_bounds(2) [of q], of ax]
  note up = edge_flags_children [OF PNode.prems(1) used_ratio_bounds(1) [of q] used_ratio_bounds(2) [of q], of ax p]
  from PNode.prems(2) show ?case
    using PNode.IH(1) [OF pos(1)] PNode.IH(2) [OF pos(2)] up by auto
qed

lemma positive_full [simp]: "positive_area full_bounds"
  by (simp add: positive_area_def full_bounds_def)

end
