(* ===== verification/PaneTarget.thy ===== *)
theory PaneTarget
  imports JsPrelude
begin

text \<open>
  Pane targets (\<open>src/ui/utils/paneTarget.ts\<close>): the string that names what a pane shows, an agent
  instance id or \<open>chain:<id>\<close> for the current coordinator conversation of a task chain. Also the
  interface \<open>partial_codec\<close> that every id codec of the development is an instance of.
\<close>

section \<open>Codecs\<close>

locale partial_codec =
  fixes enc :: "'a \<Rightarrow> 'b" and dec :: "'b \<Rightarrow> 'a option" and valid :: "'a \<Rightarrow> bool"
  assumes dec_enc: "valid x \<Longrightarrow> dec (enc x) = Some x"
begin

lemma enc_inj: "valid x \<Longrightarrow> valid y \<Longrightarrow> enc x = enc y \<longleftrightarrow> x = y"
  by (metis dec_enc option.inject)

lemma enc_inj_on: "inj_on enc {x. valid x}"
  by (auto intro: inj_onI simp: enc_inj)

lemma enc_distinct: "distinct xs \<Longrightarrow> (\<forall>x \<in> set xs. valid x) \<Longrightarrow> distinct (map enc xs)"
  by (induction xs) (auto simp: enc_inj)

end

section \<open>Targets\<close>

datatype pane_target = AgentTarget string | ChainCoordinator string

definition CHAIN_TARGET_PREFIX :: string where
  "CHAIN_TARGET_PREFIX = ''chain:''"

definition chainTargetId :: "string option \<Rightarrow> string" where
  "chainTargetId chain =
     (let i = js_trim (opt_str chain) in if i = [] then [] else CHAIN_TARGET_PREFIX @ i)"

definition isChainTargetId :: "string option \<Rightarrow> bool" where
  "isChainTargetId i =
     (case i of None \<Rightarrow> False
      | Some s \<Rightarrow> s \<noteq> [] \<and> starts_with CHAIN_TARGET_PREFIX s \<and> length CHAIN_TARGET_PREFIX < length s)"

definition chainIdFromTargetId :: "string option \<Rightarrow> string" where
  "chainIdFromTargetId i =
     (if isChainTargetId i then drop (length CHAIN_TARGET_PREFIX) (the i) else [])"

definition parsePaneTargetId :: "string \<Rightarrow> pane_target" where
  "parsePaneTargetId i =
     (let chain = chainIdFromTargetId (Some i)
      in if chain \<noteq> [] then ChainCoordinator chain else AgentTarget i)"

fun paneTargetId :: "pane_target \<Rightarrow> string" where
  "paneTargetId (ChainCoordinator chain) = chainTargetId (Some chain)"
| "paneTargetId (AgentTarget agent) = agent"

definition resolvePaneTargetAgent :: "string \<Rightarrow> (string \<Rightarrow> string option) \<Rightarrow> string" where
  "resolvePaneTargetAgent i coordinators =
     (let chain = chainIdFromTargetId (Some i)
      in if chain = [] then i else opt_str (coordinators chain))"

lemma chainIdFromTargetId_prefix [simp]:
  "c \<noteq> [] \<Longrightarrow> chainIdFromTargetId (Some (CHAIN_TARGET_PREFIX @ c)) = c"
  by (simp add: chainIdFromTargetId_def isChainTargetId_def)

lemma chainIdFromTargetId_Nil:
  "chainIdFromTargetId (Some i) = [] \<longleftrightarrow> \<not> isChainTargetId (Some i)"
  by (auto simp: chainIdFromTargetId_def isChainTargetId_def)

lemma isChainTargetId_iff:
  "isChainTargetId (Some i) \<longleftrightarrow> (\<exists>c. c \<noteq> [] \<and> i = CHAIN_TARGET_PREFIX @ c)"
  unfolding isChainTargetId_def starts_with_iff by (auto simp: CHAIN_TARGET_PREFIX_def)

text \<open>A target in the form the workspace keeps: a trimmed chain id, or an id that is not one.\<close>

fun valid_target :: "pane_target \<Rightarrow> bool" where
  "valid_target (ChainCoordinator chain) = (chain \<noteq> [] \<and> js_trim chain = chain)"
| "valid_target (AgentTarget agent) = (\<not> isChainTargetId (Some agent))"

lemma parse_paneTargetId: "valid_target t \<Longrightarrow> parsePaneTargetId (paneTargetId t) = t"
  by (cases t) (auto simp: parsePaneTargetId_def chainTargetId_def Let_def chainIdFromTargetId_Nil)

interpretation target_codec: partial_codec paneTargetId "Some \<circ> parsePaneTargetId" valid_target
  by unfold_locales (simp add: parse_paneTargetId)

lemma paneTargetId_parse:
  assumes "js_trim (chainIdFromTargetId (Some i)) = chainIdFromTargetId (Some i)"
  shows "paneTargetId (parsePaneTargetId i) = i"
proof (cases "isChainTargetId (Some i)")
  case True
  then obtain c where "c \<noteq> []" "i = CHAIN_TARGET_PREFIX @ c" by (auto simp: isChainTargetId_iff)
  with assms show ?thesis by (simp add: parsePaneTargetId_def chainTargetId_def Let_def)
next
  case False
  then show ?thesis by (simp add: parsePaneTargetId_def chainIdFromTargetId_Nil [THEN iffD2] Let_def)
qed

end
