(* ===== verification/Workspace.thy ===== *)
theory Workspace
  imports PaneLayout PaneTarget
begin

text \<open>
  The main workspace layout (\<open>src/ui/store/workspaceLayoutSlice.ts\<close>): a pane tree whose leaves
  hold a target id, the reducers of the slice, and the sanitizer of persisted trees. A reducer
  takes the state and its payload and returns the new state. Resizing the focused pane climbs
  to an ancestor in a loop that a malformed tree could keep going, so its model is an option:
  \<open>None\<close> is "does not return".
\<close>

section \<open>State\<close>

datatype launcher_intent = LaunchAgent | LaunchShell

record main_pane_value =
  agentInstanceId :: string
  launchIntent :: "launcher_intent option"

type_synonym main_tree = "main_pane_value pane_tree"

record workspace_layout_state =
  tree :: main_tree

datatype focused_pane_resize = Narrower | Wider | Shorter | Taller

definition NEW_PANE_AGENT_ID :: string where
  "NEW_PANE_AGENT_ID = ''_new''"

definition INITIAL_MAIN_PANE_ID :: string where
  "INITIAL_MAIN_PANE_ID = ''pane-1''"

definition SHELL_PANE_ID_PREFIX :: string where
  "SHELL_PANE_ID_PREFIX = ''sh_''"

text \<open>The value of a leaf: the launch hint is kept on the picker only.\<close>

definition main_value :: "string \<Rightarrow> launcher_intent option \<Rightarrow> main_pane_value" where
  "main_value agent intent =
     \<lparr>agentInstanceId = agent,
      launchIntent = (if intent \<noteq> None \<and> agent = NEW_PANE_AGENT_ID then intent else None)\<rparr>"

definition createInitialMainTree ::
  "string \<Rightarrow> string \<Rightarrow> launcher_intent option \<Rightarrow> main_tree" where
  "createInitialMainTree agent pane intent = createPaneTreeState (main_value agent intent) pane"

definition initial_workspace :: workspace_layout_state where
  "initial_workspace = \<lparr>tree = createInitialMainTree NEW_PANE_AGENT_ID INITIAL_MAIN_PANE_ID None\<rparr>"

section \<open>Ids\<close>

text \<open>The argument is \<open>None\<close> when it is not a string.\<close>

definition normalizeAgentId :: "string option \<Rightarrow> string" where
  "normalizeAgentId i = str_or (js_trim (opt_str i)) NEW_PANE_AGENT_ID"

definition isRealAgentId :: "string option \<Rightarrow> bool" where
  "isRealAgentId i = (truthy i \<and> i \<noteq> Some NEW_PANE_AGENT_ID)"

definition isShellPaneId :: "string option \<Rightarrow> bool" where
  "isShellPaneId i = (truthy i \<and> starts_with SHELL_PANE_ID_PREFIX (the i))"

definition isAgentPaneId :: "string option \<Rightarrow> bool" where
  "isAgentPaneId i = (isRealAgentId i \<and> \<not> isShellPaneId i)"

section \<open>Lookup\<close>

definition leaf_agent :: "main_tree \<Rightarrow> string \<Rightarrow> string option" where
  "leaf_agent t i = (case pane_at t i of Some (Content v) \<Rightarrow> Some (agentInstanceId v) | _ \<Rightarrow> None)"

definition findPaneByAgent :: "main_tree \<Rightarrow> string \<Rightarrow> string option" where
  "findPaneByAgent t agent =
     (if \<not> isRealAgentId (Some agent) then None
      else find (\<lambda>i. leaf_agent t i = Some agent) (getContentPaneIds t))"

definition resolveTargetPaneId :: "main_tree \<Rightarrow> string option \<Rightarrow> string option" where
  "resolveTargetPaneId t requested =
     (if truthy requested \<and> is_content (pane_at t (the requested)) then requested
      else if is_content (pane_at t (focused_pane_id t)) then Some (focused_pane_id t)
      else first_id (getContentPaneIds t))"

text \<open>
  \<open>nearestResizeSplit\<close>: the loop from a pane towards the root. The outer option is \<open>None\<close> when
  the loop does not end; the inner one is the function's own \<open>undefined\<close>.
\<close>

partial_function (option) nearestResizeSplit ::
  "'v pane_tree \<Rightarrow> string \<Rightarrow> axis \<Rightarrow> (string \<times> side \<times> jsnum) option option" where
  "nearestResizeSplit t child ax =
     (if child = root_pane_id t then Some None
      else (case getPaneLocation t child of
              None \<Rightarrow> Some None
            | Some (parent, sd) \<Rightarrow>
                (case pane_at t parent of
                   Some (Split a lc rc q) \<Rightarrow>
                     (if a = ax then Some (Some (parent, sd, q)) else nearestResizeSplit t parent ax)
                 | _ \<Rightarrow> nearestResizeSplit t parent ax)))"

definition resize_axis :: "focused_pane_resize \<Rightarrow> axis" where
  "resize_axis change = (if change = Narrower \<or> change = Wider then Horizontal else Vertical)"

definition canResizeFocusedMainPane :: "main_tree \<Rightarrow> focused_pane_resize \<Rightarrow> bool option" where
  "canResizeFocusedMainPane t change =
     map_option (\<lambda>r. r \<noteq> None) (nearestResizeSplit t (focused_pane_id t) (resize_axis change))"

definition setPaneAgent ::
  "main_tree \<Rightarrow> string \<Rightarrow> string \<Rightarrow> launcher_intent option \<Rightarrow> main_tree" where
  "setPaneAgent t i agent intent =
     (if is_content (pane_at t i) then put_pane i (Content (main_value agent intent)) t else t)"

definition closePaneOrReset :: "workspace_layout_state \<Rightarrow> string \<Rightarrow> workspace_layout_state" where
  "closePaneOrReset s i =
     (let ids = getContentPaneIds (tree s) in
      if length ids \<le> 1 then
        s\<lparr>tree := createInitialMainTree NEW_PANE_AGENT_ID
                    (str_or (opt_str (first_id ids)) INITIAL_MAIN_PANE_ID) None\<rparr>
      else
        (let (t, is_empty) = closePaneInTree (tree s) i in
         if is_empty \<or> getContentPaneIds t = []
         then s\<lparr>tree := createInitialMainTree NEW_PANE_AGENT_ID INITIAL_MAIN_PANE_ID None\<rparr>
         else s\<lparr>tree := t\<rparr>))"

abbreviation with_focus :: "string \<Rightarrow> workspace_layout_state \<Rightarrow> workspace_layout_state" where
  "with_focus i s \<equiv> s\<lparr>tree := (tree s)\<lparr>focused_pane_id := i\<rparr>\<rparr>"

section \<open>Persisted trees\<close>

definition sanitize_ratio :: "js option \<Rightarrow> jsnum" where
  "sanitize_ratio v =
     (case v of
        Some (JNum (Fin r)) \<Rightarrow> Fin (max 5 (min 95 r))
      | _ \<Rightarrow> Fin 50)"

definition sanitize_split :: "js \<Rightarrow> string \<Rightarrow> string \<Rightarrow> main_pane_value pane" where
  "sanitize_split node lc rc =
     Split (if js_prop (Some node) ''axis'' = Some (JStr ''vertical'') then Vertical else Horizontal)
       lc rc (sanitize_ratio (js_prop (Some node) ''ratio''))"

definition sanitize_intent :: "string \<Rightarrow> js option \<Rightarrow> launcher_intent option" where
  "sanitize_intent agent v =
     (if agent \<noteq> NEW_PANE_AGENT_ID then None
      else if v = Some (JStr ''agent'') then Some LaunchAgent
      else if v = Some (JStr ''shell'') then Some LaunchShell
      else None)"

text \<open>A content node: its id normalized, a target seen before replaced by the picker.\<close>

definition sanitize_content :: "js \<Rightarrow> string set \<Rightarrow> main_pane_value \<times> string set" where
  "sanitize_content node seen =
     (let val = js_prop (Some node) ''value'';
          agent0 = normalizeAgentId (js_string (js_prop val ''agentInstanceId''));
          dup = isRealAgentId (Some agent0) \<and> agent0 \<in> seen;
          agent = (if dup then NEW_PANE_AGENT_ID else agent0);
          seen' = (if isRealAgentId (Some agent0) \<and> \<not> dup then insert agent0 seen else seen)
      in (main_value agent (sanitize_intent agent (js_prop val ''launchIntent'')), seen'))"

text \<open>
  \<open>panes[k]\<close> is truthy for the panes of the object and for what a plain object inherits: a tree
  whose child is called \<open>constructor\<close> passes the test of the source, which reads the function of
  \<open>Object.prototype\<close> there.
\<close>

definition INHERITED_KEYS :: "string list" where
  "INHERITED_KEYS =
     [''constructor'', ''__defineGetter__'', ''__defineSetter__'', ''hasOwnProperty'',
      ''__lookupGetter__'', ''__lookupSetter__'', ''isPrototypeOf'', ''propertyIsEnumerable'',
      ''toString'', ''valueOf'', ''__proto__'', ''toLocaleString'']"

definition has_key :: "'v js_obj \<Rightarrow> string \<Rightarrow> bool" where
  "has_key ps k \<longleftrightarrow> obj_get ps k \<noteq> None \<or> k \<in> set INHERITED_KEYS"

type_synonym visit_state = "main_pane_value pane js_obj \<times> string set"

function sanitize_visit :: "(string \<times> js) list \<Rightarrow> string \<Rightarrow> nat \<Rightarrow> visit_state \<Rightarrow> visit_state" where
  "sanitize_visit raw i depth (ps, seen) =
     (if i = [] \<or> has_key ps i \<or> 64 < depth then (ps, seen)
      else (case map_of raw i of
              None \<Rightarrow> (ps, seen)
            | Some node \<Rightarrow>
                if \<not> js_is_object node then (ps, seen)
                else if js_prop (Some node) ''kind'' = Some (JStr ''split'') then
                  (case (js_string (js_prop (Some node) ''leftChildId''),
                         js_string (js_prop (Some node) ''rightChildId'')) of
                     (Some lc, Some rc) \<Rightarrow>
                       sanitize_visit raw rc (depth + 1)
                         (sanitize_visit raw lc (depth + 1)
                           (obj_set ps i (sanitize_split node lc rc), seen))
                   | _ \<Rightarrow> (ps, seen))
                else if js_prop (Some node) ''kind'' = Some (JStr ''content'') then
                  (let (v, seen') = sanitize_content node seen in (obj_set ps i (Content v), seen'))
                else (ps, seen)))"
  by pat_completeness auto
termination by (relation "measure (\<lambda>(raw, i, depth, st). 65 - depth)") auto

declare sanitize_visit.simps [simp del]

definition closed_splits :: "'v pane js_obj \<Rightarrow> bool" where
  "closed_splits ps = list_all (\<lambda>(i, p). case p of
       Split a lc rc q \<Rightarrow> has_key ps lc \<and> has_key ps rc
     | Content v \<Rightarrow> True) ps"

text \<open>
  The last part of \<open>sanitizeMainTree\<close>: focus and maximize of the candidate are repaired. A focus or
  maximized id that is not a string is read as naming no pane (the source keeps a number whose
  decimal text names one).
\<close>

definition repair_candidate :: "main_tree \<Rightarrow> main_tree option" where
  "repair_candidate cand =
     (case map layout_pane_id (fst (calculatePaneLayouts cand)) of
        [] \<Rightarrow> None
      | first # others \<Rightarrow>
          (let c1 = (if is_content (pane_at cand (focused_pane_id cand)) then cand
                     else cand\<lparr>focused_pane_id := first\<rparr>)
           in Some (if others = [] \<or> \<not> truthy (maximized_pane_id c1)
                       \<or> \<not> is_content (pane_at c1 (the (maximized_pane_id c1)))
                    then c1\<lparr>maximized_pane_id := None\<rparr> else c1)))"

definition sanitizeMainTree :: "js option \<Rightarrow> main_tree option" where
  "sanitizeMainTree raw =
     (case (js_string (js_prop raw ''rootPaneId''), js_prop raw ''panes'') of
        (Some rt, Some (JObj raw_panes)) \<Rightarrow>
          (let ps = fst (sanitize_visit raw_panes rt 0 ([], {})) in
           if \<not> closed_splits ps \<or> \<not> has_key ps rt then None
           else repair_candidate
                  \<lparr>root_pane_id = rt, panes = ps,
                   focused_pane_id = opt_str (js_string (js_prop raw ''focusedPaneId'')),
                   maximized_pane_id = js_string (js_prop raw ''maximizedPaneId'')\<rparr>)
      | _ \<Rightarrow> None)"

text \<open>
  \<open>build\<close> of \<open>buildDefaultSplitTree\<close>. It returns the id of the subtree it added. For no ids at
  all the recursion of the source does not end (the stack overflows): \<open>None\<close>.
\<close>

fun build_splits :: "nat \<Rightarrow> string list \<Rightarrow> main_pane_value pane js_obj
    \<Rightarrow> main_pane_value pane js_obj \<times> string" where
  "build_splits start [] ps = (ps, [])"
| "build_splits start [i] ps =
     (let pane = pane_id ''pane'' (start + 1) in (obj_set ps pane (Content (main_value i None)), pane))"
| "build_splits start (i # j # r) ps =
     (let pane = pane_id ''pane'' (start + 1);
          ps1 = obj_set ps pane (Content (main_value i None));
          remaining = Suc (Suc (length r));
          split_id = pane_id ''split'' (start + 1);
          (ps2, right) = build_splits (start + 1) (j # r) ps1
      in (obj_set ps2 split_id (Split Horizontal pane right (Fin (100 / of_nat remaining))), split_id))"

definition buildDefaultSplitTree :: "string list \<Rightarrow> main_tree option" where
  "buildDefaultSplitTree agents =
     (if agents = [] then None
      else (let (ps, rt) = build_splits 0 agents []
            in Some \<lparr>root_pane_id = rt, panes = ps, focused_pane_id = ''pane-1'',
                     maximized_pane_id = None\<rparr>))"

section \<open>Reducers\<close>

definition setFocusedMainPane :: "string \<Rightarrow> workspace_layout_state \<Rightarrow> workspace_layout_state" where
  "setFocusedMainPane i s = (if is_content (pane_at (tree s) i) then with_focus i s else s)"

text \<open>\<open>if (!id) ...\<close>: an empty id counts as none.\<close>

fun non_empty :: "string option \<Rightarrow> string option" where
  "non_empty None = None"
| "non_empty (Some i) = (if i = [] then None else Some i)"

record split_payload =
  sp_targetPaneId :: "string option"
  sp_direction :: split_input
  sp_agentInstanceId :: "string option"
  sp_launchIntent :: "launcher_intent option"
  sp_newPaneId :: "string option"

definition splitMainPane :: "split_payload \<Rightarrow> workspace_layout_state \<Rightarrow> workspace_layout_state" where
  "splitMainPane p s =
     (let agent = normalizeAgentId (sp_agentInstanceId p) in
      (case non_empty (findPaneByAgent (tree s) agent) of
         Some existing \<Rightarrow> with_focus existing s
       | None \<Rightarrow>
           (case non_empty (resolveTargetPaneId (tree s) (sp_targetPaneId p)) of
              None \<Rightarrow> s
            | Some target \<Rightarrow>
                s\<lparr>tree := fst (splitPaneInTree (tree s) target (sp_direction p)
                            (main_value agent (sp_launchIntent p)) (sp_newPaneId p))\<rparr>)))"

definition closeMainPane :: "string \<Rightarrow> workspace_layout_state \<Rightarrow> workspace_layout_state" where
  "closeMainPane i s = (if is_content (pane_at (tree s) i) then closePaneOrReset s i else s)"

record assign_payload =
  as_paneId :: "string option"
  as_agentInstanceId :: string
  as_launchIntent :: "launcher_intent option"

definition assignMainPaneAgent :: "assign_payload \<Rightarrow> workspace_layout_state \<Rightarrow> workspace_layout_state" where
  "assignMainPaneAgent p s =
     (case non_empty (resolveTargetPaneId (tree s) (as_paneId p)) of
        None \<Rightarrow> s
      | Some target \<Rightarrow>
          (let agent = normalizeAgentId (Some (as_agentInstanceId p)) in
           (case non_empty (findPaneByAgent (tree s) agent) of
              Some existing \<Rightarrow>
                if existing \<noteq> target then
                  (let target_is_picker = (leaf_agent (tree s) target = Some NEW_PANE_AGENT_ID);
                       s1 = (if target_is_picker \<and> 1 < length (getContentPaneIds (tree s))
                             then s\<lparr>tree := fst (closePaneInTree (tree s) target)\<rparr> else s)
                   in with_focus existing s1)
                else with_focus target
                       (s\<lparr>tree := setPaneAgent (tree s) target agent (as_launchIntent p)\<rparr>)
            | None \<Rightarrow> with_focus target
                       (s\<lparr>tree := setPaneAgent (tree s) target agent (as_launchIntent p)\<rparr>))))"

definition leaf_targets :: "main_tree \<Rightarrow> string list" where
  "leaf_targets t =
     map (\<lambda>i. case leaf_agent t i of Some a \<Rightarrow> a | None \<Rightarrow> NEW_PANE_AGENT_ID) (getContentPaneIds t)"

text \<open>\<open>focusPaneFor\<close> of \<open>setLayoutFromUrl\<close>, over the pane ids and the targets it captured.\<close>

definition focusPaneFor :: "string list \<Rightarrow> string list \<Rightarrow> string option \<Rightarrow> main_tree \<Rightarrow> main_tree" where
  "focusPaneFor pane_ids current agent t =
     (if \<not> truthy agent then t
      else if leaf_agent t (focused_pane_id t) = agent then t
      else (case index_of (the agent) current of
              Some k \<Rightarrow> t\<lparr>focused_pane_id := pane_ids ! k\<rparr>
            | None \<Rightarrow> t))"

record url_payload =
  up_ids :: "string list"
  up_focusedId :: "string option"
  up_savedLayout :: "js option"

definition layout_for_ids :: "string list \<Rightarrow> string option \<Rightarrow> js option \<Rightarrow> main_tree option" where
  "layout_for_ids agents focused saved =
     (case (case (case saved of None \<Rightarrow> None | Some v \<Rightarrow> sanitizeMainTree (Some v)) of
              Some t \<Rightarrow> Some t
            | None \<Rightarrow> buildDefaultSplitTree agents) of
        None \<Rightarrow> None
      | Some t \<Rightarrow>
          (let leaf_panes = getContentPaneIds t;
               t1 = (case find_index (\<lambda>i. leaf_agent t i \<noteq> None \<and> leaf_agent t i = focused) leaf_panes of
                       Some k \<Rightarrow> t\<lparr>focused_pane_id := leaf_panes ! k\<rparr>
                     | None \<Rightarrow> t)
           in Some (t1\<lparr>maximized_pane_id := None\<rparr>)))"

definition setLayoutFromUrl :: "url_payload \<Rightarrow> workspace_layout_state \<Rightarrow> workspace_layout_state" where
  "setLayoutFromUrl p s =
     (let agents = map (normalizeAgentId \<circ> Some) (up_ids p); focused = up_focusedId p;
          t = tree s; pane_ids = getContentPaneIds t; current = leaf_targets t
      in if agents = [] then s
         else if length current = length agents \<and> sorted_key current = sorted_key agents
         then s\<lparr>tree := focusPaneFor pane_ids current focused t\<rparr>
         else
           (let removed = filter (\<lambda>i. i \<notin> set agents) current;
                added = filter (\<lambda>i. i \<notin> set current) agents
            in if length current = length agents \<and> length removed = 1 \<and> length added = 1
               then
                 (let k = the (index_of (hd removed) current); new = hd added;
                      t1 = setPaneAgent t (pane_ids ! k) new None
                  in if \<not> truthy focused \<or> focused = Some new
                     then s\<lparr>tree := t1\<lparr>focused_pane_id := pane_ids ! k\<rparr>\<rparr>
                     else s\<lparr>tree := focusPaneFor pane_ids (current[k := new]) focused t1\<rparr>)
               else if length agents = 1
               then s\<lparr>tree := createInitialMainTree (hd agents) INITIAL_MAIN_PANE_ID None\<rparr>
               else (case layout_for_ids agents focused (up_savedLayout p) of
                       Some t' \<Rightarrow> s\<lparr>tree := t'\<rparr>
                     | None \<Rightarrow> s)))"

definition resize_delta :: "focused_pane_resize \<Rightarrow> side \<Rightarrow> rat" where
  "resize_delta change sd =
     (let growing = (change = Wider \<or> change = Taller)
      in (if growing then 5 else - 5) * (if sd = LeftSide then 1 else - 1))"

definition resizeFocusedMainPane ::
  "focused_pane_resize \<Rightarrow> workspace_layout_state \<Rightarrow> workspace_layout_state option" where
  "resizeFocusedMainPane change s =
     map_option (\<lambda>found. case found of
         None \<Rightarrow> s
       | Some (split_id, sd, q) \<Rightarrow>
           s\<lparr>tree := resizeSplitInTree (tree s) split_id (js_add q (resize_delta change sd))\<rparr>)
       (nearestResizeSplit (tree s) (focused_pane_id (tree s)) (resize_axis change))"

datatype main_action =
    SetFocusedMainPane string
  | SplitMainPane split_payload
  | CloseMainPane string
  | AssignMainPaneAgent assign_payload
  | SetLayoutFromUrl url_payload
  | MoveMainPane string string split_input
  | SwapMainPanes string string
  | ResizeMainSplit string jsnum
  | ResizeFocusedMainPane focused_pane_resize
  | EqualizeMainPanes
  | ToggleMaximizeMainPane "string option"
  | ResetWorkspaceLayout

fun workspace_reduce :: "workspace_layout_state \<Rightarrow> main_action \<Rightarrow> workspace_layout_state option" where
  "workspace_reduce s (SetFocusedMainPane i) = Some (setFocusedMainPane i s)"
| "workspace_reduce s (SplitMainPane p) = Some (splitMainPane p s)"
| "workspace_reduce s (CloseMainPane i) = Some (closeMainPane i s)"
| "workspace_reduce s (AssignMainPaneAgent p) = Some (assignMainPaneAgent p s)"
| "workspace_reduce s (SetLayoutFromUrl p) = Some (setLayoutFromUrl p s)"
| "workspace_reduce s (MoveMainPane x y d) = Some (s\<lparr>tree := fst (movePaneInTree (tree s) x y d)\<rparr>)"
| "workspace_reduce s (SwapMainPanes a b) = Some (s\<lparr>tree := fst (swapPanesInTree (tree s) a b)\<rparr>)"
| "workspace_reduce s (ResizeMainSplit i q) = Some (s\<lparr>tree := resizeSplitInTree (tree s) i q\<rparr>)"
| "workspace_reduce s (ResizeFocusedMainPane c) = resizeFocusedMainPane c s"
| "workspace_reduce s EqualizeMainPanes = Some (s\<lparr>tree := equalizeTreeRatios (tree s)\<rparr>)"
| "workspace_reduce s (ToggleMaximizeMainPane i) = Some (s\<lparr>tree := toggleMaximizePaneInTree (tree s) i\<rparr>)"
| "workspace_reduce s ResetWorkspaceLayout =
     Some (s\<lparr>tree := createInitialMainTree NEW_PANE_AGENT_ID INITIAL_MAIN_PANE_ID None\<rparr>)"

section \<open>Selectors\<close>

definition selectFocusedMainAgentId :: "main_tree \<Rightarrow> string" where
  "selectFocusedMainAgentId t =
     (case leaf_agent t (focused_pane_id t) of
        Some a \<Rightarrow> a
      | None \<Rightarrow>
          (let first = first_id (getContentPaneIds t) in
           if truthy first then (case leaf_agent t (the first) of Some a \<Rightarrow> a | None \<Rightarrow> NEW_PANE_AGENT_ID)
           else NEW_PANE_AGENT_ID))"

definition selectMainPaneIds :: "main_tree \<Rightarrow> string list" where
  "selectMainPaneIds t = getContentPaneIds t"

definition selectMainLeafIds :: "main_tree \<Rightarrow> string list" where
  "selectMainLeafIds t =
     map (\<lambda>i. case leaf_agent t i of Some a \<Rightarrow> a | None \<Rightarrow> NEW_PANE_AGENT_ID) (getContentPaneIds t)"

definition selectMainAgentIds :: "main_tree \<Rightarrow> string list" where
  "selectMainAgentIds t =
     concat (map (\<lambda>i. case leaf_agent t i of
                        Some a \<Rightarrow> (if isRealAgentId (Some a) then [a] else [])
                      | None \<Rightarrow> []) (getContentPaneIds t))"

end
