(* ===== verification/Reducer.thy ===== *)
theory Reducer
  imports JsPrelude
begin

text \<open>
  The contract of a store slice: a reducer takes a state and an action to the next state
  (\<open>None\<close> when it does not return), and every admissible action keeps the invariant. The laws
  for whole runs are proved once here and each slice of the development interprets the locale.
\<close>

fun run_actions :: "('s \<Rightarrow> 'a \<Rightarrow> 's option) \<Rightarrow> 's \<Rightarrow> 'a list \<Rightarrow> 's option" where
  "run_actions step s [] = Some s"
| "run_actions step s (a # as) =
     (case step s a of None \<Rightarrow> None | Some s' \<Rightarrow> run_actions step s' as)"

lemma run_actions_append:
  "run_actions step s (as @ bs) =
     (case run_actions step s as of None \<Rightarrow> None | Some s' \<Rightarrow> run_actions step s' bs)"
  by (induction as arbitrary: s) (auto split: option.split)

locale reducer =
  fixes step :: "'s \<Rightarrow> 'a \<Rightarrow> 's option"
    and inv :: "'s \<Rightarrow> bool"
    and admissible :: "'a \<Rightarrow> bool"
    and init :: 's
  assumes init_inv: "inv init"
    and step_inv: "inv s \<Longrightarrow> admissible a \<Longrightarrow> \<exists>s'. step s a = Some s' \<and> inv s'"
begin

lemma step_keeps: "inv s \<Longrightarrow> admissible a \<Longrightarrow> step s a = Some s' \<Longrightarrow> inv s'"
  using step_inv by fastforce

lemma run_inv:
  "inv s \<Longrightarrow> list_all admissible as \<Longrightarrow> \<exists>s'. run_actions step s as = Some s' \<and> inv s'"
proof (induction as arbitrary: s)
  case (Cons a as)
  then obtain s' where "step s a = Some s'" "inv s'" using step_inv by fastforce
  with Cons show ?case by simp
qed simp

lemma reachable_inv:
  assumes "list_all admissible as"
  obtains s where "run_actions step init as = Some s" and "inv s"
  using run_inv [OF init_inv assms] by blast

end

end
