(* ===== verification/WorkspaceTree.thy ===== *)
theory WorkspaceTree
  imports Workspace PaneTreeRefine Reducer
begin

text \<open>
  The reducers of \<open>Workspace\<close> over abstract trees: what the lookups compute on a represented tree,
  how each reducer changes the multiset of open targets, and the invariant \<open>tree_ok\<close>.
\<close>

section \<open>Targets of a tree\<close>

abbreviation is_real :: "string \<Rightarrow> bool" where
  "is_real a \<equiv> isRealAgentId (Some a)"

definition targets :: "main_pane_value ptree \<Rightarrow> string list" where
  "targets t = map (agentInstanceId \<circ> snd) (leaves t)"

definition deduped :: "main_pane_value ptree \<Rightarrow> bool" where
  "deduped t = distinct (filter is_real (targets t))"

definition canonical_id :: "string \<Rightarrow> bool" where
  "canonical_id a = (normalizeAgentId (Some a) = a)"

definition tree_ok :: "main_tree \<Rightarrow> main_pane_value ptree \<Rightarrow> bool" where
  "tree_ok s t \<longleftrightarrow> represents s t
     \<and> focused_pane_id s \<in> set (leaf_ids t)
     \<and> (case maximized_pane_id s of None \<Rightarrow> True
        | Some m \<Rightarrow> m \<in> set (leaf_ids t) \<and> 1 < length (leaves t))
     \<and> list_all canonical_id (targets t) \<and> deduped t"

definition workspace_ok :: "workspace_layout_state \<Rightarrow> bool" where
  "workspace_ok s = (\<exists>t. tree_ok (tree s) t)"

lemma tree_okD:
  assumes "tree_ok s t"
  shows "represents s t" "good t" "focused_pane_id s \<in> set (leaf_ids t)" "deduped t"
    "\<And>a. a \<in> set (targets t) \<Longrightarrow> canonical_id a"
    "\<And>m. maximized_pane_id s = Some m \<Longrightarrow> m \<in> set (leaf_ids t) \<and> 1 < length (leaves t)"
  using assms by (auto simp: tree_ok_def represents_def list_all_iff)

lemma distinct_count_le: "distinct ys \<longleftrightarrow> (\<forall>a. count (mset ys) a \<le> 1)"
proof -
  have "(count (mset ys) a = (if a \<in> set ys then 1 else 0)) = (count (mset ys) a \<le> 1)" for a
  proof (cases "a \<in> set ys")
    case True
    then have "0 < count (mset ys) a" by simp
    with True show ?thesis by (simp only: if_True) linarith
  next
    case False
    then have c: "count (mset ys) a = 0" by (simp add: count_eq_zero_iff)
    show ?thesis using False by (simp only: c if_False) simp
  qed
  then show ?thesis by (simp only: distinct_count_atmost_1)
qed

lemma distinct_filter_count:
  "distinct (filter P xs) \<longleftrightarrow> (\<forall>a. P a \<longrightarrow> count (mset xs) a \<le> 1)"
  unfolding distinct_count_le mset_filter count_filter_mset by auto

lemma trim_new [simp]: "js_trim NEW_PANE_AGENT_ID = NEW_PANE_AGENT_ID"
  by (rule js_trim_no_space_id) (simp add: NEW_PANE_AGENT_ID_def is_js_space_def)

lemma new_nonempty [simp]: "NEW_PANE_AGENT_ID \<noteq> []"
  by (simp add: NEW_PANE_AGENT_ID_def)

lemma trim_normalize [simp]: "js_trim (normalizeAgentId i) = normalizeAgentId i"
  by (simp add: normalizeAgentId_def str_or_def)

lemma normalize_nonempty [simp]: "normalizeAgentId i \<noteq> []"
  by (simp add: normalizeAgentId_def str_or_def)

lemma canonical_iff: "canonical_id a \<longleftrightarrow> a \<noteq> [] \<and> js_trim a = a"
proof -
  have "normalizeAgentId (Some a) = (if js_trim a = [] then NEW_PANE_AGENT_ID else js_trim a)"
    by (simp add: normalizeAgentId_def str_or_def)
  then show ?thesis
    by (metis canonical_id_def js_trim_idem normalize_nonempty trim_normalize)
qed

lemma normalize_canonical [simp]: "canonical_id (normalizeAgentId i)"
  by (simp add: canonical_iff)

lemma canonical_new [simp]: "canonical_id NEW_PANE_AGENT_ID"
  by (simp add: canonical_iff)

lemma is_real_iff: "is_real a \<longleftrightarrow> a \<noteq> [] \<and> a \<noteq> NEW_PANE_AGENT_ID"
  by (simp add: isRealAgentId_def)

lemma not_real_new [simp]: "\<not> is_real NEW_PANE_AGENT_ID"
  by (simp add: isRealAgentId_def)

lemma agent_main_value [simp]: "agentInstanceId (main_value a i) = a"
  by (simp add: main_value_def)

text \<open>Everything about the open targets is read off the multiset of leaves.\<close>

definition target_mset :: "main_pane_value ptree \<Rightarrow> string multiset" where
  "target_mset t = mset (targets t)"

lemma target_mset_leaves: "target_mset t = image_mset (agentInstanceId \<circ> snd) (mset (leaves t))"
  by (simp add: target_mset_def targets_def)

lemma set_target_mset [simp]: "set_mset (target_mset t) = set (targets t)"
  by (simp add: target_mset_def)

lemma deduped_iff: "deduped t \<longleftrightarrow> (\<forall>a. is_real a \<longrightarrow> count (target_mset t) a \<le> 1)"
  by (simp add: deduped_def distinct_filter_count target_mset_def)

lemma leaf_target: "(k, v) \<in> set (leaves t) \<Longrightarrow> agentInstanceId v \<in> set (targets t)"
  by (force simp: targets_def)

section \<open>How the tree operations change the leaves\<close>

lemma wrap_leaf_idle: "x \<notin> set (ids t) \<Longrightarrow> wrap_leaf x f t = t"
  by (induction t) auto

lemma remove_outside: "x \<notin> set (ids t) \<Longrightarrow> remove_leaf x t = Some t"
  by (induction t) auto

lemma leaf_outside:
  "set (ids l) \<inter> set (ids r) = {} \<Longrightarrow> (x, v) \<in> set (leaves l) \<Longrightarrow> x \<notin> set (ids r)"
  "set (ids l) \<inter> set (ids r) = {} \<Longrightarrow> (x, v) \<in> set (leaves r) \<Longrightarrow> x \<notin> set (ids l)"
  by (auto dest: leaf_in_ids)

lemma mset_leaves_wrap:
  "good t \<Longrightarrow> (x, v) \<in> set (leaves t) \<Longrightarrow>
   mset (leaves (wrap_leaf x (new_node d p (PLeaf c w)) t)) = add_mset (c, w) (mset (leaves t))"
proof (induction t)
  case (PNode i a q l r)
  have disj: "set (ids l) \<inter> set (ids r) = {}" and g: "good l" "good r"
    using PNode.prems(1) by simp_all
  show ?case
  proof (cases "(x, v) \<in> set (leaves l)")
    case True
    with disj have "x \<notin> set (ids r)" by (rule leaf_outside)
    then have "wrap_leaf x (new_node d p (PLeaf c w)) r = r" by (rule wrap_leaf_idle)
    then show ?thesis using PNode.IH(1) [OF g(1) True] by simp
  next
    case False
    then have r: "(x, v) \<in> set (leaves r)" using PNode.prems(2) by simp
    with disj have "x \<notin> set (ids l)" by (rule leaf_outside)
    then have "wrap_leaf x (new_node d p (PLeaf c w)) l = l" by (rule wrap_leaf_idle)
    then show ?thesis using PNode.IH(2) [OF g(2) r] by simp
  qed
qed (simp add: new_node_def)

lemma mset_leaves_remove:
  "good t \<Longrightarrow> (x, v) \<in> set (leaves t) \<Longrightarrow> remove_leaf x t = Some t' \<Longrightarrow>
   mset (leaves t) = add_mset (x, v) (mset (leaves t'))"
proof (induction t arbitrary: t')
  case (PNode i a q l r)
  have disj: "set (ids l) \<inter> set (ids r) = {}" and g: "good l" "good r"
    using PNode.prems(1) by simp_all
  show ?case
  proof (cases "(x, v) \<in> set (leaves l)")
    case True
    with disj have "x \<notin> set (ids r)" by (rule leaf_outside)
    then have r: "remove_leaf x r = Some r" by (rule remove_outside)
    show ?thesis
    proof (cases "remove_leaf x l")
      case None
      then show ?thesis using PNode.prems True by (auto simp: remove_leaf_root)
    next
      case (Some l')
      then show ?thesis using PNode.IH(1) [OF g(1) True Some] PNode.prems(3) r by auto
    qed
  next
    case False
    then have xr: "(x, v) \<in> set (leaves r)" using PNode.prems(2) by simp
    with disj have "x \<notin> set (ids l)" by (rule leaf_outside)
    then have l: "remove_leaf x l = Some l" by (rule remove_outside)
    show ?thesis
    proof (cases "remove_leaf x r")
      case None
      then show ?thesis using PNode.prems xr l by (auto simp: remove_leaf_root)
    next
      case (Some r')
      then show ?thesis using PNode.IH(2) [OF g(2) xr Some] PNode.prems(3) l by auto
    qed
  qed
qed auto

fun swap_leaf :: "string \<times> 'v \<Rightarrow> string \<times> 'v \<Rightarrow> string \<times> 'v \<Rightarrow> string \<times> 'v" where
  "swap_leaf (a, va) (b, vb) (k, v) = (if k = a then (b, vb) else if k = b then (a, va) else (k, v))"

lemma leaves_exchange: "leaves (exchange (a, va) (b, vb) t) = map (swap_leaf (a, va) (b, vb)) (leaves t)"
  by (induction t) auto

lemma mset_leaves_exchange:
  assumes "good t" and a: "(a, va) \<in> set (leaves t)" and b: "(b, vb) \<in> set (leaves t)" and "a \<noteq> b"
  shows "mset (leaves (exchange (a, va) (b, vb) t)) = mset (leaves t)"
proof -
  let ?f = "swap_leaf (a, va) (b, vb)" and ?L = "leaves t"
  have d: "distinct (map fst ?L)" using assms(1) by (rule distinct_leaf_ids)
  have invol: "?f (?f x) = x" if "x \<in> set ?L" for x
  proof -
    note mem = that
    obtain k v where x: "x = (k, v)" by fastforce
    consider "k = a" "v = va" | "k = b" "v = vb" | "k \<noteq> a" "k \<noteq> b"
      using eq_key_imp_eq_value [OF d] a b mem unfolding x by blast
    then show ?thesis unfolding x using assms(4) by cases simp_all
  qed
  have "inj_on ?f (set ?L)" by (rule inj_on_inverseI [where g = ?f]) (rule invol)
  then have dist: "distinct (map ?f ?L)" using d by (simp add: distinct_map)
  have sub: "?f ` set ?L \<subseteq> set ?L" using a b by auto
  have "set ?L \<subseteq> ?f ` set ?L"
  proof
    fix x assume x: "x \<in> set ?L"
    with sub have "?f x \<in> set ?L" by blast
    then show "x \<in> ?f ` set ?L" using invol [OF x] by force
  qed
  with sub have "set (map ?f ?L) = set ?L" by auto
  moreover have "distinct ?L" using d by (simp add: distinct_map)
  ultimately have "mset (map ?f ?L) = mset ?L"
    using set_eq_iff_mset_eq_distinct [OF dist] by blast
  then show ?thesis by (simp only: leaves_exchange)
qed

text \<open>Writing the value of one leaf.\<close>

fun set_leaf :: "string \<Rightarrow> 'v \<Rightarrow> 'v ptree \<Rightarrow> 'v ptree" where
  "set_leaf x v (PLeaf i w) = (if i = x then PLeaf i v else PLeaf i w)"
| "set_leaf x v (PNode i a q l r) = PNode i a q (set_leaf x v l) (set_leaf x v r)"

lemma set_leaf_simps [simp]:
  "pid (set_leaf x v t) = pid t" "ids (set_leaf x v t) = ids t" "good (set_leaf x v t) = good t"
  "map fst (leaves (set_leaf x v t)) = map fst (leaves t)"
  by (induction t) auto

lemma set_leaf_idle: "x \<notin> set (ids t) \<Longrightarrow> set_leaf x v t = t"
  by (induction t) auto

lemma leaves_set_leaf: "leaves (set_leaf x v t) = map (\<lambda>(k, w). (k, if k = x then v else w)) (leaves t)"
  by (induction t) auto

lemma length_leaves_set_leaf [simp]: "length (leaves (set_leaf x v t)) = length (leaves t)"
  by (simp add: leaves_set_leaf)

lemma mset_leaves_set_leaf:
  "good t \<Longrightarrow> (x, w) \<in> set (leaves t) \<Longrightarrow>
   add_mset (x, w) (mset (leaves (set_leaf x v t))) = add_mset (x, v) (mset (leaves t))"
proof (induction t)
  case (PNode i a q l r)
  have disj: "set (ids l) \<inter> set (ids r) = {}" and g: "good l" "good r"
    using PNode.prems(1) by simp_all
  show ?case
  proof (cases "(x, w) \<in> set (leaves l)")
    case True
    with disj have "x \<notin> set (ids r)" by (rule leaf_outside)
    then show ?thesis using PNode.IH(1) [OF g(1) True] by (simp add: set_leaf_idle)
  next
    case False
    then have xr: "(x, w) \<in> set (leaves r)" using PNode.prems(2) by simp
    with disj have "x \<notin> set (ids l)" by (rule leaf_outside)
    then show ?thesis using PNode.IH(2) [OF g(2) xr] by (simp add: set_leaf_idle)
  qed
qed simp

lemma stored_set_leaf:
  "stored m t \<Longrightarrow> good t \<Longrightarrow> (x, w) \<in> set (leaves t) \<Longrightarrow>
   stored (m(x \<mapsto> Content v)) (set_leaf x v t)"
proof (induction t)
  case (PNode i a q l r)
  have disj: "set (ids l) \<inter> set (ids r) = {}" and g: "good l" "good r"
    and i: "i \<notin> set (ids l)" "i \<notin> set (ids r)" using PNode.prems(2) by simp_all
  have st: "stored m l" "stored m r" using PNode.prems(1) by simp_all
  have off: "stored (m(x \<mapsto> Content v)) u" if "x \<notin> set (ids u)" "stored m u" for u
    using that(2) by (rule stored_cong) (use that(1) in auto)
  have "x \<noteq> i" using PNode.prems(3) i by (auto dest: leaf_in_ids)
  show ?case
  proof (cases "(x, w) \<in> set (leaves l)")
    case True
    with disj have "x \<notin> set (ids r)" by (rule leaf_outside)
    then show ?thesis
      using PNode.IH(1) [OF st(1) g(1) True] \<open>x \<noteq> i\<close> PNode.prems(1) st off
      by (simp add: set_leaf_idle del: fun_upd_apply) simp
  next
    case False
    then have xr: "(x, w) \<in> set (leaves r)" using PNode.prems(3) by simp
    with disj have "x \<notin> set (ids l)" by (rule leaf_outside)
    then show ?thesis
      using PNode.IH(2) [OF st(2) g(2) xr] \<open>x \<noteq> i\<close> PNode.prems(1) st off
      by (simp add: set_leaf_idle del: fun_upd_apply) simp
  qed
qed simp

lemma put_content_represents:
  assumes "represents s t" and "(x, w) \<in> set (leaves t)"
  shows "represents (put_pane x (Content v) s) (set_leaf x v t)"
  using assms stored_set_leaf [of "obj_get (panes s)" t x w v]
  by (auto simp: represents_def dest: leaf_in_ids split: if_splits)

section \<open>Lookups on a represented tree\<close>

lemma leaf_agent_represents:
  assumes "represents s t"
  shows "leaf_agent s k = Some a \<longleftrightarrow> (\<exists>v. (k, v) \<in> set (leaves t) \<and> agentInstanceId v = a)"
proof -
  have "leaf_agent s k = Some a \<longleftrightarrow> (\<exists>v. pane_at s k = Some (Content v) \<and> agentInstanceId v = a)"
    by (auto simp: leaf_agent_def split: option.splits pane.splits)
  then show ?thesis by (simp add: represents_content [OF assms])
qed

lemma leaf_agent_leaf:
  "represents s t \<Longrightarrow> x \<in> set (leaves t) \<Longrightarrow> leaf_agent s (fst x) = Some (agentInstanceId (snd x))"
  by (cases x) (auto simp: leaf_agent_represents)

lemma leaf_targets_represents:
  assumes "represents s t"
  shows "leaf_targets s = targets t"
  unfolding leaf_targets_def targets_def content_ids_represents [OF assms] map_map
  by (rule map_cong) (simp_all add: leaf_agent_leaf [OF assms])

lemma selectMainLeafIds_represents: "represents s t \<Longrightarrow> selectMainLeafIds s = targets t"
  using leaf_targets_represents by (simp add: selectMainLeafIds_def leaf_targets_def)

lemma find_Some_D: "find P xs = Some x \<Longrightarrow> x \<in> set xs \<and> P x"
  by (auto simp: find_Some_iff)

lemma findPane_Some:
  assumes "represents s t" and "findPaneByAgent s a = Some k"
  shows "is_real a" and "\<exists>v. (k, v) \<in> set (leaves t) \<and> agentInstanceId v = a"
  using assms(2) leaf_agent_represents [OF assms(1), of k a]
  by (auto simp: findPaneByAgent_def dest: find_Some_D split: if_splits)

lemma findPane_None:
  assumes rep: "represents s t" and none: "findPaneByAgent s a = None" and "is_real a"
  shows "a \<notin> set (targets t)"
proof
  assume "a \<in> set (targets t)"
  then obtain k v where kv: "(k, v) \<in> set (leaves t)" "agentInstanceId v = a"
    by (auto simp: targets_def)
  then have "leaf_agent s k = Some a" using leaf_agent_represents [OF rep] by blast
  moreover have "k \<in> set (leaf_ids t)" using kv(1) by force
  moreover have "find (\<lambda>i. leaf_agent s i = Some a) (leaf_ids t) = None"
    using none assms(3) by (simp add: findPaneByAgent_def content_ids_represents [OF rep])
  ultimately show False unfolding find_None_iff by blast
qed

lemma resolveTarget_represents:
  assumes rep: "represents s t"
  obtains k where "resolveTargetPaneId s q = Some k" "k \<in> set (leaf_ids t)"
    "truthy q \<Longrightarrow> the q \<in> set (leaf_ids t) \<Longrightarrow> k = the q"
proof (cases "truthy q \<and> the q \<in> set (leaf_ids t)")
  case True
  moreover have "q = Some (the q)" using True by (cases q) auto
  ultimately show thesis
    by (intro that [of "the q"]) (auto simp: resolveTargetPaneId_def represents_is_content [OF rep])
next
  case False
  show thesis
  proof (cases "focused_pane_id s \<in> set (leaf_ids t)")
    case True
    with False show thesis
      by (intro that [of "focused_pane_id s"])
         (auto simp: resolveTargetPaneId_def represents_is_content [OF rep])
  next
    case nf: False
    have "leaf_ids t \<noteq> []" by simp
    then have hd: "hd (leaf_ids t) \<in> set (leaf_ids t)" by (rule hd_in_set)
    from False nf show thesis
      by (intro that [of "hd (leaf_ids t)"])
         (auto simp: resolveTargetPaneId_def represents_is_content [OF rep] content_ids_represents [OF rep]
           first_id_leaf hd [simplified])
  qed
qed

end
