(* ===== verification/WorkspaceInv.thy ===== *)
theory WorkspaceInv
  imports WorkspaceTree
begin

text \<open>
  The invariant of the workspace slice: every reducer of \<open>Workspace\<close> takes a state that stands for
  a tree with a valid focus, a valid maximized pane and no target open twice to such a state, and
  returns. The slice is an instance of the interface \<open>reducer\<close>.
\<close>

section \<open>Re-establishing the invariant\<close>

abbreviation max_ok :: "main_tree \<Rightarrow> main_pane_value ptree \<Rightarrow> bool" where
  "max_ok s t \<equiv> (case maximized_pane_id s of None \<Rightarrow> True
                 | Some m \<Rightarrow> m \<in> set (leaf_ids t) \<and> 1 < length (leaves t))"

lemma target_mset_simps:
  "mset (leaves t') = add_mset (k, v) (mset (leaves t)) \<Longrightarrow>
     target_mset t' = add_mset (agentInstanceId v) (target_mset t)"
  "mset (leaves t') = mset (leaves t) \<Longrightarrow> target_mset t' = target_mset t"
  by (simp_all add: target_mset_leaves)

lemma tree_ok_iff:
  "tree_ok s t \<longleftrightarrow> represents s t \<and> focused_pane_id s \<in> set (leaf_ids t) \<and> max_ok s t
     \<and> (\<forall>a \<in># target_mset t. canonical_id a)
     \<and> (\<forall>a. is_real a \<longrightarrow> count (target_mset t) a \<le> 1)"
  unfolding tree_ok_def deduped_iff by (simp add: list_all_iff)

lemma tree_ok_shrink:
  assumes "tree_ok s t" and "represents s' t'" and "focused_pane_id s' \<in> set (leaf_ids t')"
    and "max_ok s' t'" and sub: "target_mset t' \<subseteq># target_mset t"
  shows "tree_ok s' t'"
  using assms mset_subset_eqD [OF sub] mset_subset_eq_count [OF sub]
  unfolding tree_ok_iff by (meson order_trans)

lemma tree_ok_add:
  assumes "tree_ok s t" and "represents s' t'" and "focused_pane_id s' \<in> set (leaf_ids t')"
    and "max_ok s' t'" and t': "target_mset t' = add_mset a M" and sub: "M \<subseteq># target_mset t"
    and a: "canonical_id a" "is_real a \<Longrightarrow> a \<notin># M"
  shows "tree_ok s' t'"
proof -
  have "\<forall>b \<in># target_mset t'. canonical_id b"
    using assms(1) a(1) mset_subset_eqD [OF sub] by (auto simp: t' tree_ok_iff)
  moreover have "count (target_mset t') b \<le> 1" if "is_real b" for b
  proof (cases "b = a")
    case True
    with that a(2) have "count M b = 0" by (simp add: count_eq_zero_iff)
    with True show ?thesis by (simp add: t')
  next
    case False
    have "count M b \<le> count (target_mset t) b" using sub by (rule mset_subset_eq_count)
    with False that assms(1) show ?thesis by (auto simp: t' tree_ok_iff dest: order_trans)
  qed
  ultimately show ?thesis using assms(2-4) unfolding tree_ok_iff by blast
qed

lemma tree_ok_fresh:
  assumes "represents s (PLeaf i v)" and "focused_pane_id s = i" and "maximized_pane_id s = None"
    and "canonical_id (agentInstanceId v)"
  shows "tree_ok s (PLeaf i v)"
  using assms by (simp add: tree_ok_def targets_def deduped_def)

lemma initial_tree_ok:
  assumes "canonical_id a"
  obtains i where "tree_ok (createInitialMainTree a p q) (PLeaf i (main_value a q))"
proof
  let ?i = "str_or p ''pane-1''"
  have "represents (createInitialMainTree a p q) (PLeaf ?i (main_value a q))"
    by (auto simp: represents_def createInitialMainTree_def createPaneTreeState_def Let_def
        obj_ok_def str_or_def split: if_splits)
  then show "tree_ok (createInitialMainTree a p q) (PLeaf ?i (main_value a q))"
    by (rule tree_ok_fresh)
       (simp_all add: assms createInitialMainTree_def createPaneTreeState_def Let_def)
qed

lemma initial_workspace_ok: "workspace_ok initial_workspace"
  using initial_tree_ok [OF canonical_new, of INITIAL_MAIN_PANE_ID None]
  unfolding workspace_ok_def initial_workspace_def by force

section \<open>Focus and maximize\<close>

lemma tree_ok_focus:
  assumes "tree_ok s t" and "k \<in> set (leaf_ids t)"
  shows "tree_ok (s\<lparr>focused_pane_id := k\<rparr>) t"
  using assms by (simp add: tree_ok_def represents_def)

lemma tree_ok_maximize:
  assumes "tree_ok s t" and "\<And>m. q = Some m \<Longrightarrow> m \<in> set (leaf_ids t) \<and> 1 < length (leaves t)"
  shows "tree_ok (s\<lparr>maximized_pane_id := q\<rparr>) t"
  using assms by (cases q) (simp_all add: tree_ok_def represents_def)

lemma setFocused_ok:
  assumes "tree_ok (tree s) t"
  shows "tree_ok (tree (setFocusedMainPane i s)) t"
  using assms tree_ok_focus [OF assms, of i] represents_is_content [OF tree_okD(1) [OF assms], of i]
  by (simp add: setFocusedMainPane_def)

lemma toggleMaximize_ok:
  assumes "tree_ok s t"
  shows "tree_ok (toggleMaximizePaneInTree s q) t"
proof -
  let ?x = "if truthy q then the q else focused_pane_id s"
  have none: "tree_ok (s\<lparr>maximized_pane_id := None\<rparr>) t" using assms by (rule tree_ok_maximize) simp
  have "tree_ok (s\<lparr>maximized_pane_id := Some ?x, focused_pane_id := ?x\<rparr>) t"
    if "is_content (pane_at s ?x)" and "1 < length (getContentPaneIds s)"
  proof -
    have x: "?x \<in> set (leaf_ids t)"
      using that(1) represents_is_content [OF tree_okD(1) [OF assms]] by blast
    moreover have "1 < length (leaves t)"
      using that(2) by (simp add: content_ids_represents [OF tree_okD(1) [OF assms]])
    ultimately have "tree_ok (s\<lparr>maximized_pane_id := Some ?x\<rparr>) t"
      using assms by (intro tree_ok_maximize) auto
    then show ?thesis using x by (rule tree_ok_focus)
  qed
  with none show ?thesis unfolding toggleMaximizePaneInTree_def Let_def by simp
qed

section \<open>Splitting, closing, moving, swapping\<close>

lemma leaf_ids_mset: "mset (leaves t') = add_mset (k, v) (mset (leaves t)) \<Longrightarrow>
    set (leaf_ids t') = insert k (set (leaf_ids t)) \<and> length (leaves t') = Suc (length (leaves t))"
  by (metis image_insert list.set_map mset_eq_setD set_mset_add_mset_insert set_mset_mset fst_conv
      size_add_mset size_mset)

lemma leaf_ids_mset_eq: "mset (leaves t') = mset (leaves t) \<Longrightarrow>
    set (leaf_ids t') = set (leaf_ids t) \<and> length (leaves t') = length (leaves t)"
  by (metis list.set_map mset_eq_setD size_mset)

lemma split_ok:
  assumes ok: "tree_ok s t" and a: "canonical_id (agentInstanceId v)"
    and new: "is_real (agentInstanceId v) \<Longrightarrow> agentInstanceId v \<notin> set (targets t)"
    and res: "splitPaneInTree s x d v nid = (s', parent, child)"
  obtains t' where "tree_ok s' t'" "mset (leaves t') = add_mset (child, v) (mset (leaves t))"
    "focused_pane_id s' = child"
proof -
  note rep = tree_okD(1) [OF ok]
  obtain y w where y: "resolve_split_target s x = Some y" "(y, w) \<in> set (leaves t)"
    using resolve_split_target_leaf [OF rep] by blast
  note split = split_represents [OF rep y res]
  let ?t = "wrap_leaf y (new_node d parent (PLeaf child v)) t"
  have m: "mset (leaves ?t) = add_mset (child, v) (mset (leaves t))"
    by (rule mset_leaves_wrap [OF tree_okD(2) [OF ok] y(2)])
  have "max_ok s' ?t"
    using tree_okD(6) [OF ok] leaf_ids_mset [OF m] by (auto simp: split(7) split: option.split)
  moreover have "focused_pane_id s' \<in> set (leaf_ids ?t)"
    using leaf_ids_mset [OF m] by (simp only: split(6)) blast
  moreover have "agentInstanceId v \<notin># target_mset t" if "is_real (agentInstanceId v)"
    using new [OF that] by simp
  ultimately have "tree_ok s' ?t"
    using a by (intro tree_ok_add [OF ok split(1) _ _ target_mset_simps(1) [OF m] subset_mset.order_refl])
  then show thesis using m split(6) by (rule that)
qed

lemma leaf_id_non_empty: "represents s t \<Longrightarrow> k \<in> set (leaf_ids t) \<Longrightarrow> k \<noteq> []"
  using leaf_ids_subset [of t] by (auto simp: represents_def good_def)

lemma non_empty_leaf [simp]:
  assumes "represents s t" and "k \<in> set (leaf_ids t)"
  shows "non_empty (Some k) = Some k"
  using leaf_id_non_empty [OF assms] by simp

lemma splitMain_ok:
  assumes "tree_ok (tree s) t"
  obtains t' where "tree_ok (tree (splitMainPane p s)) t'"
proof (cases "findPaneByAgent (tree s) (normalizeAgentId (sp_agentInstanceId p))")
  case None
  let ?a = "normalizeAgentId (sp_agentInstanceId p)"
  obtain k where k: "resolveTargetPaneId (tree s) (sp_targetPaneId p) = Some k" "k \<noteq> []"
    using resolveTarget_represents [OF tree_okD(1) [OF assms]] leaf_id_non_empty [OF tree_okD(1) [OF assms]]
    by metis
  obtain s' parent child where res: "splitPaneInTree (tree s) k (sp_direction p)
      (main_value ?a (sp_launchIntent p)) (sp_newPaneId p) = (s', parent, child)"
    by (metis prod_cases3)
  have can: "canonical_id (agentInstanceId (main_value ?a (sp_launchIntent p)))" by simp
  have new: "agentInstanceId (main_value ?a (sp_launchIntent p)) \<notin> set (targets t)"
    if "is_real (agentInstanceId (main_value ?a (sp_launchIntent p)))"
    using that findPane_None [OF tree_okD(1) [OF assms] None] by simp
  obtain t' where "tree_ok s' t'" by (rule split_ok [OF assms can new res])
  moreover have "tree (splitMainPane p s) = s'"
    by (simp add: splitMainPane_def Let_def None k res)
  ultimately show thesis by (intro that) simp
next
  case (Some k)
  have "k \<in> set (leaf_ids t)"
    using findPane_Some(2) [OF tree_okD(1) [OF assms] Some] by force
  then show thesis using leaf_id_non_empty [OF tree_okD(1) [OF assms]]
    by (intro that [of t]) (simp add: splitMainPane_def Let_def Some tree_ok_focus [OF assms])
qed

lemma close_ok:
  assumes ok: "tree_ok s t" and leaf: "(x, v) \<in> set (leaves t)" and len: "1 < length (leaves t)"
  obtains s' t' where "closePaneInTree s x = (s', False)" "tree_ok s' t'"
    "mset (leaves t) = add_mset (x, v) (mset (leaves t'))"
proof -
  have inner: "x \<noteq> pid t" using leaf len tree_okD(2) [OF ok] by (cases t) (auto dest: leaf_in_ids)
  obtain s' t' where c: "closePaneInTree s x = (s', False)" "remove_leaf x t = Some t'" "represents s' t'"
    "focused_pane_id s' \<in> set (leaf_ids t')"
    "maximized_pane_id s' = (if maximized_pane_id s = Some x \<or> length (leaf_ids t') \<le> 1 then None
       else maximized_pane_id s)"
    using close_represents [OF tree_okD(1) [OF ok] leaf inner] by metis
  note m = mset_leaves_remove [OF tree_okD(2) [OF ok] leaf c(2)]
  have "max_ok s' t'"
    using tree_okD(6) [OF ok] leaf_ids_mset [OF m] by (auto simp: c(5) split: option.split)
  moreover have "target_mset t' \<subseteq># target_mset t" by (simp add: target_mset_simps(1) [OF m])
  ultimately have "tree_ok s' t'" using ok c(3,4) by (intro tree_ok_shrink [OF ok])
  with c(1) m show thesis by (intro that)
qed

lemma closeMain_ok:
  assumes ok: "tree_ok (tree s) t"
  obtains t' where "tree_ok (tree (closeMainPane i s)) t'"
proof (cases "i \<in> set (leaf_ids t)")
  case False
  then show thesis
    using represents_is_content [OF tree_okD(1) [OF ok]] by (intro that [of t]) (simp add: closeMainPane_def ok)
next
  case True
  then obtain v where v: "(i, v) \<in> set (leaves t)" by force
  have content: "is_content (pane_at (tree s) i)"
    using True represents_is_content [OF tree_okD(1) [OF ok]] by blast
  have ids: "getContentPaneIds (tree s) = leaf_ids t" by (rule content_ids_represents [OF tree_okD(1) [OF ok]])
  show thesis
  proof (cases "1 < length (leaves t)")
    case True
    obtain s' t' where c: "closePaneInTree (tree s) i = (s', False)" "tree_ok s' t'"
      using close_ok [OF ok v True] by metis
    have "getContentPaneIds s' \<noteq> []"
      by (simp add: content_ids_represents [OF tree_okD(1) [OF c(2)]])
    then show thesis
      using content c True by (intro that [of t']) (simp add: closeMainPane_def closePaneOrReset_def ids)
  next
    case False
    then show thesis
      using initial_tree_ok [OF canonical_new] that content
      by (auto simp: closeMainPane_def closePaneOrReset_def ids Let_def)
  qed
qed

lemma set_leaf_ok:
  assumes ok: "tree_ok s t" and leaf: "(k, w) \<in> set (leaves t)" and a: "canonical_id a"
    and new: "is_real a \<Longrightarrow> a \<notin># target_mset t - {# agentInstanceId w #}"
  shows "tree_ok (setPaneAgent s k a q) (set_leaf k (main_value a q) t)"
    and "target_mset (set_leaf k (main_value a q) t)
       = add_mset a (target_mset t - {# agentInstanceId w #})"
proof -
  let ?v = "main_value a q" and ?w = "agentInstanceId w"
  let ?t = "set_leaf k ?v t"
  have s': "setPaneAgent s k a q = put_pane k (Content ?v) s"
    using leaf represents_content [OF tree_okD(1) [OF ok], of k w] by (simp add: setPaneAgent_def)
  have "add_mset (k, w) (mset (leaves ?t)) = add_mset (k, ?v) (mset (leaves t))"
    by (rule mset_leaves_set_leaf [OF tree_okD(2) [OF ok] leaf])
  from arg_cong [OF this, of "image_mset (agentInstanceId \<circ> snd)"]
  have "add_mset ?w (target_mset ?t) = add_mset a (target_mset t)"
    by (simp add: target_mset_leaves del: mset_map)
  have w: "?w \<in># target_mset t" using leaf_target [OF leaf] by simp
  then have "target_mset ?t + {# ?w #} = add_mset a (target_mset t - {# ?w #}) + {# ?w #}"
    using \<open>add_mset ?w (target_mset ?t) = _\<close> by simp
  then show m: "target_mset ?t = add_mset a (target_mset t - {# ?w #})" by (simp only: add_right_cancel)
  show "tree_ok (setPaneAgent s k a q) ?t"
    unfolding s'
  proof (rule tree_ok_add [OF ok _ _ _ m])
    show "represents (put_pane k (Content ?v) s) ?t"
      by (rule put_content_represents [OF tree_okD(1) [OF ok] leaf])
    show "max_ok (put_pane k (Content ?v) s) ?t"
      using tree_okD(6) [OF ok] by (simp split: option.split)
  qed (use tree_okD(3) [OF ok] a new in simp_all)
qed

lemma assign_ok:
  assumes ok: "tree_ok (tree s) t"
  obtains t' where "tree_ok (tree (assignMainPaneAgent p s)) t'"
proof -
  note goal = that
  note rep = tree_okD(1) [OF ok]
  let ?a = "normalizeAgentId (Some (as_agentInstanceId p))"
  obtain k where k: "resolveTargetPaneId (tree s) (as_paneId p) = Some k" "k \<in> set (leaf_ids t)"
    using resolveTarget_represents [OF rep] by metis
  have kn: "k \<noteq> []" by (rule leaf_id_non_empty [OF rep k(2)])
  obtain w where w: "(k, w) \<in> set (leaves t)" using k(2) by force
  have put: thesis
    if found: "findPaneByAgent (tree s) ?a = None \<or> findPaneByAgent (tree s) ?a = Some k"
  proof -
    have "?a \<notin># target_mset t - {# agentInstanceId w #}" if real: "is_real ?a"
    proof (cases "findPaneByAgent (tree s) ?a")
      case None
      then have "?a \<notin># target_mset t" using findPane_None [OF rep None real] by simp
      then show ?thesis by (meson in_diffD)
    next
      case (Some j)
      with found have "findPaneByAgent (tree s) ?a = Some k" by simp
      from findPane_Some(2) [OF rep this] obtain v where v: "(k, v) \<in> set (leaves t)" "agentInstanceId v = ?a"
        by blast
      then have "v = w" using w distinct_leaf_ids [OF tree_okD(2) [OF ok]] by (metis eq_key_imp_eq_value)
      moreover have "count (target_mset t) ?a \<le> 1"
        using tree_okD(4) [OF ok] real unfolding deduped_iff by blast
      ultimately have "count (target_mset t - {# agentInstanceId w #}) ?a = 0"
        using v(2) by simp
      then show ?thesis by (simp only: not_in_iff)
    qed
    then have "tree_ok (setPaneAgent (tree s) k ?a (as_launchIntent p))
        (set_leaf k (main_value ?a (as_launchIntent p)) t)"
      by (intro set_leaf_ok(1) [OF ok w]) simp_all
    then have "tree_ok ((setPaneAgent (tree s) k ?a (as_launchIntent p))\<lparr>focused_pane_id := k\<rparr>)
        (set_leaf k (main_value ?a (as_launchIntent p)) t)"
      by (rule tree_ok_focus) (simp only: set_leaf_simps k(2))
    then show thesis
      using found kn by (intro goal) (auto simp: assignMainPaneAgent_def k(1) Let_def)
  qed
  show thesis
  proof (cases "findPaneByAgent (tree s) ?a = None \<or> findPaneByAgent (tree s) ?a = Some k")
    case False
    then obtain j where j: "findPaneByAgent (tree s) ?a = Some j" "j \<noteq> k"
      by (cases "findPaneByAgent (tree s) ?a") auto
    from findPane_Some(2) [OF rep j(1)] have jl: "j \<in> set (leaf_ids t)" by force
    have jn: "j \<noteq> []" by (rule leaf_id_non_empty [OF rep jl])
    show thesis
    proof (cases "leaf_agent (tree s) k = Some NEW_PANE_AGENT_ID \<and> 1 < length (getContentPaneIds (tree s))")
      case True
      then have len: "1 < length (leaves t)" by (simp add: content_ids_represents [OF rep])
      obtain s' t' where c: "closePaneInTree (tree s) k = (s', False)" "tree_ok s' t'"
        "mset (leaves t) = add_mset (k, w) (mset (leaves t'))"
        by (rule close_ok [OF ok w len])
      have "j \<in> set (leaf_ids t')" using leaf_ids_mset [OF c(3)] jl j(2) by blast
      then have "tree_ok (s'\<lparr>focused_pane_id := j\<rparr>) t'" by (rule tree_ok_focus [OF c(2)])
      then show thesis using True j c(1) kn jn
        by (intro that) (simp add: assignMainPaneAgent_def k(1) Let_def)
    next
      case False
      then show thesis using j kn jn tree_ok_focus [OF ok jl]
        by (intro that [of t]) (auto simp: assignMainPaneAgent_def k(1) Let_def)
    qed
  qed (rule put)
qed

lemma good_remove:
  "good t \<Longrightarrow> remove_leaf x t = Some t' \<Longrightarrow> good t' \<and> set (ids t') \<subseteq> set (ids t)"
proof (induction t arbitrary: t')
  case (PNode i a q l r)
  have g: "good l" "good r" using PNode.prems(1) by simp_all
  show ?case
  proof (cases "remove_leaf x l")
    case None
    then show ?thesis using PNode.prems by auto
  next
    case l: (Some l')
    show ?thesis
    proof (cases "remove_leaf x r")
      case None
      then show ?thesis using PNode.prems l by auto
    next
      case (Some r')
      note IH = PNode.IH(1) [OF g(1) l] PNode.IH(2) [OF g(2) Some]
      have t': "t' = PNode i a q l' r'" using PNode.prems(2) l Some by simp
      have "set (ids l') \<inter> set (ids r') = {}" using PNode.prems(1) IH by (simp add: disjoint_iff) blast
      then show ?thesis unfolding t' using PNode.prems(1) IH by (simp add: subset_iff) blast
    qed
  qed
qed (auto split: if_splits)

lemma move_ok:
  assumes ok: "tree_ok s t"
  obtains t' where "tree_ok (fst (movePaneInTree s x y d)) t'" "target_mset t' = target_mset t"
proof (cases "x \<noteq> y \<and> x \<in> set (leaf_ids t) \<and> y \<in> set (leaf_ids t)")
  case True
  then obtain v w where x: "(x, v) \<in> set (leaves t)" and y: "(y, w) \<in> set (leaves t)" by force
  from True have neq: "x \<noteq> y" by blast
  obtain s' t' parent where mv: "movePaneInTree s x y d = (s', True)" "remove_leaf x t = Some t'"
    "represents s' (wrap_leaf y (new_node d parent (PLeaf x v)) t')" "focused_pane_id s' = x"
    "maximized_pane_id s' = (if truthy (maximized_pane_id s) then None else maximized_pane_id s)"
    using move_represents [OF tree_okD(1) [OF ok] x y neq] by metis
  let ?t = "wrap_leaf y (new_node d parent (PLeaf x v)) t'"
  note rm = mset_leaves_remove [OF tree_okD(2) [OF ok] x mv(2)]
  have g: "good t'" using good_remove [OF tree_okD(2) [OF ok] mv(2)] by blast
  have "(y, w) \<in># add_mset (x, v) (mset (leaves t'))" unfolding rm [symmetric] using y by simp
  then have yl: "(y, w) \<in> set (leaves t')" using neq by simp
  have m: "mset (leaves ?t) = mset (leaves t)"
    using mset_leaves_wrap [OF g yl] rm by simp
  have "max_ok s' ?t"
    using tree_okD(6) [OF ok] leaf_ids_mset_eq [OF m] by (simp add: mv(5) split: option.split)
  moreover have "focused_pane_id s' \<in> set (leaf_ids ?t)"
    using True leaf_ids_mset_eq [OF m] by (simp only: mv(4))
  moreover have "target_mset ?t \<subseteq># target_mset t"
    by (simp only: target_mset_simps(2) [OF m] subset_mset.order_refl)
  ultimately have "tree_ok s' ?t" by (intro tree_ok_shrink [OF ok mv(3)])
  then show thesis using target_mset_simps(2) [OF m] by (intro that [of ?t]) (simp_all add: mv(1))
next
  case False
  then have "fst (movePaneInTree s x y d) = s"
    using represents_is_content [OF tree_okD(1) [OF ok]] by (auto simp: movePaneInTree_def)
  then show thesis using ok by (intro that [of t]) simp_all
qed

lemma swap_ok:
  assumes ok: "tree_ok s t"
  obtains t' where "tree_ok (fst (swapPanesInTree s a b)) t'" "target_mset t' = target_mset t"
proof (cases "a \<noteq> b \<and> a \<in> set (leaf_ids t) \<and> b \<in> set (leaf_ids t)")
  case True
  then obtain va vb where a: "(a, va) \<in> set (leaves t)" and b: "(b, vb) \<in> set (leaves t)" by force
  from True have neq: "a \<noteq> b" by blast
  obtain s' where sw: "swapPanesInTree s a b = (s', True)" "represents s' (exchange (a, va) (b, vb) t)"
    "focused_pane_id s' = focused_pane_id s" "maximized_pane_id s' = maximized_pane_id s"
    using swap_represents [OF tree_okD(1) [OF ok] a b neq] by metis
  let ?t = "exchange (a, va) (b, vb) t"
  have m: "mset (leaves ?t) = mset (leaves t)"
    by (rule mset_leaves_exchange [OF tree_okD(2) [OF ok] a b neq])
  have "max_ok s' ?t"
    using tree_okD(6) [OF ok] leaf_ids_mset_eq [OF m] by (simp add: sw(4) split: option.split)
  moreover have "focused_pane_id s' \<in> set (leaf_ids ?t)"
    using tree_okD(3) [OF ok] leaf_ids_mset_eq [OF m] by (simp only: sw(3))
  moreover have "target_mset ?t \<subseteq># target_mset t"
    by (simp only: target_mset_simps(2) [OF m] subset_mset.order_refl)
  ultimately have "tree_ok s' ?t" by (intro tree_ok_shrink [OF ok sw(2)])
  then show thesis using target_mset_simps(2) [OF m] by (intro that [of ?t]) (simp_all add: sw(1))
next
  case False
  then have "fst (swapPanesInTree s a b) = s"
    using represents_is_content [OF tree_okD(1) [OF ok]] by (auto simp: swapPanesInTree_def)
  then show thesis using ok by (intro that [of t]) simp_all
qed

section \<open>Resizing\<close>

lemma ratio_ok:
  assumes ok: "tree_ok s t" and rep: "represents s' (map_ratio f t)"
    and "focused_pane_id s' = focused_pane_id s" "maximized_pane_id s' = maximized_pane_id s"
  shows "tree_ok s' (map_ratio f t)"
  using assms by (simp add: tree_ok_def targets_def deduped_def split: option.splits)

lemma resizeSplit_frame [simp]:
  "focused_pane_id (resizeSplitInTree s i q) = focused_pane_id s"
  "maximized_pane_id (resizeSplitInTree s i q) = maximized_pane_id s"
  by (auto simp: resizeSplitInTree_def split: option.split pane.split jsnum.split)

lemma resize_not_finite: "\<not> is_finite q \<Longrightarrow> resizeSplitInTree s i q = s"
  by (cases q) (auto simp: resizeSplitInTree_def split: option.split pane.split)

lemma resize_ok:
  assumes ok: "tree_ok s t"
  obtains t' where "tree_ok (resizeSplitInTree s i q) t'" "leaves t' = leaves t"
proof (cases q)
  case (Fin r)
  then show thesis
    using ratio_ok [OF ok resize_represents [OF tree_okD(1) [OF ok], of i r]]
    by (intro that [of "map_ratio (\<lambda>k q. if k = i then Fin (clamp_ratio r) else q) t"]) auto
qed (use ok in \<open>auto simp: resize_not_finite intro: that\<close>)

lemma equalize_ok:
  assumes ok: "tree_ok s t"
  shows "tree_ok (equalizeTreeRatios s) (map_ratio (\<lambda>_ _. Fin 50) t)"
  by (rule ratio_ok [OF ok equalize_represents [OF tree_okD(1) [OF ok]]])
     (simp_all add: equalizeTreeRatios_def)

text \<open>
  The split that resizing a pane acts on, read off the tree from the root down: the last split of
  the axis on the path to the pane, and the side the path takes there.
\<close>

fun nearest_split :: "axis \<Rightarrow> string \<Rightarrow> 'v ptree \<Rightarrow> (string \<times> side \<times> jsnum) option" where
  "nearest_split ax x (PLeaf i v) = None"
| "nearest_split ax x (PNode i a q l r) =
     (if x \<in> set (ids l) then
        (case nearest_split ax x l of Some z \<Rightarrow> Some z
         | None \<Rightarrow> if a = ax then Some (i, LeftSide, q) else None)
      else if x \<in> set (ids r) then
        (case nearest_split ax x r of Some z \<Rightarrow> Some z
         | None \<Rightarrow> if a = ax then Some (i, RightSide, q) else None)
      else None)"

lemma nearest_root [simp]: "good t \<Longrightarrow> nearest_split ax (pid t) t = None"
  by (cases t) auto

lemma nearest_outside: "x \<notin> set (ids t) \<Longrightarrow> nearest_split ax x t = None"
  by (cases t) auto

lemma parent_Some_in: "parent_of x t = Some (p, sd) \<Longrightarrow> x \<in> set (ids t)"
  by (metis option.distinct(1) parent_of_outside)

lemma parent_of_PNode_cases:
  assumes "parent_of x (PNode i a q l r) = Some (p, sd)"
  obtains "x = pid l" "p = i" "sd = LeftSide"
    | "x = pid r" "x \<noteq> pid l" "p = i" "sd = RightSide"
    | "parent_of x l = Some (p, sd)"
    | "parent_of x l = None" "parent_of x r = Some (p, sd)"
proof (cases "pid l = x")
  case True
  then show thesis using assms that(1) by (simp add: parent_of_PNode)
next
  case nl: False
  show thesis
  proof (cases "pid r = x")
    case True
    then show thesis using assms nl that(2) by (simp add: parent_of_PNode)
  next
    case False
    then show thesis using assms nl that(3,4)
      by (cases "parent_of x l") (simp_all add: parent_of_PNode)
  qed
qed

lemma nearest_step:
  "stored m t \<Longrightarrow> good t \<Longrightarrow> parent_of x t = Some (p, sd) \<Longrightarrow>
   \<exists>a lc rc q. m p = Some (Split a lc rc q)
     \<and> nearest_split ax x t = (if a = ax then Some (p, sd, q) else nearest_split ax p t)"
proof (induction t)
  case (PNode i a q l r)
  have g: "good l" "good r" and st: "stored m l" "stored m r"
    and i: "m i = Some (Split a (pid l) (pid r) q)" "i \<notin> set (ids l)" "i \<notin> set (ids r)"
    and disj: "set (ids l) \<inter> set (ids r) = {}"
    using PNode.prems(1,2) by simp_all
  show ?case
  proof (cases rule: parent_of_PNode_cases [OF PNode.prems(3)])
    case 1
    then show ?thesis using i g by simp
  next
    case 2
    then have "x \<notin> set (ids l)" using disj pid_in_ids [of r] by blast
    with 2 show ?thesis using i g by simp
  next
    case 3
    have "x \<in> set (ids l)" "p \<in> set (ids l)"
      using 3 parent_Some_in parent_of_in_ids by blast+
    moreover obtain a' lc rc q' where "m p = Some (Split a' lc rc q')"
      "nearest_split ax x l = (if a' = ax then Some (p, sd, q') else nearest_split ax p l)"
      using PNode.IH(1) [OF st(1) g(1) 3] by blast
    ultimately show ?thesis by simp
  next
    case 4
    have xr: "x \<in> set (ids r)" "p \<in> set (ids r)"
      using 4(2) parent_Some_in parent_of_in_ids by blast+
    then have "x \<notin> set (ids l)" "p \<notin> set (ids l)" using disj by blast+
    moreover obtain a' lc rc q' where "m p = Some (Split a' lc rc q')"
      "nearest_split ax x r = (if a' = ax then Some (p, sd, q') else nearest_split ax p r)"
      using PNode.IH(2) [OF st(2) g(2) 4(2)] by blast
    ultimately show ?thesis using xr by simp
  qed
qed simp

fun depth_of :: "string \<Rightarrow> 'v ptree \<Rightarrow> nat" where
  "depth_of x (PLeaf i v) = 0"
| "depth_of x (PNode i a q l r) =
     (if x = i then 0
      else if x \<in> set (ids l) then Suc (depth_of x l) else Suc (depth_of x r))"

lemma depth_root [simp]: "depth_of (pid t) t = 0"
  by (cases t) auto

lemma parent_depth:
  "good t \<Longrightarrow> parent_of x t = Some (p, sd) \<Longrightarrow> depth_of x t = Suc (depth_of p t)"
proof (induction t)
  case (PNode i a q l r)
  have g: "good l" "good r" and i: "i \<notin> set (ids l)" "i \<notin> set (ids r)"
    and disj: "set (ids l) \<inter> set (ids r) = {}"
    using PNode.prems(1) by simp_all
  show ?case
  proof (cases rule: parent_of_PNode_cases [OF PNode.prems(2)])
    case 1
    then show ?thesis using i by auto
  next
    case 2
    then have "x \<notin> set (ids l)" using disj pid_in_ids [of r] by blast
    with 2 show ?thesis using i by auto
  next
    case 3
    have "x \<in> set (ids l)" "p \<in> set (ids l)"
      using 3 parent_Some_in parent_of_in_ids by blast+
    then show ?thesis using PNode.IH(1) [OF g(1) 3] i by auto
  next
    case 4
    have xr: "x \<in> set (ids r)" "p \<in> set (ids r)"
      using 4(2) parent_Some_in parent_of_in_ids by blast+
    then have "x \<notin> set (ids l)" "p \<notin> set (ids l)" using disj by blast+
    then show ?thesis using xr i PNode.IH(2) [OF g(2) 4(2)] by auto
  qed
qed simp

lemma nearest_represents:
  assumes rep: "represents s t"
  shows "x \<in> set (ids t) \<Longrightarrow> nearestResizeSplit s x ax = Some (nearest_split ax x t)"
proof (induction "depth_of x t" arbitrary: x rule: less_induct)
  case less
  have g: "good t" and st: "stored (obj_get (panes s)) t" and rt: "root_pane_id s = pid t"
    using rep by (simp_all add: represents_def)
  show ?case
  proof (cases "x = pid t")
    case True
    then show ?thesis using g rt by (subst nearestResizeSplit.simps) simp
  next
    case False
    then obtain p sd where p: "parent_of x t = Some (p, sd)" using parent_of_inner less.prems by blast
    obtain a lc rc q where n: "pane_at s p = Some (Split a lc rc q)"
      "nearest_split ax x t = (if a = ax then Some (p, sd, q) else nearest_split ax p t)"
      using nearest_step [OF st g p] by blast
    have "nearestResizeSplit s p ax = Some (nearest_split ax p t)"
      using less.hyps parent_depth [OF g p] parent_of_in_ids [OF p] by simp
    then show ?thesis using False rt n p
      by (subst nearestResizeSplit.simps) (simp add: represents_location [OF rep])
  qed
qed

lemma resizeFocused_ok:
  assumes ok: "tree_ok (tree s) t"
  obtains s' t' where "resizeFocusedMainPane c s = Some s'" "tree_ok (tree s') t'" "leaves t' = leaves t"
proof -
  have "focused_pane_id (tree s) \<in> set (ids t)"
    using tree_okD(3) [OF ok] leaf_ids_subset by blast
  then have n: "nearestResizeSplit (tree s) (focused_pane_id (tree s)) (resize_axis c)
      = Some (nearest_split (resize_axis c) (focused_pane_id (tree s)) t)"
    by (rule nearest_represents [OF tree_okD(1) [OF ok]])
  show thesis
  proof (cases "nearest_split (resize_axis c) (focused_pane_id (tree s)) t")
    case None
    then show thesis using ok n by (intro that [of s t]) (simp_all add: resizeFocusedMainPane_def)
  next
    case (Some z)
    then obtain i sd q where z: "nearest_split (resize_axis c) (focused_pane_id (tree s)) t = Some (i, sd, q)"
      by (cases z) auto
    obtain t' where "tree_ok (resizeSplitInTree (tree s) i (js_add q (resize_delta c sd))) t'"
      "leaves t' = leaves t" by (rule resize_ok [OF ok])
    then show thesis using n z
      by (intro that [of "s\<lparr>tree := resizeSplitInTree (tree s) i (js_add q (resize_delta c sd))\<rparr>" t'])
         (simp_all add: resizeFocusedMainPane_def)
  qed
qed

end
