(* ===== verification/WorkspaceUrl.thy ===== *)
theory WorkspaceUrl
  imports WorkspaceInv
begin

text \<open>
  The URL side of the workspace: the default geometry for a list of targets, the sanitizer of
  persisted trees, and \<open>setLayoutFromUrl\<close>, after which the open targets are those of the URL.
\<close>

section \<open>Default geometry\<close>

fun default_tree :: "nat \<Rightarrow> string list \<Rightarrow> main_pane_value ptree" where
  "default_tree start [] = PLeaf [] (main_value [] None)"
| "default_tree start [i] = PLeaf (pane_id ''pane'' (start + 1)) (main_value i None)"
| "default_tree start (i # j # r) =
     PNode (pane_id ''split'' (start + 1)) Horizontal (Fin (100 / of_nat (Suc (Suc (length r)))))
       (PLeaf (pane_id ''pane'' (start + 1)) (main_value i None))
       (default_tree (start + 1) (j # r))"

lemma pane_id_nonempty [simp]: "pane_id p n \<noteq> []"
  by (simp add: pane_id_def)

lemma pane_split_distinct [simp]: "pane_id ''pane'' m \<noteq> pane_id ''split'' n" "pane_id ''split'' n \<noteq> pane_id ''pane'' m"
  by (simp_all add: pane_id_def)

lemma default_tree_ids:
  "agents \<noteq> [] \<Longrightarrow> k \<in> set (ids (default_tree start agents)) \<Longrightarrow>
   \<exists>m > start. k = pane_id ''pane'' m \<or> k = pane_id ''split'' m"
proof (induction start agents rule: default_tree.induct)
  case (2 start i)
  then show ?case by auto
next
  case (3 start i j r)
  then show ?case by (fastforce dest: Suc_lessD)
qed simp

lemma default_tree_fresh:
  "agents \<noteq> [] \<Longrightarrow> m \<le> start \<Longrightarrow>
   pane_id ''pane'' m \<notin> set (ids (default_tree start agents))
   \<and> pane_id ''split'' m \<notin> set (ids (default_tree start agents))"
  using default_tree_ids [of agents "pane_id ''pane'' m" start]
    default_tree_ids [of agents "pane_id ''split'' m" start]
  by (auto simp: pane_id_inj)

lemma default_tree_good: "agents \<noteq> [] \<Longrightarrow> good (default_tree start agents)"
proof (induction start agents rule: default_tree.induct)
  case (3 start i j r)
  then show ?case using default_tree_fresh [of "j # r" "start + 1" "start + 1"] by simp
qed simp_all

lemma default_tree_leaves:
  "agents \<noteq> [] \<Longrightarrow> map (agentInstanceId \<circ> snd) (leaves (default_tree start agents)) = agents"
  by (induction start agents rule: default_tree.induct) simp_all

lemma build_splits_stored:
  "agents \<noteq> [] \<Longrightarrow> build_splits start agents ps = (ps', rt) \<Longrightarrow> obj_ok ps \<Longrightarrow>
   rt = pid (default_tree start agents) \<and> obj_ok ps' \<and> stored (obj_get ps') (default_tree start agents)
   \<and> (\<forall>k. k \<notin> set (ids (default_tree start agents)) \<longrightarrow> obj_get ps' k = obj_get ps k)"
proof (induction start agents arbitrary: ps ps' rt rule: default_tree.induct)
  case (2 start i)
  then show ?case by (auto simp: Let_def)
next
  case (3 start i j r)
  let ?pane = "pane_id ''pane'' (start + 1)" and ?split = "pane_id ''split'' (start + 1)"
  let ?ps1 = "obj_set ps ?pane (Content (main_value i None))"
  let ?T = "default_tree (start + 1) (j # r)"
  obtain ps2 right where b: "build_splits (start + 1) (j # r) ?ps1 = (ps2, right)" by fastforce
  have IH: "right = pid ?T" "obj_ok ps2" "stored (obj_get ps2) ?T"
    "\<And>k. k \<notin> set (ids ?T) \<Longrightarrow> obj_get ps2 k = obj_get ?ps1 k"
    using "3.IH" [OF _ b] "3.prems"(3) by simp_all
  have fresh: "?pane \<notin> set (ids ?T)" "?split \<notin> set (ids ?T)"
    using default_tree_fresh [of "j # r" "start + 1" "start + 1"] by auto
  have ps': "ps' = obj_set ps2 ?split (Split Horizontal ?pane right (Fin (100 / of_nat (Suc (Suc (length r))))))"
    "rt = ?split" using "3.prems"(2) b by (auto simp: Let_def)
  have "stored (obj_get ps') ?T"
    by (rule stored_cong [OF IH(3)]) (use fresh in \<open>auto simp: ps'\<close>)
  moreover have "obj_get ps' ?split
      = Some (Split Horizontal ?pane (pid ?T) (Fin (100 / of_nat (Suc (Suc (length r))))))"
    "obj_get ps' ?pane = Some (Content (main_value i None))" "obj_ok ps'"
    using IH fresh by (simp_all add: ps')
  moreover have "obj_get ps' k = obj_get ps k"
    if "k \<notin> set (ids (default_tree start (i # j # r)))" for k
    using that IH(4) by (simp add: ps')
  ultimately show ?case using ps'(2) by simp
qed simp

lemma build_default_represents:
  assumes "agents \<noteq> []"
  obtains s where "buildDefaultSplitTree agents = Some s" "represents s (default_tree 0 agents)"
    "focused_pane_id s = ''pane-1''" "maximized_pane_id s = None"
proof -
  obtain ps rt where b: "build_splits 0 agents [] = (ps, rt)" by fastforce
  let ?s = "\<lparr>root_pane_id = rt, panes = ps, focused_pane_id = ''pane-1'', maximized_pane_id = None\<rparr>"
  note st = build_splits_stored [OF assms b]
  have "represents ?s (default_tree 0 agents)"
    unfolding represents_def using st default_tree_good [OF assms] by fastforce
  moreover have "buildDefaultSplitTree agents = Some ?s"
    by (simp add: buildDefaultSplitTree_def assms b)
  ultimately show thesis by (intro that) auto
qed

lemma default_first_leaf:
  "agents \<noteq> [] \<Longrightarrow> pane_id ''pane'' (start + 1) \<in> set (leaf_ids (default_tree start agents))"
  by (induction start agents rule: default_tree.induct) simp_all

lemma pane_1: "pane_id ''pane'' (0 + 1) = ''pane-1''"
  by code_simp

section \<open>The sanitizer\<close>

text \<open>What the visit keeps: canonical targets, each real one in one entry and in \<open>seen\<close>.\<close>

definition visit_ok :: "visit_state \<Rightarrow> bool" where
  "visit_ok st \<longleftrightarrow> obj_ok (fst st)
     \<and> (\<forall>k v. obj_get (fst st) k = Some (Content v) \<longrightarrow> canonical_id (agentInstanceId v)
          \<and> (is_real (agentInstanceId v) \<longrightarrow> agentInstanceId v \<in> snd st))
     \<and> (\<forall>k j v w. obj_get (fst st) k = Some (Content v) \<longrightarrow> obj_get (fst st) j = Some (Content w)
          \<longrightarrow> agentInstanceId v = agentInstanceId w \<longrightarrow> is_real (agentInstanceId v) \<longrightarrow> k = j)"

lemma visit_ok_split: "visit_ok (ps, seen) \<Longrightarrow> visit_ok (obj_set ps i (Split a lc rc q), seen)"
  unfolding visit_ok_def by simp

lemma sanitize_content_spec:
  assumes "sanitize_content node seen = (v, seen')"
  shows "canonical_id (agentInstanceId v)" and "seen \<subseteq> seen'"
    and "is_real (agentInstanceId v) \<Longrightarrow> agentInstanceId v \<notin> seen \<and> agentInstanceId v \<in> seen'"
  using assms unfolding sanitize_content_def Let_def
  by (auto split: if_splits)

lemma visit_ok_content:
  assumes ok: "visit_ok (ps, seen)" and c: "sanitize_content node seen = (v, seen')"
    and "obj_get ps i = None"
  shows "visit_ok (obj_set ps i (Content v), seen')"
proof -
  note sp = sanitize_content_spec [OF c]
  have old: "obj_get ps k = Some (Content w) \<Longrightarrow> canonical_id (agentInstanceId w)
      \<and> (is_real (agentInstanceId w) \<longrightarrow> agentInstanceId w \<in> seen)" for k w
    using ok by (auto simp: visit_ok_def)
  have uniq: "obj_get ps k = Some (Content u) \<Longrightarrow> obj_get ps j = Some (Content w) \<Longrightarrow>
      agentInstanceId u = agentInstanceId w \<Longrightarrow> is_real (agentInstanceId u) \<Longrightarrow> k = j" for k j u w
    using ok unfolding visit_ok_def by (simp only: fst_conv snd_conv)
  show ?thesis
    unfolding visit_ok_def fst_conv snd_conv
  proof (intro conjI allI impI)
    show "obj_ok (obj_set ps i (Content v))" using ok by (simp add: visit_ok_def)
  next
    fix k w assume "obj_get (obj_set ps i (Content v)) k = Some (Content w)"
    then show "canonical_id (agentInstanceId w)" using old sp(1) by (auto split: if_splits)
  next
    fix k w assume "obj_get (obj_set ps i (Content v)) k = Some (Content w)" "is_real (agentInstanceId w)"
    then show "agentInstanceId w \<in> seen'" using old sp(2,3) by (auto split: if_splits)
  next
    fix k j u w
    assume k: "obj_get (obj_set ps i (Content v)) k = Some (Content u)"
      and j: "obj_get (obj_set ps i (Content v)) j = Some (Content w)"
      and eq: "agentInstanceId u = agentInstanceId w" and real: "is_real (agentInstanceId u)"
    show "k = j"
    proof (cases "k = i"; cases "j = i")
      assume "k = i" "j \<noteq> i"
      then have "u = v" "obj_get ps j = Some (Content w)" using k j by simp_all
      then show ?thesis using old [of j w] sp(3) eq real by metis
    next
      assume "k \<noteq> i" "j = i"
      then have "w = v" "obj_get ps k = Some (Content u)" using k j by simp_all
      then show ?thesis using old [of k u] sp(3) eq real by metis
    next
      assume "k \<noteq> i" "j \<noteq> i"
      then show ?thesis using k j eq real uniq [of k u j w] by simp
    qed simp
  qed
qed

text \<open>One call of the visit: it keeps the state, records a split and descends, or records a leaf.\<close>

lemma has_key_new: "\<not> has_key ps k \<Longrightarrow> obj_get ps k = None"
  by (simp add: has_key_def)

lemma sanitize_visit_cases:
  obtains (kept) "sanitize_visit raw i depth (ps, seen) = (ps, seen)"
  | (split) node lc rc where "i \<noteq> []" "obj_get ps i = None" "depth \<le> 64" "map_of raw i = Some node"
      "js_is_object node" "js_prop (Some node) ''kind'' = Some (JStr ''split'')"
      "js_prop (Some node) ''leftChildId'' = Some (JStr lc)"
      "js_prop (Some node) ''rightChildId'' = Some (JStr rc)"
      "sanitize_visit raw i depth (ps, seen) = sanitize_visit raw rc (depth + 1)
         (sanitize_visit raw lc (depth + 1) (obj_set ps i (sanitize_split node lc rc), seen))"
  | (content) node v seen' where "i \<noteq> []" "obj_get ps i = None" "depth \<le> 64" "map_of raw i = Some node"
      "js_is_object node" "js_prop (Some node) ''kind'' = Some (JStr ''content'')"
      "sanitize_content node seen = (v, seen')"
      "sanitize_visit raw i depth (ps, seen) = (obj_set ps i (Content v), seen')"
proof (cases "i = [] \<or> has_key ps i \<or> 64 < depth \<or> map_of raw i = None")
  case True
  then show thesis using kept by (auto simp: sanitize_visit.simps)
next
  case False
  then obtain node where n: "map_of raw i = Some node" "i \<noteq> []" "\<not> has_key ps i"
    "obj_get ps i = None" "depth \<le> 64" using has_key_new by auto
  note unf = sanitize_visit.simps [of raw i depth ps seen]
  let ?kind = "js_prop (Some node) ''kind''"
  let ?l = "js_string (js_prop (Some node) ''leftChildId'')"
  let ?r = "js_string (js_prop (Some node) ''rightChildId'')"
  consider "\<not> js_is_object node" | "js_is_object node" "?kind = Some (JStr ''split'')" "?l = None \<or> ?r = None"
    | lc rc where "js_is_object node" "?kind = Some (JStr ''split'')" "?l = Some lc" "?r = Some rc"
    | "js_is_object node" "?kind = Some (JStr ''content'')"
    | "js_is_object node" "?kind \<noteq> Some (JStr ''split'')" "?kind \<noteq> Some (JStr ''content'')"
    by (metis not_None_eq)
  then show thesis
  proof cases
    case 1
    then show thesis using n unf kept by simp
  next
    case 2
    then show thesis using n unf kept by (auto split: option.splits)
  next
    case (3 lc rc)
    then show thesis using n unf by (intro split [of node lc rc]) simp_all
  next
    case 4
    obtain v seen' where "sanitize_content node seen = (v, seen')" by fastforce
    then show thesis using 4 n unf by (intro content [of node v seen']) simp_all
  next
    case 5
    then show thesis using n unf kept by simp
  qed
qed

lemma visit_ok_visit: "visit_ok st \<Longrightarrow> visit_ok (sanitize_visit raw i depth st)"
proof (induction "65 - depth" arbitrary: i depth st rule: less_induct)
  case less
  obtain ps seen where st: "st = (ps, seen)" by fastforce
  show ?case
  proof (cases rule: sanitize_visit_cases [of raw i depth ps seen])
    case kept
    then show ?thesis using less.prems by (simp add: st)
  next
    case (split node lc rc)
    have d: "65 - (depth + 1) < 65 - depth" using split(3) by simp
    have "visit_ok (obj_set ps i (sanitize_split node lc rc), seen)"
      using visit_ok_split less.prems by (simp add: st sanitize_split_def)
    then show ?thesis using less.hyps [OF d] by (simp add: st split(9))
  next
    case (content node v seen')
    then show ?thesis using visit_ok_content less.prems by (simp add: st)
  qed
qed

text \<open>
  What the sanitizer promises of any value it accepts. A child is a pane, or it is called like a
  property every object inherits.
\<close>

fun pane_sane :: "main_tree \<Rightarrow> main_pane_value pane \<Rightarrow> bool" where
  "pane_sane s (Split a lc rc q) =
     (has_key (panes s) lc \<and> has_key (panes s) rc \<and> (\<exists>x. q = Fin x \<and> 5 \<le> x \<and> x \<le> 95))"
| "pane_sane s (Content v) = canonical_id (agentInstanceId v)"

lemma sanitize_ratio_bounds: "\<exists>x. sanitize_ratio v = Fin x \<and> 5 \<le> x \<and> x \<le> 95"
  unfolding sanitize_ratio_def
  by (auto split: option.split js.split jsnum.split)

lemma visit_ratios:
  "(\<And>k a lc rc q. obj_get (fst st) k = Some (Split a lc rc q) \<Longrightarrow> \<exists>x. q = Fin x \<and> 5 \<le> x \<and> x \<le> 95) \<Longrightarrow>
   obj_get (fst (sanitize_visit raw i depth st)) k = Some (Split a lc rc q) \<Longrightarrow>
   \<exists>x. q = Fin x \<and> 5 \<le> x \<and> x \<le> 95"
proof (induction "65 - depth" arbitrary: i depth st k a lc rc q rule: less_induct)
  case less
  obtain ps seen where st: "st = (ps, seen)" by fastforce
  show ?case
  proof (cases rule: sanitize_visit_cases [of raw i depth ps seen])
    case kept
    then show ?thesis using less.prems by (simp add: st)
  next
    case (split node l r)
    have d: "65 - (depth + 1) < 65 - depth" using split(3) by simp
    let ?st = "(obj_set ps i (sanitize_split node l r), seen)"
    have 1: "\<exists>x. q = Fin x \<and> 5 \<le> x \<and> x \<le> 95"
      if "obj_get (fst ?st) k = Some (Split a lc rc q)" for k a lc rc q
      using that less.prems(1) [of k a lc rc q] sanitize_ratio_bounds
      by (auto simp: st sanitize_split_def split: if_splits)
    have 2: "\<exists>x. q = Fin x \<and> 5 \<le> x \<and> x \<le> 95"
      if "obj_get (fst (sanitize_visit raw l (depth + 1) ?st)) k = Some (Split a lc rc q)" for k a lc rc q
      using less.hyps [OF d 1 that] .
    show ?thesis
      using less.hyps [OF d 2] less.prems(2) by (simp add: st split(9))
  next
    case (content node v seen')
    then show ?thesis using less.prems by (simp add: st split: if_splits)
  qed
qed

lemma closed_splitsD:
  assumes "closed_splits ps" and "obj_ok ps" and "obj_get ps k = Some (Split a lc rc q)"
  shows "has_key ps lc" and "has_key ps rc"
  using assms by (force simp: closed_splits_def list_all_iff obj_get_in_set)+

lemma repair_candidate_Some:
  assumes "repair_candidate c = Some s"
  shows "root_pane_id s = root_pane_id c" "panes s = panes c"
    and "map layout_pane_id (fst (calculatePaneLayouts c)) \<noteq> []"
    and "focused_pane_id s = (if is_content (pane_at c (focused_pane_id c)) then focused_pane_id c
       else hd (map layout_pane_id (fst (calculatePaneLayouts c))))"
    and "maximized_pane_id s = None \<or> (maximized_pane_id s = maximized_pane_id c
       \<and> 1 < length (fst (calculatePaneLayouts c)) \<and> is_content (pane_at c (the (maximized_pane_id c))))"
proof -
  obtain i r where ids: "map layout_pane_id (fst (calculatePaneLayouts c)) = i # r"
    using assms by (cases "map layout_pane_id (fst (calculatePaneLayouts c))") (auto simp: repair_candidate_def)
  have len: "length (fst (calculatePaneLayouts c)) = Suc (length r)"
    using arg_cong [OF ids, of length] by simp
  show "root_pane_id s = root_pane_id c" "panes s = panes c"
    "focused_pane_id s = (if is_content (pane_at c (focused_pane_id c)) then focused_pane_id c
       else hd (map layout_pane_id (fst (calculatePaneLayouts c))))"
    "maximized_pane_id s = None \<or> (maximized_pane_id s = maximized_pane_id c
       \<and> 1 < length (fst (calculatePaneLayouts c)) \<and> is_content (pane_at c (the (maximized_pane_id c))))"
    using assms unfolding repair_candidate_def ids len by (auto simp: Let_def split: if_splits)
  show "map layout_pane_id (fst (calculatePaneLayouts c)) \<noteq> []" by (simp add: ids)
qed

lemma sanitize_Some:
  assumes "sanitizeMainTree raw = Some s"
  obtains rt raw_panes c where "js_prop raw ''rootPaneId'' = Some (JStr rt)"
    "js_prop raw ''panes'' = Some (JObj raw_panes)"
    "root_pane_id c = rt" "panes c = fst (sanitize_visit raw_panes rt 0 ([], {}))"
    "closed_splits (panes c)" "has_key (panes c) rt" "repair_candidate c = Some s"
proof -
  obtain rt where rt: "js_string (js_prop raw ''rootPaneId'') = Some rt"
    using assms unfolding sanitizeMainTree_def by (cases "js_string (js_prop raw ''rootPaneId'')") auto
  obtain raw_panes where rp: "js_prop raw ''panes'' = Some (JObj raw_panes)"
  proof (cases "js_prop raw ''panes''")
    case None
    then show thesis using assms unfolding sanitizeMainTree_def rt by simp
  next
    case (Some v)
    then show thesis using assms that unfolding sanitizeMainTree_def rt by (cases v) simp_all
  qed
  show thesis
    using assms rt rp unfolding sanitizeMainTree_def
    by (intro that) (auto simp: Let_def split: if_splits)
qed

lemma visited_content:
  "(\<forall>x \<in> set (snd va). is_content (obj_get ps x)) \<Longrightarrow>
   \<forall>x \<in> set (snd (visit_content ps i va)). is_content (obj_get ps x)"
proof (induction ps i va rule: visit_content.induct)
  case (1 ps i vis acc)
  show ?case
  proof (cases "i = [] \<or> i \<in> vis")
    case True
    then show ?thesis using "1.prems" by (subst visit_content.simps) auto
  next
    case False
    show ?thesis
    proof (cases "obj_get ps i")
      case None
      then show ?thesis using False "1.prems" by (subst visit_content.simps) auto
    next
      case (Some p)
      show ?thesis
      proof (cases p)
        case (Content v)
        then show ?thesis using False Some "1.prems" by (subst visit_content.simps) auto
      next
        case (Split a lc rc q)
        have "\<forall>x \<in> set (snd (visit_content ps lc (insert i vis, acc))). is_content (obj_get ps x)"
          using "1.IH"(1) False Some Split "1.prems" by simp
        then have "\<forall>x \<in> set (snd (visit_content ps rc (visit_content ps lc (insert i vis, acc)))).
            is_content (obj_get ps x)"
          using "1.IH"(2) False Some Split by simp
        then show ?thesis using False Some Split by (subst visit_content.simps) simp
      qed
    qed
  qed
qed

lemma layout_content:
  "i \<in> set (map layout_pane_id (fst (calculatePaneLayouts c))) \<Longrightarrow> is_content (pane_at c i)"
  unfolding layout_ids using visited_content [of "({}, [])" "panes c" "root_pane_id c"] by simp

lemma sanitize_focus:
  assumes "repair_candidate c = Some s"
  shows "is_content (pane_at s (focused_pane_id s))"
  using repair_candidate_Some [OF assms] layout_content [OF hd_in_set, of c] by auto

lemma sanitize_visit_ok:
  assumes "panes s = fst (sanitize_visit raw rt 0 ([], {}))"
  obtains seen where "visit_ok (panes s, seen)"
proof -
  have "visit_ok (sanitize_visit raw rt 0 ([], {}))"
    by (rule visit_ok_visit) (simp add: visit_ok_def)
  then show thesis using that assms by (metis prod.collapse)
qed

text \<open>An accepted value whose references form a tree satisfies the whole invariant.\<close>

lemma deduped_inj:
  assumes "good t" and "\<And>k j v w. (k, v) \<in> set (leaves t) \<Longrightarrow> (j, w) \<in> set (leaves t) \<Longrightarrow>
    agentInstanceId v = agentInstanceId w \<Longrightarrow> is_real (agentInstanceId v) \<Longrightarrow> k = j"
  shows "deduped t"
proof -
  have d: "distinct (leaves t)" using distinct_leaf_ids [OF assms(1)] by (simp add: distinct_map)
  have f: "filter is_real (targets t)
      = map (agentInstanceId \<circ> snd) (filter (\<lambda>x. is_real (agentInstanceId (snd x))) (leaves t))"
    by (simp add: targets_def filter_map comp_def)
  have "inj_on (agentInstanceId \<circ> snd) {x \<in> set (leaves t). is_real (agentInstanceId (snd x))}"
  proof (rule inj_onI)
    fix x y assume x: "x \<in> {x \<in> set (leaves t). is_real (agentInstanceId (snd x))}"
      and y: "y \<in> {x \<in> set (leaves t). is_real (agentInstanceId (snd x))}"
      and eq: "(agentInstanceId \<circ> snd) x = (agentInstanceId \<circ> snd) y"
    obtain k v j w where xy: "x = (k, v)" "y = (j, w)" by (metis surj_pair)
    then have "k = j" using assms(2) [of k v j w] x y eq by simp
    moreover from this have "v = w" using x y xy distinct_leaf_ids [OF assms(1)]
      by (auto intro: eq_key_imp_eq_value)
    ultimately show "x = y" by (simp add: xy)
  qed
  then show ?thesis unfolding deduped_def f using d by (simp add: distinct_map)
qed

lemma sanitized_tree_ok:
  assumes san: "sanitizeMainTree raw = Some s" and rep: "represents s t"
  shows "tree_ok s t"
proof -
  obtain rt raw_panes c where c: "root_pane_id c = rt" "panes c = fst (sanitize_visit raw_panes rt 0 ([], {}))"
    "repair_candidate c = Some s" using sanitize_Some [OF san] by metis
  note rc = repair_candidate_Some [OF c(3)]
  obtain seen where ok: "visit_ok (panes s, seen)"
    using sanitize_visit_ok [of s raw_panes rt] c(2) rc(2) by auto
  have content: "pane_at s k = Some (Content v) \<longleftrightarrow> (k, v) \<in> set (leaves t)" for k v
    by (rule represents_content [OF rep])
  have good: "good t" using rep by (simp add: represents_def)
  have "canonical_id (agentInstanceId v)" if "(k, v) \<in> set (leaves t)" for k v
    using ok that unfolding visit_ok_def fst_conv content by blast
  then have "list_all canonical_id (targets t)" by (auto simp: list_all_iff targets_def)
  moreover have "deduped t"
  proof (rule deduped_inj [OF good])
    fix k j v w
    assume "(k, v) \<in> set (leaves t)" "(j, w) \<in> set (leaves t)"
      "agentInstanceId v = agentInstanceId w" "is_real (agentInstanceId v)"
    then show "k = j" using ok unfolding visit_ok_def fst_conv content by blast
  qed
  moreover have "focused_pane_id s \<in> set (leaf_ids t)"
    using sanitize_focus [OF c(3)] represents_is_content [OF rep] by blast
  moreover have "max_ok s t"
  proof (cases "maximized_pane_id s")
    case (Some m)
    have "calculatePaneLayouts c = calculatePaneLayouts s"
      by (simp add: calculatePaneLayouts_def rc(1,2))
    then have "length (fst (calculatePaneLayouts c)) = length (leaves t)"
      by (simp add: layout_represents [OF rep])
    moreover have "maximized_pane_id c = Some m" using rc(5) Some by auto
    ultimately have "1 < length (leaves t)" "is_content (pane_at s m)" using rc(2,5) Some by auto
    then show ?thesis using Some represents_is_content [OF rep, of m] by simp
  qed simp
  ultimately show ?thesis using rep by (simp add: tree_ok_def)
qed

section \<open>From the URL to the layout\<close>

lemma index_of_leaf:
  assumes "index_of a (targets t) = Some n"
  obtains v where "(leaf_ids t ! n, v) \<in> set (leaves t)" "agentInstanceId v = a" "n < length (leaves t)"
proof -
  have n: "n < length (leaves t)" "targets t ! n = a"
    using index_of_Some [OF assms] by (simp_all add: targets_def)
  then have "agentInstanceId (snd (leaves t ! n)) = a" by (simp add: targets_def)
  moreover have "(leaf_ids t ! n, snd (leaves t ! n)) \<in> set (leaves t)" using n(1) by simp
  ultimately show thesis using n(1) by (intro that)
qed

lemma focusPaneFor_ok:
  assumes ok: "tree_ok s t" and "length current = length (leaves t)"
  shows "tree_ok (focusPaneFor (leaf_ids t) current f s) t"
proof (cases "truthy f \<and> leaf_agent s (focused_pane_id s) \<noteq> f")
  case True
  show ?thesis
  proof (cases "index_of (the f) current")
    case (Some n)
    then have "n < length (leaf_ids t)" using index_of_Some [OF Some] assms(2) by simp
    then have "leaf_ids t ! n \<in> set (leaf_ids t)" by (rule nth_mem)
    then show ?thesis using True Some tree_ok_focus [OF ok] by (simp add: focusPaneFor_def del: nth_map)
  qed (use True ok in \<open>simp add: focusPaneFor_def\<close>)
qed (use ok in \<open>auto simp: focusPaneFor_def\<close>)

text \<open>A saved layout that may be used: its references form a tree once sanitized.\<close>

definition saved_tree :: "js \<Rightarrow> bool" where
  "saved_tree raw =
     (case sanitizeMainTree (Some raw) of None \<Rightarrow> True | Some s \<Rightarrow> (\<exists>t. represents s t))"

lemma default_tree_ok:
  assumes "agents \<noteq> []" and "list_all canonical_id agents" and "distinct (filter is_real agents)"
  obtains s where "buildDefaultSplitTree agents = Some s" "tree_ok s (default_tree 0 agents)"
proof -
  obtain s where s: "buildDefaultSplitTree agents = Some s" "represents s (default_tree 0 agents)"
    "focused_pane_id s = ''pane-1''" "maximized_pane_id s = None"
    using build_default_represents [OF assms(1)] by metis
  have tg: "targets (default_tree 0 agents) = agents"
    using default_tree_leaves [OF assms(1)] by (simp add: targets_def)
  have "''pane-1'' \<in> set (leaf_ids (default_tree 0 agents))"
    using default_first_leaf [OF assms(1), of 0] pane_1 by simp
  then have "tree_ok s (default_tree 0 agents)"
    using s assms(2,3) unfolding tree_ok_def deduped_def tg by simp
  with s(1) show thesis by (rule that)
qed

lemma layout_for_ids_ok:
  assumes "agents \<noteq> []" and "list_all canonical_id agents" and "distinct (filter is_real agents)"
    and saved: "\<And>raw. saved = Some raw \<Longrightarrow> saved_tree raw"
  obtains s t where "layout_for_ids agents f saved = Some s" "tree_ok s t"
    "saved = None \<longrightarrow> targets t = agents"
proof -
  let ?found = "case saved of None \<Rightarrow> None | Some v \<Rightarrow> sanitizeMainTree (Some v)"
  have "\<exists>s0 t. (case ?found of Some s0 \<Rightarrow> Some s0 | None \<Rightarrow> buildDefaultSplitTree agents) = Some s0
      \<and> tree_ok s0 t \<and> (saved = None \<longrightarrow> targets t = agents)"
  proof (cases ?found)
    case None
    obtain s0 where "buildDefaultSplitTree agents = Some s0" "tree_ok s0 (default_tree 0 agents)"
      by (rule default_tree_ok [OF assms(1-3)])
    moreover have "targets (default_tree 0 agents) = agents"
      using default_tree_leaves [OF assms(1)] by (simp add: targets_def)
    ultimately show ?thesis using None by auto
  next
    case (Some s0)
    then obtain raw where raw: "saved = Some raw" "sanitizeMainTree (Some raw) = Some s0"
      by (cases saved) auto
    then obtain t where "represents s0 t" using saved [OF raw(1)] by (auto simp: saved_tree_def)
    then have "tree_ok s0 t" using sanitized_tree_ok raw(2) by blast
    with Some raw show ?thesis by auto
  qed
  then obtain s0 t where s0: "(case ?found of Some s0 \<Rightarrow> Some s0 | None \<Rightarrow> buildDefaultSplitTree agents) = Some s0"
    "tree_ok s0 t" "saved = None \<longrightarrow> targets t = agents" by blast
  let ?P = "\<lambda>i. leaf_agent s0 i \<noteq> None \<and> leaf_agent s0 i = f"
  let ?s1 = "case find_index ?P (getContentPaneIds s0) of
      Some k \<Rightarrow> s0\<lparr>focused_pane_id := getContentPaneIds s0 ! k\<rparr> | None \<Rightarrow> s0"
  have "tree_ok ?s1 t"
  proof (cases "find_index ?P (getContentPaneIds s0)")
    case (Some k)
    then have "leaf_ids t ! k \<in> set (leaf_ids t)"
      using find_index_Some [OF Some] by (simp add: content_ids_represents [OF tree_okD(1) [OF s0(2)]])
    then show ?thesis
      using Some tree_ok_focus [OF s0(2)]
      by (simp add: content_ids_represents [OF tree_okD(1) [OF s0(2)]] del: nth_map)
  qed (use s0 in simp)
  then have "tree_ok (?s1\<lparr>maximized_pane_id := None\<rparr>) t" by (rule tree_ok_maximize) simp
  moreover have "layout_for_ids agents f saved = Some (?s1\<lparr>maximized_pane_id := None\<rparr>)"
    unfolding layout_for_ids_def s0(1) by (simp add: Let_def)
  ultimately show thesis using s0(3) by (intro that)
qed

lemma length_one: "length xs = 1 \<Longrightarrow> \<exists>x. xs = [x]"
  by (cases xs) auto

lemma count_out: "a \<notin> set xs \<Longrightarrow> count (mset xs) a = 0"
  by (simp add: count_eq_zero_iff)

lemma mset_eq_but_one:
  assumes "size A = size B" and "\<And>a. a \<noteq> n \<Longrightarrow> count A a = count B a"
  shows "A = B"
proof -
  have part: "size M = count M n + size (filter_mset (\<lambda>a. a \<noteq> n) M)" for M :: "'a multiset"
  proof -
    have "size M = size (filter_mset (\<lambda>a. a = n) M) + size (filter_mset (\<lambda>a. a \<noteq> n) M)"
      using multiset_partition [of M "\<lambda>a. a = n"] by (metis size_union)
    then show ?thesis by (simp add: filter_eq_replicate_mset)
  qed
  have "filter_mset (\<lambda>a. a \<noteq> n) A = filter_mset (\<lambda>a. a \<noteq> n) B"
    by (rule multiset_eqI) (simp add: assms(2))
  then have "count A n = count B n" using assms(1) part [of A] part [of B] by simp
  then show ?thesis using assms(2) by (intro multiset_eqI) metis
qed

text \<open>Replacing the one target that left by the one that came gives the new targets.\<close>

lemma one_swapped:
  assumes len: "length current = length agents"
    and rm: "filter (\<lambda>i. i \<notin> set agents) current = [x]"
    and add: "filter (\<lambda>i. i \<notin> set current) agents = [y]"
    and dc: "distinct (filter is_real current)" and da: "distinct (filter is_real agents)"
    and ne: "[] \<notin> set current" "[] \<notin> set agents"
  shows "mset agents = add_mset y (mset current - {# x #})"
proof (rule mset_eq_but_one [where n = NEW_PANE_AGENT_ID])
  have xy: "x \<in> set current" "x \<notin> set agents" "y \<in> set agents" "y \<notin> set current"
    and only: "set current - set agents = {x}" "set agents - set current = {y}"
    using arg_cong [OF rm, of set] arg_cong [OF add, of set] by auto
  have "size (mset current - {# x #}) = length current - 1"
    using xy(1) by (simp add: size_Diff_singleton)
  moreover have "0 < length current" using xy(1) by (cases current) auto
  ultimately show "size (mset agents) = size (add_mset y (mset current - {# x #}))" using len by simp
  fix a assume "a \<noteq> NEW_PANE_AGENT_ID"
  show "count (mset agents) a = count (add_mset y (mset current - {# x #})) a"
  proof (cases "a = []")
    case True
    then have "a \<notin> set agents" "a \<notin> set current" "a \<noteq> y" using ne xy by auto
    then show ?thesis by (simp add: count_out)
  next
    case False
    then have "is_real a" using \<open>a \<noteq> NEW_PANE_AGENT_ID\<close> by (simp add: is_real_iff)
    then have le: "count (mset agents) a \<le> 1" "count (mset current) a \<le> 1"
      using dc da by (simp_all add: distinct_filter_count)
    have pos: "0 < count (mset ws) a \<longleftrightarrow> a \<in> set ws" for ws by simp
    consider "a = x" | "a = y" | "a \<noteq> x" "a \<noteq> y" "a \<in> set agents \<longleftrightarrow> a \<in> set current"
      using only by blast
    then show ?thesis
    proof cases
      case 1
      then have "count (mset agents) a = 0" using xy by (simp add: count_out)
      moreover have "y \<noteq> a" using 1 xy by blast
      ultimately show ?thesis using 1 le by simp
    next
      case 2
      then have "count (mset current) a = 0" using xy by (simp add: count_out)
      moreover have "0 < count (mset agents) a" unfolding pos using xy(3) 2 by simp
      then have "count (mset agents) a = 1" using le(1) by linarith
      moreover have "x \<noteq> a" using 2 xy by blast
      ultimately show ?thesis using 2 by simp
    next
      case 3
      then have "count (mset agents) a = count (mset current) a"
        using le pos [of agents] pos [of current] by linarith
      then show ?thesis using 3 by simp
    qed
  qed
qed

text \<open>
  The whole reducer. Without a saved layout, and when no target contains the separator of the
  sorted key, the open targets afterwards are exactly the targets of the URL.
\<close>

definition url_admissible :: "url_payload \<Rightarrow> bool" where
  "url_admissible p \<longleftrightarrow> distinct (filter is_real (map (normalizeAgentId \<circ> Some) (up_ids p)))
     \<and> (case up_savedLayout p of None \<Rightarrow> True | Some raw \<Rightarrow> saved_tree raw)"

lemma single_ok:
  assumes "canonical_id a"
  obtains t where "tree_ok (createInitialMainTree a INITIAL_MAIN_PANE_ID None) t" "targets t = [a]"
proof -
  obtain i where "tree_ok (createInitialMainTree a INITIAL_MAIN_PANE_ID None) (PLeaf i (main_value a None))"
    by (rule initial_tree_ok [OF assms])
  then show thesis by (rule that) (simp add: targets_def)
qed

lemma swap_one_ok:
  assumes ok: "tree_ok s t" and lx: "index_of x (targets t) = Some k"
    and y: "canonical_id y" "y \<notin> set (targets t)"
  obtains t' where "tree_ok (setPaneAgent s (leaf_ids t ! k) y None) t'" "leaf_ids t' = leaf_ids t"
    "mset (targets t') = add_mset y (mset (targets t) - {# x #})"
proof -
  obtain v where v: "(leaf_ids t ! k, v) \<in> set (leaves t)" "agentInstanceId v = x"
    by (rule index_of_leaf [OF lx])
  have "y \<notin># target_mset t - {# agentInstanceId v #}"
  proof
    assume "y \<in># target_mset t - {# agentInstanceId v #}"
    then have "y \<in># target_mset t" by (rule in_diffD)
    then show False using y(2) by simp
  qed
  note sl = set_leaf_ok [OF ok v(1) y(1) this, where q = None]
  show thesis
    by (rule that [OF sl(1)]) (use sl(2) v(2) in \<open>simp_all add: target_mset_def\<close>)
qed

lemma setLayoutFromUrl_spec:
  assumes ok: "tree_ok (tree s) t" and adm: "url_admissible p"
  obtains t' where "tree_ok (tree (setLayoutFromUrl p s)) t'"
    "up_savedLayout p = None \<Longrightarrow> up_ids p \<noteq> [] \<Longrightarrow>
       \<forall>a \<in> set (targets t) \<union> set (map (normalizeAgentId \<circ> Some) (up_ids p)). CHR ''+'' \<notin> set a \<Longrightarrow>
       mset (targets t') = mset (map (normalizeAgentId \<circ> Some) (up_ids p))"
proof -
  let ?agents = "map (normalizeAgentId \<circ> Some) (up_ids p)" and ?cur = "targets t" and ?f = "up_focusedId p"
  note rep = tree_okD(1) [OF ok]
  have ids: "getContentPaneIds (tree s) = leaf_ids t" by (rule content_ids_represents [OF rep])
  have cur: "leaf_targets (tree s) = ?cur" by (rule leaf_targets_represents [OF rep])
  have can: "list_all canonical_id ?agents" by (simp add: list_all_iff)
  have da: "distinct (filter is_real ?agents)" using adm by (simp add: url_admissible_def)
  have len_cur: "length ?cur = length (leaves t)" by (simp add: targets_def)
  let ?same = "length ?cur = length ?agents \<and> sorted_key ?cur = sorted_key ?agents"
  let ?removed = "filter (\<lambda>i. i \<notin> set ?agents) ?cur"
  let ?added = "filter (\<lambda>i. i \<notin> set ?cur) ?agents"
  let ?one = "length ?cur = length ?agents \<and> length ?removed = 1 \<and> length ?added = 1"
  note unf = setLayoutFromUrl_def Let_def ids cur
  consider (none) "up_ids p = []" | (same) "up_ids p \<noteq> []" ?same
    | (one) "up_ids p \<noteq> []" "\<not> ?same" ?one
    | (single) "up_ids p \<noteq> []" "\<not> ?same" "\<not> ?one" "length ?agents = 1"
    | (many) "up_ids p \<noteq> []" "\<not> ?same" "\<not> ?one" "length ?agents \<noteq> 1" by blast
  then show thesis
  proof cases
    case none
    then show thesis using ok by (intro that [of t]) (simp_all add: setLayoutFromUrl_def)
  next
    case same
    have "tree (setLayoutFromUrl p s) = focusPaneFor (leaf_ids t) ?cur ?f (tree s)"
      using same by (simp add: unf)
    moreover have "tree_ok (focusPaneFor (leaf_ids t) ?cur ?f (tree s)) t"
      by (rule focusPaneFor_ok [OF ok len_cur])
    ultimately show thesis using same(2) sorted_key_inj [of ?cur ?agents] by (intro that [of t]) auto
  next
    case one
    obtain x y where x: "?removed = [x]" and y: "?added = [y]"
      using one(3) length_one by metis
    have "x \<in> set ?cur" using arg_cong [OF x, of set] by auto
    then obtain k where k: "index_of x ?cur = Some k" by (metis index_of_None not_None_eq)
    have yn: "y \<in> set ?agents" "y \<notin> set ?cur" using arg_cong [OF y, of set] by auto
    then have cy: "canonical_id y" using can by (simp only: list_all_iff)
    obtain t' where t': "tree_ok (setPaneAgent (tree s) (leaf_ids t ! k) y None) t'" "leaf_ids t' = leaf_ids t"
      "mset (targets t') = add_mset y (mset ?cur - {# x #})"
      by (rule swap_one_ok [OF ok k cy yn(2)])
    have klt: "k < length (leaf_ids t)" using index_of_Some [OF k] by (simp add: targets_def)
    have len': "length (?cur[k := y]) = length (leaves t')"
      using arg_cong [OF t'(2), of length] len_cur by simp
    have "mset ?agents = add_mset y (mset ?cur - {# x #})"
    proof (rule one_swapped [OF conjunct1 [OF one(3)] x y _ da])
      show "distinct (filter is_real ?cur)" using tree_okD(4) [OF ok] by (simp add: deduped_def)
      show "[] \<notin> set ?cur" using tree_okD(5) [OF ok] canonical_iff by blast
    qed (auto simp: normalize_nonempty [symmetric])
    then have mset: "mset (targets t') = mset ?agents" by (simp only: t'(3))
    have foc: "tree_ok ((setPaneAgent (tree s) (leaf_ids t ! k) y None)\<lparr>focused_pane_id := leaf_ids t ! k\<rparr>) t'"
      by (rule tree_ok_focus [OF t'(1)]) (simp only: t'(2) nth_mem [OF klt])
    have foc2: "tree_ok (focusPaneFor (leaf_ids t) (?cur[k := y]) ?f
        (setPaneAgent (tree s) (leaf_ids t ! k) y None)) t'"
      using focusPaneFor_ok [OF t'(1) len'] unfolding t'(2) .
    have "tree (setLayoutFromUrl p s) = (if \<not> truthy ?f \<or> ?f = Some y
        then (setPaneAgent (tree s) (leaf_ids t ! k) y None)\<lparr>focused_pane_id := leaf_ids t ! k\<rparr>
        else focusPaneFor (leaf_ids t) (?cur[k := y]) ?f (setPaneAgent (tree s) (leaf_ids t ! k) y None))"
      using one(1,2) one(3) unfolding unf x y by (simp add: k)
    then show thesis using foc foc2 mset by (intro that [of t']) (simp_all split: if_splits)
  next
    case single
    then obtain a where a: "?agents = [a]" using length_one by metis
    then have "canonical_id a" using can by simp
    then obtain t' where "tree_ok (createInitialMainTree a INITIAL_MAIN_PANE_ID None) t'" "targets t' = [a]"
      by (rule single_ok)
    moreover have "tree (setLayoutFromUrl p s) = createInitialMainTree (hd ?agents) INITIAL_MAIN_PANE_ID None"
      unfolding unf
      by (simp only: single(1-3) map_is_Nil_conv if_False) (simp only: single(4) if_True, simp)
    then have "tree (setLayoutFromUrl p s) = createInitialMainTree a INITIAL_MAIN_PANE_ID None"
      by (simp only: a list.sel)
    ultimately show thesis using a by (intro that [of t']) simp_all
  next
    case many
    have ne: "?agents \<noteq> []" using many(1) by simp
    have sv: "\<And>raw. up_savedLayout p = Some raw \<Longrightarrow> saved_tree raw"
      using adm by (simp add: url_admissible_def)
    obtain s' t' where l: "layout_for_ids ?agents ?f (up_savedLayout p) = Some s'" "tree_ok s' t'"
      "up_savedLayout p = None \<longrightarrow> targets t' = ?agents"
      by (rule layout_for_ids_ok [OF ne can da sv])
    have "tree (setLayoutFromUrl p s) = s'"
      unfolding unf by (simp only: many map_is_Nil_conv if_False l(1)) simp
    then show thesis using l(2,3) by (intro that [of t']) simp_all
  qed
qed

section \<open>The slice as a reducer\<close>

fun main_admissible :: "main_action \<Rightarrow> bool" where
  "main_admissible (SetLayoutFromUrl p) = url_admissible p"
| "main_admissible _ = True"

lemma workspace_step:
  assumes "workspace_ok s" and "main_admissible a"
  shows "\<exists>s'. workspace_reduce s a = Some s' \<and> workspace_ok s'"
proof -
  from assms(1) obtain t where ok: "tree_ok (tree s) t" by (auto simp: workspace_ok_def)
  have ex: "\<exists>s'. Some u = Some s' \<and> workspace_ok s'" if "tree_ok (tree u) t'" for u t'
    using that by (auto simp: workspace_ok_def)
  show ?thesis
  proof (cases a)
    case (SplitMainPane p)
    show ?thesis unfolding SplitMainPane workspace_reduce.simps by (rule splitMain_ok [OF ok]) (rule ex)
  next
    case (CloseMainPane i)
    show ?thesis unfolding CloseMainPane workspace_reduce.simps by (rule closeMain_ok [OF ok]) (rule ex)
  next
    case (AssignMainPaneAgent p)
    show ?thesis unfolding AssignMainPaneAgent workspace_reduce.simps by (rule assign_ok [OF ok]) (rule ex)
  next
    case (SetLayoutFromUrl p)
    then have "url_admissible p" using assms(2) by simp
    then show ?thesis unfolding SetLayoutFromUrl workspace_reduce.simps
      by (rule setLayoutFromUrl_spec [OF ok]) (rule ex)
  next
    case (MoveMainPane x y d)
    obtain t' where "tree_ok (fst (movePaneInTree (tree s) x y d)) t'" by (rule move_ok [OF ok])
    then show ?thesis unfolding MoveMainPane workspace_reduce.simps by (intro ex [of _ t']) simp
  next
    case (SwapMainPanes x y)
    obtain t' where "tree_ok (fst (swapPanesInTree (tree s) x y)) t'" by (rule swap_ok [OF ok])
    then show ?thesis unfolding SwapMainPanes workspace_reduce.simps by (intro ex [of _ t']) simp
  next
    case (ResizeMainSplit i q)
    obtain t' where "tree_ok (resizeSplitInTree (tree s) i q) t'" by (rule resize_ok [OF ok])
    then show ?thesis unfolding ResizeMainSplit workspace_reduce.simps by (intro ex [of _ t']) simp
  next
    case (ResizeFocusedMainPane c)
    obtain s' t' where "resizeFocusedMainPane c s = Some s'" "tree_ok (tree s') t'"
      by (rule resizeFocused_ok [OF ok])
    then show ?thesis unfolding ResizeFocusedMainPane workspace_reduce.simps
      by (auto simp: workspace_ok_def)
  next
    case (SetFocusedMainPane i)
    then show ?thesis using ex [of "setFocusedMainPane i s" t] setFocused_ok [OF ok] by simp
  next
    case EqualizeMainPanes
    then show ?thesis using ex [of "s\<lparr>tree := equalizeTreeRatios (tree s)\<rparr>"] equalize_ok [OF ok] by simp
  next
    case (ToggleMaximizeMainPane i)
    then show ?thesis
      using ex [of "s\<lparr>tree := toggleMaximizePaneInTree (tree s) i\<rparr>" t] toggleMaximize_ok [OF ok] by simp
  next
    case ResetWorkspaceLayout
    obtain t' where "tree_ok (createInitialMainTree NEW_PANE_AGENT_ID INITIAL_MAIN_PANE_ID None) t'"
      using initial_tree_ok [OF canonical_new] by metis
    then show ?thesis unfolding ResetWorkspaceLayout workspace_reduce.simps by (intro ex [of _ t']) simp
  qed
qed

interpretation workspace: reducer workspace_reduce workspace_ok main_admissible initial_workspace
  by unfold_locales (simp_all add: initial_workspace_ok workspace_step)

section \<open>Equal widths\<close>

lemma share_ratio:
  assumes "2 \<le> n" and "n \<le> 20"
  shows "used_ratio (Fin (100 / rat_of_nat n)) = 100 / rat_of_nat n"
proof -
  have "2 \<le> rat_of_nat n" using assms(1) by (metis of_nat_le_iff of_nat_numeral)
  moreover have "rat_of_nat n \<le> 20" using assms(2) by (metis of_nat_le_iff of_nat_numeral)
  ultimately show ?thesis by (simp add: field_simps)
qed

lemma remaining_share:
  fixes n w :: rat
  assumes "0 < n"
  shows "w * ((100 - 100 / (n + 1)) / 100) / n = w / (n + 1)"
proof -
  have "n + 1 \<noteq> 0" using assms by simp
  then have share: "(100 - 100 / (n + 1)) / 100 = n / (n + 1)" by (simp add: field_simps)
  have "w * (n / (n + 1)) / n = w / (n + 1)" using assms by simp
  then show ?thesis unfolding share .
qed

lemma default_tree_widths:
  "agents \<noteq> [] \<Longrightarrow> length agents \<le> 20 \<Longrightarrow> p \<in> set (tree_layout (default_tree start agents) b) \<Longrightarrow>
   b_width p = b_width b / of_nat (length agents) \<and> b_top p = b_top b \<and> b_height p = b_height b"
proof (induction start agents arbitrary: b p rule: default_tree.induct)
  case (2 start i)
  then show ?case by (simp add: layout_of_def)
next
  case (3 start i j r)
  let ?n = "Suc (Suc (length r))"
  have q: "used_ratio (Fin (100 / of_nat ?n)) = 100 / of_nat ?n"
    using "3.prems"(2) by (intro share_ratio) simp_all
  let ?q = "100 / rat_of_nat ?n"
  consider "p = layout_of (pane_id ''pane'' (start + 1)) (left_bounds Horizontal ?q b)"
    | "p \<in> set (tree_layout (default_tree (start + 1) (j # r)) (right_bounds Horizontal ?q b))"
    using "3.prems"(3) unfolding default_tree.simps tree_layout.simps q by auto
  then show ?case
  proof cases
    case 1
    then show ?thesis by (simp add: layout_of_def left_bounds_def field_simps)
  next
    case 2
    have len: "length (j # r) \<le> 20" using "3.prems"(2) by simp
    have "b_width p = b_width (right_bounds Horizontal ?q b) / of_nat (length (j # r))"
      "b_top p = b_top b" "b_height p = b_height b"
      using "3.IH" [OF _ len 2] by (simp_all add: right_bounds_def)
    moreover have "b_width b * ((100 - ?q) / 100) / of_nat (Suc (length r)) = b_width b / of_nat ?n"
      using remaining_share [of "of_nat (Suc (length r))" "b_width b"]
      by (simp only: of_nat_Suc [of "Suc (length r)"] add.commute of_nat_0_less_iff zero_less_Suc True_implies_equals)
    ultimately show ?thesis by (simp add: right_bounds_def)
  qed
qed simp

end
