(* ===== verification/WorkspaceSave.thy ===== *)
theory WorkspaceSave
  imports WorkspaceUrl
begin

text \<open>
  A persisted workspace tree: the JSON value of a tree (what \<open>JSON.stringify\<close> writes for the
  \<open>layout\<close> of a split group) and the proof that the sanitizer gives the tree back.
\<close>

section \<open>The JSON value of a tree\<close>

fun axis_name :: "axis \<Rightarrow> string" where
  "axis_name Vertical = ''vertical''"
| "axis_name Horizontal = ''horizontal''"

fun intent_name :: "launcher_intent \<Rightarrow> string" where
  "intent_name LaunchAgent = ''agent''"
| "intent_name LaunchShell = ''shell''"

definition value_to_js :: "main_pane_value \<Rightarrow> js" where
  "value_to_js v = JObj ((''agentInstanceId'', JStr (agentInstanceId v)) #
     (case launchIntent v of None \<Rightarrow> [] | Some i \<Rightarrow> [(''launchIntent'', JStr (intent_name i))]))"

text \<open>JSON has no non-finite numbers: they are written as \<open>null\<close>.\<close>

fun number_to_js :: "jsnum \<Rightarrow> js" where
  "number_to_js (Fin x) = JNum (Fin x)"
| "number_to_js _ = JNull"

fun pane_to_js :: "main_pane_value pane \<Rightarrow> js" where
  "pane_to_js (Split a lc rc q) =
     JObj [(''kind'', JStr ''split''), (''axis'', JStr (axis_name a)), (''leftChildId'', JStr lc),
           (''rightChildId'', JStr rc), (''ratio'', number_to_js q)]"
| "pane_to_js (Content v) = JObj [(''kind'', JStr ''content''), (''value'', value_to_js v)]"

definition tree_to_js :: "main_tree \<Rightarrow> js" where
  "tree_to_js s = JObj
     [(''rootPaneId'', JStr (root_pane_id s)), (''panes'', JObj (obj_map pane_to_js (panes s))),
      (''focusedPaneId'', JStr (focused_pane_id s)),
      (''maximizedPaneId'', case maximized_pane_id s of None \<Rightarrow> JNull | Some m \<Rightarrow> JStr m)]"

section \<open>The sanitizer on a persisted tree\<close>

fun height :: "'v ptree \<Rightarrow> nat" where
  "height (PLeaf i v) = 0"
| "height (PNode i a q l r) = Suc (max (height l) (height r))"

fun saved_ratio :: "jsnum \<Rightarrow> bool" where
  "saved_ratio (Fin r) = (5 \<le> r \<and> r \<le> 95)"
| "saved_ratio _ = False"

text \<open>
  A tree the sanitizer keeps: ratios it does not clamp, canonical targets, intents on pickers only,
  and no pane called like an inherited property (the ids the workspace generates never are).
\<close>

fun persistable :: "main_pane_value ptree \<Rightarrow> bool" where
  "persistable (PLeaf i v) =
     (i \<notin> set INHERITED_KEYS \<and> canonical_id (agentInstanceId v)
      \<and> (launchIntent v = None \<or> agentInstanceId v = NEW_PANE_AGENT_ID))"
| "persistable (PNode i a q l r) =
     (i \<notin> set INHERITED_KEYS \<and> saved_ratio q \<and> persistable l \<and> persistable r)"

lemma sanitize_split_saved:
  assumes "saved_ratio q"
  shows "sanitize_split (pane_to_js (Split a lc rc q)) lc rc = Split a lc rc q"
  using assms by (cases q; cases a) (auto simp: sanitize_split_def sanitize_ratio_def)

lemma sanitize_intent_saved:
  "sanitize_intent a (map_option (JStr \<circ> intent_name) i) = (if a = NEW_PANE_AGENT_ID then i else None)"
proof (cases i)
  case (Some x)
  then show ?thesis by (cases x) (auto simp: sanitize_intent_def)
qed (simp add: sanitize_intent_def)

lemma main_pane_value_eta: "main_value (agentInstanceId v) (launchIntent v) = v"
  if "launchIntent v = None \<or> agentInstanceId v = NEW_PANE_AGENT_ID"
  using that by (cases v) (auto simp: main_value_def)

lemma sanitize_content_saved:
  assumes "persistable (PLeaf i v)" and "is_real (agentInstanceId v) \<Longrightarrow> agentInstanceId v \<notin> seen"
  shows "sanitize_content (pane_to_js (Content v)) seen
     = (v, if is_real (agentInstanceId v) then insert (agentInstanceId v) seen else seen)"
proof -
  let ?a = "agentInstanceId v"
  have val: "js_prop (Some (pane_to_js (Content v))) ''value'' = Some (value_to_js v)" by simp
  have agent: "normalizeAgentId (js_string (js_prop (Some (value_to_js v)) ''agentInstanceId'')) = ?a"
    using assms(1) by (simp add: value_to_js_def canonical_id_def)
  have "js_prop (Some (value_to_js v)) ''launchIntent'' = map_option (JStr \<circ> intent_name) (launchIntent v)"
    by (simp add: value_to_js_def split: option.split)
  then have intent: "sanitize_intent ?a (js_prop (Some (value_to_js v)) ''launchIntent'')
      = (if ?a = NEW_PANE_AGENT_ID then launchIntent v else None)"
    by (simp add: sanitize_intent_saved)
  have "main_value ?a (if ?a = NEW_PANE_AGENT_ID then launchIntent v else None) = v"
    using assms(1) main_pane_value_eta [of v] by (auto simp: main_value_def)
  then show ?thesis
    unfolding sanitize_content_def Let_def val agent using assms(2) intent by auto
qed

abbreviation real_targets :: "main_pane_value ptree \<Rightarrow> string set" where
  "real_targets t \<equiv> set (filter is_real (targets t))"

lemma targets_PNode: "targets (PNode i a q l r) = targets l @ targets r"
  by (simp add: targets_def)

lemma sanitize_visit_saved:
  "(\<forall>(k, p) \<in> set (nodes u). map_of raw k = Some (pane_to_js p)) \<Longrightarrow> good u \<Longrightarrow> persistable u \<Longrightarrow>
   depth + height u \<le> 64 \<Longrightarrow> obj_ok ps \<Longrightarrow> (\<forall>k \<in> set (ids u). obj_get ps k = None) \<Longrightarrow>
   deduped u \<Longrightarrow> real_targets u \<inter> seen = {} \<Longrightarrow>
   \<exists>ps'. sanitize_visit raw (pid u) depth (ps, seen) = (ps', seen \<union> real_targets u)
     \<and> obj_ok ps' \<and> stored (obj_get ps') u \<and> (\<forall>k. k \<notin> set (ids u) \<longrightarrow> obj_get ps' k = obj_get ps k)"
proof (induction u arbitrary: depth ps seen)
  case (PLeaf i v)
  have c: "sanitize_content (pane_to_js (Content v)) seen
     = (v, if is_real (agentInstanceId v) then insert (agentInstanceId v) seen else seen)"
    by (rule sanitize_content_saved [OF PLeaf.prems(3)]) (use PLeaf.prems(8) in \<open>auto simp: targets_def\<close>)
  have "sanitize_visit raw i depth (ps, seen)
      = (obj_set ps i (Content v), seen \<union> real_targets (PLeaf i v))"
    using PLeaf.prems c by (subst sanitize_visit.simps) (simp add: targets_def has_key_def)
  then show ?case using PLeaf.prems(5) by (intro exI [of _ "obj_set ps i (Content v)"]) simp
next
  case (PNode i a q l r)
  let ?split = "Split a (pid l) (pid r) q"
  let ?ps1 = "obj_set ps i ?split"
  have raw: "map_of raw i = Some (pane_to_js ?split)"
    "\<forall>(k, p) \<in> set (nodes l). map_of raw k = Some (pane_to_js p)"
    "\<forall>(k, p) \<in> set (nodes r). map_of raw k = Some (pane_to_js p)"
    using PNode.prems(1) by auto
  have g: "good l" "good r" "i \<noteq> []" "i \<notin> set (ids l)" "i \<notin> set (ids r)"
    and disj: "set (ids l) \<inter> set (ids r) = {}"
    using PNode.prems(2) by simp_all
  have p: "persistable l" "persistable r" "saved_ratio q" "i \<notin> set INHERITED_KEYS"
    using PNode.prems(3) by simp_all
  have h: "Suc depth + height l \<le> 64" "Suc depth + height r \<le> 64" using PNode.prems(4) by auto
  have dd: "deduped l" "deduped r" "real_targets l \<inter> real_targets r = {}"
    using PNode.prems(7) by (auto simp: deduped_def targets_PNode)
  have sn: "real_targets l \<inter> seen = {}" "real_targets r \<inter> (seen \<union> real_targets l) = {}"
    using PNode.prems(8) dd(3) by (auto simp: targets_PNode)
  have f1: "\<forall>k \<in> set (ids l). obj_get ?ps1 k = None" using PNode.prems(6) g(4) by auto
  obtain ps2 where l: "sanitize_visit raw (pid l) (Suc depth) (?ps1, seen) = (ps2, seen \<union> real_targets l)"
    "obj_ok ps2" "stored (obj_get ps2) l" "\<forall>k. k \<notin> set (ids l) \<longrightarrow> obj_get ps2 k = obj_get ?ps1 k"
    using PNode.IH(1) [OF raw(2) g(1) p(1) h(1) obj_ok_set [OF PNode.prems(5)] f1 dd(1) sn(1)] by blast
  have f2: "\<forall>k \<in> set (ids r). obj_get ps2 k = None"
  proof
    fix k assume "k \<in> set (ids r)"
    then have "k \<notin> set (ids l)" "k \<noteq> i" using disj g(5) by auto
    then show "obj_get ps2 k = None" using l(4) PNode.prems(6) \<open>k \<in> set (ids r)\<close> by simp
  qed
  obtain ps3 where r: "sanitize_visit raw (pid r) (Suc depth) (ps2, seen \<union> real_targets l)
      = (ps3, seen \<union> real_targets l \<union> real_targets r)"
    "obj_ok ps3" "stored (obj_get ps3) r" "\<forall>k. k \<notin> set (ids r) \<longrightarrow> obj_get ps3 k = obj_get ps2 k"
    using PNode.IH(2) [OF raw(3) g(2) p(2) h(2) l(2) f2 dd(2) sn(2)] by blast
  have "sanitize_visit raw i depth (ps, seen) = (ps3, seen \<union> real_targets (PNode i a q l r))"
    using raw(1) g(3) p(4) PNode.prems(4,6) l(1) r(1) sanitize_split_saved [OF p(3), of a "pid l" "pid r"]
    by (subst sanitize_visit.simps) (simp add: targets_PNode Un_assoc has_key_def)
  moreover have "stored (obj_get ps3) l"
    by (rule stored_cong [OF l(3)]) (use r(4) disj in auto)
  moreover have "obj_get ps3 i = Some ?split" using r(4) l(4) g by simp
  moreover have "\<forall>k. k \<notin> set (ids (PNode i a q l r)) \<longrightarrow> obj_get ps3 k = obj_get ps k"
    using r(4) l(4) by simp
  ultimately show ?case using r(2,3) by (intro exI [of _ ps3]) simp
qed

lemma sanitize_saved:
  assumes ok: "tree_ok s t" and "persistable t" and "height t \<le> 64"
  obtains s' where "sanitizeMainTree (Some (tree_to_js s)) = Some s'" "tree_ok s' t"
    "focused_pane_id s' = focused_pane_id s" "maximized_pane_id s' = maximized_pane_id s"
proof -
  note rep = tree_okD(1) [OF ok] and good = tree_okD(2) [OF ok]
  let ?raw = "obj_map pane_to_js (panes s)"
  have "map_of ?raw k = Some (pane_to_js p)" if "(k, p) \<in> set (nodes t)" for k p
  proof -
    have "obj_get (panes s) k = Some p" using rep that by (auto simp: represents_def dest: stored_node)
    then have "obj_get ?raw k = Some (pane_to_js p)" by simp
    then show ?thesis by (simp only: obj_get_def)
  qed
  then have raw: "\<forall>(k, p) \<in> set (nodes t). map_of ?raw k = Some (pane_to_js p)" by blast
  obtain ps where v: "sanitize_visit ?raw (pid t) 0 ([], {}) = (ps, {} \<union> real_targets t)" "obj_ok ps"
    "stored (obj_get ps) t" "\<forall>k. k \<notin> set (ids t) \<longrightarrow> obj_get ps k = obj_get [] k"
    using sanitize_visit_saved [OF raw good assms(2) _ obj_ok_Nil _ tree_okD(4) [OF ok], of 0 "{}"] assms(3)
    by auto
  have rt: "root_pane_id s = pid t" using rep by (simp add: represents_def)
  let ?c = "\<lparr>root_pane_id = pid t, panes = ps, focused_pane_id = focused_pane_id s,
     maximized_pane_id = maximized_pane_id s\<rparr>"
  have repc: "represents ?c t" using v good unfolding represents_def by fastforce
  have closed: "closed_splits ps"
    unfolding closed_splits_def list_all_iff
  proof
    fix x assume "x \<in> set ps"
    obtain k n where x: "x = (k, n)" by fastforce
    with \<open>x \<in> set ps\<close> v(2) have k: "obj_get ps k = Some n" by (simp add: obj_get_in_set)
    then have "k \<in> set (ids t)" using v(4) by (metis obj_get_Nil option.distinct(1))
    then have "(k, n) \<in> set (nodes t)" using stored_id [OF v(3)] k by force
    then have "set (pane_children n) \<subseteq> set (child_refs (nodes t))" by (force simp: child_refs_def)
    then have "set (pane_children n) \<subseteq> set (ids t)" using set_child_refs [of t] by blast
    then have "\<forall>c \<in> set (pane_children n). has_key ps c"
      using stored_id [OF v(3)] unfolding has_key_def by (metis option.distinct(1) subsetD)
    then show "case x of (i, p) \<Rightarrow> (case p of Split a lc rc q \<Rightarrow> has_key ps lc \<and> has_key ps rc
        | Content v \<Rightarrow> True)" by (cases n) (simp_all add: x)
  qed
  have root_in: "has_key ps (pid t)" using stored_id [OF v(3) pid_in_ids] by (auto simp: has_key_def)
  have foc: "is_content (pane_at ?c (focused_pane_id s))"
    using represents_is_content [OF repc] tree_okD(3) [OF ok] by blast
  have len: "length (fst (calculatePaneLayouts ?c)) = length (leaves t)"
    by (simp add: layout_represents [OF repc])
  have "repair_candidate ?c = Some ?c"
  proof (cases "map layout_pane_id (fst (calculatePaneLayouts ?c))")
    case Nil
    then have "length (leaves t) = 0" using len by simp
    then show ?thesis by simp
  next
    case (Cons i others)
    have lo: "length (leaves t) = Suc (length others)"
      using arg_cong [OF Cons, of length] len by simp
    show ?thesis
    proof (cases "maximized_pane_id s")
      case None
      then show ?thesis using foc Cons by (simp add: repair_candidate_def)
    next
      case (Some m)
      then have m: "m \<in> set (leaf_ids t)" "1 < length (leaves t)" using tree_okD(6) [OF ok] by auto
      then have "is_content (pane_at ?c m)" using represents_is_content [OF repc] by blast
      moreover have "m \<in> set (ids t)" using m(1) leaf_ids_subset by blast
      then have "m \<noteq> []" using good by (auto simp: good_def)
      moreover have "others \<noteq> []" using m(2) lo by auto
      ultimately show ?thesis using foc Cons Some by (simp add: repair_candidate_def)
    qed
  qed
  moreover have "js_string (js_prop (Some (tree_to_js s)) ''maximizedPaneId'') = maximized_pane_id s"
    by (cases "maximized_pane_id s") (simp_all add: tree_to_js_def)
  ultimately have san: "sanitizeMainTree (Some (tree_to_js s)) = Some ?c"
    using v(1) closed root_in by (simp add: sanitizeMainTree_def tree_to_js_def rt)
  show thesis by (rule that [OF san sanitized_tree_ok [OF san repc]]) simp_all
qed

end
