(* ===== verification/WorkspaceProps.thy ===== *)
theory WorkspaceProps
  imports WorkspaceSave
begin

text \<open>
  The properties of the tiling engine and of the workspace slice, each with a concrete instance.
\<close>

section \<open>An example tree\<close>

definition sample_ptree :: "main_pane_value ptree" where
  "sample_ptree = PNode ''split-1'' Horizontal (Fin 50)
     (PLeaf ''pane-1'' (main_value ''inst'' None))
     (PNode ''split-2'' Vertical (Fin 40)
       (PLeaf ''pane-2'' (main_value ''sh_1'' None)) (PLeaf ''pane-3'' (main_value ''_new'' None)))"

definition sample_tree :: main_tree where
  "sample_tree = \<lparr>root_pane_id = ''split-1'', panes = nodes sample_ptree,
     focused_pane_id = ''pane-2'', maximized_pane_id = None\<rparr>"

lemma sample_represents: "represents sample_tree sample_ptree"
  unfolding represents_def sample_tree_def sample_ptree_def
  by (simp add: obj_ok_def obj_get_def good_def)

lemma sample_ok: "tree_ok sample_tree sample_ptree"
  unfolding tree_ok_def using sample_represents
  by (simp add: sample_ptree_def sample_tree_def targets_def deduped_def isRealAgentId_def
      canonical_iff js_trim_def is_js_space_def)

section \<open>The tiling engine\<close>

text \<open>
  C1. Splitting a pane implements the abstract split: the pane asked for, or the fallback leaf, is
  wrapped in a new split next to the new leaf, under ids no pane had before; nothing else moves,
  and the new pane is focused.
\<close>

theorem split_refines:
  assumes "represents s t" and "splitPaneInTree s x d new nid = (s', parent, child)"
  shows "\<exists>y v. (y, v) \<in> set (leaves t) \<and> (x \<in> set (leaf_ids t) \<longrightarrow> y = x)
    \<and> represents s' (wrap_leaf y (new_node d parent (PLeaf child new)) t)
    \<and> parent \<notin> set (ids t) \<and> child \<notin> set (ids t) \<and> focused_pane_id s' = child"
proof -
  obtain y v where y: "resolve_split_target s x = Some y" "(y, v) \<in> set (leaves t)"
    "x \<in> set (leaf_ids t) \<longrightarrow> y = x"
    using resolve_split_target_leaf [OF assms(1)] by blast
  show ?thesis using split_represents [OF assms(1) y(1,2) assms(2)] y by blast
qed

lemma split_refines_witness:
  "\<exists>s' parent child y v. splitPaneInTree sample_tree ''pane-1'' (SideDir DirBottom) (main_value ''_new'' None) None
     = (s', parent, child) \<and> (y, v) \<in> set (leaves sample_ptree)
     \<and> represents s' (wrap_leaf y (new_node (SideDir DirBottom) parent (PLeaf child (main_value ''_new'' None))) sample_ptree)"
proof -
  obtain s' parent child where r: "splitPaneInTree sample_tree ''pane-1'' (SideDir DirBottom)
      (main_value ''_new'' None) None = (s', parent, child)" by (metis prod_cases3)
  from split_refines [OF sample_represents r] r show ?thesis by blast
qed

text \<open>
  C2. Closing a leaf of a tree with more leaves removes exactly that leaf: its sibling takes the
  place of their parent, a leaf is focused afterwards, and a tree is not reported empty.
\<close>

theorem close_refines:
  assumes "represents s t" and "x \<in> set (leaf_ids t)" and "x \<noteq> pid t"
  shows "\<exists>s' t'. closePaneInTree s x = (s', False) \<and> remove_leaf x t = Some t' \<and> represents s' t'
    \<and> focused_pane_id s' \<in> set (leaf_ids t')"
proof -
  obtain v where "(x, v) \<in> set (leaves t)" using assms(2) by force
  then show ?thesis using close_represents [OF assms(1) _ assms(3)] by metis
qed

lemma close_refines_witness:
  "\<exists>s' t'. closePaneInTree sample_tree ''pane-2'' = (s', False) \<and> remove_leaf ''pane-2'' sample_ptree = Some t'
     \<and> represents s' t' \<and> focused_pane_id s' \<in> set (leaf_ids t')"
  by (rule close_refines [OF sample_represents]) (simp_all add: sample_ptree_def)

text \<open>
  C3. Moving a leaf next to another removes it where it was and wraps the target with it; the moved
  leaf keeps its id and its value and is focused.
\<close>

theorem move_refines:
  assumes "represents s t" and "(x, v) \<in> set (leaves t)" and "(y, w) \<in> set (leaves t)" and "x \<noteq> y"
  shows "\<exists>s' t' parent. movePaneInTree s x y d = (s', True) \<and> remove_leaf x t = Some t'
    \<and> represents s' (wrap_leaf y (new_node d parent (PLeaf x v)) t') \<and> focused_pane_id s' = x"
  using move_represents [OF assms] by metis

lemma move_refines_witness:
  "\<exists>s' t' parent. movePaneInTree sample_tree ''pane-1'' ''pane-3'' (SideDir DirTop) = (s', True)
     \<and> remove_leaf ''pane-1'' sample_ptree = Some t'
     \<and> represents s' (wrap_leaf ''pane-3'' (new_node (SideDir DirTop) parent (PLeaf ''pane-1'' (main_value ''inst'' None))) t')
     \<and> focused_pane_id s' = ''pane-1''"
  by (rule move_refines [OF sample_represents, of _ _ _ "main_value ''_new'' None"])
     (simp_all add: sample_ptree_def)

text \<open>
  Swapping two leaves exchanges their positions and nothing else; the result is a tree with the
  same leaves.
\<close>

theorem swap_refines:
  assumes "represents s t" and "(a, va) \<in> set (leaves t)" and "(b, vb) \<in> set (leaves t)" and "a \<noteq> b"
  shows "\<exists>s'. swapPanesInTree s a b = (s', True) \<and> represents s' (exchange (a, va) (b, vb) t)
    \<and> mset (leaves (exchange (a, va) (b, vb) t)) = mset (leaves t)
    \<and> focused_pane_id s' = focused_pane_id s"
proof -
  have "good t" using assms(1) by (simp add: represents_def)
  then show ?thesis
    using swap_represents [OF assms] mset_leaves_exchange [OF _ assms(2-4)] by metis
qed

lemma swap_refines_witness:
  "\<exists>s'. swapPanesInTree sample_tree ''pane-1'' ''pane-2'' = (s', True)
     \<and> represents s' (exchange (''pane-1'', main_value ''inst'' None) (''pane-2'', main_value ''sh_1'' None) sample_ptree)
     \<and> mset (leaves (exchange (''pane-1'', main_value ''inst'' None) (''pane-2'', main_value ''sh_1'' None) sample_ptree))
         = mset (leaves sample_ptree)
     \<and> focused_pane_id s' = focused_pane_id sample_tree"
  by (rule swap_refines [OF sample_represents]) (simp_all add: sample_ptree_def)

text \<open>
  C4. The rectangles of the laid-out panes tile the container: every point of it lies in exactly
  one pane, whatever the split ratios are.
\<close>

theorem layout_tiles_container:
  assumes "represents s t"
  shows "length (filter (\<lambda>p. covers p x y) (fst (calculatePaneLayouts s)))
       = (if covers full_bounds x y then 1 else 0)"
  using tree_layout_tiles [OF positive_full, of x y t] by (simp add: layout_represents [OF assms] of_bool_def)

lemma layout_tiles_container_witness:
  "length (filter (\<lambda>p. covers p 10 99) (fst (calculatePaneLayouts sample_tree))) = 1"
  using layout_tiles_container [OF sample_represents, of 10 99] by (simp add: covers_def full_bounds_def)

text \<open>
  On every pane state, malformed or cyclic ones included, the layout and the traversal return
  (both are total), and the laid-out panes are the leaves the traversal visits, in its order.
\<close>

theorem layout_agrees_with_traversal:
  "map layout_pane_id (fst (calculatePaneLayouts s))
     = snd (visit_content (panes s) (root_pane_id s) ({}, []))"
  by (rule layout_ids)

section \<open>The workspace slice\<close>

text \<open>
  C5. Every run of reducers from the initial state returns, and its result stands for a tree: the
  focus is a leaf, the maximized pane is one of several leaves, targets are canonical and no target
  is open in two panes. Only a URL payload is constrained: its real targets are distinct and a
  saved layout, once sanitized, has tree references.
\<close>

theorem workspace_runs_ok:
  assumes "list_all main_admissible as"
  shows "\<exists>s. run_actions workspace_reduce initial_workspace as = Some s \<and> workspace_ok s"
  by (rule workspace.run_inv [OF workspace.init_inv assms])

lemma workspace_runs_ok_witness:
  "\<exists>s. run_actions workspace_reduce initial_workspace
     [SplitMainPane \<lparr>sp_targetPaneId = None, sp_direction = SideDir DirRight, sp_agentInstanceId = Some ''inst'',
        sp_launchIntent = None, sp_newPaneId = None\<rparr>,
      SetLayoutFromUrl \<lparr>up_ids = [''inst'', ''chain:9''], up_focusedId = Some ''inst'', up_savedLayout = None\<rparr>,
      ResizeFocusedMainPane Wider, CloseMainPane ''pane-1'', ToggleMaximizeMainPane None] = Some s
     \<and> workspace_ok s"
  by (rule workspace_runs_ok)
     (simp add: url_admissible_def isRealAgentId_def normalizeAgentId_def str_or_def js_trim_def
       is_js_space_def NEW_PANE_AGENT_ID_def)

text \<open>
  The URL decides the open pane set: after \<open>setLayoutFromUrl\<close> without a saved layout, the targets
  of the leaves are the normalized targets of the URL, each as often as the URL has it.
\<close>

theorem url_decides_targets:
  assumes "tree_ok (tree s) t" and "url_admissible p" and "up_savedLayout p = None" and "up_ids p \<noteq> []"
    and "\<forall>a \<in> set (targets t) \<union> set (map (normalizeAgentId \<circ> Some) (up_ids p)). CHR ''+'' \<notin> set a"
  shows "mset (selectMainLeafIds (tree (setLayoutFromUrl p s)))
       = mset (map (normalizeAgentId \<circ> Some) (up_ids p))"
proof -
  obtain t' where t': "tree_ok (tree (setLayoutFromUrl p s)) t'"
    "mset (targets t') = mset (map (normalizeAgentId \<circ> Some) (up_ids p))"
    using setLayoutFromUrl_spec [OF assms(1,2)] assms(3-5) by metis
  then show ?thesis by (simp add: selectMainLeafIds_represents [OF tree_okD(1) [OF t'(1)]])
qed

lemma url_decides_targets_witness:
  "mset (selectMainLeafIds (tree (setLayoutFromUrl
      \<lparr>up_ids = [''inst'', ''x'', ''sh_1''], up_focusedId = Some ''x'', up_savedLayout = None\<rparr> \<lparr>tree = sample_tree\<rparr>)))
   = mset [''inst'', ''x'', ''sh_1'']"
  using url_decides_targets [of "\<lparr>tree = sample_tree\<rparr>" sample_ptree
      "\<lparr>up_ids = [''inst'', ''x'', ''sh_1''], up_focusedId = Some ''x'', up_savedLayout = None\<rparr>"]
    sample_ok
  by (simp add: url_admissible_def isRealAgentId_def normalizeAgentId_def str_or_def js_trim_def
      is_js_space_def NEW_PANE_AGENT_ID_def sample_ptree_def targets_def)

text \<open>
  C6. The climb of \<open>nearestResizeSplit\<close> ends on every tree, and finds the innermost split of the axis
  above the pane with the side of the pane in it.
\<close>

theorem nearest_resize_split_spec:
  assumes "represents s t" and "x \<in> set (ids t)"
  shows "nearestResizeSplit s x ax = Some (nearest_split ax x t)"
  by (rule nearest_represents [OF assms])

lemma nearest_resize_split_spec_witness:
  "nearestResizeSplit sample_tree ''pane-3'' Horizontal = Some (Some (''split-1'', RightSide, Fin 50))"
  using nearest_resize_split_spec [OF sample_represents, of "''pane-3''" Horizontal]
  by (simp add: sample_ptree_def)

text \<open>
  The sanitizer gives back a persisted workspace: for a tree with saved ratios and at most 64
  levels, sanitizing its JSON value yields a state of the same tree, focus and maximized pane.
\<close>

theorem sanitize_round_trip:
  assumes "tree_ok s t" and "persistable t" and "height t \<le> 64"
  shows "\<exists>s'. sanitizeMainTree (Some (tree_to_js s)) = Some s' \<and> tree_ok s' t
    \<and> focused_pane_id s' = focused_pane_id s \<and> maximized_pane_id s' = maximized_pane_id s"
  using sanitize_saved [OF assms] by metis

lemma sanitize_round_trip_witness:
  "\<exists>s'. sanitizeMainTree (Some (tree_to_js sample_tree)) = Some s' \<and> tree_ok s' sample_ptree
    \<and> focused_pane_id s' = ''pane-2'' \<and> maximized_pane_id s' = None"
proof -
  have "persistable sample_ptree"
    by (simp add: sample_ptree_def main_value_def canonical_iff js_trim_def is_js_space_def INHERITED_KEYS_def)
  moreover have "height sample_ptree \<le> 64" by (simp add: sample_ptree_def)
  ultimately show ?thesis
    using sanitize_round_trip [OF sample_ok] by (simp add: sample_tree_def)
qed

text \<open>
  C7. Whatever value was persisted, an accepted tree has these shapes: the focus is a leaf, ratios
  are between 5 and 95, targets are canonical, no target is in two panes, and a child of a split
  either is a pane of the tree or is called like a property every object inherits
  (\<open>INHERITED_KEYS\<close>, such as \<open>constructor\<close>): the source tests \<open>panes[childId]\<close> on a plain object, so
  a child with such a name passes the test without being a pane.
\<close>

theorem sanitize_sound:
  assumes "sanitizeMainTree raw = Some s"
  shows "is_content (pane_at s (focused_pane_id s))
    \<and> (\<forall>k p. pane_at s k = Some p \<longrightarrow> pane_sane s p)
    \<and> (\<forall>k j v w. pane_at s k = Some (Content v) \<longrightarrow> pane_at s j = Some (Content w) \<longrightarrow>
         agentInstanceId v = agentInstanceId w \<longrightarrow> is_real (agentInstanceId v) \<longrightarrow> k = j)"
proof -
  obtain rt raw_panes c where c: "panes c = fst (sanitize_visit raw_panes rt 0 ([], {}))"
    "closed_splits (panes c)" "repair_candidate c = Some s" using sanitize_Some [OF assms] by metis
  note rc = repair_candidate_Some [OF c(3)]
  obtain seen where ok: "visit_ok (panes s, seen)"
    using sanitize_visit_ok [of s raw_panes rt] c(1) rc(2) by auto
  have "pane_sane s p" if k: "pane_at s k = Some p" for k p
  proof (cases p)
    case (Content v)
    then show ?thesis using ok k unfolding visit_ok_def by auto
  next
    case (Split a lc rc' q)
    have "obj_ok (panes c)" using ok rc(2) by (simp add: visit_ok_def)
    then have "has_key (panes s) lc \<and> has_key (panes s) rc'"
      using closed_splitsD [OF c(2)] k rc(2) Split by metis
    moreover have "\<exists>x. q = Fin x \<and> 5 \<le> x \<and> x \<le> 95"
      by (rule visit_ratios [of "([], {})" raw_panes rt 0 k a lc rc' q]) (use c(1) rc(2) k Split in auto)
    ultimately show ?thesis by (simp add: Split)
  qed
  then show ?thesis using sanitize_focus [OF c(3)] ok unfolding visit_ok_def fst_conv by blast
qed

lemma sanitize_sound_witness:
  "\<exists>s. sanitizeMainTree (Some (JObj [(''rootPaneId'', JStr ''p''),
       (''panes'', JObj [(''p'', JObj [(''kind'', JStr ''content''), (''value'', JNull)])])])) = Some s
     \<and> is_content (pane_at s (focused_pane_id s))"
proof -
  let ?raw = "Some (JObj [(''rootPaneId'', JStr ''p''),
       (''panes'', JObj [(''p'', JObj [(''kind'', JStr ''content''), (''value'', JNull)])])])"
  have "sanitizeMainTree ?raw \<noteq> None" by code_simp
  then obtain s where s: "sanitizeMainTree ?raw = Some s" by blast
  from sanitize_sound [OF this] s show ?thesis by blast
qed

text \<open>
  The gap in the test of the children: the split below has a child called \<open>constructor\<close> that is no
  pane, and its tree is accepted.
\<close>

lemma inherited_child_accepted:
  "case sanitizeMainTree (Some (JObj [(''rootPaneId'', JStr ''s''),
      (''panes'', JObj
        [(''s'', JObj [(''kind'', JStr ''split''), (''leftChildId'', JStr ''p''),
                       (''rightChildId'', JStr ''constructor'')]),
         (''p'', JObj [(''kind'', JStr ''content''), (''value'', JNull)])])])) of
     None \<Rightarrow> False
   | Some s \<Rightarrow> pane_at s ''s'' = Some (Split Horizontal ''p'' ''constructor'' (Fin 50))
       \<and> pane_at s ''constructor'' = None"
  by code_simp

text \<open>
  The default geometry gives up to twenty targets panes of equal width and full height, in the
  order of the URL.
\<close>

theorem default_layout_equal_widths:
  assumes "agents \<noteq> []" and "length agents \<le> 20"
  shows "\<exists>s. buildDefaultSplitTree agents = Some s \<and> selectMainLeafIds s = agents
    \<and> (\<forall>p \<in> set (fst (calculatePaneLayouts s)).
         b_width p = 100 / of_nat (length agents) \<and> b_top p = 0 \<and> b_height p = 100)"
proof -
  obtain s where s: "buildDefaultSplitTree agents = Some s" "represents s (default_tree 0 agents)"
    using build_default_represents [OF assms(1)] by metis
  have "selectMainLeafIds s = agents"
    using selectMainLeafIds_represents [OF s(2)] default_tree_leaves [OF assms(1)] by (simp add: targets_def)
  moreover have "b_width p = 100 / of_nat (length agents) \<and> b_top p = 0 \<and> b_height p = 100"
    if "p \<in> set (fst (calculatePaneLayouts s))" for p
    using default_tree_widths [OF assms, of p 0 full_bounds] that
    by (simp add: layout_represents [OF s(2)] full_bounds_def)
  ultimately show ?thesis using s(1) by blast
qed

lemma default_layout_equal_widths_witness:
  "\<exists>s. buildDefaultSplitTree [''a'', ''b'', ''c''] = Some s \<and> selectMainLeafIds s = [''a'', ''b'', ''c'']
    \<and> (\<forall>p \<in> set (fst (calculatePaneLayouts s)). b_width p = 100 / 3 \<and> b_top p = 0 \<and> b_height p = 100)"
  using default_layout_equal_widths [of "[''a'', ''b'', ''c'']"] by simp

text \<open>
  Opening a target that is already open only moves the focus to its pane: neither a split nor
  an assignment to that same pane opens it a second time.
\<close>

theorem split_existing_focuses:
  assumes "represents (tree s) t" and "normalizeAgentId (sp_agentInstanceId p) = a"
    and "is_real a" and "a \<in> set (targets t)"
  shows "\<exists>k v. (k, v) \<in> set (leaves t) \<and> agentInstanceId v = a
    \<and> splitMainPane p s = s\<lparr>tree := (tree s)\<lparr>focused_pane_id := k\<rparr>\<rparr>"
proof -
  have "findPaneByAgent (tree s) a \<noteq> None" using findPane_None [OF assms(1) _ assms(3)] assms(4) by blast
  then obtain k where k: "findPaneByAgent (tree s) a = Some k" by blast
  from findPane_Some(2) [OF assms(1) k] obtain v where v: "(k, v) \<in> set (leaves t)" "agentInstanceId v = a"
    by blast
  then have "k \<noteq> []" using leaf_id_non_empty [OF assms(1), of k] by force
  then show ?thesis using v k by (auto simp: splitMainPane_def Let_def assms(2))
qed

lemma split_existing_focuses_witness:
  "\<exists>k v. (k, v) \<in> set (leaves sample_ptree) \<and> agentInstanceId v = ''inst''
    \<and> splitMainPane \<lparr>sp_targetPaneId = Some ''pane-2'', sp_direction = AxisDir Vertical,
         sp_agentInstanceId = Some ''inst '', sp_launchIntent = None, sp_newPaneId = None\<rparr> \<lparr>tree = sample_tree\<rparr>
       = \<lparr>tree = sample_tree\<lparr>focused_pane_id := k\<rparr>\<rparr>"
  using split_existing_focuses [of "\<lparr>tree = sample_tree\<rparr>" sample_ptree
      "\<lparr>sp_targetPaneId = Some ''pane-2'', sp_direction = AxisDir Vertical,
         sp_agentInstanceId = Some ''inst '', sp_launchIntent = None, sp_newPaneId = None\<rparr>" "''inst''"]
    sample_represents
  by (simp add: normalizeAgentId_def str_or_def js_trim_def is_js_space_def isRealAgentId_def
      NEW_PANE_AGENT_ID_def sample_ptree_def targets_def)

end
