(* ===== verification/SplitGroups.thy ===== *)
theory SplitGroups
  imports WorkspaceProps
begin

text \<open>
  Split groups (\<open>src/ui/store/splitGroups.ts\<close>): which targets were open together, and the geometry
  saved for each set of targets. \<open>localStorage\<close> is an association list from keys to texts; a text
  is abstracted to the value \<open>JSON.parse\<close> gives, or \<open>NotJson\<close> when it throws. Storage that is not
  available is \<open>None\<close>; a write never fails for lack of space.
\<close>

section \<open>Groups\<close>

definition SPLIT_GROUP_INDEX_STORAGE_KEY :: string where
  "SPLIT_GROUP_INDEX_STORAGE_KEY = ''heimdall:split-groups:v2''"

definition SPLIT_LAYOUT_STORAGE_PREFIX :: string where
  "SPLIT_LAYOUT_STORAGE_PREFIX = ''heimdall:split-layout:v2:''"

definition LEGACY_SPLIT_GROUP_INDEX_STORAGE_KEY :: string where
  "LEGACY_SPLIT_GROUP_INDEX_STORAGE_KEY = ''heimdall:split-groups:v1''"

definition LEGACY_SPLIT_LAYOUT_STORAGE_PREFIX :: string where
  "LEGACY_SPLIT_LAYOUT_STORAGE_PREFIX = ''heimdall:split-layout:v1:''"

definition isRealId :: "string \<Rightarrow> bool" where
  "isRealId i = (i \<noteq> [] \<and> i \<noteq> NEW_PANE_AGENT_ID)"

definition hasRealAgents :: "string list \<Rightarrow> bool" where
  "hasRealAgents g = list_ex isRealId g"

definition sortedKey :: "string list \<Rightarrow> string" where
  "sortedKey agents = sorted_key agents"

definition getGroupsToEvict :: "string list list \<Rightarrow> string list \<Rightarrow> string list list" where
  "getGroupsToEvict groups active =
     (let reals = filter isRealId active in
      if reals = [] then []
      else filter (\<lambda>g. sortedKey g \<noteq> sortedKey reals \<and> list_ex (\<lambda>i. i \<in> set reals) g) groups)"

definition evictAgentFromGroups ::
  "string list list \<Rightarrow> string \<Rightarrow> string list list \<times> string list list" where
  "evictAgentFromGroups groups agent =
     (filter (\<lambda>g. 1 < length (filter isRealId g)) (map (filter (\<lambda>i. i \<noteq> agent)) groups),
      filter (\<lambda>g. agent \<in> set g) groups)"

definition computeUpdatedGroups :: "string list list \<Rightarrow> string list \<Rightarrow> string list list" where
  "computeUpdatedGroups prev active =
     (let reals = filter isRealId active in
      if reals = [] then prev
      else
        (let evict = set (map sortedKey (getGroupsToEvict prev reals));
             next1 = filter (\<lambda>g. sortedKey g \<notin> evict) prev;
             next2 = (if 1 < length reals \<and> \<not> list_ex (\<lambda>g. sortedKey g = sortedKey reals) next1
                      then next1 @ [reals] else next1)
         in filter (\<lambda>g. 1 < length g \<and> hasRealAgents g) next2))"

fun string_items :: "js list \<Rightarrow> string list option" where
  "string_items [] = Some []"
| "string_items (JStr s # r) = map_option (Cons s) (string_items r)"
| "string_items (_ # r) = None"

fun group_of :: "js \<Rightarrow> string list option" where
  "group_of (JArr xs) = string_items xs"
| "group_of _ = None"

fun filterValidGroups :: "js \<Rightarrow> string list list" where
  "filterValidGroups (JArr gs) =
     filter (\<lambda>g. 1 < length (filter isRealId g)) (List.map_filter group_of gs)"
| "filterValidGroups _ = []"

definition findGroupForAgent :: "string list list \<Rightarrow> string \<Rightarrow> string list option" where
  "findGroupForAgent groups agent = find (\<lambda>g. 1 < length g \<and> agent \<in> set g) groups"

section \<open>Storage\<close>

datatype stored_text = NotJson | Json js

type_synonym storage = "stored_text js_obj"

definition groups_to_js :: "string list list \<Rightarrow> js" where
  "groups_to_js groups = JArr (map (JArr \<circ> map JStr) groups)"

definition getLayoutStorageKey :: "string list \<Rightarrow> string" where
  "getLayoutStorageKey agents = SPLIT_LAYOUT_STORAGE_PREFIX @ sortedKey agents"

definition leafAgentIds :: "main_tree \<Rightarrow> string list" where
  "leafAgentIds t =
     map (\<lambda>i. case leaf_agent t i of Some a \<Rightarrow> a | None \<Rightarrow> NEW_PANE_AGENT_ID) (getContentPaneIds t)"

definition parsed_groups :: "stored_text \<Rightarrow> string list list" where
  "parsed_groups text = (case text of NotJson \<Rightarrow> [] | Json v \<Rightarrow> filterValidGroups v)"

definition copy_legacy_layout :: "string list \<Rightarrow> storage \<Rightarrow> storage" where
  "copy_legacy_layout g st =
     (case obj_get st (LEGACY_SPLIT_LAYOUT_STORAGE_PREFIX @ sortedKey g) of
        None \<Rightarrow> st
      | Some raw \<Rightarrow> obj_set st (getLayoutStorageKey g) raw)"

definition migrateLegacySplitStorage :: "storage \<Rightarrow> storage" where
  "migrateLegacySplitStorage st =
     (case obj_get st LEGACY_SPLIT_GROUP_INDEX_STORAGE_KEY of
        None \<Rightarrow> st
      | Some legacy_raw \<Rightarrow>
          (let st1 = (if obj_get st SPLIT_GROUP_INDEX_STORAGE_KEY = None
                      then (let legacy = parsed_groups legacy_raw
                            in obj_set (fold copy_legacy_layout legacy st) SPLIT_GROUP_INDEX_STORAGE_KEY
                                 (Json (groups_to_js legacy)))
                      else st);
               st2 = filter (\<lambda>(k, _). \<not> starts_with LEGACY_SPLIT_LAYOUT_STORAGE_PREFIX k) st1
           in obj_del st2 LEGACY_SPLIT_GROUP_INDEX_STORAGE_KEY))"

text \<open>Reading returns the storage too: it migrates first.\<close>

definition readGroupIndex :: "storage option \<Rightarrow> storage option \<times> string list list" where
  "readGroupIndex so =
     (case so of
        None \<Rightarrow> (None, [])
      | Some st \<Rightarrow>
          (let st1 = migrateLegacySplitStorage st
           in (Some st1, case obj_get st1 SPLIT_GROUP_INDEX_STORAGE_KEY of
                           None \<Rightarrow> [] | Some text \<Rightarrow> parsed_groups text)))"

definition writeGroupIndex :: "string list list \<Rightarrow> storage option \<Rightarrow> storage option" where
  "writeGroupIndex groups so =
     map_option (\<lambda>st. obj_set st SPLIT_GROUP_INDEX_STORAGE_KEY (Json (groups_to_js groups))) so"

definition saveLayoutGeometry :: "main_tree \<Rightarrow> storage option \<Rightarrow> storage option" where
  "saveLayoutGeometry t so =
     (let agents = leafAgentIds t in
      if filter isRealId agents = [] then so
      else map_option (\<lambda>st. obj_set st (getLayoutStorageKey agents) (Json (tree_to_js t))) so)"

definition deleteLayoutGeometry :: "string list \<Rightarrow> storage option \<Rightarrow> storage option" where
  "deleteLayoutGeometry agents so = map_option (\<lambda>st. obj_del st (getLayoutStorageKey agents)) so"

definition loadSavedLayout :: "string list \<Rightarrow> storage option \<Rightarrow> storage option \<times> main_tree option" where
  "loadSavedLayout agents so =
     (case so of
        None \<Rightarrow> (None, None)
      | Some st \<Rightarrow>
          if length agents < 2 then (Some st, None)
          else
            (let st1 = migrateLegacySplitStorage st
             in (Some st1,
                 case obj_get st1 (getLayoutStorageKey agents) of
                   Some (Json v) \<Rightarrow>
                     (case sanitizeMainTree (Some v) of
                        Some t \<Rightarrow> (if sortedKey (leafAgentIds t) = sortedKey agents then Some t else None)
                      | None \<Rightarrow> None)
                 | _ \<Rightarrow> None)))"

definition persistSplitLayout ::
  "main_tree \<Rightarrow> string option \<Rightarrow> storage option \<Rightarrow> storage option \<times> string" where
  "persistSplitLayout t prev_key so =
     (let so1 = saveLayoutGeometry t so;
          active = leafAgentIds t;
          current = sortedKey active
      in if active \<noteq> [] \<and> Some current \<noteq> prev_key
         then (let (so2, groups) = readGroupIndex so1;
                   so3 = fold deleteLayoutGeometry (getGroupsToEvict groups active) so2
               in (writeGroupIndex (computeUpdatedGroups groups active) so3, current))
         else (so1, current))"

definition resolveOpenAgentIds :: "string \<Rightarrow> string list list \<Rightarrow> string list \<times> string" where
  "resolveOpenAgentIds agent groups =
     (case findGroupForAgent groups agent of
        Some g \<Rightarrow> if 1 < length g then (g, agent) else ([agent], agent)
      | None \<Rightarrow> ([agent], agent))"

section \<open>The group index\<close>

text \<open>A well-formed index: groups of several distinct real targets, no target in two groups.\<close>

definition plain_id :: "string \<Rightarrow> bool" where
  "plain_id i = (CHR ''+'' \<notin> set i)"

definition group_ok :: "string list \<Rightarrow> bool" where
  "group_ok g \<longleftrightarrow> 1 < length g \<and> distinct g \<and> list_all isRealId g \<and> list_all plain_id g"

definition groups_ok :: "string list list \<Rightarrow> bool" where
  "groups_ok gs \<longleftrightarrow> list_all group_ok gs \<and> sorted_wrt (\<lambda>g h. set g \<inter> set h = {}) gs"

lemma key_mset:
  assumes "sortedKey g = sortedKey h" and "g \<noteq> []" "h \<noteq> []" and "list_all plain_id g" "list_all plain_id h"
  shows "mset g = mset h"
proof (rule sorted_key_eq)
  show "sorted_key g = sorted_key h" using assms(1) by (simp only: sortedKey_def)
  show "\<forall>x \<in> set g. CHR ''+'' \<notin> set x" "\<forall>x \<in> set h. CHR ''+'' \<notin> set x"
    using assms(4,5) by (auto simp: list_all_iff plain_id_def)
qed (rule assms)+

lemma mset_same_set: "mset g = mset h \<Longrightarrow> set g = set h"
  by (rule mset_eq_setD)

lemma key_cong: "mset g = mset h \<Longrightarrow> sortedKey g = sortedKey h"
  unfolding sortedKey_def by (rule sorted_key_mset)

lemma group_okD:
  assumes "group_ok g"
  shows "1 < length g" "g \<noteq> []" "distinct g" "list_all isRealId g" "list_all plain_id g" "hasRealAgents g"
proof -
  show 1: "1 < length g" "distinct g" "list_all isRealId g" "list_all plain_id g"
    using assms by (simp_all add: group_ok_def)
  then show "g \<noteq> []" by auto
  then show "hasRealAgents g" using 1(3) by (cases g) (simp_all add: hasRealAgents_def)
qed

lemma groups_okD:
  assumes "groups_ok gs"
  shows "g \<in> set gs \<Longrightarrow> group_ok g" "sorted_wrt (\<lambda>g h. set g \<inter> set h = {}) gs"
  using assms by (simp_all add: groups_ok_def list_all_iff)

text \<open>The groups that stay are those equal to the active set \<open>R\<close> or disjoint from it.\<close>

lemma same_key:
  assumes "group_ok g" and "list_all plain_id R" and "R \<noteq> []" and "sortedKey g = sortedKey R"
  shows "set g = set R" "length g = length R"
proof -
  have "mset g = mset R"
    by (rule key_mset [OF assms(4)]) (use assms group_okD [OF assms(1)] in simp_all)
  then show "set g = set R" "length g = length R"
    by (rule mset_eq_setD) (rule mset_eq_length [OF \<open>mset g = mset R\<close>])
qed

lemma evicted:
  assumes "R \<noteq> []" and "filter isRealId R = R"
  shows "g \<in> set (getGroupsToEvict gs R) \<longleftrightarrow>
    g \<in> set gs \<and> sortedKey g \<noteq> sortedKey R \<and> set g \<inter> set R \<noteq> {}"
  using assms by (auto simp: getGroupsToEvict_def Let_def list_ex_iff)

lemma kept_groups:
  assumes ok: "groups_ok gs" and R: "R \<noteq> []" "filter isRealId R = R" and g: "g \<in> set gs"
  shows "sortedKey g \<notin> set (map sortedKey (getGroupsToEvict gs R)) \<longleftrightarrow>
    sortedKey g = sortedKey R \<or> set g \<inter> set R = {}"
proof
  assume "sortedKey g \<notin> set (map sortedKey (getGroupsToEvict gs R))"
  then have "g \<notin> set (getGroupsToEvict gs R)" by auto
  then show "sortedKey g = sortedKey R \<or> set g \<inter> set R = {}" using evicted [OF R] g by blast
next
  assume a: "sortedKey g = sortedKey R \<or> set g \<inter> set R = {}"
  show "sortedKey g \<notin> set (map sortedKey (getGroupsToEvict gs R))"
  proof
    assume "sortedKey g \<in> set (map sortedKey (getGroupsToEvict gs R))"
    then obtain h where "h \<in> set (getGroupsToEvict gs R)" and eq: "sortedKey g = sortedKey h" by auto
    then have h: "h \<in> set gs" "sortedKey h \<noteq> sortedKey R" "set h \<inter> set R \<noteq> {}"
      using evicted [OF R] by blast+
    note gh = group_okD [OF groups_okD(1) [OF ok g]] group_okD [OF groups_okD(1) [OF ok h(1)]]
    have "mset g = mset h" by (rule key_mset [OF eq]) (use gh in simp_all)
    then have "set g = set h" by (rule mset_same_set)
    with a h eq show False by simp
  qed
qed

lemma updated_groups_form:
  assumes ok: "groups_ok gs" and pl: "list_all plain_id active" and ne: "filter isRealId active \<noteq> []"
    and dr: "distinct (filter isRealId active)"
  defines "R \<equiv> filter isRealId active"
  defines "stay \<equiv> filter (\<lambda>g. sortedKey g = sortedKey R \<or> set g \<inter> set R = {}) gs"
  shows "computeUpdatedGroups gs active =
     (if 1 < length R \<and> \<not> list_ex (\<lambda>g. sortedKey g = sortedKey R) stay then stay @ [R] else stay)"
proof -
  have R: "R \<noteq> []" "filter isRealId R = R" using ne by (simp_all add: R_def)
  have stay: "filter (\<lambda>g. sortedKey g \<notin> set (map sortedKey (getGroupsToEvict gs R))) gs = stay"
    unfolding stay_def by (rule filter_cong [OF refl]) (rule kept_groups [OF ok R])
  have sane: "1 < length g \<and> hasRealAgents g" if "g \<in> set stay" for g
    using that group_okD [OF groups_okD(1) [OF ok]] by (simp add: stay_def)
  have "list_all isRealId R" by (simp add: R_def list_all_iff)
  then have "hasRealAgents R" using R(1) by (cases R) (simp_all add: hasRealAgents_def)
  then show ?thesis
    unfolding computeUpdatedGroups_def Let_def R_def [symmetric] stay
    using R(1) sane by (auto intro: filter_True)
qed

lemma groups_ok_snoc:
  "groups_ok gs \<Longrightarrow> group_ok r \<Longrightarrow> (\<And>g. g \<in> set gs \<Longrightarrow> set g \<inter> set r = {}) \<Longrightarrow> groups_ok (gs @ [r])"
  by (simp add: groups_ok_def sorted_wrt_append)

lemma updated_groups:
  assumes ok: "groups_ok gs" and pl: "list_all plain_id active" and dr: "distinct (filter isRealId active)"
  defines "R \<equiv> filter isRealId active"
  shows "groups_ok (computeUpdatedGroups gs active)
    \<and> (1 < length R \<longrightarrow> (\<exists>g \<in> set (computeUpdatedGroups gs active). set g = set R))
    \<and> (\<forall>g \<in> set (computeUpdatedGroups gs active). set g = set R \<or> set g \<inter> set R = {})
    \<and> (\<forall>g \<in> set gs. set g \<inter> set R = {} \<longrightarrow> g \<in> set (computeUpdatedGroups gs active))"
    (is "?ok \<and> ?in \<and> ?all \<and> ?keep")
proof (cases "R = []")
    case True
    then have "computeUpdatedGroups gs active = gs" by (simp add: computeUpdatedGroups_def R_def)
    then show ?thesis using ok True by simp
  next
    case False
    let ?res = "computeUpdatedGroups gs active"
    let ?stay = "filter (\<lambda>g. sortedKey g = sortedKey R \<or> set g \<inter> set R = {}) gs"
    have plR: "list_all plain_id R" using pl by (simp add: R_def list_all_iff)
    have form: "?res = (if 1 < length R \<and> \<not> list_ex (\<lambda>g. sortedKey g = sortedKey R) ?stay
        then ?stay @ [R] else ?stay)"
      using updated_groups_form [OF ok pl False [unfolded R_def] dr] unfolding R_def .
    have stay: "set g = set R \<or> set g \<inter> set R = {}" if "g \<in> set ?stay" for g
      using that same_key(1) [OF groups_okD(1) [OF ok] plR False] by auto
    have sok: "groups_ok ?stay"
      using ok by (simp add: groups_ok_def list_all_iff sorted_wrt_filter)
    have gR: "group_ok R" if "1 < length R"
      using that dr plR by (simp add: group_ok_def R_def list_all_iff)
    have disj: "set g \<inter> set R = {}" if "g \<in> set ?stay" "\<not> list_ex (\<lambda>g. sortedKey g = sortedKey R) ?stay" for g
      using that by (auto simp: list_ex_iff)
    have 1: "groups_ok ?res"
    proof (cases "1 < length R \<and> \<not> list_ex (\<lambda>g. sortedKey g = sortedKey R) ?stay")
      case True
      then have "groups_ok (?stay @ [R])" using sok gR disj by (intro groups_ok_snoc) blast+
      then show ?thesis unfolding form if_P [OF True] .
    next
      case False
      show ?thesis unfolding form if_not_P [OF False] by (rule sok)
    qed
    have 2: "1 < length R \<longrightarrow> (\<exists>g \<in> set ?res. set g = set R)"
    proof (cases "list_ex (\<lambda>g. sortedKey g = sortedKey R) ?stay")
      case True
      then obtain g where g: "g \<in> set ?stay" "sortedKey g = sortedKey R" by (auto simp: list_ex_iff)
      then have "set g = set R" using same_key(1) [OF groups_okD(1) [OF ok] plR False] by simp
      then show ?thesis unfolding form using True g(1) by auto
    qed (auto simp: form)
    have 3: "\<forall>g \<in> set ?res. set g = set R \<or> set g \<inter> set R = {}"
      unfolding form using stay by auto
    have 4: "\<forall>g \<in> set gs. set g \<inter> set R = {} \<longrightarrow> g \<in> set ?res" unfolding form by auto
    show ?thesis using 1 2 3 4 by (intro conjI)
qed

section \<open>The stored index\<close>

lemma string_items_map [simp]: "string_items (map JStr xs) = Some xs"
  by (induction xs) simp_all

lemma group_of_json [simp]: "group_of (JArr (map JStr g)) = Some g"
  by simp

lemma map_filter_groups: "List.map_filter group_of (map (JArr \<circ> map JStr) gs) = gs"
  by (induction gs) (simp_all add: List.map_filter_simps)

lemma filterValid_json:
  assumes "list_all (\<lambda>g. 1 < length (filter isRealId g)) gs"
  shows "filterValidGroups (groups_to_js gs) = gs"
  using assms by (simp add: groups_to_js_def map_filter_groups list_all_iff filter_True)

lemma groups_ok_valid: "groups_ok gs \<Longrightarrow> list_all (\<lambda>g. 1 < length (filter isRealId g)) gs"
  by (auto simp: groups_ok_def group_ok_def list_all_iff filter_True)

lemma parsed_written: "groups_ok gs \<Longrightarrow> parsed_groups (Json (groups_to_js gs)) = gs"
  by (simp add: parsed_groups_def filterValid_json [OF groups_ok_valid])

section \<open>Migration\<close>

lemma keys_apart:
  "\<not> starts_with LEGACY_SPLIT_LAYOUT_STORAGE_PREFIX (getLayoutStorageKey g)"
  "getLayoutStorageKey g \<noteq> SPLIT_GROUP_INDEX_STORAGE_KEY"
  "getLayoutStorageKey g \<noteq> LEGACY_SPLIT_GROUP_INDEX_STORAGE_KEY"
  "SPLIT_GROUP_INDEX_STORAGE_KEY \<noteq> LEGACY_SPLIT_GROUP_INDEX_STORAGE_KEY"
  "\<not> starts_with LEGACY_SPLIT_LAYOUT_STORAGE_PREFIX SPLIT_GROUP_INDEX_STORAGE_KEY"
  by (simp_all add: getLayoutStorageKey_def SPLIT_LAYOUT_STORAGE_PREFIX_def starts_with_def
      LEGACY_SPLIT_LAYOUT_STORAGE_PREFIX_def SPLIT_GROUP_INDEX_STORAGE_KEY_def
      LEGACY_SPLIT_GROUP_INDEX_STORAGE_KEY_def)

lemma getLayoutStorageKey_inj [simp]: "getLayoutStorageKey g = getLayoutStorageKey h \<longleftrightarrow> sortedKey g = sortedKey h"
  by (simp add: getLayoutStorageKey_def)

lemma obj_get_filter: "obj_get (filter (\<lambda>(k, _). P k) ob) k = (if P k then obj_get ob k else None)"
  by (induction ob) (auto simp: obj_get_def)

lemma obj_get_copied:
  "obj_get (fold copy_legacy_layout gs st) k =
     (if \<exists>g \<in> set gs. k = getLayoutStorageKey g
           \<and> obj_get st (LEGACY_SPLIT_LAYOUT_STORAGE_PREFIX @ sortedKey g) \<noteq> None
      then obj_get st (LEGACY_SPLIT_LAYOUT_STORAGE_PREFIX @ drop (length SPLIT_LAYOUT_STORAGE_PREFIX) k)
      else obj_get st k)"
proof (induction gs arbitrary: st)
  case (Cons g gs)
  let ?L = LEGACY_SPLIT_LAYOUT_STORAGE_PREFIX
  have legacy: "obj_get (copy_legacy_layout g st) (?L @ x) = obj_get st (?L @ x)" for x
  proof -
    have "?L @ x \<noteq> getLayoutStorageKey g" using keys_apart(1) [of g] by (metis starts_with_append)
    then show ?thesis by (simp add: copy_legacy_layout_def split: option.split)
  qed
  have one: "obj_get (copy_legacy_layout g st) k =
      (if k = getLayoutStorageKey g \<and> obj_get st (?L @ sortedKey g) \<noteq> None
       then obj_get st (?L @ sortedKey g) else obj_get st k)"
    by (auto simp: copy_legacy_layout_def split: option.split)
  have key: "drop (length SPLIT_LAYOUT_STORAGE_PREFIX) (getLayoutStorageKey g) = sortedKey g"
    by (simp add: getLayoutStorageKey_def)
  note IH = Cons.IH [of "copy_legacy_layout g st", unfolded legacy]
  show ?case
  proof (cases "\<exists>h \<in> set gs. k = getLayoutStorageKey h \<and> obj_get st (?L @ sortedKey h) \<noteq> None")
    case True
    then have t: "\<exists>h \<in> set (g # gs). k = getLayoutStorageKey h \<and> obj_get st (?L @ sortedKey h) \<noteq> None"
      by auto
    show ?thesis unfolding if_P [OF t] fold_simps by (rule trans [OF IH if_P [OF True]])
  next
    case False
    then have rest: "obj_get (fold copy_legacy_layout (g # gs) st) k = obj_get (copy_legacy_layout g st) k"
      unfolding fold_simps by (intro trans [OF IH if_not_P])
    have eq: "(\<exists>h \<in> set (g # gs). k = getLayoutStorageKey h \<and> obj_get st (?L @ sortedKey h) \<noteq> None)
        \<longleftrightarrow> k = getLayoutStorageKey g \<and> obj_get st (?L @ sortedKey g) \<noteq> None"
      using False by auto
    show ?thesis unfolding rest one eq using key by auto
  qed
qed simp

lemma migrate_no_legacy: "obj_get st LEGACY_SPLIT_GROUP_INDEX_STORAGE_KEY = None \<Longrightarrow> migrateLegacySplitStorage st = st"
  by (simp add: migrateLegacySplitStorage_def)

lemma obj_get_migrated:
  assumes "obj_get st LEGACY_SPLIT_GROUP_INDEX_STORAGE_KEY = Some raw"
  shows "obj_get (migrateLegacySplitStorage st) k =
     (if k = LEGACY_SPLIT_GROUP_INDEX_STORAGE_KEY \<or> starts_with LEGACY_SPLIT_LAYOUT_STORAGE_PREFIX k then None
      else if obj_get st SPLIT_GROUP_INDEX_STORAGE_KEY \<noteq> None then obj_get st k
      else if k = SPLIT_GROUP_INDEX_STORAGE_KEY then Some (Json (groups_to_js (parsed_groups raw)))
      else obj_get (fold copy_legacy_layout (parsed_groups raw) st) k)"
  unfolding migrateLegacySplitStorage_def assms option.case Let_def obj_get_del obj_get_filter fun_upd_apply
  by (simp add: obj_get_filter)

section \<open>Saving and loading\<close>

lemma leafAgentIds_represents: "represents s t \<Longrightarrow> leafAgentIds s = targets t"
  using leaf_targets_represents by (simp add: leafAgentIds_def leaf_targets_def)

lemma load_stored:
  assumes "obj_get st LEGACY_SPLIT_GROUP_INDEX_STORAGE_KEY = None" and "2 \<le> length agents"
    and "obj_get st (getLayoutStorageKey agents) = Some (Json v)" and "sanitizeMainTree (Some v) = Some s"
    and "sortedKey (leafAgentIds s) = sortedKey agents"
  shows "loadSavedLayout agents (Some st) = (Some st, Some s)"
  using assms by (simp add: loadSavedLayout_def Let_def migrate_no_legacy)

lemma fold_delete_get:
  "fold deleteLayoutGeometry gs (Some st) = Some (fold (\<lambda>g ob. obj_del ob (getLayoutStorageKey g)) gs st)"
  by (induction gs arbitrary: st) (simp_all add: deleteLayoutGeometry_def)

lemma obj_get_fold_del:
  "obj_get (fold (\<lambda>g ob. obj_del ob (getLayoutStorageKey g)) gs st) k =
     (if k \<in> getLayoutStorageKey ` set gs then None else obj_get st k)"
  by (induction gs arbitrary: st) auto

text \<open>Storage without data of the old version, whose index is well-formed.\<close>

definition stored_groups :: "storage \<Rightarrow> string list list" where
  "stored_groups st =
     (case obj_get st SPLIT_GROUP_INDEX_STORAGE_KEY of None \<Rightarrow> [] | Some text \<Rightarrow> parsed_groups text)"

definition storage_ok :: "storage \<Rightarrow> bool" where
  "storage_ok st \<longleftrightarrow> obj_get st LEGACY_SPLIT_GROUP_INDEX_STORAGE_KEY = None \<and> groups_ok (stored_groups st)"

lemma read_stored:
  "storage_ok st \<Longrightarrow> readGroupIndex (Some st) = (Some st, stored_groups st)"
  by (simp add: readGroupIndex_def storage_ok_def migrate_no_legacy stored_groups_def Let_def)

lemma saved_geometry:
  assumes "storage_ok st" and "filter isRealId (leafAgentIds s) \<noteq> []"
  obtains st1 where "saveLayoutGeometry s (Some st) = Some st1" "storage_ok st1"
    "stored_groups st1 = stored_groups st"
    "\<And>k. obj_get st1 k = (if k = getLayoutStorageKey (leafAgentIds s) then Some (Json (tree_to_js s)) else obj_get st k)"
proof -
  let ?st1 = "obj_set st (getLayoutStorageKey (leafAgentIds s)) (Json (tree_to_js s))"
  note apart = keys_apart(2,3) [of "leafAgentIds s"]
  have g: "stored_groups ?st1 = stored_groups st" using apart by (simp add: stored_groups_def)
  moreover have "storage_ok ?st1" using assms(1) apart g by (simp add: storage_ok_def)
  moreover have "saveLayoutGeometry s (Some st) = Some ?st1"
    using assms(2) by (simp add: saveLayoutGeometry_def Let_def)
  ultimately show thesis by (intro that [of ?st1]) simp_all
qed

lemma real_leaf_ids: "filter isRealId = filter is_real"
  by (rule ext, rule filter_cong) (auto simp: isRealId_def is_real_iff)

lemma not_evicted_key:
  assumes "groups_ok gs" and "list_all plain_id active" and "h \<in> set (getGroupsToEvict gs active)"
  shows "sortedKey h \<noteq> sortedKey active"
proof
  assume eq: "sortedKey h = sortedKey active"
  let ?R = "filter isRealId active"
  have h: "h \<in> set gs" "sortedKey h \<noteq> sortedKey ?R" "?R \<noteq> []"
    using assms(3) by (auto simp: getGroupsToEvict_def Let_def split: if_splits)
  note gh = group_okD [OF groups_okD(1) [OF assms(1) h(1)]]
  have "mset h = mset active"
  proof (rule key_mset [OF eq gh(2) _ gh(5) assms(2)])
    show "active \<noteq> []" using h(3) by auto
  qed
  then have "list_all isRealId active" using gh(4) mset_same_set by (metis list_all_iff)
  then have "?R = active" by (simp add: list_all_iff filter_True)
  with h(2) eq show False by simp
qed

lemma persisted_groups:
  assumes so: "storage_ok st" and ok: "tree_ok s t" and pl: "list_all plain_id (targets t)"
    and ne: "filter isRealId (targets t) \<noteq> []" and new: "prev \<noteq> Some (sortedKey (targets t))"
  obtains st' where "persistSplitLayout s prev (Some st) = (Some st', sortedKey (targets t))"
    "storage_ok st'" "stored_groups st' = computeUpdatedGroups (stored_groups st) (targets t)"
    "obj_get st' (getLayoutStorageKey (targets t)) = Some (Json (tree_to_js s))"
    "\<And>h. h \<in> set (getGroupsToEvict (stored_groups st) (targets t)) \<Longrightarrow>
       obj_get st' (getLayoutStorageKey h) = None"
proof -
  have ids: "leafAgentIds s = targets t" by (rule leafAgentIds_represents [OF tree_okD(1) [OF ok]])
  obtain st1 where s1: "saveLayoutGeometry s (Some st) = Some st1" "storage_ok st1"
    "stored_groups st1 = stored_groups st"
    "\<And>k. obj_get st1 k = (if k = getLayoutStorageKey (targets t) then Some (Json (tree_to_js s)) else obj_get st k)"
    using saved_geometry [OF so, of s] ne unfolding ids by metis
  let ?gs = "stored_groups st" and ?A = "targets t"
  let ?ev = "getGroupsToEvict ?gs ?A" and ?up = "computeUpdatedGroups ?gs ?A"
  let ?st2 = "fold (\<lambda>g ob. obj_del ob (getLayoutStorageKey g)) ?ev st1"
  let ?st3 = "obj_set ?st2 SPLIT_GROUP_INDEX_STORAGE_KEY (Json (groups_to_js ?up))"
  have gs: "groups_ok ?gs" using so by (simp add: storage_ok_def)
  have "deduped t" using ok by (rule tree_okD)
  then have up: "groups_ok ?up"
    using updated_groups [OF gs pl] by (simp add: real_leaf_ids deduped_def)
  have "stored_groups ?st3 = parsed_groups (Json (groups_to_js ?up))"
    unfolding stored_groups_def [of ?st3] by simp
  then have g3: "stored_groups ?st3 = ?up" by (simp only: parsed_written [OF up])
  have "?A \<noteq> []" by (simp add: targets_def)
  then have "persistSplitLayout s prev (Some st) = (Some ?st3, sortedKey ?A)"
    using new by (simp add: persistSplitLayout_def ids s1(1) read_stored [OF s1(2)] s1(3) fold_delete_get
        writeGroupIndex_def Let_def)
  moreover have "storage_ok ?st3"
    using s1(2) up keys_apart(3,4) by (auto simp: storage_ok_def g3 obj_get_fold_del)
  moreover have "obj_get ?st3 (getLayoutStorageKey ?A) = Some (Json (tree_to_js s))"
  proof -
    have "\<forall>h \<in> set ?ev. sortedKey ?A \<noteq> sortedKey h"
      using not_evicted_key [OF gs pl] by (metis (no_types))
    then have "getLayoutStorageKey ?A \<notin> getLayoutStorageKey ` set ?ev" by (simp add: image_iff)
    then show ?thesis using keys_apart(2) [of ?A] by (simp add: obj_get_fold_del s1(4))
  qed
  moreover have "obj_get ?st3 (getLayoutStorageKey h) = None" if "h \<in> set ?ev" for h
    using that keys_apart(2) [of h] by (simp add: obj_get_fold_del)
  ultimately show thesis using g3 by (intro that)
qed

section \<open>Properties\<close>

text \<open>
  C17. Recording the open targets keeps the group index well-formed: groups of several distinct real
  targets, no target in two groups. A set of several targets becomes a group, every other group is
  disjoint from it, and the groups disjoint from it are kept.
\<close>

theorem update_keeps_index:
  assumes "groups_ok gs" and "list_all plain_id active" and "distinct (filter isRealId active)"
  shows "groups_ok (computeUpdatedGroups gs active)
    \<and> (1 < length (filter isRealId active) \<longrightarrow>
         (\<exists>g \<in> set (computeUpdatedGroups gs active). set g = set (filter isRealId active)))
    \<and> (\<forall>g \<in> set (computeUpdatedGroups gs active).
         set g = set (filter isRealId active) \<or> set g \<inter> set (filter isRealId active) = {})
    \<and> (\<forall>g \<in> set gs. set g \<inter> set (filter isRealId active) = {} \<longrightarrow> g \<in> set (computeUpdatedGroups gs active))"
  by (rule updated_groups [OF assms])

lemma update_keeps_index_witness:
  "groups_ok (computeUpdatedGroups [[''a'', ''b''], [''c'', ''d'', ''e'']] [''b'', ''_new'', ''f''])"
  using update_keeps_index [of "[[''a'', ''b''], [''c'', ''d'', ''e'']]" "[''b'', ''_new'', ''f'']"]
  by (simp add: groups_ok_def group_ok_def isRealId_def plain_id_def NEW_PANE_AGENT_ID_def)

text \<open>
  What persisting a layout leaves in the storage: the index is the updated one and is read back
  unchanged, the geometry of the layout is stored, and the geometry of every evicted group is gone.
\<close>

theorem persist_updates_storage:
  assumes "storage_ok st" and "tree_ok s t" and "list_all plain_id (targets t)"
    and "filter isRealId (targets t) \<noteq> []" and "prev \<noteq> Some (sortedKey (targets t))"
  shows "\<exists>st'. persistSplitLayout s prev (Some st) = (Some st', sortedKey (targets t)) \<and> storage_ok st'
    \<and> readGroupIndex (Some st') = (Some st', computeUpdatedGroups (stored_groups st) (targets t))
    \<and> obj_get st' (getLayoutStorageKey (targets t)) = Some (Json (tree_to_js s))
    \<and> (\<forall>h \<in> set (getGroupsToEvict (stored_groups st) (targets t)). obj_get st' (getLayoutStorageKey h) = None)"
proof -
  obtain st' where st': "persistSplitLayout s prev (Some st) = (Some st', sortedKey (targets t))"
    "storage_ok st'" "stored_groups st' = computeUpdatedGroups (stored_groups st) (targets t)"
    "obj_get st' (getLayoutStorageKey (targets t)) = Some (Json (tree_to_js s))"
    "\<forall>h \<in> set (getGroupsToEvict (stored_groups st) (targets t)). obj_get st' (getLayoutStorageKey h) = None"
    using persisted_groups [OF assms] by metis
  then show ?thesis using read_stored [OF st'(2)] by auto
qed

lemma sample_targets:
  "list_all plain_id (targets sample_ptree)" "filter isRealId (targets sample_ptree) = [''inst'', ''sh_1'']"
  by (simp_all add: sample_ptree_def targets_def plain_id_def isRealId_def NEW_PANE_AGENT_ID_def)

lemma empty_storage_ok: "storage_ok []"
  by (simp add: storage_ok_def stored_groups_def groups_ok_def)

lemma persist_updates_storage_witness:
  "\<exists>st'. persistSplitLayout sample_tree None (Some []) = (Some st', sortedKey (targets sample_ptree))
     \<and> readGroupIndex (Some st') = (Some st', [[''inst'', ''sh_1'']])"
proof -
  have "computeUpdatedGroups (stored_groups []) (targets sample_ptree) = [[''inst'', ''sh_1'']]"
    by (simp add: computeUpdatedGroups_def Let_def sample_targets stored_groups_def getGroupsToEvict_def
        hasRealAgents_def isRealId_def NEW_PANE_AGENT_ID_def)
  then show ?thesis
    using persist_updates_storage [OF empty_storage_ok sample_ok sample_targets(1), of None] sample_targets(2)
    by auto
qed

text \<open>
  C18. A persisted workspace is restored by its URL: after persisting a layout of several targets,
  loading the saved layout of the same targets, in any order, gives a state of the same tree with
  the same focus and maximized pane. The tree has at most 64 levels and is \<open>persistable\<close>: ratios
  between 5 and 95, canonical targets, and no pane named like an inherited property.
\<close>

theorem persist_then_load:
  assumes "storage_ok st" and "tree_ok s t" and "persistable t" and "height t \<le> 64"
    and "list_all plain_id (targets t)" and "filter isRealId (targets t) \<noteq> []"
    and "mset agents = mset (targets t)" and "2 \<le> length agents"
  shows "\<exists>s'. snd (loadSavedLayout agents (fst (persistSplitLayout s prev (Some st)))) = Some s'
    \<and> tree_ok s' t \<and> focused_pane_id s' = focused_pane_id s \<and> maximized_pane_id s' = maximized_pane_id s"
proof -
  have ids: "leafAgentIds s = targets t" by (rule leafAgentIds_represents [OF tree_okD(1) [OF assms(2)]])
  have key: "sortedKey agents = sortedKey (targets t)" by (rule key_cong [OF assms(7)])
  obtain s' where s': "sanitizeMainTree (Some (tree_to_js s)) = Some s'" "tree_ok s' t"
    "focused_pane_id s' = focused_pane_id s" "maximized_pane_id s' = maximized_pane_id s"
    by (rule sanitize_saved [OF assms(2-4)])
  have ids': "leafAgentIds s' = targets t" by (rule leafAgentIds_represents [OF tree_okD(1) [OF s'(2)]])
  have load: "snd (loadSavedLayout agents (Some st')) = Some s'"
    if "storage_ok st'" "obj_get st' (getLayoutStorageKey (targets t)) = Some (Json (tree_to_js s))" for st'
  proof -
    have "obj_get st' (getLayoutStorageKey agents) = Some (Json (tree_to_js s))"
      using that(2) key by (simp add: getLayoutStorageKey_def)
    moreover have "obj_get st' LEGACY_SPLIT_GROUP_INDEX_STORAGE_KEY = None"
      using that(1) by (simp add: storage_ok_def)
    ultimately show ?thesis using load_stored [OF _ assms(8) _ s'(1)] ids' key by simp
  qed
  have "\<exists>st'. fst (persistSplitLayout s prev (Some st)) = Some st' \<and> storage_ok st'
      \<and> obj_get st' (getLayoutStorageKey (targets t)) = Some (Json (tree_to_js s))"
  proof (cases "prev = Some (sortedKey (targets t))")
    case True
    obtain st1 where "saveLayoutGeometry s (Some st) = Some st1" "storage_ok st1"
      "obj_get st1 (getLayoutStorageKey (targets t)) = Some (Json (tree_to_js s))"
      using saved_geometry [OF assms(1), of s] assms(6) unfolding ids by metis
    then show ?thesis using True by (simp add: persistSplitLayout_def ids Let_def)
  next
    case False
    obtain st' where "persistSplitLayout s prev (Some st) = (Some st', sortedKey (targets t))" "storage_ok st'"
      "obj_get st' (getLayoutStorageKey (targets t)) = Some (Json (tree_to_js s))"
      using persisted_groups [OF assms(1,2,5,6) False] by metis
    then show ?thesis by simp
  qed
  then show ?thesis using load s' by auto
qed

lemma persist_then_load_witness:
  "\<exists>s'. snd (loadSavedLayout [''sh_1'', ''_new'', ''inst'']
       (fst (persistSplitLayout sample_tree None (Some [])))) = Some s' \<and> tree_ok s' sample_ptree"
proof -
  have "persistable sample_ptree" "height sample_ptree \<le> 64"
    by (simp_all add: sample_ptree_def main_value_def canonical_iff js_trim_def is_js_space_def INHERITED_KEYS_def)
  moreover have "mset [''sh_1'', ''_new'', ''inst''] = mset (targets sample_ptree)"
    by (simp add: sample_ptree_def targets_def)
  ultimately show ?thesis
    using persist_then_load [OF empty_storage_ok sample_ok _ _ sample_targets(1), of "[''sh_1'', ''_new'', ''inst'']" None]
      sample_targets(2) by auto
qed

text \<open>
  The migration from version 1 removes every key of the old version, never touches an existing
  index of the new one, carries the groups and their geometry over otherwise, and runs only once.
\<close>

theorem migration_spec:
  assumes "obj_get st LEGACY_SPLIT_GROUP_INDEX_STORAGE_KEY = Some raw"
  shows "obj_get (migrateLegacySplitStorage st) LEGACY_SPLIT_GROUP_INDEX_STORAGE_KEY = None
    \<and> (\<forall>k. starts_with LEGACY_SPLIT_LAYOUT_STORAGE_PREFIX k \<longrightarrow> obj_get (migrateLegacySplitStorage st) k = None)
    \<and> migrateLegacySplitStorage (migrateLegacySplitStorage st) = migrateLegacySplitStorage st
    \<and> (obj_get st SPLIT_GROUP_INDEX_STORAGE_KEY \<noteq> None \<longrightarrow>
         obj_get (migrateLegacySplitStorage st) SPLIT_GROUP_INDEX_STORAGE_KEY = obj_get st SPLIT_GROUP_INDEX_STORAGE_KEY
         \<and> (\<forall>g. obj_get (migrateLegacySplitStorage st) (getLayoutStorageKey g) = obj_get st (getLayoutStorageKey g)))
    \<and> (obj_get st SPLIT_GROUP_INDEX_STORAGE_KEY = None \<longrightarrow>
         obj_get (migrateLegacySplitStorage st) SPLIT_GROUP_INDEX_STORAGE_KEY = Some (Json (groups_to_js (parsed_groups raw)))
         \<and> (\<forall>g \<in> set (parsed_groups raw).
              obj_get st (LEGACY_SPLIT_LAYOUT_STORAGE_PREFIX @ sortedKey g) \<noteq> None \<longrightarrow>
              obj_get (migrateLegacySplitStorage st) (getLayoutStorageKey g) = obj_get st (LEGACY_SPLIT_LAYOUT_STORAGE_PREFIX @ sortedKey g)))"
proof -
  let ?st' = "migrateLegacySplitStorage st"
  note get = obj_get_migrated [OF assms]
  have gone: "obj_get ?st' LEGACY_SPLIT_GROUP_INDEX_STORAGE_KEY = None" by (simp add: get)
  have copied: "obj_get ?st' (getLayoutStorageKey g) = obj_get st (LEGACY_SPLIT_LAYOUT_STORAGE_PREFIX @ sortedKey g)"
    if "obj_get st SPLIT_GROUP_INDEX_STORAGE_KEY = None" "g \<in> set (parsed_groups raw)"
      "obj_get st (LEGACY_SPLIT_LAYOUT_STORAGE_PREFIX @ sortedKey g) \<noteq> None" for g
  proof -
    have "\<exists>h \<in> set (parsed_groups raw). getLayoutStorageKey g = getLayoutStorageKey h
        \<and> obj_get st (LEGACY_SPLIT_LAYOUT_STORAGE_PREFIX @ sortedKey h) \<noteq> None"
      using that(2,3) by blast
    then have "obj_get (fold copy_legacy_layout (parsed_groups raw) st) (getLayoutStorageKey g)
        = obj_get st (LEGACY_SPLIT_LAYOUT_STORAGE_PREFIX @ sortedKey g)"
      unfolding obj_get_copied by (simp add: getLayoutStorageKey_def)
    then show ?thesis using that(1) keys_apart(1-3) [of g] by (simp add: get)
  qed
  show ?thesis
    using gone copied migrate_no_legacy [OF gone] keys_apart by (simp add: get)
qed

lemma migration_spec_witness:
  "obj_get (migrateLegacySplitStorage
      [(LEGACY_SPLIT_GROUP_INDEX_STORAGE_KEY, NotJson), (SPLIT_GROUP_INDEX_STORAGE_KEY, NotJson)])
     LEGACY_SPLIT_GROUP_INDEX_STORAGE_KEY = None"
  using migration_spec [of "[(LEGACY_SPLIT_GROUP_INDEX_STORAGE_KEY, NotJson), (SPLIT_GROUP_INDEX_STORAGE_KEY, NotJson)]" NotJson]
  by (simp add: obj_get_def)

end
