(* ===== verification/UrlCodec.thy ===== *)
theory UrlCodec
  imports JsPrelude PaneTarget
begin

text \<open>
  The URL codecs of the language's library that the sources use: \<open>encodeURIComponent\<close> and
  \<open>decodeURIComponent\<close>, and the name/value lists of \<open>URLSearchParams\<close>. Strings are code units below
  256, so a percent sequence that stands for another code point has no counterpart; decoding treats
  it like a malformed sequence (\<open>None\<close>).
\<close>

section \<open>Percent encoding\<close>

definition hex_digit :: "nat \<Rightarrow> char" where
  "hex_digit n = (if n < 10 then char_of (48 + n) else char_of (55 + n))"

definition hex_val :: "char \<Rightarrow> nat option" where
  "hex_val c =
     (let n = of_char c in
      if 48 \<le> n \<and> n \<le> 57 then Some (n - 48)
      else if 65 \<le> n \<and> n \<le> 70 then Some (n - 55)
      else if 97 \<le> n \<and> n \<le> 102 then Some (n - 87)
      else None)"

definition percent_byte :: "nat \<Rightarrow> string" where
  "percent_byte n = [CHR ''%'', hex_digit (n div 16), hex_digit (n mod 16)]"

definition percent_char :: "char \<Rightarrow> string" where
  "percent_char c =
     (let n = of_char c :: nat in
      if n < 128 then percent_byte n
      else percent_byte (192 + n div 64) @ percent_byte (128 + n mod 64))"

definition is_alnum :: "char \<Rightarrow> bool" where
  "is_alnum c = (let n = of_char c :: nat in
     (48 \<le> n \<and> n \<le> 57) \<or> (65 \<le> n \<and> n \<le> 90) \<or> (97 \<le> n \<and> n \<le> 122))"

definition is_unreserved :: "char \<Rightarrow> bool" where
  "is_unreserved c = (is_alnum c \<or> c \<in> set ''-_.!~*()'' \<or> c = CHR 39)"

definition encode_char :: "char \<Rightarrow> string" where
  "encode_char c = (if is_unreserved c then [c] else percent_char c)"

definition encodeURIComponent :: "string \<Rightarrow> string" where
  "encodeURIComponent s = concat (map encode_char s)"

text \<open>The byte of a percent sequence at the head of a string.\<close>

fun percent_at :: "string \<Rightarrow> nat option" where
  "percent_at (p # a # b # r) =
     (if p = CHR ''%'' then (case (hex_val a, hex_val b) of (Some x, Some y) \<Rightarrow> Some (16 * x + y) | _ \<Rightarrow> None)
      else None)"
| "percent_at _ = None"

text \<open>One decoded character and how many units it took.\<close>

definition percent_decoded :: "string \<Rightarrow> (char \<times> nat) option" where
  "percent_decoded s =
     (case percent_at s of
        None \<Rightarrow> None
      | Some b \<Rightarrow>
          if b < 128 then Some (char_of b, 3)
          else if b = 194 \<or> b = 195
          then (case percent_at (drop 3 s) of
                  Some k \<Rightarrow> if 128 \<le> k \<and> k < 192 then Some (char_of ((b - 192) * 64 + (k - 128)), 6) else None
                | None \<Rightarrow> None)
          else None)"

lemma percent_decoded_pos: "percent_decoded s = Some (c, n) \<Longrightarrow> 0 < n"
  by (auto simp: percent_decoded_def split: option.splits if_splits)

function decodeURIComponent :: "string \<Rightarrow> string option" where
  "decodeURIComponent s =
     (case s of
        [] \<Rightarrow> Some []
      | c # r \<Rightarrow>
          if c \<noteq> CHR ''%'' then map_option (Cons c) (decodeURIComponent r)
          else (case percent_decoded s of
                  None \<Rightarrow> None
                | Some (d, n) \<Rightarrow> map_option (Cons d) (decodeURIComponent (drop n s))))"
  by pat_completeness auto
termination
  by (relation "measure length") (auto dest: percent_decoded_pos)

declare decodeURIComponent.simps [simp del]

lemma decode_Nil [simp]: "decodeURIComponent [] = Some []"
  by (simp add: decodeURIComponent.simps)

lemma decode_plain: "c \<noteq> CHR ''%'' \<Longrightarrow> decodeURIComponent (c # r) = map_option (Cons c) (decodeURIComponent r)"
  by (simp add: decodeURIComponent.simps [of "c # r"])

lemma hex_val_digit [simp]: "n < 16 \<Longrightarrow> hex_val (hex_digit n) = Some n"
  by (simp add: hex_digit_def hex_val_def)

lemma percent_at_byte [simp]: "n < 256 \<Longrightarrow> percent_at (percent_byte n @ r) = Some n"
  by (simp add: percent_byte_def)

lemma length_percent_byte [simp]: "length (percent_byte n) = 3"
  by (simp add: percent_byte_def)

lemma percent_decoded_char:
  "percent_decoded (percent_char c @ r) = Some (c, length (percent_char c))"
proof -
  let ?n = "of_char c :: nat"
  have lt: "?n < 256" by simp
  show ?thesis
  proof (cases "?n < 128")
    case True
    then show ?thesis by (simp add: percent_decoded_def percent_char_def)
  next
    case False
    have div: "?n div 64 = 2 \<or> ?n div 64 = 3" using lt False by linarith
    have mod: "128 + ?n mod 64 < 192" by simp
    have code: "?n div 64 * 64 + ?n mod 64 = ?n" by (rule div_mult_mod_eq)
    have lead: "percent_at ((percent_byte (192 + ?n div 64) @ percent_byte (128 + ?n mod 64)) @ r)
        = Some (192 + ?n div 64)" using div by auto
    have next_byte: "percent_at (drop 3 ((percent_byte (192 + ?n div 64) @ percent_byte (128 + ?n mod 64)) @ r))
        = Some (128 + ?n mod 64)" using mod by simp
    have "(192 + ?n div 64 - 192) * 64 + (128 + ?n mod 64 - 128) = ?n" using code by simp
    then have "char_of ((192 + ?n div 64 - 192) * 64 + (128 + ?n mod 64 - 128)) = c"
      by (simp only: char_of_char)
    then show ?thesis
      using False div mod unfolding percent_decoded_def percent_char_def Let_def
      by (auto simp: lead next_byte simp del: append_assoc)
  qed
qed

lemma percent_head: "\<exists>r. percent_char c = CHR ''%'' # r"
  by (simp add: percent_char_def percent_byte_def Let_def)

lemma decode_percent_char:
  "decodeURIComponent (percent_char c @ r) = map_option (Cons c) (decodeURIComponent r)"
proof -
  obtain q where q: "percent_char c @ r = CHR ''%'' # q" using percent_head by (metis append_Cons)
  have "drop (length (percent_char c)) (CHR ''%'' # q) = r" by (simp flip: q)
  then show ?thesis
    by (subst decodeURIComponent.simps) (use percent_decoded_char [of c r] in \<open>simp add: q\<close>)
qed

lemma decode_encode_char:
  "decodeURIComponent (encode_char c @ r) = map_option (Cons c) (decodeURIComponent r)"
proof (cases "is_unreserved c")
  case True
  then have "c \<noteq> CHR ''%''" by (auto simp: is_unreserved_def is_alnum_def)
  then show ?thesis using True by (simp add: encode_char_def decode_plain)
next
  case False
  then show ?thesis by (simp add: encode_char_def decode_percent_char)
qed

lemma decode_encode [simp]: "decodeURIComponent (encodeURIComponent s) = Some s"
  by (induction s) (simp_all add: encodeURIComponent_def decode_encode_char)

interpretation uri_codec: partial_codec encodeURIComponent decodeURIComponent "\<lambda>_. True"
  by unfold_locales simp

section \<open>Keeping colons readable\<close>

text \<open>\<open>s.replace(/%3A/gi, ':')\<close>.\<close>

fun replace_colon :: "string \<Rightarrow> string" where
  "replace_colon (a # b # c # r) =
     (if a = CHR ''%'' \<and> b = CHR ''3'' \<and> (c = CHR ''A'' \<or> c = CHR ''a'') then CHR '':'' # replace_colon r
      else a # replace_colon (b # c # r))"
| "replace_colon s = s"

lemma replace_colon_plain: "a \<noteq> CHR ''%'' \<Longrightarrow> replace_colon (a # r) = a # replace_colon r"
  by (induction r rule: replace_colon.induct) auto

lemma hex_digitD: "hex_digit n = c \<Longrightarrow> n < 16 \<Longrightarrow> hex_val c = Some n"
  by auto

lemma hex_vals: "hex_val (CHR ''%'') = None" "hex_val (CHR ''3'') = Some 3"
  "hex_val (CHR ''A'') = Some 10" "hex_val (CHR ''a'') = Some 10"
  by (simp_all add: hex_val_def)

lemma hex_digit_not_percent: "n < 16 \<Longrightarrow> hex_digit n \<noteq> CHR ''%''"
  using hex_digitD [of n "CHR ''%''"] by (auto simp: hex_vals)

lemma replace_percent_byte:
  assumes "n < 256" and "n \<noteq> 58"
  shows "replace_colon (percent_byte n @ r) = percent_byte n @ replace_colon r"
proof -
  have h: "n div 16 < 16" "n mod 16 < 16" using assms(1) by simp_all
  have "\<not> (hex_digit (n div 16) = CHR ''3'' \<and> (hex_digit (n mod 16) = CHR ''A'' \<or> hex_digit (n mod 16) = CHR ''a''))"
  proof
    assume "hex_digit (n div 16) = CHR ''3'' \<and> (hex_digit (n mod 16) = CHR ''A'' \<or> hex_digit (n mod 16) = CHR ''a'')"
    then have "n div 16 = 3" "n mod 16 = 10"
      using hex_digitD [OF _ h(1), of "CHR ''3''"] hex_digitD [OF _ h(2), of "CHR ''A''"]
        hex_digitD [OF _ h(2), of "CHR ''a''"] by (auto simp: hex_vals)
    then have "n = 58" using div_mult_mod_eq [of n 16] by linarith
    with assms(2) show False ..
  qed
  then show ?thesis
    using hex_digit_not_percent [OF h(1)] hex_digit_not_percent [OF h(2)]
    by (simp add: percent_byte_def replace_colon_plain)
qed

lemma replace_percent_char:
  assumes "c \<noteq> CHR '':''"
  shows "replace_colon (percent_char c @ r) = percent_char c @ replace_colon r"
proof -
  let ?n = "of_char c :: nat"
  have "?n \<noteq> 58"
  proof
    assume "?n = 58"
    then have "c = char_of (58 :: nat)" by (metis char_of_char)
    moreover have "char_of (58 :: nat) = CHR '':''" by code_simp
    ultimately show False using assms by simp
  qed
  moreover have lt: "?n < 256" by simp
  moreover have "192 + ?n div 64 < 256" "192 + ?n div 64 \<noteq> 58" "128 + ?n mod 64 < 256" "128 + ?n mod 64 \<noteq> 58"
    using lt by linarith+
  ultimately show ?thesis
    by (cases "?n < 128") (simp_all add: percent_char_def Let_def replace_percent_byte)
qed

text \<open>One character of a readable encoding.\<close>

definition readable_char :: "(char \<Rightarrow> bool) \<Rightarrow> char \<Rightarrow> string" where
  "readable_char plain c = (if plain c \<or> c = CHR '':'' then [c] else percent_char c)"

lemma replace_encoded:
  assumes "\<not> plain (CHR ''%'')" and "\<not> plain (CHR '':'')"
  shows "replace_colon (concat (map (\<lambda>c. if plain c then [c] else percent_char c) s))
       = concat (map (readable_char plain) s)"
proof (induction s)
  case (Cons c s)
  consider "plain c" | "c = CHR '':''" | "\<not> plain c" "c \<noteq> CHR '':''" by blast
  then show ?case
  proof cases
    case 1
    then have "c \<noteq> CHR ''%''" using assms by blast
    then show ?thesis using Cons 1 by (simp add: replace_colon_plain readable_char_def)
  next
    case 2
    have "percent_char (CHR '':'') = ''%3A''" by code_simp
    then show ?thesis using Cons assms 2 by (simp add: readable_char_def)
  next
    case 3
    then show ?thesis using Cons by (simp add: readable_char_def replace_percent_char)
  qed
qed simp

section \<open>Query strings\<close>

text \<open>\<open>application/x-www-form-urlencoded\<close>: a space is a plus sign.\<close>

definition is_form_plain :: "char \<Rightarrow> bool" where
  "is_form_plain c = (is_alnum c \<or> c \<in> set ''*-._'')"

definition form_char :: "char \<Rightarrow> string" where
  "form_char c = (if c = CHR '' '' then ''+'' else if is_form_plain c then [c] else percent_char c)"

definition form_encode :: "string \<Rightarrow> string" where
  "form_encode s = concat (map form_char s)"

function form_decode :: "string \<Rightarrow> string option" where
  "form_decode s =
     (case s of
        [] \<Rightarrow> Some []
      | c # r \<Rightarrow>
          if c = CHR ''+'' then map_option (Cons (CHR '' '')) (form_decode r)
          else if percent_at s = None then map_option (Cons c) (form_decode r)
          else (case percent_decoded s of
                  None \<Rightarrow> None
                | Some (d, n) \<Rightarrow> map_option (Cons d) (form_decode (drop n s))))"
  by pat_completeness auto
termination
  by (relation "measure length") (auto dest: percent_decoded_pos)

declare form_decode.simps [simp del]

type_synonym params = "(string \<times> string option) list"

definition params_parse :: "string \<Rightarrow> params" where
  "params_parse s =
     map (\<lambda>piece. case index_of (CHR ''='') piece of
              None \<Rightarrow> (opt_str (form_decode piece), Some [])
            | Some n \<Rightarrow> (opt_str (form_decode (take n piece)), form_decode (drop (Suc n) piece)))
       (filter (\<lambda>piece. piece \<noteq> []) (js_split (CHR ''&'') s))"

definition params_get :: "params \<Rightarrow> string \<Rightarrow> string option" where
  "params_get ps k = (case map_of ps k of Some v \<Rightarrow> v | None \<Rightarrow> None)"

fun params_set :: "string \<Rightarrow> string \<Rightarrow> (string \<times> string) list \<Rightarrow> (string \<times> string) list" where
  "params_set k v [] = [(k, v)]"
| "params_set k v ((k', v') # r) =
     (if k' = k then (k, v) # filter (\<lambda>(j, _). j \<noteq> k) r else (k', v') # params_set k v r)"

definition params_to_string :: "(string \<times> string) list \<Rightarrow> string" where
  "params_to_string ps = js_join ''&'' (map (\<lambda>(k, v). form_encode k @ ''='' @ form_encode v) ps)"

lemma form_decode_Nil [simp]: "form_decode [] = Some []"
  by (simp add: form_decode.simps)

lemma form_decode_plain:
  "c \<noteq> CHR ''+'' \<Longrightarrow> c \<noteq> CHR ''%'' \<Longrightarrow> form_decode (c # r) = map_option (Cons c) (form_decode r)"
proof -
  assume "c \<noteq> CHR ''+''" "c \<noteq> CHR ''%''"
  then have "percent_at (c # r) = None" by (cases "c # r" rule: percent_at.cases) auto
  then show ?thesis using \<open>c \<noteq> CHR ''+''\<close> by (simp add: form_decode.simps [of "c # r"])
qed

lemma form_decode_percent:
  "form_decode (percent_char c @ r) = map_option (Cons c) (form_decode r)"
proof -
  obtain q where q: "percent_char c @ r = CHR ''%'' # q" using percent_head by (metis append_Cons)
  have "drop (length (percent_char c)) (CHR ''%'' # q) = r" by (simp flip: q)
  moreover have "percent_at (CHR ''%'' # q) \<noteq> None"
    using percent_decoded_char [of c r] unfolding q percent_decoded_def by (auto split: option.splits)
  ultimately show ?thesis
    by (subst form_decode.simps) (use percent_decoded_char [of c r] in \<open>auto simp: q\<close>)
qed

lemma form_not_special: "is_form_plain c \<Longrightarrow> c \<noteq> CHR ''+'' \<and> c \<noteq> CHR ''%'' \<and> c \<noteq> CHR ''&'' \<and> c \<noteq> CHR ''=''"
  by (auto simp: is_form_plain_def is_alnum_def)

lemma form_decode_char: "form_decode (form_char c @ r) = map_option (Cons c) (form_decode r)"
proof -
  consider "c = CHR '' ''" | "c \<noteq> CHR '' ''" "is_form_plain c" | "c \<noteq> CHR '' ''" "\<not> is_form_plain c" by blast
  then show ?thesis
  proof cases
    case 1
    then show ?thesis by (simp add: form_char_def form_decode.simps [of "CHR ''+'' # r"])
  next
    case 2
    then show ?thesis using form_not_special [of c] by (simp add: form_char_def form_decode_plain)
  next
    case 3
    then show ?thesis by (simp add: form_char_def form_decode_percent)
  qed
qed

lemma form_decode_encode [simp]: "form_decode (form_encode s) = Some s"
  by (induction s) (simp_all add: form_encode_def form_decode_char)

interpretation form_codec: partial_codec form_encode form_decode "\<lambda>_. True"
  by unfold_locales simp

end
