(* ===== verification/ConversationUrl.thy ===== *)
theory ConversationUrl
  imports UrlCodec Workspace
begin

text \<open>
  The conversation URL (\<open>src/ui/utils/conversationUrl.ts\<close>) over the hash location helpers
  (\<open>src/ui/utils/appLocation.ts\<close>): the open pane set is a list of percent-encoded targets joined by
  plus signs, with the focused target in the query. The browser's location is an argument.
\<close>

section \<open>The location of the route\<close>

record browser_location =
  loc_hash :: string
  loc_pathname :: string
  loc_search :: string

fun includes_str :: "string \<Rightarrow> string \<Rightarrow> bool" where
  "includes_str p [] = (p = [])"
| "includes_str p (c # r) = (starts_with p (c # r) \<or> includes_str p r)"

definition rawHash :: "browser_location option \<Rightarrow> string" where
  "rawHash w =
     (let hash = (case w of None \<Rightarrow> [] | Some l \<Rightarrow> loc_hash l)
      in if starts_with ''#'' hash then drop 1 hash else [])"

definition getRoutePathname :: "browser_location option \<Rightarrow> string" where
  "getRoutePathname w =
     (case w of
        None \<Rightarrow> ''/''
      | Some l \<Rightarrow>
          (let raw = rawHash w in
           if raw = [] then
             (let doc = str_or (loc_pathname l) ''/'' in
              if includes_str ''/preview/'' doc \<or> includes_str ''/proxy/'' doc \<or> starts_with ''/api/'' doc
              then ''/'' else doc)
           else
             (let path = (case index_of (CHR ''?'') raw of Some n \<Rightarrow> take n raw | None \<Rightarrow> raw) in
              if path = [] then ''/''
              else if starts_with ''/'' path then path else CHR ''/'' # path)))"

definition getRouteSearch :: "browser_location option \<Rightarrow> string" where
  "getRouteSearch w =
     (case w of
        None \<Rightarrow> []
      | Some l \<Rightarrow>
          if starts_with ''#'' (loc_hash l) then
            (let raw = drop 1 (loc_hash l) in
             case index_of (CHR ''?'') raw of Some n \<Rightarrow> drop n raw | None \<Rightarrow> [])
          else loc_search l)"

definition buildRouteHash :: "string \<Rightarrow> string \<Rightarrow> string" where
  "buildRouteHash path search =
     (let normalized_search = (if search \<noteq> [] \<and> \<not> starts_with ''?'' search then CHR ''?'' # search else search);
          normalized_path = (if path \<noteq> [] \<and> starts_with ''/'' path then path else CHR ''/'' # path)
      in CHR ''#'' # normalized_path @ normalized_search)"

section \<open>The conversation route\<close>

definition NEW_PANE_URL_ID :: string where
  "NEW_PANE_URL_ID = ''_new''"

definition encodeTargetId :: "string \<Rightarrow> string" where
  "encodeTargetId i = replace_colon (encodeURIComponent i)"

definition safeDecode :: "string \<Rightarrow> string" where
  "safeDecode segment = (case decodeURIComponent segment of Some s \<Rightarrow> s | None \<Rightarrow> segment)"

text \<open>The last path segment, with an optional slash after it.\<close>

definition id_list_segment :: "string \<Rightarrow> string option" where
  "id_list_segment r =
     (let seg = (if r \<noteq> [] \<and> last r = CHR ''/'' then butlast r else r)
      in if seg \<noteq> [] \<and> CHR ''/'' \<notin> set seg then Some seg else None)"

definition conversationIdsSegment :: "string \<Rightarrow> string option" where
  "conversationIdsSegment path =
     (case (if starts_with ''/conversations/'' path then id_list_segment (drop 15 path)
            else if starts_with ''/c/'' path then id_list_segment (drop 3 path)
            else None) of
        None \<Rightarrow> None
      | Some seg \<Rightarrow> if seg = ''new'' then None else Some seg)"

fun dedupe_ids :: "string set \<Rightarrow> string list \<Rightarrow> string list" where
  "dedupe_ids seen [] = []"
| "dedupe_ids seen (i # r) =
     (if i = NEW_PANE_URL_ID then i # dedupe_ids seen r
      else if i \<notin> seen then i # dedupe_ids (insert i seen) r
      else dedupe_ids seen r)"

record resolved_ids =
  res_ids :: "string list"
  res_focused :: "string option"

definition parseConversationIdsFromRoute :: "string \<Rightarrow> string \<Rightarrow> resolved_ids" where
  "parseConversationIdsFromRoute path search =
     (let params = params_parse (if starts_with ''?'' search then drop 1 search else search);
          raw = (case conversationIdsSegment path of
                   None \<Rightarrow> []
                 | Some seg \<Rightarrow> filter (\<lambda>s. s \<noteq> [])
                     (map js_trim (map safeDecode (js_split (CHR ''+'') seg))));
          agents = dedupe_ids {} raw;
          focused = params_get params ''focused''
      in \<lparr>res_ids = agents,
          res_focused = (if agents = [] then None
                         else if \<not> truthy focused \<or> the focused \<notin> set agents then Some (hd agents)
                         else focused)\<rparr>)"

definition buildConversationHash ::
  "string list \<Rightarrow> string option \<Rightarrow> (string \<times> string) list \<Rightarrow> string" where
  "buildConversationHash agents focused extra =
     (let lst = (if agents \<noteq> [] then agents else [NEW_PANE_URL_ID]);
          path = ''/conversations/'' @ js_join ''+'' (map encodeTargetId lst);
          params1 = (if 1 < length lst
                     then params_set ''focused''
                            (if truthy focused \<and> the focused \<in> set lst then the focused else hd lst) []
                     else []);
          params2 = fold (\<lambda>(k, v) ps. if v \<noteq> [] then params_set k v ps else ps) extra params1;
          search = replace_colon (params_to_string params2)
      in buildRouteHash path (if search \<noteq> [] then CHR ''?'' # search else []))"

text \<open>\<open>chainConversationRoute\<close> of \<open>src/ui/utils/paneTarget.ts\<close>.\<close>

definition chainConversationRoute :: "string option \<Rightarrow> string" where
  "chainConversationRoute chain =
     ''/conversations/'' @ chainTargetId (Some (encodeURIComponent (js_trim (opt_str chain))))"

definition conversationUrlKey :: "string list \<Rightarrow> string option \<Rightarrow> string" where
  "conversationUrlKey agents focused = js_join ''+'' agents @ ''|'' @ opt_str focused"

section \<open>Encoded targets\<close>

lemma encodeTargetId_readable: "encodeTargetId i = concat (map (readable_char is_unreserved) i)"
proof -
  have "\<not> is_unreserved (CHR ''%'')" "\<not> is_unreserved (CHR '':'')" by code_simp+
  from replace_encoded [of is_unreserved, OF this, of i] show ?thesis
    by (simp add: encodeTargetId_def encodeURIComponent_def encode_char_def [abs_def])
qed

lemma decode_readable:
  "decodeURIComponent (readable_char is_unreserved c @ r) = map_option (Cons c) (decodeURIComponent r)"
proof (cases "c = CHR '':''")
  case False
  then show ?thesis
    using decode_encode_char [of c r] by (simp add: readable_char_def encode_char_def)
qed (simp add: readable_char_def decode_plain)

lemma safeDecode_encodeTargetId [simp]: "safeDecode (encodeTargetId i) = i"
proof -
  have "decodeURIComponent (encodeTargetId i) = Some i"
    by (induction i) (simp_all add: encodeTargetId_readable decode_readable)
  then show ?thesis by (simp add: safeDecode_def)
qed

lemma percent_char_units: "d \<in> set (percent_char c) \<Longrightarrow> d = CHR ''%'' \<or> is_alnum d"
proof -
  have hex: "is_alnum (hex_digit n)" if "n < 16" for n
    using that by (auto simp: hex_digit_def is_alnum_def Let_def)
  have "d = CHR ''%'' \<or> is_alnum d" if "d \<in> set (percent_byte n)" "n < 256" for n
  proof -
    have "n div 16 < 16" "n mod 16 < 16" using that(2) by simp_all
    then show ?thesis using that(1) hex by (auto simp: percent_byte_def)
  qed
  moreover assume "d \<in> set (percent_char c)"
  moreover have "(of_char c :: nat) < 256" by simp
  then have "192 + (of_char c :: nat) div 64 < 256" "128 + (of_char c :: nat) mod 64 < 256" by linarith+
  ultimately show ?thesis by (auto simp: percent_char_def Let_def split: if_splits)
qed

lemma readable_units:
  "d \<in> set (readable_char plain c) \<Longrightarrow> plain d \<or> d = CHR '':'' \<or> d = CHR ''%'' \<or> is_alnum d"
  using percent_char_units by (auto simp: readable_char_def split: if_splits)

lemma encodeTargetId_units:
  assumes "d \<in> set (encodeTargetId i)"
  shows "d \<noteq> CHR ''/'' \<and> d \<noteq> CHR ''?'' \<and> d \<noteq> CHR ''+'' \<and> d \<noteq> CHR ''#''"
proof -
  have "is_unreserved d \<or> d = CHR '':'' \<or> d = CHR ''%'' \<or> is_alnum d"
    using assms readable_units by (auto simp: encodeTargetId_readable)
  then show ?thesis by (auto simp: is_unreserved_def is_alnum_def)
qed

lemma encodeTargetId_nonempty [simp]: "encodeTargetId i = [] \<longleftrightarrow> i = []"
  by (metis encodeTargetId_readable concat.simps(1) list.map(1) safeDecode_encodeTargetId)

lemma set_js_join: "set (js_join sep ws) \<subseteq> \<Union> (set ` set ws) \<union> set sep"
  by (induction sep ws rule: js_join.induct) auto

lemma js_join_single_sep: "c \<notin> set w \<Longrightarrow> js_join [c] ws = w \<Longrightarrow> \<forall>v \<in> set ws. c \<notin> set v \<Longrightarrow> ws \<noteq> [] \<Longrightarrow> ws = [w]"
  by (metis js_split_join js_split_no_sep)

section \<open>The id list of a route\<close>

definition url_path :: "string list \<Rightarrow> string" where
  "url_path agents = ''/conversations/'' @ js_join ''+'' (map encodeTargetId agents)"

definition url_ids_ok :: "string list \<Rightarrow> bool" where
  "url_ids_ok agents \<longleftrightarrow> agents \<noteq> [] \<and> agents \<noteq> [''new''] \<and> list_all (\<lambda>i. i \<noteq> [] \<and> js_trim i = i) agents
     \<and> distinct (filter (\<lambda>i. i \<noteq> NEW_PANE_URL_ID) agents)"

lemma join_units:
  "d \<in> set (js_join ''+'' (map encodeTargetId agents)) \<Longrightarrow> d \<noteq> CHR ''/'' \<and> d \<noteq> CHR ''?'' \<and> d \<noteq> CHR ''#''"
  using set_js_join [of "''+''" "map encodeTargetId agents"] encodeTargetId_units by fastforce

lemma js_join_nonempty: "ws \<noteq> [] \<Longrightarrow> hd ws \<noteq> [] \<Longrightarrow> js_join sep ws \<noteq> []"
  by (cases ws rule: list.exhaust; cases "tl ws") auto

lemma id_list_segment_id:
  assumes "seg \<noteq> []" and "CHR ''/'' \<notin> set seg"
  shows "id_list_segment seg = Some seg"
proof -
  have "last seg \<noteq> CHR ''/''" using assms last_in_set by metis
  then show ?thesis using assms by (simp add: id_list_segment_def)
qed

lemma url_segment:
  assumes "url_ids_ok agents"
  shows "conversationIdsSegment (url_path agents) = Some (js_join ''+'' (map encodeTargetId agents))"
proof -
  let ?seg = "js_join ''+'' (map encodeTargetId agents)"
  have ne: "agents \<noteq> []" "hd agents \<noteq> []" using assms by (cases agents; simp add: url_ids_ok_def)+
  then have seg: "?seg \<noteq> []" by (intro js_join_nonempty) (simp_all add: hd_map)
  have "CHR ''/'' \<notin> set ?seg" using join_units by blast
  then have "id_list_segment ?seg = Some ?seg" by (rule id_list_segment_id [OF seg])
  moreover have "?seg \<noteq> ''new''"
  proof
    assume new: "?seg = ''new''"
    have "map encodeTargetId agents = [''new'']"
    proof (rule js_join_single_sep [of "CHR ''+''"])
      show "js_join ''+'' (map encodeTargetId agents) = ''new''" by (rule new)
    qed (use ne encodeTargetId_units in auto)
    then obtain a where a: "agents = [a]" "encodeTargetId a = ''new''" by auto
    have "safeDecode ''new'' = ''new''" by code_simp
    then have "a = ''new''" using safeDecode_encodeTargetId [of a] a(2) by simp
    then show False using assms a(1) by (simp add: url_ids_ok_def)
  qed
  ultimately show ?thesis by (simp add: conversationIdsSegment_def url_path_def starts_with_def)
qed

lemma dedupe_distinct:
  "distinct (filter (\<lambda>i. i \<noteq> NEW_PANE_URL_ID) xs) \<Longrightarrow> set xs \<inter> seen \<subseteq> {NEW_PANE_URL_ID} \<Longrightarrow>
   dedupe_ids seen xs = xs"
  by (induction xs arbitrary: seen) auto

lemma url_ids_back:
  assumes "url_ids_ok agents"
  shows "dedupe_ids {} (filter (\<lambda>s. s \<noteq> []) (map js_trim (map safeDecode
           (js_split (CHR ''+'') (js_join ''+'' (map encodeTargetId agents)))))) = agents"
proof -
  have split: "js_split (CHR ''+'') (js_join ''+'' (map encodeTargetId agents)) = map encodeTargetId agents"
    using assms encodeTargetId_units by (intro js_split_join) (auto simp: url_ids_ok_def)
  have "map (js_trim \<circ> (safeDecode \<circ> encodeTargetId)) agents = agents"
    using assms by (intro map_idI) (simp add: url_ids_ok_def list_all_iff)
  moreover have "filter (\<lambda>s. s \<noteq> []) agents = agents"
    using assms by (simp add: url_ids_ok_def list_all_iff filter_True)
  moreover have "dedupe_ids {} agents = agents"
    using assms by (intro dedupe_distinct) (simp_all add: url_ids_ok_def)
  ultimately show ?thesis by (simp add: split)
qed

section \<open>The focused id of a query\<close>

definition readable_form :: "char \<Rightarrow> string" where
  "readable_form c = (if c = CHR '':'' then [c] else form_char c)"

lemma replace_form: "replace_colon (form_encode s) = concat (map readable_form s)"
proof (induction s)
  case (Cons c s)
  consider "c = CHR '' ''" | "c = CHR '':''" | "c \<noteq> CHR '' ''" "is_form_plain c"
    | "c \<noteq> CHR '' ''" "c \<noteq> CHR '':''" "\<not> is_form_plain c" by blast
  then show ?case
  proof cases
    case 1
    then show ?thesis using Cons by (simp add: form_encode_def form_char_def readable_form_def replace_colon_plain)
  next
    case 2
    have "form_char (CHR '':'') = ''%3A''" by code_simp
    then show ?thesis using Cons 2 by (simp add: form_encode_def readable_form_def)
  next
    case 3
    then show ?thesis using Cons form_not_special [of c]
      by (simp add: form_encode_def form_char_def readable_form_def replace_colon_plain)
  next
    case 4
    then show ?thesis using Cons
      by (simp add: form_encode_def form_char_def readable_form_def replace_percent_char)
  qed
qed (simp add: form_encode_def)

lemma decode_readable_form: "form_decode (concat (map readable_form s)) = Some s"
proof (induction s)
  case (Cons c s)
  then show ?case
    by (cases "c = CHR '':''") (simp_all add: readable_form_def form_decode_plain form_decode_char)
qed simp

lemma readable_form_units: "d \<in> set (readable_form c) \<Longrightarrow> d \<noteq> CHR ''&''"
  using percent_char_units [of d c] form_not_special [of d]
  by (auto simp: readable_form_def form_char_def is_alnum_def split: if_splits)

definition focused_query :: "string \<Rightarrow> string" where
  "focused_query f = ''focused='' @ concat (map readable_form f)"

lemma focused_query_get: "params_get (params_parse (focused_query f)) ''focused'' = Some f"
proof -
  have "CHR ''&'' \<notin> set (focused_query f)"
    using readable_form_units by (auto simp: focused_query_def)
  then have "js_split (CHR ''&'') (focused_query f) = [focused_query f]" by (rule js_split_no_sep)
  moreover have "index_of (CHR ''='') (focused_query f) = Some 7"
    using index_of_append [of "CHR ''=''" "''focused''" "concat (map readable_form f)"]
    by (simp add: focused_query_def)
  moreover have "form_decode ''focused'' = Some ''focused''" by code_simp
  ultimately show ?thesis
    by (simp add: params_parse_def params_get_def focused_query_def decode_readable_form)
qed

lemma focused_query_built: "replace_colon (params_to_string [(''focused'', f)]) = focused_query f"
proof -
  have "form_encode ''focused'' = ''focused''" by code_simp
  then show ?thesis
    by (simp add: params_to_string_def focused_query_def replace_colon_plain replace_form)
qed

section \<open>Round trip\<close>

definition at_hash :: "string \<Rightarrow> browser_location option" where
  "at_hash hash = Some \<lparr>loc_hash = hash, loc_pathname = [], loc_search = []\<rparr>"

lemma built_hash:
  assumes "agents \<noteq> []"
  shows "buildConversationHash agents f [] = CHR ''#'' # url_path agents @
    (if 1 < length agents
     then CHR ''?'' # focused_query (if truthy f \<and> the f \<in> set agents then the f else hd agents) else [])"
proof (cases "1 < length agents")
  case True
  let ?f = "if truthy f \<and> the f \<in> set agents then the f else hd agents"
  have "replace_colon (params_to_string [(''focused'', ?f)]) \<noteq> []"
    by (simp add: focused_query_built focused_query_def)
  then show ?thesis
    using True assms
    by (simp add: buildConversationHash_def buildRouteHash_def url_path_def starts_with_def focused_query_built Let_def)
next
  case False
  have "replace_colon (params_to_string []) = []" by (simp add: params_to_string_def)
  then show ?thesis
    using False assms
    by (simp add: buildConversationHash_def buildRouteHash_def url_path_def starts_with_def Let_def)
qed

lemma route_of_hash:
  assumes "CHR ''?'' \<notin> set path" and "starts_with ''/'' path"
  shows "getRoutePathname (at_hash (CHR ''#'' # path @ CHR ''?'' # q)) = path"
    and "getRouteSearch (at_hash (CHR ''#'' # path @ CHR ''?'' # q)) = CHR ''?'' # q"
    and "getRoutePathname (at_hash (CHR ''#'' # path)) = path"
    and "getRouteSearch (at_hash (CHR ''#'' # path)) = []"
proof -
  have ne: "path \<noteq> []" using assms(2) by (auto simp: starts_with_def)
  have none: "index_of (CHR ''?'') path = None" using assms(1) by (simp add: index_of_None)
  show "getRoutePathname (at_hash (CHR ''#'' # path @ CHR ''?'' # q)) = path"
    "getRouteSearch (at_hash (CHR ''#'' # path @ CHR ''?'' # q)) = CHR ''?'' # q"
    "getRoutePathname (at_hash (CHR ''#'' # path)) = path"
    "getRouteSearch (at_hash (CHR ''#'' # path)) = []"
    using assms ne none
    by (simp_all add: getRoutePathname_def getRouteSearch_def rawHash_def at_hash_def Let_def
        index_of_append starts_with_def [of "''#''"])
qed

lemma url_path_plain: "CHR ''?'' \<notin> set (url_path agents)" "starts_with ''/'' (url_path agents)"
  using join_units by (auto simp: url_path_def starts_with_def)

text \<open>
  C19. The URL round trip: parsing the route of the hash that was built for a pane set gives the pane
  set back, in order, with the focused target, for any targets that are trimmed, not empty and not
  repeated (pickers may be), except the single target \<open>new\<close>, whose route is the launch page.
\<close>

theorem url_round_trip:
  assumes "url_ids_ok agents"
  shows "parseConversationIdsFromRoute
      (getRoutePathname (at_hash (buildConversationHash agents f [])))
      (getRouteSearch (at_hash (buildConversationHash agents f [])))
    = \<lparr>res_ids = agents,
       res_focused = Some (if truthy f \<and> the f \<in> set agents then the f else hd agents)\<rparr>"
proof -
  have ne: "agents \<noteq> []" using assms by (simp add: url_ids_ok_def)
  note route = route_of_hash [OF url_path_plain]
  note parse = parseConversationIdsFromRoute_def Let_def url_segment [OF assms] url_ids_back [OF assms]
  show ?thesis
  proof (cases "1 < length agents")
    case True
    let ?f = "if truthy f \<and> the f \<in> set agents then the f else hd agents"
    have "?f \<in> set agents" using ne by simp
    moreover have "?f \<noteq> []" using \<open>?f \<in> set agents\<close> assms by (auto simp: url_ids_ok_def list_all_iff)
    ultimately show ?thesis
      unfolding built_hash [OF ne] if_P [OF True] route parse option.case
      using ne by (simp add: starts_with_def focused_query_get)
  next
    case False
    then obtain a where a: "agents = [a]" using ne by (cases agents) auto
    have "params_get (params_parse []) ''focused'' = None" by (simp add: params_parse_def params_get_def)
    then show ?thesis
      unfolding built_hash [OF ne] if_not_P [OF False] append_Nil2 route parse option.case
      using ne by (simp add: starts_with_def a)
  qed
qed

lemma url_round_trip_witness:
  "parseConversationIdsFromRoute
      (getRoutePathname (at_hash (buildConversationHash [''chain:9'', ''_new'', ''a b'', ''_new''] (Some ''a b'') [])))
      (getRouteSearch (at_hash (buildConversationHash [''chain:9'', ''_new'', ''a b'', ''_new''] (Some ''a b'') [])))
    = \<lparr>res_ids = [''chain:9'', ''_new'', ''a b'', ''_new''], res_focused = Some ''a b''\<rparr>"
  using url_round_trip [of "[''chain:9'', ''_new'', ''a b'', ''_new'']" "Some ''a b''"]
  by (simp add: url_ids_ok_def NEW_PANE_URL_ID_def js_trim_def is_js_space_def)

section \<open>Legacy deep links\<close>

text \<open>\<open>s.indexOf(p)\<close> of a substring; \<open>None\<close> is \<open>-1\<close>.\<close>

fun index_of_str :: "string \<Rightarrow> string \<Rightarrow> nat option" where
  "index_of_str p [] = (if p = [] then Some 0 else None)"
| "index_of_str p (c # r) = (if starts_with p (c # r) then Some 0 else map_option Suc (index_of_str p r))"

text \<open>
  The match of \<open>LEGACY_DEVICE_ROUTE\<close> at the start of a suffix, and the leftmost match of \<open>exec\<close>:
  the value is the first group.
\<close>

definition device_route_at :: "string \<Rightarrow> string option" where
  "device_route_at r =
     (if r = ''/device/add'' \<or> r = ''/device/add/'' then Some ''/device/add''
      else if starts_with ''/device/providers'' r then
        (let rest = drop 17 r;
             seg = (if rest \<noteq> [] \<and> last rest = CHR ''/'' then butlast rest else rest)
         in if seg = [] then Some ''/device/providers''
            else if hd seg = CHR ''/'' \<and> tl seg \<noteq> [] \<and> CHR ''/'' \<notin> set (tl seg)
            then Some (''/device/providers'' @ seg) else None)
      else None)"

fun LEGACY_DEVICE_ROUTE :: "string \<Rightarrow> string option" where
  "LEGACY_DEVICE_ROUTE [] = None"
| "LEGACY_DEVICE_ROUTE (c # r) =
     (case device_route_at (c # r) of Some g \<Rightarrow> Some g | None \<Rightarrow> LEGACY_DEVICE_ROUTE r)"

definition legacyPathRouteHash :: "string \<Rightarrow> string \<Rightarrow> string \<Rightarrow> string option" where
  "legacyPathRouteHash path search hash =
     (if 1 < length hash then None
      else if path = [] then None
      else (case index_of_str ''/workspace'' path of
              Some n \<Rightarrow> Some (buildRouteHash (str_or (drop n path) ''/workspace'') search)
            | None \<Rightarrow> map_option (\<lambda>g. buildRouteHash g search) (LEGACY_DEVICE_ROUTE path)))"

lemma legacy_examples:
  "legacyPathRouteHash ''/app/device/providers/b1/'' ''x=1'' [] = Some ''#/device/providers/b1?x=1''"
  "legacyPathRouteHash ''/ui/workspace/chains'' [] ''#'' = Some ''#/workspace/chains''"
  "legacyPathRouteHash ''/device/providers//'' [] [] = None"
  "legacyPathRouteHash ''/workspace'' [] ''#/x'' = None"
  by code_simp+

end
