(* ===== verification/DragTarget.thy ===== *)
theory DragTarget
  imports PaneTree
begin

text \<open>
  Drop targets of a pane drag (\<open>src/ui/tiling/dragUtils.ts\<close>). The elements that match the selector,
  in document order, with their rectangles, computed styles and attributes, are arguments of the
  model; the document may be missing (\<open>None\<close>).
\<close>

section \<open>Rectangles and elements\<close>

record overlay_position =
  ov_top :: rat
  ov_left :: rat
  ov_width :: rat
  ov_height :: rat

record rect_like =
  r_left :: rat
  r_top :: rat
  r_width :: rat
  r_height :: rat
  r_right :: "rat option"
  r_bottom :: "rat option"

text \<open>
  An element: its bounding rectangle, its computed \<open>pointerEvents\<close>, and the values of
  \<open>data-pane-id\<close>, \<open>data-main-pane-id\<close> and \<open>data-window-pane-id\<close>, which \<open>getAttribute\<close> and \<open>dataset\<close>
  both read.
\<close>

record element =
  el_rect :: rect_like
  el_pointerEvents :: "string option"
  el_paneId :: "string option"
  el_mainPaneId :: "string option"
  el_windowPaneId :: "string option"

record drop_target =
  dt_paneId :: string
  dt_direction :: split_direction
  dt_rect :: rect_like

section \<open>Hit test\<close>

definition rect_right :: "rect_like \<Rightarrow> rat" where
  "rect_right r = (case r_right r of Some x \<Rightarrow> x | None \<Rightarrow> r_left r + r_width r)"

definition rect_bottom :: "rect_like \<Rightarrow> rat" where
  "rect_bottom r = (case r_bottom r of Some x \<Rightarrow> x | None \<Rightarrow> r_top r + r_height r)"

definition rect_hit :: "rat \<Rightarrow> rat \<Rightarrow> element \<Rightarrow> bool" where
  "rect_hit x y el =
     (let r = el_rect el in
      0 < r_width r \<and> 0 < r_height r \<and> r_left r \<le> x \<and> x \<le> rect_right r
      \<and> r_top r \<le> y \<and> y \<le> rect_bottom r \<and> el_pointerEvents el \<noteq> Some ''none'')"

definition rectHitTest :: "element list option \<Rightarrow> rat \<Rightarrow> rat \<Rightarrow> element option" where
  "rectHitTest els x y = (case els of None \<Rightarrow> None | Some es \<Rightarrow> find (rect_hit x y) es)"

definition getSplitDirection :: "rect_like \<Rightarrow> rat \<Rightarrow> rat \<Rightarrow> split_direction" where
  "getSplitDirection r x y =
     (let width = (if r_width r = 0 then 1 else r_width r);
          height = (if r_height r = 0 then 1 else r_height r);
          centerX = r_left r + width / 2;
          centerY = r_top r + height / 2;
          deltaX = x - centerX;
          deltaY = y - centerY;
          xRatio = \<bar>deltaX\<bar> / (width / 2);
          yRatio = \<bar>deltaY\<bar> / (height / 2)
      in if yRatio < xRatio then (if 0 < deltaX then DirRight else DirLeft)
         else (if 0 < deltaY then DirBottom else DirTop))"

definition resolvePaneTarget :: "element list option \<Rightarrow> rat \<Rightarrow> rat \<Rightarrow> drop_target option" where
  "resolvePaneTarget els x y =
     (case rectHitTest els x y of
        None \<Rightarrow> None
      | Some pane \<Rightarrow>
          (let i = (if truthy (el_paneId pane) then el_paneId pane
                    else if truthy (el_mainPaneId pane) then el_mainPaneId pane
                    else el_windowPaneId pane)
           in if \<not> truthy i then None
              else Some \<lparr>dt_paneId = the i, dt_direction = getSplitDirection (el_rect pane) x y,
                         dt_rect = el_rect pane\<rparr>))"

definition half :: "rat \<Rightarrow> rat" where
  "half x = of_int \<lfloor>x / 2\<rfloor>"

definition getOverlayPosition :: "rect_like \<Rightarrow> split_direction \<Rightarrow> overlay_position" where
  "getOverlayPosition r d =
     (let width = max 0 (r_width r); height = max 0 (r_height r) in
      case d of
        DirTop \<Rightarrow> \<lparr>ov_top = 0, ov_left = 0, ov_width = width, ov_height = half height\<rparr>
      | DirBottom \<Rightarrow> \<lparr>ov_top = half height, ov_left = 0, ov_width = width, ov_height = half height\<rparr>
      | DirLeft \<Rightarrow> \<lparr>ov_top = 0, ov_left = 0, ov_width = half width, ov_height = height\<rparr>
      | DirRight \<Rightarrow> \<lparr>ov_top = 0, ov_left = half width, ov_width = half width, ov_height = height\<rparr>)"

section \<open>The quadrant of a point\<close>

lemma half_bounds: "0 \<le> x \<Longrightarrow> 0 \<le> half x" "half x \<le> x / 2" "x / 2 < half x + 1"
  by (simp_all add: half_def) linarith+

text \<open>
  A point of the rectangle is, relative to it, in the triangle of its direction: at least as far
  towards that edge as towards the edges of the other axis.
\<close>

fun in_quadrant :: "split_direction \<Rightarrow> rat \<Rightarrow> rat \<Rightarrow> bool" where
  "in_quadrant DirTop u v = (v \<le> 1 / 2 \<and> \<bar>u - 1 / 2\<bar> \<le> 1 / 2 - v)"
| "in_quadrant DirBottom u v = (1 / 2 < v \<and> \<bar>u - 1 / 2\<bar> \<le> v - 1 / 2)"
| "in_quadrant DirLeft u v = (u < 1 / 2 \<and> \<bar>v - 1 / 2\<bar> < 1 / 2 - u)"
| "in_quadrant DirRight u v = (1 / 2 < u \<and> \<bar>v - 1 / 2\<bar> < u - 1 / 2)"

lemma abs_ratio:
  fixes x w l :: rat
  assumes "0 < w"
  shows "\<bar>x - (l + w / 2)\<bar> / (w / 2) = 2 * \<bar>(x - l) / w - 1 / 2\<bar>"
proof -
  have "x - (l + w / 2) = w * ((x - l) / w - 1 / 2)" using assms by (simp add: field_simps)
  then have "\<bar>x - (l + w / 2)\<bar> = w * \<bar>(x - l) / w - 1 / 2\<bar>" using assms by (simp add: abs_mult)
  then show ?thesis using assms by simp
qed

lemma delta_pos:
  fixes x w l :: rat
  assumes "0 < w"
  shows "0 < x - (l + w / 2) \<longleftrightarrow> 1 / 2 < (x - l) / w"
  using assms by (simp add: field_simps)

definition quadrant :: "rat \<Rightarrow> rat \<Rightarrow> split_direction" where
  "quadrant u v =
     (if 2 * \<bar>v - 1 / 2\<bar> < 2 * \<bar>u - 1 / 2\<bar> then (if 1 / 2 < u then DirRight else DirLeft)
      else (if 1 / 2 < v then DirBottom else DirTop))"

lemma in_quadrant: "in_quadrant (quadrant u v) u v"
  by (auto simp: quadrant_def abs_if)

lemma direction_quadrant:
  assumes "0 < r_width r" and "0 < r_height r"
  shows "getSplitDirection r x y = quadrant ((x - r_left r) / r_width r) ((y - r_top r) / r_height r)"
proof -
  have w: "(if r_width r = 0 then 1 else r_width r) = r_width r"
    "(if r_height r = 0 then 1 else r_height r) = r_height r" using assms by simp_all
  show ?thesis
    unfolding getSplitDirection_def Let_def w abs_ratio [OF assms(1)] abs_ratio [OF assms(2)]
      delta_pos [OF assms(1)] delta_pos [OF assms(2)] quadrant_def by (rule refl)
qed

text \<open>
  A resolved drop: the element is the first of the document under the point that accepts
  pointer events, the direction is the quadrant the point is in, and the overlay of that direction
  lies inside the rectangle, on the side of the point.
\<close>

theorem drop_target_spec:
  assumes "resolvePaneTarget (Some els) x y = Some target"
  shows "\<exists>before el after. els = before @ el # after \<and> rect_hit x y el \<and> list_all (\<lambda>e. \<not> rect_hit x y e) before
    \<and> dt_rect target = el_rect el
    \<and> in_quadrant (dt_direction target) ((x - r_left (el_rect el)) / r_width (el_rect el))
        ((y - r_top (el_rect el)) / r_height (el_rect el))
    \<and> (let ov = getOverlayPosition (el_rect el) (dt_direction target) in
         0 \<le> ov_left ov \<and> ov_left ov + ov_width ov \<le> r_width (el_rect el)
         \<and> 0 \<le> ov_top ov \<and> ov_top ov + ov_height ov \<le> r_height (el_rect el)
         \<and> (dt_direction target = DirRight \<longrightarrow> ov_left ov \<le> x - r_left (el_rect el))
         \<and> (dt_direction target = DirBottom \<longrightarrow> ov_top ov \<le> y - r_top (el_rect el)))"
proof -
  obtain el where el: "find (rect_hit x y) els = Some el" "dt_rect target = el_rect el"
    "dt_direction target = getSplitDirection (el_rect el) x y"
    using assms by (auto simp: resolvePaneTarget_def rectHitTest_def Let_def split: option.splits if_splits)
  then obtain n where n: "n < length els" "rect_hit x y (els ! n)" "el = els ! n" "\<forall>j < n. \<not> rect_hit x y (els ! j)"
    unfolding find_Some_iff by blast
  let ?r = "el_rect el"
  have pos: "0 < r_width ?r" "0 < r_height ?r" using n(2,3) by (simp_all add: rect_hit_def Let_def)
  have quad: "in_quadrant (dt_direction target) ((x - r_left ?r) / r_width ?r) ((y - r_top ?r) / r_height ?r)"
    unfolding el(3) direction_quadrant [OF pos] by (rule in_quadrant)
  have parts: "els = take n els @ el # drop (Suc n) els" using n(1,3) by (simp add: id_take_nth_drop)
  have first: "list_all (\<lambda>e. \<not> rect_hit x y e) (take n els)"
    using n(4) by (auto simp: list_all_length)
  have right: "half (r_width ?r) \<le> x - r_left ?r" if "dt_direction target = DirRight"
  proof -
    have "r_width ?r / 2 < x - r_left ?r" using quad that pos by (simp add: field_simps)
    then show ?thesis using half_bounds(2) [of "r_width ?r"] by linarith
  qed
  have bottom: "half (r_height ?r) \<le> y - r_top ?r" if "dt_direction target = DirBottom"
  proof -
    have "r_height ?r / 2 < y - r_top ?r" using quad that pos by (simp add: field_simps)
    then show ?thesis using half_bounds(2) [of "r_height ?r"] by linarith
  qed
  have over: "let ov = getOverlayPosition ?r (dt_direction target) in
         0 \<le> ov_left ov \<and> ov_left ov + ov_width ov \<le> r_width ?r
         \<and> 0 \<le> ov_top ov \<and> ov_top ov + ov_height ov \<le> r_height ?r
         \<and> (dt_direction target = DirRight \<longrightarrow> ov_left ov \<le> x - r_left ?r)
         \<and> (dt_direction target = DirBottom \<longrightarrow> ov_top ov \<le> y - r_top ?r)"
    using pos half_bounds [of "r_width ?r"] half_bounds [of "r_height ?r"] right bottom
    by (cases "dt_direction target") (simp_all add: getOverlayPosition_def Let_def)
  show ?thesis using parts n(2,3) first el(2) quad over by blast
qed

lemma drop_target_spec_witness:
  "\<exists>target. resolvePaneTarget (Some
      [\<lparr>el_rect = \<lparr>r_left = 0, r_top = 0, r_width = 300, r_height = 200, r_right = None, r_bottom = Some 200\<rparr>,
        el_pointerEvents = Some ''auto'', el_paneId = Some ''pane-1'', el_mainPaneId = None, el_windowPaneId = None\<rparr>])
      250 90 = Some target \<and> in_quadrant (dt_direction target) (250 / 300) (90 / 200)"
proof -
  let ?els = "[\<lparr>el_rect = \<lparr>r_left = 0, r_top = 0, r_width = 300, r_height = 200, r_right = None, r_bottom = Some 200\<rparr>,
        el_pointerEvents = Some ''auto'', el_paneId = Some ''pane-1'', el_mainPaneId = None, el_windowPaneId = None\<rparr>]"
  obtain target where t: "resolvePaneTarget (Some ?els) 250 90 = Some target"
    by (simp add: resolvePaneTarget_def rectHitTest_def rect_hit_def rect_right_def rect_bottom_def)
  from drop_target_spec [OF t] have "in_quadrant (dt_direction target) (250 / 300) (90 / 200)"
    by (auto simp: Cons_eq_append_conv)
  with t show ?thesis by blast
qed

end
