(* ===== verification/JsValue.thy ===== *)
theory JsValue
  imports JsPrelude
begin

text \<open>
  Conversions of the JavaScript value model: \<open>Number(s)\<close> of a string, the decimal spelling of a
  number, \<open>Number(v)\<close> and \<open>String(v)\<close> of an untyped value, and objects whose properties may be
  \<open>undefined\<close>, with object spread. Numbers of \<open>10 ^ 21\<close> and more, which JavaScript spells with an
  exponent, are spelled in full, and a fraction is cut after seventeen digits.
\<close>

section \<open>Numbers to strings\<close>

fun fraction_digits :: "nat \<Rightarrow> rat \<Rightarrow> string" where
  "fraction_digits 0 f = []"
| "fraction_digits (Suc n) f =
     (if f = 0 then []
      else (let d = nat \<lfloor>10 * f\<rfloor> in digit_char d # fraction_digits n (10 * f - of_nat d)))"

definition show_positive :: "rat \<Rightarrow> string" where
  "show_positive r =
     (let i = nat \<lfloor>r\<rfloor>; f = r - of_nat i
      in show_nat i @ (if f = 0 then [] else CHR ''.'' # fraction_digits 17 f))"

fun show_number :: "jsnum \<Rightarrow> string" where
  "show_number (Fin r) = (if r < 0 then CHR ''-'' # show_positive (- r) else show_positive r)"
| "show_number PosInf = ''Infinity''"
| "show_number NegInf = ''-Infinity''"
| "show_number NaN = ''NaN''"

lemma show_number_nat [simp]: "show_number (Fin (of_nat n)) = show_nat n"
  by (simp add: show_positive_def)

section \<open>Strings to numbers\<close>

definition digits_value :: "nat \<Rightarrow> (char \<Rightarrow> nat option) \<Rightarrow> string \<Rightarrow> nat option" where
  "digits_value b val s =
     (if s = [] \<or> list_ex (\<lambda>c. val c = None) s then None
      else Some (foldl (\<lambda>a c. b * a + the (val c)) 0 s))"

definition decimal_digit :: "char \<Rightarrow> nat option" where
  "decimal_digit c = (if is_digit c then Some (digit_val c) else None)"

definition radix_digit :: "nat \<Rightarrow> char \<Rightarrow> nat option" where
  "radix_digit b c =
     (let n = of_char c;
          d = (if 48 \<le> n \<and> n \<le> 57 then n - 48
               else if 97 \<le> n \<and> n \<le> 102 then n - 87
               else if 65 \<le> n \<and> n \<le> 70 then n - 55 else b)
      in if d < b then Some d else None)"

fun nat_result :: "nat option \<Rightarrow> jsnum" where
  "nat_result None = NaN"
| "nat_result (Some n) = Fin (of_nat n)"

text \<open>The exponent part of a decimal literal: nothing, or \<open>e\<close> and a signed integer.\<close>

definition parse_exponent :: "string \<Rightarrow> int option" where
  "parse_exponent s =
     (case s of
        [] \<Rightarrow> Some 0
      | c # r \<Rightarrow>
          if c = CHR ''e'' \<or> c = CHR ''E''
          then (case r of
                  x # ds \<Rightarrow>
                    (if x = CHR ''-'' then map_option (\<lambda>n. - int n) (digits_value 10 decimal_digit ds)
                     else if x = CHR ''+'' then map_option int (digits_value 10 decimal_digit ds)
                     else map_option int (digits_value 10 decimal_digit r))
                | [] \<Rightarrow> None)
          else None)"

definition scale :: "rat \<Rightarrow> int \<Rightarrow> rat" where
  "scale r e = (if 0 \<le> e then r * 10 ^ nat e else r / 10 ^ nat (- e))"

definition parse_unsigned :: "string \<Rightarrow> jsnum" where
  "parse_unsigned s =
     (if s = ''Infinity'' then PosInf
      else
        (let whole = takeWhile is_digit s; rest = dropWhile is_digit s;
             (frac, tail) = (case rest of
                c # r \<Rightarrow> if c = CHR ''.'' then (takeWhile is_digit r, dropWhile is_digit r) else ([], rest)
              | [] \<Rightarrow> ([], []))
         in if whole = [] \<and> frac = [] then NaN
            else (case parse_exponent tail of
                    None \<Rightarrow> NaN
                  | Some e \<Rightarrow>
                      Fin (scale (of_nat (parse_nat (whole @ frac))) (e - int (length frac))))))"

fun js_negate :: "jsnum \<Rightarrow> jsnum" where
  "js_negate (Fin r) = Fin (- r)"
| "js_negate PosInf = NegInf"
| "js_negate NegInf = PosInf"
| "js_negate NaN = NaN"

definition number_of_string :: "string \<Rightarrow> jsnum" where
  "number_of_string s0 =
     (let s = js_trim s0 in
      if s = [] then Fin 0
      else if take 2 s = ''0x'' \<or> take 2 s = ''0X'' then nat_result (digits_value 16 (radix_digit 16) (drop 2 s))
      else if take 2 s = ''0o'' \<or> take 2 s = ''0O'' then nat_result (digits_value 8 (radix_digit 8) (drop 2 s))
      else if take 2 s = ''0b'' \<or> take 2 s = ''0B'' then nat_result (digits_value 2 (radix_digit 2) (drop 2 s))
      else if hd s = CHR ''-'' then js_negate (parse_unsigned (tl s))
      else if hd s = CHR ''+'' then parse_unsigned (tl s)
      else parse_unsigned s)"

lemma digit_not_space: "is_digit c \<Longrightarrow> \<not> is_js_space c"
  by (auto simp: is_digit_def is_js_space_def Let_def)

lemma digit_not_sign: "is_digit c \<Longrightarrow> c \<noteq> CHR ''-'' \<and> c \<noteq> CHR ''+'' \<and> c \<noteq> CHR ''.'' \<and> c \<noteq> CHR '':''"
  by (auto simp: is_digit_def Let_def)

lemma digit_not_radix: "is_digit c \<Longrightarrow> c \<noteq> CHR ''x'' \<and> c \<noteq> CHR ''X'' \<and> c \<noteq> CHR ''o'' \<and> c \<noteq> CHR ''O''
   \<and> c \<noteq> CHR ''b'' \<and> c \<noteq> CHR ''B'' \<and> c \<noteq> CHR ''I''"
  by (auto simp: is_digit_def Let_def)

lemma number_of_show_nat [simp]: "number_of_string (show_nat n) = Fin (of_nat n)"
proof -
  let ?s = "show_nat n"
  have dig: "\<forall>c \<in> set ?s. is_digit c" by (blast dest: show_nat_digits)
  have ne: "?s \<noteq> []" by simp
  have trim: "js_trim ?s = ?s"
    by (rule js_trim_no_space_id) (use dig digit_not_space in blast)
  have hd: "is_digit (hd ?s)" using dig ne by (meson hd_in_set)
  have nox: "take 2 ?s \<noteq> [a, b]" if "\<not> is_digit b" for a b
  proof
    assume "take 2 ?s = [a, b]"
    then have "b \<in> set ?s" by (metis in_set_takeD list.set_intros)
    with dig that show False by blast
  qed
  have radix: "take 2 ?s \<noteq> [a, b]" if "b \<in> {CHR ''x'', CHR ''X'', CHR ''o'', CHR ''O'', CHR ''b'', CHR ''B''}" for a b
    by (rule nox) (use that digit_not_radix [of b] in auto)
  have whole: "takeWhile is_digit ?s = ?s" "dropWhile is_digit ?s = []"
    using dig by (simp_all add: takeWhile_eq_all_conv dropWhile_eq_Nil_conv)
  have "?s \<noteq> ''Infinity''" using hd digit_not_radix [of "hd ?s"] by auto
  then have "parse_unsigned ?s = Fin (of_nat n)"
    by (simp add: parse_unsigned_def whole ne parse_exponent_def scale_def)
  then show ?thesis
    using ne trim radix digit_not_sign [OF hd] by (simp add: number_of_string_def Let_def)
qed

section \<open>Untyped values\<close>

fun js_to_string :: "js \<Rightarrow> string" and js_items_to_string :: "js list \<Rightarrow> string" where
  "js_to_string JNull = ''null''"
| "js_to_string (JBool b) = (if b then ''true'' else ''false'')"
| "js_to_string (JNum n) = show_number n"
| "js_to_string (JStr s) = s"
| "js_to_string (JArr xs) = js_items_to_string xs"
| "js_to_string (JObj ob) = ''[object Object]''"
| "js_items_to_string [] = []"
| "js_items_to_string [x] = (if x = JNull then [] else js_to_string x)"
| "js_items_to_string (x # y # r) =
     (if x = JNull then [] else js_to_string x) @ '','' @ js_items_to_string (y # r)"

text \<open>\<open>Number(v)\<close>; \<open>None\<close> is \<open>undefined\<close>.\<close>

fun js_to_number :: "js option \<Rightarrow> jsnum" where
  "js_to_number None = NaN"
| "js_to_number (Some JNull) = Fin 0"
| "js_to_number (Some (JBool b)) = Fin (if b then 1 else 0)"
| "js_to_number (Some (JNum n)) = n"
| "js_to_number (Some (JStr s)) = number_of_string s"
| "js_to_number (Some (JArr xs)) = number_of_string (js_to_string (JArr xs))"
| "js_to_number (Some (JObj ob)) = NaN"

text \<open>\<open>Boolean(v)\<close>.\<close>

fun js_truthy :: "js option \<Rightarrow> bool" where
  "js_truthy None = False"
| "js_truthy (Some JNull) = False"
| "js_truthy (Some (JBool b)) = b"
| "js_truthy (Some (JNum n)) = (n \<noteq> Fin 0 \<and> n \<noteq> NaN)"
| "js_truthy (Some (JStr s)) = (s \<noteq> [])"
| "js_truthy (Some _) = True"

text \<open>\<open>typeof v === 'string' ? v.trim() : ''\<close>.\<close>

definition clean :: "js option \<Rightarrow> string" where
  "clean v = js_trim (opt_str (js_string v))"

lemma clean_idem [simp]: "js_trim (clean v) = clean v"
  by (simp add: clean_def)

lemma clean_JStr [simp]: "clean (Some (JStr s)) = js_trim s"
  by (simp add: clean_def)

lemma clean_None [simp]: "clean None = []"
  by (simp add: clean_def js_trim_def)

section \<open>Objects with undefined properties\<close>

text \<open>A property that is present but \<open>undefined\<close> is \<open>Some None\<close>.\<close>

type_synonym js_record = "js option js_obj"

definition attr :: "js_record \<Rightarrow> string \<Rightarrow> js option" where
  "attr ob k = (case obj_get ob k of Some v \<Rightarrow> v | None \<Rightarrow> None)"

text \<open>\<open>{...a, ...b}\<close>.\<close>

definition spread :: "js_record \<Rightarrow> js_record \<Rightarrow> js_record" where
  "spread a b = fold (\<lambda>(k, v) ob. obj_set ob k v) b a"

lemma attr_set [simp]: "attr (obj_set ob k v) j = (if j = k then v else attr ob j)"
  by (simp add: attr_def)

lemma attr_Nil [simp]: "attr [] k = None"
  by (simp add: attr_def)

lemma obj_get_spread:
  "obj_ok b \<Longrightarrow> obj_get (spread a b) k = (case obj_get b k of Some v \<Rightarrow> Some v | None \<Rightarrow> obj_get a k)"
proof (induction b arbitrary: a)
  case (Cons x b)
  obtain j v where x: "x = (j, v)" by fastforce
  have fresh: "obj_get b j = None" using Cons.prems by (simp add: x obj_ok_def obj_get_def map_of_eq_None_iff)
  have "obj_ok b" using Cons.prems by (simp add: obj_ok_def)
  then show ?case
    using Cons.IH [of "obj_set a j v"] fresh
    by (auto simp: x spread_def obj_get_def [of "(j, v) # b"] obj_get_def [of b] split: option.split)
qed (simp add: spread_def)

lemma attr_spread:
  "obj_ok b \<Longrightarrow> attr (spread a b) k = (if obj_get b k = None then attr a k else attr b k)"
  by (simp add: attr_def obj_get_spread split: option.split)

end
