(* ===== verification/AuxTab.thy ===== *)
theory AuxTab
  imports JsValue UrlCodec
begin

text \<open>
  Tabs of the auxiliary dock (\<open>src/ui/store/auxTabId.ts\<close>): the content of a tab is an object whose
  \<open>type\<close> names its kind, and the id of a tab is derived from its content by one codec. Contents are
  kept as objects, so spreads and unknown properties behave as in the source.
\<close>

section \<open>Content\<close>

type_synonym aux_content = js_record

record aux_tab =
  tab_id :: string
  tab_content :: aux_content
  tab_title :: "string option"

datatype aux_tab_kind =
    ChainOverview | Files | Vcs | Tasks | Shell | AgentPty | Preview | SubagentChat | Artifact | Ticket

fun kind_name :: "aux_tab_kind \<Rightarrow> string" where
  "kind_name ChainOverview = ''chainOverview''"
| "kind_name Files = ''files''"
| "kind_name Vcs = ''vcs''"
| "kind_name Tasks = ''tasks''"
| "kind_name Shell = ''shell''"
| "kind_name AgentPty = ''agentPty''"
| "kind_name Preview = ''preview''"
| "kind_name SubagentChat = ''subagentChat''"
| "kind_name Artifact = ''artifact''"
| "kind_name Ticket = ''ticket''"

definition AUX_TAB_KINDS :: "aux_tab_kind list" where
  "AUX_TAB_KINDS = [ChainOverview, Files, Vcs, Tasks, Shell, AgentPty, Preview, SubagentChat, Artifact, Ticket]"

definition NEW_TAB_ID :: string where "NEW_TAB_ID = ''newTab__empty''"
definition OVERVIEW_TAB_ID :: string where "OVERVIEW_TAB_ID = ''overview''"
definition FILES_TAB_ID :: string where "FILES_TAB_ID = ''files''"
definition VCS_TAB_ID :: string where "VCS_TAB_ID = ''vcs''"
definition TASKS_TAB_ID :: string where "TASKS_TAB_ID = ''tasks''"
definition NEW_SHELL_SESSION_ID :: string where "NEW_SHELL_SESSION_ID = ''new''"

text \<open>The kind of a content: the \<open>case\<close> of \<open>switch (content.type)\<close> that applies.\<close>

definition kind_of :: "aux_content \<Rightarrow> aux_tab_kind option" where
  "kind_of c = find (\<lambda>k. attr c ''type'' = Some (JStr (kind_name k))) AUX_TAB_KINDS"

definition isProvisionalShellSessionId :: "string option \<Rightarrow> bool" where
  "isProvisionalShellSessionId session =
     (let i = js_trim (opt_str session)
      in i = [] \<or> i = NEW_SHELL_SESSION_ID \<or> starts_with (NEW_SHELL_SESSION_ID @ ''-'') i)"

text \<open>The clock and the random part of the nonce are an argument.\<close>

definition newShellTabContent :: "string \<Rightarrow> js_record \<Rightarrow> aux_content" where
  "newShellTabContent nonce extra =
     spread [(''type'', Some (JStr ''shell'')),
             (''sessionId'', Some (JStr (NEW_SHELL_SESSION_ID @ ''-'' @ nonce)))] extra"

fun tab_prefix :: "aux_tab_kind \<Rightarrow> string" where
  "tab_prefix Shell = ''shell__''"
| "tab_prefix AgentPty = ''pty__''"
| "tab_prefix Preview = ''preview__''"
| "tab_prefix SubagentChat = ''subagent_convo__''"
| "tab_prefix Artifact = ''artifact__''"
| "tab_prefix Ticket = ''ticket__''"
| "tab_prefix ChainOverview = OVERVIEW_TAB_ID"
| "tab_prefix Files = FILES_TAB_ID"
| "tab_prefix Vcs = VCS_TAB_ID"
| "tab_prefix Tasks = TASKS_TAB_ID"

definition FIXED_TAB_IDS :: "(string \<times> aux_content) list" where
  "FIXED_TAB_IDS =
     [(OVERVIEW_TAB_ID, [(''type'', Some (JStr ''chainOverview''))]),
      (FILES_TAB_ID, [(''type'', Some (JStr ''files''))]),
      (VCS_TAB_ID, [(''type'', Some (JStr ''vcs''))]),
      (TASKS_TAB_ID, [(''type'', Some (JStr ''tasks''))])]"

section \<open>The id codec\<close>

abbreviation positive_port :: "jsnum \<Rightarrow> bool" where
  "positive_port n \<equiv> (case n of Fin r \<Rightarrow> 0 < r | _ \<Rightarrow> False)"

text \<open>\<open>switch\<close> has a case for every kind; for any other value it yields no id (here the empty string).\<close>

definition auxTabId :: "aux_content \<Rightarrow> string" where
  "auxTabId c =
     (case kind_of c of
        Some ChainOverview \<Rightarrow> OVERVIEW_TAB_ID
      | Some Files \<Rightarrow> FILES_TAB_ID
      | Some Vcs \<Rightarrow> VCS_TAB_ID
      | Some Tasks \<Rightarrow> TASKS_TAB_ID
      | Some Shell \<Rightarrow> tab_prefix Shell @ str_or (clean (attr c ''sessionId'')) NEW_SHELL_SESSION_ID
      | Some AgentPty \<Rightarrow> tab_prefix AgentPty @ clean (attr c ''agentInstanceId'')
      | Some Preview \<Rightarrow>
          (let session = clean (attr c ''sessionId''); port = js_to_number (attr c ''port'')
           in if positive_port port then tab_prefix Preview @ session @ '':'' @ show_number port
              else tab_prefix Preview @ session)
      | Some SubagentChat \<Rightarrow> tab_prefix SubagentChat @ clean (attr c ''agentInstanceId'')
      | Some Artifact \<Rightarrow> tab_prefix Artifact @ clean (attr c ''artifactId'')
      | Some Ticket \<Rightarrow> tab_prefix Ticket @ clean (attr c ''chainId'') @ '':'' @ clean (attr c ''taskId'')
      | None \<Rightarrow> [])"

definition isFixedAuxTabId :: "string option \<Rightarrow> bool" where
  "isFixedAuxTabId i = (truthy i \<and> map_of FIXED_TAB_IDS (the i) \<noteq> None)"

definition one_field :: "aux_tab_kind \<Rightarrow> string \<Rightarrow> string \<Rightarrow> aux_content option" where
  "one_field k name payload =
     (if payload = [] then None
      else Some [(''type'', Some (JStr (kind_name k))), (name, Some (JStr payload))])"

definition decode_preview :: "string \<Rightarrow> aux_content option" where
  "decode_preview payload =
     (if payload = [] then None
      else
        (let whole = [(''type'', Some (JStr ''preview'')), (''sessionId'', Some (JStr payload))]
         in case last_index_of (CHR '':'') payload of
              Some sep \<Rightarrow>
                if 0 < sep then
                  (let port = number_of_string (drop (Suc sep) payload)
                   in if positive_port port
                      then Some [(''type'', Some (JStr ''preview'')),
                                 (''sessionId'', Some (JStr (take sep payload))), (''port'', Some (JNum port))]
                      else Some whole)
                else Some whole
            | None \<Rightarrow> Some whole))"

definition decode_ticket :: "string \<Rightarrow> aux_content option" where
  "decode_ticket payload =
     (case index_of (CHR '':'') payload of
        None \<Rightarrow> None
      | Some sep \<Rightarrow>
          if sep = 0 \<or> Suc sep = length payload then None
          else Some [(''type'', Some (JStr ''ticket'')), (''chainId'', Some (JStr (take sep payload))),
                     (''taskId'', Some (JStr (drop (Suc sep) payload)))])"

definition decodeAuxTabId :: "string option \<Rightarrow> aux_content option" where
  "decodeAuxTabId tab =
     (let i = opt_str tab; payload = (\<lambda>k. drop (length (tab_prefix k)) i) in
      if i = [] \<or> i = NEW_TAB_ID then None
      else if isFixedAuxTabId tab then map_of FIXED_TAB_IDS i
      else if starts_with (tab_prefix SubagentChat) i
      then one_field SubagentChat ''agentInstanceId'' (payload SubagentChat)
      else if starts_with (tab_prefix Shell) i then one_field Shell ''sessionId'' (payload Shell)
      else if starts_with (tab_prefix AgentPty) i then one_field AgentPty ''agentInstanceId'' (payload AgentPty)
      else if starts_with (tab_prefix Preview) i then decode_preview (payload Preview)
      else if starts_with (tab_prefix Artifact) i then one_field Artifact ''artifactId'' (payload Artifact)
      else if starts_with (tab_prefix Ticket) i then decode_ticket (payload Ticket)
      else None)"

section \<open>Validation and normalization\<close>

text \<open>\<open>isAuxContent\<close> of an object; anything else is not content.\<close>

definition isAuxContent :: "aux_content \<Rightarrow> bool" where
  "isAuxContent c =
     (case kind_of c of
        None \<Rightarrow> False
      | Some k \<Rightarrow>
          if k = Shell \<or> k = Preview then clean (attr c ''sessionId'') \<noteq> []
          else if k = AgentPty \<or> k = SubagentChat then clean (attr c ''agentInstanceId'') \<noteq> []
          else if k = Artifact then clean (attr c ''artifactId'') \<noteq> []
          else if k = Ticket then clean (attr c ''chainId'') \<noteq> [] \<and> CHR '':'' \<notin> set (clean (attr c ''chainId''))
                                \<and> clean (attr c ''taskId'') \<noteq> []
          else True)"

text \<open>\<open>String(path || '').replace(/^\/+/, '')\<close>.\<close>

definition strip_slashes :: "js option \<Rightarrow> string" where
  "strip_slashes v = dropWhile (\<lambda>c. c = CHR ''/'') (if js_truthy v then js_to_string (the v) else [])"

definition set_clean :: "string \<Rightarrow> aux_content \<Rightarrow> aux_content" where
  "set_clean name c = obj_set c name (Some (JStr (clean (attr c name))))"

definition normalizeAuxContent :: "aux_content \<Rightarrow> aux_content" where
  "normalizeAuxContent c =
     (case kind_of c of
        Some Shell \<Rightarrow>
          obj_set c ''sessionId'' (Some (JStr (str_or (clean (attr c ''sessionId'')) NEW_SHELL_SESSION_ID)))
      | Some Preview \<Rightarrow>
          (let c1 = set_clean ''sessionId'' c
           in if attr c ''path'' \<noteq> None
              then obj_set c1 ''path'' (Some (JStr (strip_slashes (attr c ''path'')))) else c1)
      | Some AgentPty \<Rightarrow> set_clean ''agentInstanceId'' c
      | Some SubagentChat \<Rightarrow> set_clean ''agentInstanceId'' c
      | Some Artifact \<Rightarrow> set_clean ''artifactId'' c
      | Some Ticket \<Rightarrow> obj_set (set_clean ''chainId'' c) ''taskId'' (Some (JStr (clean (attr c ''taskId''))))
      | _ \<Rightarrow> c)"

text \<open>The title is dropped when it is blank.\<close>

definition createAuxTab :: "aux_content \<Rightarrow> string option \<Rightarrow> aux_tab" where
  "createAuxTab c title =
     (let normalized = normalizeAuxContent c; t = js_trim (opt_str title)
      in \<lparr>tab_id = auxTabId normalized, tab_content = normalized,
          tab_title = (if t = [] then None else Some t)\<rparr>)"

section \<open>Titles, deep links and preview addresses\<close>

record aux_tab_descriptor =
  d_kind :: aux_tab_kind
  d_label :: string
  d_short_label :: string
  d_description :: string
  d_multi_instance :: bool

fun AUX_TAB_REGISTRY :: "aux_tab_kind \<Rightarrow> aux_tab_descriptor" where
  "AUX_TAB_REGISTRY ChainOverview = \<lparr>d_kind = ChainOverview, d_label = ''Chain Overview'',
     d_short_label = ''Overview'',
     d_description = ''Task chain agents, attention, tickets, artifacts and changes.'',
     d_multi_instance = False\<rparr>"
| "AUX_TAB_REGISTRY Files = \<lparr>d_kind = Files, d_label = ''Files'', d_short_label = ''Files'',
     d_description = ''Browse the project, chain, or agent directory tree and edit files.'',
     d_multi_instance = False\<rparr>"
| "AUX_TAB_REGISTRY Vcs = \<lparr>d_kind = Vcs, d_label = ''VCS & Diffs'', d_short_label = ''VCS'',
     d_description = ''Inspect working tree status, commit history, and diffs.'',
     d_multi_instance = False\<rparr>"
| "AUX_TAB_REGISTRY Tasks = \<lparr>d_kind = Tasks, d_label = ''Tickets'', d_short_label = ''Tickets'',
     d_description = ''Inspect and manage tickets, dependencies, and deliverables in the chain.'',
     d_multi_instance = False\<rparr>"
| "AUX_TAB_REGISTRY Shell = \<lparr>d_kind = Shell, d_label = ''Interactive Shell'', d_short_label = ''Shell'',
     d_description = ''Start a new interactive terminal on the agent bridge.'',
     d_multi_instance = True\<rparr>"
| "AUX_TAB_REGISTRY AgentPty = \<lparr>d_kind = AgentPty, d_label = ''Agent Terminal (PTY)'',
     d_short_label = ''PTY'', d_description = ''Live streaming PTY terminal of the agent.'',
     d_multi_instance = True\<rparr>"
| "AUX_TAB_REGISTRY Preview = \<lparr>d_kind = Preview, d_label = ''Web Preview'', d_short_label = ''Preview'',
     d_description = ''Preview a running server port.'', d_multi_instance = True\<rparr>"
| "AUX_TAB_REGISTRY SubagentChat = \<lparr>d_kind = SubagentChat, d_label = ''Sub-agent Chat'',
     d_short_label = ''Sub-agent'',
     d_description = ''Chat with another participant of the task chain.'',
     d_multi_instance = True\<rparr>"
| "AUX_TAB_REGISTRY Artifact = \<lparr>d_kind = Artifact, d_label = ''Artifact'', d_short_label = ''Artifact'',
     d_description = ''Inspect an artifact and its versioned content.'', d_multi_instance = True\<rparr>"
| "AUX_TAB_REGISTRY Ticket = \<lparr>d_kind = Ticket, d_label = ''Ticket'', d_short_label = ''Ticket'',
     d_description = ''One ticket: requirements, agents, attempts and activity.'',
     d_multi_instance = True\<rparr>"

text \<open>
  \<open>c.name.slice(0, n)\<close> raises when the property is not a string (\<open>None\<close>), and so does the label of
  a kind that is not in the registry.
\<close>

definition slice_of :: "nat \<Rightarrow> aux_content \<Rightarrow> string \<Rightarrow> string option" where
  "slice_of n c name = map_option (take n) (js_string (attr c name))"

definition auxTabTitle :: "aux_tab \<Rightarrow> string option" where
  "auxTabTitle t =
     (let explicit = js_trim (opt_str (tab_title t)); c = tab_content t in
      if explicit \<noteq> [] then Some explicit
      else (case kind_of c of
              Some Shell \<Rightarrow>
                if isProvisionalShellSessionId (js_string (attr c ''sessionId'')) then Some ''Shell''
                else map_option (\<lambda>s. ''Shell ('' @ s @ '')'') (slice_of 8 c ''sessionId'')
            | Some AgentPty \<Rightarrow> Some ''Terminal''
            | Some Preview \<Rightarrow>
                if js_truthy (attr c ''port'')
                then Some (''Preview :'' @ js_to_string (the (attr c ''port'')))
                else map_option (\<lambda>s. ''Preview ('' @ s @ '')'') (slice_of 8 c ''sessionId'')
            | Some SubagentChat \<Rightarrow>
                map_option (\<lambda>s. str_or s ''Sub-agent'') (slice_of 12 c ''agentInstanceId'')
            | Some Artifact \<Rightarrow> map_option (\<lambda>s. str_or s ''Artifact'') (slice_of 12 c ''artifactId'')
            | Some Ticket \<Rightarrow> Some ''Ticket''
            | Some k \<Rightarrow> Some (d_label (AUX_TAB_REGISTRY k))
            | None \<Rightarrow> None))"

record panel_params =
  pp_filePath :: "string option"
  pp_taskId :: "string option"
  pp_chainId :: "string option"

definition null_or_str :: "string option \<Rightarrow> js" where
  "null_or_str s = (if truthy s then JStr (the s) else JNull)"

definition resolveLegacyPanelToAuxContent :: "string option \<Rightarrow> panel_params \<Rightarrow> aux_content option" where
  "resolveLegacyPanelToAuxContent panel params =
     (let p = js_trim (opt_str panel); typed = (\<lambda>t. (''type'', Some (JStr t))) in
      if p = ''files'' \<or> p = ''rundir''
      then Some [typed ''files'', (''path'', Some (null_or_str (pp_filePath params)))]
      else if p = ''vcs'' then Some [typed ''vcs'', (''filePath'', Some (null_or_str (pp_filePath params)))]
      else if p = ''chain'' \<or> p = ''chainOverview'' \<or> p = ''overview'' then Some [typed ''chainOverview'']
      else if p = ''tasks''
      then (let chain = js_trim (opt_str (pp_chainId params)); task = js_trim (opt_str (pp_taskId params))
            in if chain \<noteq> [] \<and> task \<noteq> []
               then Some [typed ''ticket'', (''chainId'', Some (JStr chain)), (''taskId'', Some (JStr task))]
               else Some (typed ''tasks'' # (if task \<noteq> [] then [(''taskId'', Some (JStr task))] else [])))
      else None)"

definition buildPreviewUrl :: "string \<Rightarrow> string \<Rightarrow> string" where
  "buildPreviewUrl session path =
     ''/api/v1/preview/'' @ encodeURIComponent session @ ''/'' @ dropWhile (\<lambda>c. c = CHR ''/'') path"

end
