(* ===== verification/AuxTabCodec.thy ===== *)
theory AuxTabCodec
  imports AuxTab PaneTarget
begin

text \<open>
  The tab id codec is right: the id of a valid content decodes to the identity part of the content
  (its kind and the ids it names, none of its transient parameters), so that one thing has one tab.
  Normalizing a content changes neither its kind nor its id, and keeps it valid.
\<close>

section \<open>Kinds\<close>

lemma kind_name_inject: "kind_name j = kind_name k \<longleftrightarrow> j = k"
  by (cases j; cases k; simp)

lemma in_kinds: "k \<in> set AUX_TAB_KINDS"
  by (cases k) (simp_all add: AUX_TAB_KINDS_def)

lemma kind_of_iff: "kind_of c = Some k \<longleftrightarrow> attr c ''type'' = Some (JStr (kind_name k))"
proof
  show "attr c ''type'' = Some (JStr (kind_name k))" if "kind_of c = Some k"
    using that by (auto simp: kind_of_def find_Some_iff)
next
  assume a: "attr c ''type'' = Some (JStr (kind_name k))"
  have "kind_of c \<noteq> None"
    unfolding kind_of_def find_None_iff using a in_kinds by fast
  then obtain j where j: "kind_of c = Some j" by blast
  then have "attr c ''type'' = Some (JStr (kind_name j))" by (auto simp: kind_of_def find_Some_iff)
  with a have "j = k" by (simp add: kind_name_inject)
  with j show "kind_of c = Some k" by simp
qed

lemma kind_of_cong: "attr c ''type'' = attr d ''type'' \<Longrightarrow> kind_of c = kind_of d"
  by (simp add: kind_of_def)

lemma kind_of_set [simp]: "j \<noteq> ''type'' \<Longrightarrow> kind_of (obj_set c j v) = kind_of c"
  by (rule kind_of_cong) simp

lemma attr_Cons [simp]: "attr ((k, v) # c) j = (if j = k then v else attr c j)"
  by (simp add: attr_def obj_get_def)

lemma kind_of_literal [simp]: "kind_of ((''type'', Some (JStr (kind_name k))) # c) = Some k"
  by (simp add: kind_of_iff)

section \<open>The identity of a content\<close>

abbreviation whole_port :: "jsnum \<Rightarrow> bool" where
  "whole_port n \<equiv> (case n of Fin r \<Rightarrow> r = of_nat (nat \<lfloor>r\<rfloor>) | _ \<Rightarrow> False)"

definition identity_content :: "aux_content \<Rightarrow> aux_content" where
  "identity_content c =
     (case kind_of c of
        None \<Rightarrow> []
      | Some k \<Rightarrow>
          (''type'', Some (JStr (kind_name k))) #
          (if k = Shell then [(''sessionId'', Some (JStr (clean (attr c ''sessionId''))))]
           else if k = Preview
           then (''sessionId'', Some (JStr (clean (attr c ''sessionId'')))) #
                (let port = js_to_number (attr c ''port'')
                 in if positive_port port then [(''port'', Some (JNum port))] else [])
           else if k = AgentPty \<or> k = SubagentChat
           then [(''agentInstanceId'', Some (JStr (clean (attr c ''agentInstanceId''))))]
           else if k = Artifact then [(''artifactId'', Some (JStr (clean (attr c ''artifactId''))))]
           else if k = Ticket
           then [(''chainId'', Some (JStr (clean (attr c ''chainId'')))),
                 (''taskId'', Some (JStr (clean (attr c ''taskId''))))]
           else []))"

text \<open>
  The ports of the program are whole numbers. A preview without a port is ambiguous when its session
  id has a colon: the codec would read what follows the last one as a port.
\<close>

definition preview_ok :: "aux_content \<Rightarrow> bool" where
  "preview_ok c =
     (kind_of c = Some Preview \<longrightarrow>
      (let port = js_to_number (attr c ''port'')
       in if positive_port port then whole_port port
          else CHR '':'' \<notin> set (clean (attr c ''sessionId''))))"

abbreviation codec_ok :: "aux_content \<Rightarrow> bool" where
  "codec_ok c \<equiv> isAuxContent c \<and> preview_ok c"

lemma prefix_tests:
  "starts_with ''subagent_convo__'' (''subagent_convo__'' @ s)"
  "\<not> starts_with ''subagent_convo__'' (''shell__'' @ s)"
  "\<not> starts_with ''subagent_convo__'' (''pty__'' @ s)"
  "\<not> starts_with ''subagent_convo__'' (''preview__'' @ s)"
  "\<not> starts_with ''subagent_convo__'' (''artifact__'' @ s)"
  "\<not> starts_with ''subagent_convo__'' (''ticket__'' @ s)"
  "\<not> starts_with ''shell__'' (''pty__'' @ s)"
  "\<not> starts_with ''shell__'' (''preview__'' @ s)"
  "\<not> starts_with ''shell__'' (''artifact__'' @ s)"
  "\<not> starts_with ''shell__'' (''ticket__'' @ s)"
  "\<not> starts_with ''pty__'' (''preview__'' @ s)"
  "\<not> starts_with ''pty__'' (''artifact__'' @ s)"
  "\<not> starts_with ''pty__'' (''ticket__'' @ s)"
  "\<not> starts_with ''preview__'' (''artifact__'' @ s)"
  "\<not> starts_with ''preview__'' (''ticket__'' @ s)"
  "\<not> starts_with ''artifact__'' (''ticket__'' @ s)"
  by (simp_all add: starts_with_def)

lemmas decode_tests =
  prefix_tests isFixedAuxTabId_def FIXED_TAB_IDS_def NEW_TAB_ID_def OVERVIEW_TAB_ID_def FILES_TAB_ID_def
  VCS_TAB_ID_def TASKS_TAB_ID_def

lemma decode_prefixed:
  "decodeAuxTabId (Some (''shell__'' @ s)) = one_field Shell ''sessionId'' s"
  "decodeAuxTabId (Some (''pty__'' @ s)) = one_field AgentPty ''agentInstanceId'' s"
  "decodeAuxTabId (Some (''preview__'' @ s)) = decode_preview s"
  "decodeAuxTabId (Some (''subagent_convo__'' @ s)) = one_field SubagentChat ''agentInstanceId'' s"
  "decodeAuxTabId (Some (''artifact__'' @ s)) = one_field Artifact ''artifactId'' s"
  "decodeAuxTabId (Some (''ticket__'' @ s)) = decode_ticket s"
  by (simp_all add: decodeAuxTabId_def decode_tests Let_def del: append_Cons append_Nil)
     (simp_all add: decode_tests)

section \<open>Decoding\<close>

lemma decode_one_field:
  "s \<noteq> [] \<Longrightarrow> one_field k n s = Some [(''type'', Some (JStr (kind_name k))), (n, Some (JStr s))]"
  by (simp add: one_field_def)

lemma show_nat_no_colon: "CHR '':'' \<notin> set (show_nat n)"
  using digit_not_sign show_nat_digits by blast

lemma decode_preview_port:
  assumes "s \<noteq> []" and "0 < n"
  shows "decode_preview (s @ '':'' @ show_nat n) =
           Some [(''type'', Some (JStr ''preview'')), (''sessionId'', Some (JStr s)),
                 (''port'', Some (JNum (Fin (of_nat n))))]"
proof -
  have "last_index_of (CHR '':'') (s @ '':'' @ show_nat n) = Some (length s)"
    using last_index_of_append [OF show_nat_no_colon, of s n] by simp
  with assms show ?thesis by (simp add: decode_preview_def Let_def)
qed

lemma decode_preview_plain:
  "s \<noteq> [] \<Longrightarrow> CHR '':'' \<notin> set s \<Longrightarrow>
   decode_preview s = Some [(''type'', Some (JStr ''preview'')), (''sessionId'', Some (JStr s))]"
  by (simp add: decode_preview_def last_index_of_None [THEN iffD2] Let_def)

lemma decode_ticket_id:
  assumes "c \<noteq> []" and "CHR '':'' \<notin> set c" and "t \<noteq> []"
  shows "decode_ticket (c @ '':'' @ t) =
           Some [(''type'', Some (JStr ''ticket'')), (''chainId'', Some (JStr c)), (''taskId'', Some (JStr t))]"
  using assms index_of_append [OF assms(2), of t] by (simp add: decode_ticket_def)

lemma whole_portE:
  assumes "positive_port p" and "whole_port p"
  obtains n where "p = Fin (of_nat n)" and "0 < n"
proof -
  obtain r where r: "p = Fin r" "0 < r" using assms(1) by (cases p) auto
  then have "r = of_nat (nat \<lfloor>r\<rfloor>)" using assms(2) by simp
  moreover from this r(2) have "0 < nat \<lfloor>r\<rfloor>" by (metis of_nat_0_less_iff)
  ultimately show thesis using that r(1) by metis
qed

lemma decode_preview_id:
  assumes "codec_ok c" and "kind_of c = Some Preview"
  shows "decodeAuxTabId (Some (auxTabId c)) = Some (identity_content c)"
proof (cases "positive_port (js_to_number (attr c ''port''))")
  case True
  with assms have "whole_port (js_to_number (attr c ''port''))" by (simp add: preview_ok_def Let_def)
  then obtain n where "js_to_number (attr c ''port'') = Fin (of_nat n)" "0 < n"
    using whole_portE [OF True] by blast
  moreover have "clean (attr c ''sessionId'') \<noteq> []" using assms by (simp add: isAuxContent_def)
  ultimately show ?thesis
    using assms(2) decode_preview_port [of "clean (attr c ''sessionId'')" n]
      decode_prefixed(3) [of "clean (attr c ''sessionId'') @ '':'' @ show_nat n"]
    by (simp add: auxTabId_def identity_content_def show_number_nat Let_def del: show_number.simps)
next
  case False
  with assms have "CHR '':'' \<notin> set (clean (attr c ''sessionId''))" "clean (attr c ''sessionId'') \<noteq> []"
    by (simp_all add: preview_ok_def isAuxContent_def Let_def)
  with False show ?thesis
    using assms(2) decode_preview_plain decode_prefixed(3) [of "clean (attr c ''sessionId'')"]
    by (simp add: auxTabId_def identity_content_def Let_def)
qed

lemma decode_auxTabId:
  assumes "codec_ok c"
  shows "decodeAuxTabId (Some (auxTabId c)) = Some (identity_content c)"
proof -
  obtain k where k: "kind_of c = Some k" using assms by (cases "kind_of c") (auto simp: isAuxContent_def)
  note d = auxTabId_def identity_content_def isAuxContent_def
  show ?thesis
  proof (cases "k = Preview")
    case True
    then show ?thesis using decode_preview_id [OF assms] k by simp
  next
    case False
    then show ?thesis
      using assms k decode_prefixed(1) [of "clean (attr c ''sessionId'')"]
        decode_prefixed(2,4) [of "clean (attr c ''agentInstanceId'')"]
        decode_prefixed(5) [of "clean (attr c ''artifactId'')"]
        decode_prefixed(6) [of "clean (attr c ''chainId'') @ '':'' @ clean (attr c ''taskId'')"]
        decode_ticket_id [of "clean (attr c ''chainId'')" "clean (attr c ''taskId'')"]
      by (cases k) (simp_all add: d str_or_def decode_one_field, simp_all add: decodeAuxTabId_def decode_tests)
  qed
qed

lemma kind_of_identity [simp]: "kind_of (identity_content c) = kind_of c"
proof (cases "kind_of c")
  case None
  then have "identity_content c = []" by (simp add: identity_content_def)
  moreover have "kind_of [] = None" by (simp add: kind_of_def AUX_TAB_KINDS_def)
  ultimately show ?thesis using None by simp
next
  case (Some k)
  then show ?thesis by (simp add: identity_content_def)
qed

lemma identity_attrs:
  assumes "kind_of c = Some k"
  shows "k = Shell \<or> k = Preview \<Longrightarrow>
           clean (attr (identity_content c) ''sessionId'') = clean (attr c ''sessionId'')"
    and "k = AgentPty \<or> k = SubagentChat \<Longrightarrow>
           clean (attr (identity_content c) ''agentInstanceId'') = clean (attr c ''agentInstanceId'')"
    and "k = Artifact \<Longrightarrow> clean (attr (identity_content c) ''artifactId'') = clean (attr c ''artifactId'')"
    and "k = Ticket \<Longrightarrow> clean (attr (identity_content c) ''chainId'') = clean (attr c ''chainId'')"
    and "k = Ticket \<Longrightarrow> clean (attr (identity_content c) ''taskId'') = clean (attr c ''taskId'')"
  using assms by (auto simp: identity_content_def)

lemma identity_port:
  assumes "kind_of c = Some Preview"
  shows "js_to_number (attr (identity_content c) ''port'') =
           (let port = js_to_number (attr c ''port'') in if positive_port port then port else NaN)"
  using assms by (simp add: identity_content_def Let_def)

lemma auxTabId_identity:
  assumes "isAuxContent c"
  shows "auxTabId (identity_content c) = auxTabId c" and "isAuxContent (identity_content c)"
proof -
  obtain k where k: "kind_of c = Some k" using assms by (cases "kind_of c") (auto simp: isAuxContent_def)
  note a = identity_attrs [OF k]
  show "isAuxContent (identity_content c)"
    using assms k a by (simp add: isAuxContent_def)
  show "auxTabId (identity_content c) = auxTabId c"
  proof (cases "k = Preview")
    case True
    then show ?thesis using k a(1) identity_port [of c] by (simp add: auxTabId_def Let_def)
  next
    case False
    then show ?thesis using k a by (cases k) (simp_all add: auxTabId_def)
  qed
qed

lemma identity_content_idem:
  assumes "codec_ok c"
  shows "codec_ok (identity_content c)" and "identity_content (identity_content c) = identity_content c"
proof -
  have p: "preview_ok (identity_content c)"
  proof (cases "kind_of c = Some Preview")
    case True
    then show ?thesis
      using assms identity_attrs(1) [OF True] identity_port [OF True] by (auto simp: preview_ok_def Let_def)
  qed (simp add: preview_ok_def)
  then show ok: "codec_ok (identity_content c)" using auxTabId_identity assms by simp
  have "Some (identity_content (identity_content c)) = decodeAuxTabId (Some (auxTabId (identity_content c)))"
    by (rule decode_auxTabId [symmetric, OF ok])
  also have "\<dots> = Some (identity_content c)" using assms by (simp add: auxTabId_identity decode_auxTabId)
  finally show "identity_content (identity_content c) = identity_content c" by simp
qed

interpretation aux_tab_codec: partial_codec auxTabId "decodeAuxTabId \<circ> Some"
    "\<lambda>c. codec_ok c \<and> identity_content c = c"
  by unfold_locales (simp add: decode_auxTabId)

lemma same_tab_iff:
  assumes "codec_ok c" and "codec_ok d"
  shows "auxTabId c = auxTabId d \<longleftrightarrow> identity_content c = identity_content d"
  using aux_tab_codec.enc_inj [of "identity_content c" "identity_content d"] assms
  by (simp add: identity_content_idem auxTabId_identity)

section \<open>Normalization\<close>

lemma kind_of_normalize [simp]: "kind_of (normalizeAuxContent c) = kind_of c"
  by (simp add: normalizeAuxContent_def set_clean_def Let_def split: option.split aux_tab_kind.split)

lemma normalize_sessionId:
  assumes "isAuxContent c" and "kind_of c = Some Shell \<or> kind_of c = Some Preview"
  shows "clean (attr (normalizeAuxContent c) ''sessionId'') = clean (attr c ''sessionId'')"
  using assms
  by (auto simp: normalizeAuxContent_def isAuxContent_def set_clean_def str_or_def Let_def)

lemma normalize_fields:
  assumes "kind_of c = Some k"
  shows "k = Preview \<Longrightarrow> attr (normalizeAuxContent c) ''port'' = attr c ''port''"
    and "k = AgentPty \<or> k = SubagentChat \<Longrightarrow>
           clean (attr (normalizeAuxContent c) ''agentInstanceId'') = clean (attr c ''agentInstanceId'')"
    and "k = Artifact \<Longrightarrow> clean (attr (normalizeAuxContent c) ''artifactId'') = clean (attr c ''artifactId'')"
    and "k = Ticket \<Longrightarrow> clean (attr (normalizeAuxContent c) ''chainId'') = clean (attr c ''chainId'')"
    and "k = Ticket \<Longrightarrow> clean (attr (normalizeAuxContent c) ''taskId'') = clean (attr c ''taskId'')"
  using assms by (auto simp: normalizeAuxContent_def set_clean_def Let_def)

lemma normalize_same:
  assumes "isAuxContent c"
  shows "auxTabId (normalizeAuxContent c) = auxTabId c"
    and "isAuxContent (normalizeAuxContent c)"
    and "preview_ok (normalizeAuxContent c) = preview_ok c"
    and "codec_ok c \<Longrightarrow> identity_content (normalizeAuxContent c) = identity_content c"
proof -
  obtain k where k: "kind_of c = Some k" using assms by (cases "kind_of c") (auto simp: isAuxContent_def)
  note f = normalize_fields [OF k] normalize_sessionId [OF assms]
  show i: "auxTabId (normalizeAuxContent c) = auxTabId c"
    using k f by (cases k) (simp_all add: auxTabId_def)
  show v: "isAuxContent (normalizeAuxContent c)" using assms k f by (simp add: isAuxContent_def)
  show p: "preview_ok (normalizeAuxContent c) = preview_ok c"
    using k f by (simp add: preview_ok_def)
  show "codec_ok c \<Longrightarrow> identity_content (normalizeAuxContent c) = identity_content c"
    using same_tab_iff [of "normalizeAuxContent c" c] i v p by simp
qed

lemma createAuxTab_id:
  "isAuxContent c \<Longrightarrow> tab_id (createAuxTab c t) = auxTabId c"
  "tab_id (createAuxTab c t) = auxTabId (tab_content (createAuxTab c t))"
  "isAuxContent c \<Longrightarrow> isAuxContent (tab_content (createAuxTab c t))"
  by (simp_all add: createAuxTab_def normalize_same Let_def)

lemma auxTabId_not_new: "auxTabId c \<noteq> NEW_TAB_ID"
proof (cases "kind_of c")
  case (Some k)
  then show ?thesis by (cases k) (simp_all add: auxTabId_def decode_tests Let_def)
qed (simp add: auxTabId_def NEW_TAB_ID_def)

lemma fixed_kind:
  assumes "k \<in> {ChainOverview, Files, Vcs, Tasks}"
  defines "c \<equiv> [(''type'', Some (JStr (kind_name k)))]"
  shows "decodeAuxTabId (Some (tab_prefix k)) = Some c" and "codec_ok c" and "auxTabId c = tab_prefix k"
proof -
  have k: "kind_of c = Some k" by (simp add: c_def)
  show "decodeAuxTabId (Some (tab_prefix k)) = Some c"
    using assms(1) by (auto simp: c_def decodeAuxTabId_def decode_tests)
  show "codec_ok c" using assms(1) k by (auto simp: isAuxContent_def preview_ok_def)
  show "auxTabId c = tab_prefix k" using assms(1) k by (auto simp: auxTabId_def)
qed

lemma fixed_decode:
  assumes "isFixedAuxTabId (Some i)"
  obtains c where "decodeAuxTabId (Some i) = Some c" and "codec_ok c" and "auxTabId c = i"
proof -
  have "i \<in> {OVERVIEW_TAB_ID, FILES_TAB_ID, VCS_TAB_ID, TASKS_TAB_ID}"
    using assms by (auto simp: isFixedAuxTabId_def FIXED_TAB_IDS_def split: if_splits)
  then have "i \<in> tab_prefix ` {ChainOverview, Files, Vcs, Tasks}" by simp
  then obtain k where "i = tab_prefix k" "k \<in> {ChainOverview, Files, Vcs, Tasks}" by blast
  with fixed_kind [of k] that show thesis by blast
qed

text \<open>
  C20. Every valid content (a preview with a whole port number, or without a port and without a colon
  in its session id) has an id that decodes to the identity part of the content; that part is valid and
  has the same id; and two such contents share an id exactly when they name the same thing, whatever
  their transient parameters and however they are spelled before normalization.
\<close>

theorem tab_id_is_identity:
  assumes "codec_ok c" and "codec_ok d"
  shows "decodeAuxTabId (Some (auxTabId c)) = Some (identity_content c)
    \<and> isAuxContent (identity_content c) \<and> auxTabId (identity_content c) = auxTabId c
    \<and> auxTabId (normalizeAuxContent c) = auxTabId c
    \<and> (auxTabId c = auxTabId d \<longleftrightarrow> identity_content c = identity_content d)"
  using assms decode_auxTabId auxTabId_identity normalize_same(1) same_tab_iff by blast

definition sample_preview :: aux_content where
  "sample_preview =
     [(''type'', Some (JStr ''preview'')), (''sessionId'', Some (JStr '' s:1 '')),
      (''port'', Some (JStr ''8080'')), (''path'', Some (JStr ''/docs''))]"

theorem tab_id_is_identity_witness:
  "auxTabId sample_preview = ''preview__s:1:8080'' \<and>
   decodeAuxTabId (Some (auxTabId sample_preview)) =
     Some [(''type'', Some (JStr ''preview'')), (''sessionId'', Some (JStr ''s:1'')),
           (''port'', Some (JNum (Fin 8080)))]"
proof -
  have sh: "show_nat 8080 = ''8080''" by (simp add: show_nat.simps digit_char_def char_of_def bit_0)
  have "number_of_string (show_nat 8080) = Fin (of_nat 8080)" by (rule number_of_show_nat)
  then have num: "number_of_string ''8080'' = Fin 8080" using sh by simp
  have tr: "js_trim '' s:1 '' = ''s:1''" by code_simp
  have k: "kind_of sample_preview = Some Preview" by code_simp
  have i: "auxTabId sample_preview = ''preview__s:1:8080''"
    using show_number_nat [of 8080] sh num tr k
    by (simp add: auxTabId_def sample_preview_def Let_def del: show_number.simps)
  have c: "codec_ok sample_preview"
    using k num tr by (simp add: isAuxContent_def preview_ok_def sample_preview_def Let_def)
  have "identity_content sample_preview =
     [(''type'', Some (JStr ''preview'')), (''sessionId'', Some (JStr ''s:1'')),
      (''port'', Some (JNum (Fin 8080)))]"
    using k num tr by (simp add: identity_content_def sample_preview_def Let_def)
  then show ?thesis using tab_id_is_identity [OF c c] i by simp
qed

end
