(* ===== verification/AuxPanes.thy ===== *)
theory AuxPanes
  imports AuxTabCodec Workspace Reducer
begin

text \<open>
  The strips of the auxiliary dock (\<open>src/ui/store/auxPanesSlice.ts\<close>): one tab strip per pane target,
  the reducers that open, close, move, patch and rename its tabs, and the sanitizer of the persisted
  state. The strip a reducer obtains is an alias into the draft state: the model reads it, computes
  the new strip and writes it back under the same key.
\<close>

section \<open>State\<close>

datatype aux_tree_id = AuxAgent string | AuxChain string

record aux_tabbed_pane =
  tabs :: "aux_tab list"
  activeTabId :: "string option"

record aux_panes_state =
  agentPanes :: "aux_tabbed_pane js_obj"
  isOpen :: bool

definition initial_aux_panes :: aux_panes_state where
  "initial_aux_panes = \<lparr>agentPanes = [], isOpen = False\<rparr>"

fun auxStripKey :: "aux_tree_id \<Rightarrow> string" where
  "auxStripKey (AuxChain c) = chainTargetId (Some c)"
| "auxStripKey (AuxAgent a) = a"

definition resolveAuxTreeId :: "main_tree \<Rightarrow> aux_tree_id option" where
  "resolveAuxTreeId t =
     (let focused = pane_at t (focused_pane_id t);
          pane = (if is_content focused then focused
                  else (let first = first_id (getContentPaneIds t)
                        in if truthy first then pane_at t (the first) else None))
      in case pane of
           Some (Content v) \<Rightarrow>
             (let agent = agentInstanceId v in
              if agent = [] \<or> agent = NEW_PANE_AGENT_ID then None
              else if isShellPaneId (Some agent) then None
              else (let chain = chainIdFromTargetId (Some agent)
                    in if chain \<noteq> [] then Some (AuxChain chain) else Some (AuxAgent agent)))
         | _ \<Rightarrow> None)"

fun auxTreeKey :: "aux_tree_id option \<Rightarrow> string" where
  "auxTreeKey None = []"
| "auxTreeKey (Some (AuxChain c)) = ''chain:'' @ c"
| "auxTreeKey (Some (AuxAgent a)) = ''agent:'' @ a"

definition createDefaultAuxPane :: "bool \<Rightarrow> aux_tabbed_pane" where
  "createDefaultAuxPane hasChain =
     \<lparr>tabs = [], activeTabId = Some (if hasChain then OVERVIEW_TAB_ID else FILES_TAB_ID)\<rparr>"

definition getAuxPane :: "aux_panes_state \<Rightarrow> aux_tree_id option \<Rightarrow> aux_tabbed_pane option" where
  "getAuxPane s t = (case t of None \<Rightarrow> None | Some tr \<Rightarrow> obj_get (agentPanes s) (auxStripKey tr))"

definition setAuxPane :: "aux_panes_state \<Rightarrow> aux_tree_id \<Rightarrow> aux_tabbed_pane \<Rightarrow> aux_panes_state" where
  "setAuxPane s t p = s\<lparr>agentPanes := obj_set (agentPanes s) (auxStripKey t) p\<rparr>"

definition ensurePane ::
  "aux_panes_state \<Rightarrow> aux_tree_id \<Rightarrow> bool option \<Rightarrow> aux_panes_state \<times> aux_tabbed_pane" where
  "ensurePane s t hasChain =
     (case getAuxPane s (Some t) of
        Some existing \<Rightarrow>
          (let p = (if activeTabId existing = None \<and> tabs existing = [] \<and> hasChain \<noteq> None
                    then existing\<lparr>activeTabId := activeTabId (createDefaultAuxPane (the hasChain))\<rparr>
                    else existing)
           in (setAuxPane s t p, p))
      | None \<Rightarrow>
          (let p = createDefaultAuxPane (hasChain \<noteq> Some False) in (setAuxPane s t p, p)))"

section \<open>Strips\<close>

abbreviation tab_ids :: "aux_tabbed_pane \<Rightarrow> string list" where
  "tab_ids p \<equiv> map tab_id (tabs p)"

definition resolveActiveAuxTab :: "aux_tabbed_pane option \<Rightarrow> aux_tab option" where
  "resolveActiveAuxTab pane =
     (case pane of
        None \<Rightarrow> None
      | Some p \<Rightarrow>
          if \<not> truthy (activeTabId p) \<or> activeTabId p = Some NEW_TAB_ID then None
          else (case find (\<lambda>t. Some (tab_id t) = activeTabId p) (tabs p) of
                  Some t \<Rightarrow> Some t
                | None \<Rightarrow>
                    if isFixedAuxTabId (activeTabId p)
                    then map_option (\<lambda>c. \<lparr>tab_id = the (activeTabId p), tab_content = c, tab_title = None\<rparr>)
                           (decodeAuxTabId (activeTabId p))
                    else None))"

definition visibleAuxTabs :: "aux_tabbed_pane option \<Rightarrow> aux_tab list" where
  "visibleAuxTabs pane =
     (case pane of
        None \<Rightarrow> []
      | Some p \<Rightarrow>
          (case resolveActiveAuxTab pane of
             Some a \<Rightarrow> if tab_id a \<notin> set (tab_ids p) then a # tabs p else tabs p
           | None \<Rightarrow> tabs p))"

definition materializeActive :: "aux_tabbed_pane \<Rightarrow> aux_tabbed_pane" where
  "materializeActive p =
     (case resolveActiveAuxTab (Some p) of
        Some a \<Rightarrow> if tab_id a \<notin> set (tab_ids p) then p\<lparr>tabs := a # tabs p\<rparr> else p
      | None \<Rightarrow> p)"

definition merge_tab :: "aux_tab \<Rightarrow> aux_tab \<Rightarrow> aux_tab" where
  "merge_tab prev t =
     \<lparr>tab_id = tab_id prev, tab_content = spread (tab_content prev) (tab_content t),
      tab_title = (if truthy (tab_title t) then tab_title t
                   else if truthy (tab_title prev) then tab_title prev else None)\<rparr>"

definition upsertTab :: "aux_tabbed_pane \<Rightarrow> aux_content \<Rightarrow> string option \<Rightarrow> aux_tabbed_pane" where
  "upsertTab p content title =
     (let t = createAuxTab content title in
      case find_index (\<lambda>x. tab_id x = tab_id t) (tabs p) of
        Some idx \<Rightarrow>
          p\<lparr>tabs := (tabs p)[idx := merge_tab (tabs p ! idx) t],
            activeTabId := Some (tab_id (tabs p ! idx))\<rparr>
      | None \<Rightarrow>
          (let q = materializeActive p in q\<lparr>tabs := tabs q @ [t], activeTabId := Some (tab_id t)\<rparr>))"

text \<open>\<open>pane.tabs[i]?.id ?? NEW_TAB_ID\<close> for the last tab.\<close>

definition last_tab_or_new :: "aux_tabbed_pane \<Rightarrow> string" where
  "last_tab_or_new p = (if tabs p = [] then NEW_TAB_ID else tab_id (last (tabs p)))"

section \<open>Reducers\<close>

record open_aux_payload =
  op_tree :: aux_tree_id
  op_content :: aux_content
  op_title :: "string option"
  op_hasChain :: "bool option"
  op_openPane :: "bool option"

definition openAuxTab :: "open_aux_payload \<Rightarrow> aux_panes_state \<Rightarrow> aux_panes_state" where
  "openAuxTab a s =
     (if \<not> isAuxContent (op_content a) then s
      else (let (s1, p) = ensurePane s (op_tree a) (op_hasChain a);
                s2 = setAuxPane s1 (op_tree a) (upsertTab p (op_content a) (op_title a))
            in if op_openPane a \<noteq> Some False then s2\<lparr>isOpen := True\<rparr> else s2))"

definition activate_tab :: "string \<Rightarrow> aux_tabbed_pane \<Rightarrow> aux_tabbed_pane" where
  "activate_tab i p =
     (if i = NEW_TAB_ID then (materializeActive p)\<lparr>activeTabId := Some NEW_TAB_ID\<rparr>
      else if i \<in> set (tab_ids p) \<or> Some i = activeTabId p then p\<lparr>activeTabId := Some i\<rparr>
      else if isFixedAuxTabId (Some i)
      then (case decodeAuxTabId (Some i) of Some c \<Rightarrow> upsertTab p c None | None \<Rightarrow> p)
      else p)"

text \<open>The reducers that act on an existing strip only.\<close>

definition on_pane ::
  "aux_tree_id \<Rightarrow> (aux_tabbed_pane \<Rightarrow> aux_tabbed_pane) \<Rightarrow> aux_panes_state \<Rightarrow> aux_panes_state" where
  "on_pane t f s = (case getAuxPane s (Some t) of None \<Rightarrow> s | Some p \<Rightarrow> setAuxPane s t (f p))"

definition setActiveAuxTab :: "aux_tree_id \<Rightarrow> string \<Rightarrow> aux_panes_state \<Rightarrow> aux_panes_state" where
  "setActiveAuxTab t i = on_pane t (activate_tab i)"

definition openAuxNewTab :: "aux_tree_id \<Rightarrow> bool option \<Rightarrow> aux_panes_state \<Rightarrow> aux_panes_state" where
  "openAuxNewTab t hasChain s =
     (let (s1, p) = ensurePane s t hasChain
      in (setAuxPane s1 t ((materializeActive p)\<lparr>activeTabId := Some NEW_TAB_ID\<rparr>))\<lparr>isOpen := True\<rparr>)"

definition close_tab :: "string \<Rightarrow> aux_tabbed_pane \<Rightarrow> aux_tabbed_pane" where
  "close_tab i p =
     (if i = NEW_TAB_ID
      then (if activeTabId p = Some NEW_TAB_ID then p\<lparr>activeTabId := Some (last_tab_or_new p)\<rparr> else p)
      else (case find_index (\<lambda>t. tab_id t = i) (tabs p) of
              None \<Rightarrow> if activeTabId p = Some i then p\<lparr>activeTabId := Some (last_tab_or_new p)\<rparr> else p
            | Some idx \<Rightarrow>
                (let wasActive = (activeTabId p = Some i); closed = tabs p ! idx;
                     q = p\<lparr>tabs := remove_at idx (tabs p)\<rparr>
                 in if \<not> wasActive then q
                    else if attr (tab_content closed) ''type'' = Some (JStr ''ticket'')
                    then upsertTab q [(''type'', Some (JStr ''tasks''))] None
                    else (let next = (case arr_at (tabs q) idx of
                                        Some t \<Rightarrow> Some t
                                      | None \<Rightarrow> if idx = 0 then None else arr_at (tabs q) (idx - 1))
                          in q\<lparr>activeTabId := Some (case next of Some t \<Rightarrow> tab_id t
                                                    | None \<Rightarrow> NEW_TAB_ID)\<rparr>))))"

definition closeAuxTab :: "aux_tree_id \<Rightarrow> string \<Rightarrow> aux_panes_state \<Rightarrow> aux_panes_state" where
  "closeAuxTab t i = on_pane t (close_tab i)"

text \<open>
  \<open>Math.max(0, Math.min(n - 1, Math.floor(x)))\<close>; \<open>None\<close> is \<open>NaN\<close>, which equals no index and which
  \<open>splice\<close> reads as \<open>0\<close>.
\<close>

fun clamp_index :: "nat \<Rightarrow> jsnum \<Rightarrow> nat option" where
  "clamp_index n (Fin r) = Some (nat (max 0 (min (int n - 1) \<lfloor>r\<rfloor>)))"
| "clamp_index n PosInf = Some (n - 1)"
| "clamp_index n NegInf = Some 0"
| "clamp_index n NaN = None"

definition move_tab :: "string \<Rightarrow> jsnum \<Rightarrow> aux_tabbed_pane \<Rightarrow> aux_tabbed_pane" where
  "move_tab i toIndex p =
     (let q = materializeActive p in
      case find_index (\<lambda>t. tab_id t = i) (tabs q) of
        None \<Rightarrow> q
      | Some from_i \<Rightarrow>
          (let to_i = clamp_index (length (tabs q)) toIndex in
           if to_i = Some from_i then q
           else q\<lparr>tabs := insert_at (case to_i of Some j \<Rightarrow> j | None \<Rightarrow> 0) (tabs q ! from_i)
                                  (remove_at from_i (tabs q))\<rparr>))"

definition moveAuxTab :: "aux_tree_id \<Rightarrow> string \<Rightarrow> jsnum \<Rightarrow> aux_panes_state \<Rightarrow> aux_panes_state" where
  "moveAuxTab t i toIndex = on_pane t (move_tab i toIndex)"

definition patched_content :: "aux_content \<Rightarrow> js_record \<Rightarrow> aux_content" where
  "patched_content c patch =
     normalizeAuxContent (obj_set (spread c patch) ''type'' (attr c ''type''))"

definition update_tab :: "string \<Rightarrow> js_record \<Rightarrow> string option \<Rightarrow> aux_tabbed_pane \<Rightarrow> aux_tabbed_pane" where
  "update_tab i patch title p =
     (case find_index (\<lambda>t. tab_id t = i) (tabs p) of
        None \<Rightarrow> p
      | Some idx \<Rightarrow>
          (let t = tabs p ! idx; next = patched_content (tab_content t) patch in
           if auxTabId next \<noteq> tab_id t then p
           else p\<lparr>tabs := (tabs p)[idx := t\<lparr>tab_content := next,
                     tab_title := (if truthy title then title else tab_title t)\<rparr>]\<rparr>))"

definition updateAuxTabContent ::
  "aux_tree_id \<Rightarrow> string \<Rightarrow> js_record \<Rightarrow> string option \<Rightarrow> aux_panes_state \<Rightarrow> aux_panes_state" where
  "updateAuxTabContent t i patch title = on_pane t (update_tab i patch title)"

definition rekey_tab :: "string \<Rightarrow> aux_content \<Rightarrow> string option \<Rightarrow> aux_tabbed_pane \<Rightarrow> aux_tabbed_pane" where
  "rekey_tab i content title p =
     (if \<not> isAuxContent content then p
      else (case find_index (\<lambda>t. tab_id t = i) (tabs p) of
              None \<Rightarrow> p
            | Some idx \<Rightarrow>
                (let nextTab = createAuxTab content
                       (case title of Some x \<Rightarrow> Some x | None \<Rightarrow> tab_title (tabs p ! idx));
                     existing = find_index (\<lambda>t. tab_id t = tab_id nextTab) (tabs p);
                     q = (if existing \<noteq> None \<and> existing \<noteq> Some idx
                          then p\<lparr>tabs := remove_at idx (tabs p)\<rparr>
                          else p\<lparr>tabs := (tabs p)[idx := nextTab]\<rparr>)
                 in if activeTabId p = Some i \<or> existing \<noteq> None
                    then q\<lparr>activeTabId := Some (tab_id nextTab)\<rparr> else q)))"

definition rekeyAuxTab ::
  "aux_tree_id \<Rightarrow> string \<Rightarrow> aux_content \<Rightarrow> string option \<Rightarrow> aux_panes_state \<Rightarrow> aux_panes_state" where
  "rekeyAuxTab t i content title = on_pane t (rekey_tab i content title)"

definition setAuxPaneOpen :: "aux_tree_id \<Rightarrow> bool \<Rightarrow> bool option \<Rightarrow> aux_panes_state \<Rightarrow> aux_panes_state" where
  "setAuxPaneOpen t op hasChain s = (fst (ensurePane s t hasChain))\<lparr>isOpen := op\<rparr>"

definition toggleAuxPane :: "aux_tree_id \<Rightarrow> bool option \<Rightarrow> aux_panes_state \<Rightarrow> aux_panes_state" where
  "toggleAuxPane t hasChain s =
     (let s1 = fst (ensurePane s t hasChain) in s1\<lparr>isOpen := \<not> isOpen s1\<rparr>)"

section \<open>Persisted state\<close>

text \<open>A parsed object has no \<open>undefined\<close> property; \<open>None\<close> is a value that is not an object.\<close>

definition content_of_js :: "js option \<Rightarrow> aux_content option" where
  "content_of_js v = (case v of Some (JObj ob) \<Rightarrow> Some (obj_map Some ob) | _ \<Rightarrow> None)"

definition sanitize_tab :: "js \<Rightarrow> aux_tab option" where
  "sanitize_tab t =
     (case content_of_js (js_prop (Some t) ''content'') of
        Some c \<Rightarrow> if isAuxContent c then Some (createAuxTab c (js_string (js_prop (Some t) ''title''))) else None
      | None \<Rightarrow> None)"

fun sanitize_tabs :: "js list \<Rightarrow> aux_tab list \<Rightarrow> aux_tab list" where
  "sanitize_tabs [] acc = acc"
| "sanitize_tabs (t # ts) acc =
     (case sanitize_tab t of
        None \<Rightarrow> sanitize_tabs ts acc
      | Some x \<Rightarrow> sanitize_tabs ts
                    (if tab_id x = NEW_TAB_ID \<or> tab_id x \<in> tab_id ` set acc then acc else acc @ [x]))"

definition js_items :: "js option \<Rightarrow> js list" where
  "js_items v = (case v of Some (JArr xs) \<Rightarrow> xs | _ \<Rightarrow> [])"

definition sanitizePane :: "js \<Rightarrow> aux_tabbed_pane option" where
  "sanitizePane raw =
     (case raw of
        JObj _ \<Rightarrow>
          (let ts = sanitize_tabs (js_items (js_prop (Some raw) ''tabs'')) [];
               rawActive = js_string (js_prop (Some raw) ''activeTabId'')
           in Some \<lparr>tabs = ts,
                activeTabId =
                  (if rawActive = Some NEW_TAB_ID
                      \<or> truthy rawActive \<and> (the rawActive \<in> tab_id ` set ts \<or> isFixedAuxTabId rawActive)
                   then rawActive
                   else Some (case ts of t # _ \<Rightarrow> tab_id t | [] \<Rightarrow> NEW_TAB_ID))\<rparr>)
      | _ \<Rightarrow> None)"

definition sanitize_strips :: "(string \<times> js) list \<Rightarrow> aux_tabbed_pane js_obj" where
  "sanitize_strips entries =
     fold (\<lambda>(agent, raw) out.
             if agent = [] \<or> agent = NEW_PANE_AGENT_ID \<or> isShellPaneId (Some agent) then out
             else (case sanitizePane raw of Some p \<Rightarrow> obj_set out agent p | None \<Rightarrow> out))
       entries []"

definition sanitizeAuxPanesState :: "js option \<Rightarrow> aux_panes_state" where
  "sanitizeAuxPanesState raw =
     (case raw of
        Some (JObj _) \<Rightarrow>
          (let entries = (case js_prop raw ''agentPanes'' of Some (JObj ob) \<Rightarrow> ob | _ \<Rightarrow> []);
               legacyOpen = list_ex (\<lambda>(_, p). js_prop (Some p) ''isPaneOpen'' = Some (JBool True)) entries
           in \<lparr>agentPanes = sanitize_strips entries,
               isOpen = (case js_prop raw ''isOpen'' of Some (JBool b) \<Rightarrow> b | _ \<Rightarrow> legacyOpen)\<rparr>)
      | _ \<Rightarrow> initial_aux_panes)"

section \<open>Actions\<close>

datatype aux_action =
    EnsureAuxPane aux_tree_id "bool option"
  | OpenAuxTab open_aux_payload
  | SetActiveAuxTab aux_tree_id string
  | OpenAuxNewTab aux_tree_id "bool option"
  | CloseAuxTab aux_tree_id string
  | MoveAuxTab aux_tree_id string jsnum
  | UpdateAuxTabContent aux_tree_id string js_record "string option"
  | RekeyAuxTab aux_tree_id string aux_content "string option"
  | SetAuxPaneOpen aux_tree_id bool "bool option"
  | ToggleAuxPane aux_tree_id "bool option"
  | HydrateAuxPanes "js option"
  | ResetAuxPanes

fun aux_reduce :: "aux_panes_state \<Rightarrow> aux_action \<Rightarrow> aux_panes_state" where
  "aux_reduce s (EnsureAuxPane t h) = fst (ensurePane s t h)"
| "aux_reduce s (OpenAuxTab a) = openAuxTab a s"
| "aux_reduce s (SetActiveAuxTab t i) = setActiveAuxTab t i s"
| "aux_reduce s (OpenAuxNewTab t h) = openAuxNewTab t h s"
| "aux_reduce s (CloseAuxTab t i) = closeAuxTab t i s"
| "aux_reduce s (MoveAuxTab t i n) = moveAuxTab t i n s"
| "aux_reduce s (UpdateAuxTabContent t i patch title) = updateAuxTabContent t i patch title s"
| "aux_reduce s (RekeyAuxTab t i c title) = rekeyAuxTab t i c title s"
| "aux_reduce s (SetAuxPaneOpen t op h) = setAuxPaneOpen t op h s"
| "aux_reduce s (ToggleAuxPane t h) = toggleAuxPane t h s"
| "aux_reduce s (HydrateAuxPanes raw) = sanitizeAuxPanesState raw"
| "aux_reduce s ResetAuxPanes = initial_aux_panes"

text \<open>The action \<open>openPreviewInAux\<close> dispatches, given the main layout; \<open>None\<close> when it dispatches none.\<close>

definition openPreviewInAux ::
  "main_tree \<Rightarrow> string \<Rightarrow> string option \<Rightarrow> jsnum option \<Rightarrow> string option \<Rightarrow> aux_action option" where
  "openPreviewInAux t session label port path =
     (if session = [] then None
      else map_option (\<lambda>tr. OpenAuxTab
             \<lparr>op_tree = tr,
              op_content = [(''type'', Some (JStr ''preview'')), (''sessionId'', Some (JStr session)),
                            (''port'', map_option JNum port)] @
                           (case path of Some x \<Rightarrow> [(''path'', Some (JStr x))] | None \<Rightarrow> []),
              op_title = label, op_hasChain = None, op_openPane = None\<rparr>)
           (resolveAuxTreeId t))"

end
