(* ===== verification/AuxPanesInv.thy ===== *)
theory AuxPanesInv
  imports AuxPanes
begin

text \<open>
  The invariant of the dock: in every strip each tab holds a valid content and carries the id of that
  content, no two tabs share an id that is not fixed, and the active id is a stored tab, a fixed tab or
  the launcher. A fixed tab can be stored twice: opening the one that is shown as active and not yet
  stored stores it once for being active and once for being opened (\<open>open_seeded_twice\<close>).
  Every reducer keeps it, one lemma per operation on a strip, and the slice is an instance of the
  interface \<open>reducer\<close>.
\<close>

section \<open>Contents\<close>

text \<open>
  What the program puts into a content: session and chain ids without a colon, and whole ports. It is
  also asked of a patch, so that it holds of the patched content.
\<close>

definition plain :: "js_record \<Rightarrow> bool" where
  "plain c =
     (CHR '':'' \<notin> set (clean (attr c ''sessionId'')) \<and> CHR '':'' \<notin> set (clean (attr c ''chainId'')) \<and>
      (positive_port (js_to_number (attr c ''port'')) \<longrightarrow> whole_port (js_to_number (attr c ''port''))))"

lemma plain_preview_ok: "plain c \<Longrightarrow> preview_ok c"
  by (simp add: plain_def preview_ok_def Let_def)

lemma plain_spread: "obj_ok b \<Longrightarrow> plain a \<Longrightarrow> plain b \<Longrightarrow> plain (spread a b)"
  by (simp add: plain_def attr_spread)

lemma plain_type [simp]: "plain (obj_set c ''type'' v) = plain c"
  by (simp add: plain_def)

lemma plain_normalize: "plain c \<Longrightarrow> plain (normalizeAuxContent c)"
  by (simp add: plain_def normalizeAuxContent_def set_clean_def str_or_def js_trim_no_space_id
      NEW_SHELL_SESSION_ID_def is_js_space_def Let_def split: option.split aux_tab_kind.split)

lemma obj_ok_spread: "obj_ok a \<Longrightarrow> obj_ok (spread a b)"
  unfolding spread_def by (induction b arbitrary: a) auto

lemma obj_ok_normalize: "obj_ok c \<Longrightarrow> obj_ok (normalizeAuxContent c)"
  by (simp add: normalizeAuxContent_def set_clean_def Let_def split: option.split aux_tab_kind.split)

definition content_ok :: "aux_content \<Rightarrow> bool" where
  "content_ok c = (obj_ok c \<and> plain c \<and> isAuxContent c)"

lemma content_ok_codec: "content_ok c \<Longrightarrow> codec_ok c"
  by (simp add: content_ok_def plain_preview_ok)

lemma content_ok_normalize: "content_ok c \<Longrightarrow> content_ok (normalizeAuxContent c)"
  by (simp add: content_ok_def plain_normalize obj_ok_normalize normalize_same)

section \<open>Merging two contents of one tab\<close>

lemma attr_spread_present:
  "obj_ok b \<Longrightarrow> attr b f \<noteq> None \<Longrightarrow> attr (spread a b) f = attr b f"
  by (metis attr_spread attr_def option.simps(4))

lemma attr_of_clean: "clean (attr b f) \<noteq> [] \<Longrightarrow> attr b f \<noteq> None"
  by (metis clean_None)

lemma identity_kind: "identity_content a = identity_content b \<Longrightarrow> kind_of a = kind_of b"
  by (metis kind_of_identity)

lemma identity_port_positive:
  assumes "identity_content a = identity_content b" and "kind_of b = Some Preview"
  shows "positive_port (js_to_number (attr a ''port'')) \<longleftrightarrow> positive_port (js_to_number (attr b ''port''))"
  using assms identity_kind [OF assms(1)] by (auto simp: identity_content_def Let_def split: if_splits)

lemma spread_same_tab:
  assumes "codec_ok a" and "codec_ok b" and "obj_ok b" and same: "auxTabId a = auxTabId b"
  shows "auxTabId (spread a b) = auxTabId b" and "isAuxContent (spread a b)"
proof -
  obtain k where k: "kind_of b = Some k" using assms(2) by (cases "kind_of b") (auto simp: isAuxContent_def)
  note present = attr_spread_present [OF assms(3)]
  have "attr b ''type'' \<noteq> None" using k by (simp add: kind_of_iff)
  then have ks: "kind_of (spread a b) = Some k" using k present kind_of_cong by metis
  have f: "k = Shell \<or> k = Preview \<Longrightarrow> attr (spread a b) ''sessionId'' = attr b ''sessionId''"
    "k = AgentPty \<or> k = SubagentChat \<Longrightarrow> attr (spread a b) ''agentInstanceId'' = attr b ''agentInstanceId''"
    "k = Artifact \<Longrightarrow> attr (spread a b) ''artifactId'' = attr b ''artifactId''"
    "k = Ticket \<Longrightarrow> attr (spread a b) ''chainId'' = attr b ''chainId''"
    "k = Ticket \<Longrightarrow> attr (spread a b) ''taskId'' = attr b ''taskId''"
    by (rule present, rule attr_of_clean, use assms(2) k in \<open>auto simp: isAuxContent_def\<close>)+
  show "isAuxContent (spread a b)" using assms(2) k ks f by (simp add: isAuxContent_def)
  show "auxTabId (spread a b) = auxTabId b"
  proof (cases "k = Preview")
    case True
    have ident: "identity_content a = identity_content b" using same_tab_iff [OF assms(1,2)] same by simp
    have "positive_port (js_to_number (attr (spread a b) ''port'')) = positive_port (js_to_number (attr b ''port''))
      \<and> (positive_port (js_to_number (attr b ''port'')) \<longrightarrow> attr (spread a b) ''port'' = attr b ''port'')"
    proof (cases "obj_get b ''port'' = None")
      case none: True
      then have "attr b ''port'' = None" by (simp add: attr_def)
      then show ?thesis
        using none assms(3) identity_port_positive [OF ident] k True by (simp add: attr_spread)
    next
      case False
      then have "attr (spread a b) ''port'' = attr b ''port''"
        by (simp only: attr_spread [OF assms(3)] if_False)
      then show ?thesis by simp
    qed
    then show ?thesis using k ks f(1) True by (simp add: auxTabId_def Let_def)
  next
    case False
    then show ?thesis using k ks f by (cases k) (simp_all add: auxTabId_def)
  qed
qed

section \<open>Tabs\<close>

definition tab_ok :: "aux_tab \<Rightarrow> bool" where
  "tab_ok t = (content_ok (tab_content t) \<and> tab_id t = auxTabId (tab_content t))"

lemma tab_ok_create: "content_ok c \<Longrightarrow> tab_ok (createAuxTab c title)"
  by (simp add: tab_ok_def createAuxTab_def content_ok_normalize Let_def)

lemma create_tab_id: "content_ok c \<Longrightarrow> tab_id (createAuxTab c title) = auxTabId c"
  by (simp add: createAuxTab_id(1) content_ok_def)

lemma merge_tab_id [simp]: "tab_id (merge_tab a b) = tab_id a"
  by (simp add: merge_tab_def)

lemma tab_ok_merge:
  assumes "tab_ok a" and "tab_ok b" and "tab_id a = tab_id b"
  shows "tab_ok (merge_tab a b)"
proof -
  have ok: "content_ok (tab_content a)" "content_ok (tab_content b)" using assms by (simp_all add: tab_ok_def)
  have same: "auxTabId (tab_content a) = auxTabId (tab_content b)" using assms by (simp add: tab_ok_def)
  have "obj_ok (tab_content b)" using ok by (simp add: content_ok_def)
  note s = spread_same_tab [OF ok [THEN content_ok_codec] this same]
  show ?thesis
    using assms ok s by (simp add: tab_ok_def merge_tab_def content_ok_def plain_spread obj_ok_spread)
qed

lemma tab_ok_not_new: "tab_ok t \<Longrightarrow> tab_id t \<noteq> NEW_TAB_ID"
  by (simp add: tab_ok_def auxTabId_not_new)

lemma tab_ok_type: "tab_ok t \<Longrightarrow> tab_id t \<noteq> []"
proof -
  assume "tab_ok t"
  then have "decodeAuxTabId (Some (tab_id t)) \<noteq> None"
    by (simp add: tab_ok_def decode_auxTabId content_ok_codec)
  then show ?thesis by (auto simp: decodeAuxTabId_def)
qed

section \<open>Strips\<close>

definition active_ok :: "aux_tabbed_pane \<Rightarrow> bool" where
  "active_ok p = (\<exists>i. activeTabId p = Some i \<and> (i = NEW_TAB_ID \<or> i \<in> set (tab_ids p) \<or> isFixedAuxTabId (Some i)))"

definition vol_ids :: "aux_tab list \<Rightarrow> string list" where
  "vol_ids ts = filter (\<lambda>i. \<not> isFixedAuxTabId (Some i)) (map tab_id ts)"

definition tabs_ok :: "aux_tab list \<Rightarrow> bool" where
  "tabs_ok ts = (distinct (vol_ids ts) \<and> list_all tab_ok ts)"

definition strip_ok :: "aux_tabbed_pane \<Rightarrow> bool" where
  "strip_ok p = (tabs_ok (tabs p) \<and> active_ok p)"

lemma set_vol_ids: "set (vol_ids ts) = {i \<in> tab_id ` set ts. \<not> isFixedAuxTabId (Some i)}"
  by (auto simp: vol_ids_def)

lemma vol_ids_simps [simp]:
  "vol_ids [] = []"
  "vol_ids (t # ts) = (if isFixedAuxTabId (Some (tab_id t)) then [] else [tab_id t]) @ vol_ids ts"
  "vol_ids (ts @ us) = vol_ids ts @ vol_ids us"
  by (simp_all add: vol_ids_def)

lemma tabs_ok_Nil [simp]: "tabs_ok []"
  by (simp add: tabs_ok_def)

lemma tabs_ok_Cons:
  "tabs_ok (t # ts) \<longleftrightarrow>
     tab_ok t \<and> tabs_ok ts \<and> (isFixedAuxTabId (Some (tab_id t)) \<or> tab_id t \<notin> tab_id ` set ts)"
  by (auto simp: tabs_ok_def set_vol_ids)

lemma tabs_ok_append:
  "tabs_ok (ts @ us) \<longleftrightarrow> tabs_ok ts \<and> tabs_ok us \<and>
     (\<forall>t \<in> set ts. \<forall>u \<in> set us. tab_id t = tab_id u \<longrightarrow> isFixedAuxTabId (Some (tab_id t)))"
  by (induction ts) (auto simp: tabs_ok_Cons)

lemma tabs_ok_split:
  assumes "i < length ts"
  shows "tabs_ok ts \<longleftrightarrow> tabs_ok (take i ts @ ts ! i # drop (Suc i) ts)"
  using id_take_nth_drop [OF assms] by simp

lemma tabs_ok_nth: "tabs_ok ts \<Longrightarrow> i < length ts \<Longrightarrow> tab_ok (ts ! i)"
  by (simp add: tabs_ok_def list_all_length)

lemma tabs_ok_remove: "tabs_ok ts \<Longrightarrow> tabs_ok (remove_at i ts)"
proof (cases "i < length ts")
  case True
  assume "tabs_ok ts"
  then show ?thesis
    unfolding remove_at_def tabs_ok_split [OF True] tabs_ok_append tabs_ok_Cons by auto
next
  case False
  assume "tabs_ok ts"
  with False show ?thesis by (simp add: remove_at_def)
qed

lemma tabs_ok_insert:
  assumes "tabs_ok ts" and "tab_ok t" and "isFixedAuxTabId (Some (tab_id t)) \<or> tab_id t \<notin> tab_id ` set ts"
  shows "tabs_ok (insert_at j t ts)"
proof -
  have "tabs_ok (take j ts @ drop j ts)" using assms(1) by simp
  moreover have "tab_id ` set ts = tab_id ` set (take j ts) \<union> tab_id ` set (drop j ts)"
    by (metis append_take_drop_id image_Un set_append)
  ultimately show ?thesis
    using assms(2,3) unfolding insert_at_def tabs_ok_append tabs_ok_Cons
    by (auto simp: image_iff) (metis+)?
qed

lemma tabs_ok_update:
  assumes "tabs_ok ts" and "i < length ts" and "tab_ok t"
    and "tab_id t = tab_id (ts ! i) \<or> tab_id t \<notin> tab_id ` set ts"
  shows "tabs_ok (ts[i := t])"
proof -
  have eq: "ts = take i ts @ ts ! i # drop (Suc i) ts" using assms(2) by (rule id_take_nth_drop)
  then have ids: "tab_id ` set ts = tab_id ` set (take i ts) \<union> {tab_id (ts ! i)} \<union> tab_id ` set (drop (Suc i) ts)"
    by (metis Un_insert_right image_Un image_insert insert_is_Un list.simps(15) set_append sup_assoc sup_bot.right_neutral)
  have "tabs_ok (take i ts @ ts ! i # drop (Suc i) ts)" using assms(1) eq by simp
  then show ?thesis
    using assms(3,4) unfolding upd_conv_take_nth_drop [OF assms(2)] tabs_ok_append tabs_ok_Cons ids
    by (auto simp: image_iff) (metis+)?
qed

lemma fixed_tab_ok:
  assumes "isFixedAuxTabId (Some i)" and "decodeAuxTabId (Some i) = Some c"
  shows "content_ok c" and "auxTabId c = i"
proof -
  have "i \<in> {OVERVIEW_TAB_ID, FILES_TAB_ID, VCS_TAB_ID, TASKS_TAB_ID}"
    using assms by (auto simp: isFixedAuxTabId_def FIXED_TAB_IDS_def split: if_splits)
  then have "i \<in> tab_prefix ` {ChainOverview, Files, Vcs, Tasks}" by simp
  then obtain k where k: "i = tab_prefix k" "k \<in> {ChainOverview, Files, Vcs, Tasks}" by blast
  let ?c = "[(''type'', Some (JStr (kind_name k)))]"
  have c: "c = ?c" using fixed_kind(1) [OF k(2)] assms(2) k(1) by simp
  have "plain ?c" "obj_ok ?c" by (simp_all add: plain_def obj_ok_def)
  then show "content_ok c" "auxTabId c = i"
    using fixed_kind(2,3) [OF k(2)] k(1) c by (simp_all add: content_ok_def)
qed

lemma resolve_active_id:
  "resolveActiveAuxTab (Some p) = Some a \<Longrightarrow> activeTabId p = Some (tab_id a)"
  by (cases "activeTabId p") (auto simp: resolveActiveAuxTab_def find_Some_iff split: if_splits option.splits)

lemma resolve_active_ok:
  assumes "tabs_ok (tabs p)" and "resolveActiveAuxTab (Some p) = Some a"
  shows "tab_ok a"
proof (cases "find (\<lambda>t. Some (tab_id t) = activeTabId p) (tabs p)")
  case (Some t)
  then have "t \<in> set (tabs p)" by (auto simp: find_Some_iff)
  moreover have "a = t" using assms(2) Some by (simp add: resolveActiveAuxTab_def split: if_splits)
  ultimately show ?thesis using assms(1) by (simp add: tabs_ok_def list_all_iff)
next
  case None
  then obtain i c where i: "activeTabId p = Some i" "isFixedAuxTabId (Some i)" "decodeAuxTabId (Some i) = Some c"
    "a = \<lparr>tab_id = i, tab_content = c, tab_title = None\<rparr>"
    using assms(2) by (cases "activeTabId p") (auto simp: resolveActiveAuxTab_def split: if_splits)
  then show ?thesis using fixed_tab_ok [OF i(2,3)] by (simp add: tab_ok_def)
qed

lemma materialize_active [simp]: "activeTabId (materializeActive p) = activeTabId p"
  by (simp add: materializeActive_def split: option.split)

lemma materialize_ok: "tabs_ok (tabs p) \<Longrightarrow> tabs_ok (tabs (materializeActive p))"
  using resolve_active_ok [of p] by (auto simp: materializeActive_def tabs_ok_Cons split: option.split)

lemma materialize_ids:
  "tab_ids (materializeActive p) =
     (case resolveActiveAuxTab (Some p) of
        Some a \<Rightarrow> if tab_id a \<in> set (tab_ids p) then tab_ids p else tab_id a # tab_ids p
      | None \<Rightarrow> tab_ids p)"
  by (auto simp: materializeActive_def split: option.split)

lemma materialize_ids_mono: "set (tab_ids p) \<subseteq> set (tab_ids (materializeActive p))"
  by (auto simp: materialize_ids split: option.split)

section \<open>Operations on a strip\<close>

lemma find_id_None: "find_index (\<lambda>x. tab_id x = i) ts = None \<longleftrightarrow> i \<notin> tab_id ` set ts"
  by (auto simp: find_index_None)

lemma find_id_Some:
  assumes "find_index (\<lambda>x. tab_id x = i) ts = Some idx"
  shows "idx < length ts" and "tab_id (ts ! idx) = i" and "i \<in> tab_id ` set ts"
  using find_index_Some [OF assms] by auto

lemma active_okI:
  "activeTabId p = Some i \<Longrightarrow> i = NEW_TAB_ID \<or> i \<in> set (tab_ids p) \<or> isFixedAuxTabId (Some i) \<Longrightarrow> active_ok p"
  by (auto simp: active_ok_def)

lemma upsert_ids:
  assumes "content_ok c"
  shows "tab_ids (upsertTab p c title) =
           (if auxTabId c \<in> set (tab_ids p) then tab_ids p else tab_ids (materializeActive p) @ [auxTabId c])"
    and "activeTabId (upsertTab p c title) = Some (auxTabId c)"
    and "auxTabId c \<in> set (tab_ids (upsertTab p c title))"
proof -
  have new: "tab_id (createAuxTab c title) = auxTabId c" by (rule create_tab_id [OF assms])
  have "tab_ids (upsertTab p c title) =
      (if auxTabId c \<in> set (tab_ids p) then tab_ids p else tab_ids (materializeActive p) @ [auxTabId c])
    \<and> activeTabId (upsertTab p c title) = Some (auxTabId c)"
  proof (cases "find_index (\<lambda>x. tab_id x = auxTabId c) (tabs p)")
    case None
    then show ?thesis using find_id_None [of "auxTabId c" "tabs p"] new by (simp add: upsertTab_def Let_def)
  next
    case (Some idx)
    note f = find_id_Some [OF Some]
    have "(tab_ids p)[idx := tab_id (tabs p ! idx)] = tab_ids p" using f(1) by (simp add: list_update_same_conv)
    then show ?thesis using Some f new by (simp add: upsertTab_def map_update Let_def)
  qed
  then show "tab_ids (upsertTab p c title) =
      (if auxTabId c \<in> set (tab_ids p) then tab_ids p else tab_ids (materializeActive p) @ [auxTabId c])"
    "activeTabId (upsertTab p c title) = Some (auxTabId c)"
    "auxTabId c \<in> set (tab_ids (upsertTab p c title))" by auto
qed

lemma upsert_ok:
  assumes "tabs_ok (tabs p)" and "content_ok c"
  shows "strip_ok (upsertTab p c title)"
proof -
  have new: "tab_id (createAuxTab c title) = auxTabId c" "tab_ok (createAuxTab c title)"
    using assms(2) by (simp_all add: create_tab_id tab_ok_create)
  have "tabs_ok (tabs (upsertTab p c title))"
  proof (cases "find_index (\<lambda>x. tab_id x = auxTabId c) (tabs p)")
    case None
    let ?q = "materializeActive p"
    have q: "tabs_ok (tabs ?q)" by (rule materialize_ok [OF assms(1)])
    have "isFixedAuxTabId (Some (auxTabId c)) \<or> auxTabId c \<notin> tab_id ` set (tabs ?q)"
    proof (cases "resolveActiveAuxTab (Some p)")
      case none: None
      then show ?thesis using None by (simp add: materializeActive_def find_id_None)
    next
      case (Some a)
      then show ?thesis
      proof (cases "tab_id a \<in> set (tab_ids p)")
        case True
        then show ?thesis using Some None by (simp add: materializeActive_def find_id_None)
      next
        case False
        then have "isFixedAuxTabId (Some (tab_id a))"
          using Some resolve_active_id [OF Some]
          by (auto simp: resolveActiveAuxTab_def find_Some_iff split: if_splits option.splits)
        then show ?thesis using Some None False by (auto simp: materializeActive_def find_id_None)
      qed
    qed
    then have "tabs_ok (tabs ?q @ [createAuxTab c title])"
      using q new by (auto simp: tabs_ok_append tabs_ok_Cons image_iff) (metis+)?
    then show ?thesis using None new by (simp add: upsertTab_def Let_def)
  next
    case (Some idx)
    note f = find_id_Some [OF Some]
    have "tab_ok (merge_tab (tabs p ! idx) (createAuxTab c title))"
      using tabs_ok_nth [OF assms(1) f(1)] new f by (intro tab_ok_merge) simp_all
    then show ?thesis
      using Some new tabs_ok_update [OF assms(1) f(1)] by (simp add: upsertTab_def Let_def)
  qed
  moreover have "active_ok (upsertTab p c title)"
    using upsert_ids(2,3) [OF assms(2)] by (blast intro: active_okI)
  ultimately show ?thesis by (simp add: strip_ok_def)
qed

lemma default_strip_ok: "strip_ok (createDefaultAuxPane b)"
proof -
  have "isFixedAuxTabId (Some OVERVIEW_TAB_ID)" "isFixedAuxTabId (Some FILES_TAB_ID)"
    by (simp_all add: decode_tests)
  then show ?thesis by (simp add: strip_ok_def createDefaultAuxPane_def active_ok_def)
qed

lemma new_active_ok: "tabs_ok (tabs p) \<Longrightarrow> strip_ok (p\<lparr>activeTabId := Some NEW_TAB_ID\<rparr>)"
  by (simp add: strip_ok_def active_ok_def)

lemma activate_ok:
  assumes "strip_ok p"
  shows "strip_ok (activate_tab i p)"
proof -
  have t: "tabs_ok (tabs p)" using assms by (simp add: strip_ok_def)
  have fixed: "strip_ok (case decodeAuxTabId (Some i) of Some c \<Rightarrow> upsertTab p c None | None \<Rightarrow> p)"
    if "isFixedAuxTabId (Some i)"
    using fixed_tab_ok(1) [OF that] upsert_ok [OF t] assms by (simp split: option.split)
  have "strip_ok (p\<lparr>activeTabId := Some i\<rparr>)" if "i \<in> set (tab_ids p) \<or> Some i = activeTabId p"
    using that assms by (auto simp: strip_ok_def active_ok_def)
  then show ?thesis
    using fixed assms new_active_ok [OF materialize_ok [OF t]] by (simp add: activate_tab_def)
qed

lemma last_or_new_ok: "tabs_ok (tabs p) \<Longrightarrow> strip_ok (p\<lparr>activeTabId := Some (last_tab_or_new p)\<rparr>)"
  by (simp add: strip_ok_def active_ok_def last_tab_or_new_def)

lemma tasks_content_ok: "content_ok [(''type'', Some (JStr ''tasks''))]"
  using fixed_tab_ok(1) [of TASKS_TAB_ID] fixed_kind(1) [of Tasks]
  by (simp add: decode_tests)

lemma remove_active_ok:
  assumes "tabs_ok (tabs p)" and "active_ok p" and "activeTabId p \<noteq> Some (tab_id (tabs p ! i))" and "i < length (tabs p)"
  shows "strip_ok (p\<lparr>tabs := remove_at i (tabs p)\<rparr>)"
proof -
  obtain j where j: "activeTabId p = Some j" "j = NEW_TAB_ID \<or> j \<in> set (tab_ids p) \<or> isFixedAuxTabId (Some j)"
    using assms(2) by (auto simp: active_ok_def)
  have split: "tab_ids p = take i (tab_ids p) @ tab_id (tabs p ! i) # drop (Suc i) (tab_ids p)"
    using id_take_nth_drop [of i "tab_ids p"] assms(4) by simp
  have "j \<in> set (remove_at i (tab_ids p))" if "j \<in> set (tab_ids p)"
  proof -
    have "j \<in> set (take i (tab_ids p) @ tab_id (tabs p ! i) # drop (Suc i) (tab_ids p))" using that split by simp
    moreover have "j \<noteq> tab_id (tabs p ! i)" using assms(3) j(1) by simp
    ultimately show ?thesis by (simp add: remove_at_def)
  qed
  with j have "active_ok (p\<lparr>tabs := remove_at i (tabs p)\<rparr>)"
    by (intro active_okI [of _ j]) (simp_all add: map_remove_at, blast)
  with tabs_ok_remove [OF assms(1)] show ?thesis by (simp add: strip_ok_def)
qed

lemma close_strip_ok:
  assumes "strip_ok p"
  shows "strip_ok (close_tab i p)"
proof -
  have t: "tabs_ok (tabs p)" and a: "active_ok p" using assms by (simp_all add: strip_ok_def)
  note last = last_or_new_ok [OF t]
  show ?thesis
  proof (cases "i = NEW_TAB_ID \<or> find_index (\<lambda>t. tab_id t = i) (tabs p) = None")
    case True
    then show ?thesis using last assms by (auto simp: close_tab_def)
  next
    case False
    then obtain idx where idx: "find_index (\<lambda>t. tab_id t = i) (tabs p) = Some idx" by blast
    note f = find_id_Some [OF idx]
    let ?q = "p\<lparr>tabs := remove_at idx (tabs p)\<rparr>"
    let ?n = "case arr_at (tabs ?q) idx of Some t \<Rightarrow> Some t
      | None \<Rightarrow> if idx = 0 then None else arr_at (tabs ?q) (idx - 1)"
    have q: "tabs_ok (tabs ?q)" using tabs_ok_remove [OF t] by simp
    have next_ok: "strip_ok (?q\<lparr>activeTabId := Some (case n of Some x \<Rightarrow> tab_id x | None \<Rightarrow> NEW_TAB_ID)\<rparr>)"
      if "\<And>x. n = Some x \<Longrightarrow> x \<in> set (tabs ?q)" for n
      using that q by (cases n) (auto simp: strip_ok_def active_ok_def)
    have at: "x \<in> set xs" if "arr_at xs k = Some x" for xs :: "aux_tab list" and k x
      using that by (auto simp: arr_at_def split: if_splits)
    have "strip_ok ?q" if "activeTabId p \<noteq> Some i"
      using remove_active_ok [OF t a _ f(1)] that f(2) by simp
    moreover have "strip_ok (upsertTab ?q [(''type'', Some (JStr ''tasks''))] None)"
      by (rule upsert_ok [OF q tasks_content_ok])
    moreover have "strip_ok (?q\<lparr>activeTabId := Some (case ?n of Some x \<Rightarrow> tab_id x | None \<Rightarrow> NEW_TAB_ID)\<rparr>)"
    proof (rule next_ok)
      show "x \<in> set (tabs ?q)" if "?n = Some x" for x
        using that by (auto dest: at split: option.splits if_splits)
    qed
    ultimately show ?thesis
      using False idx by (simp add: close_tab_def Let_def)
  qed
qed

lemma append_sep_eq:
  assumes "a @ c # b = a' @ c # b'" and "c \<notin> set a" and "c \<notin> set a'"
  shows "a = a'" and "b = b'"
proof -
  have "length a = length a'"
    using index_of_append [OF assms(2), of b] index_of_append [OF assms(3), of b'] assms(1) by simp
  then show "a = a'" "b = b'" using assms(1) by simp_all
qed

lemma valid_from_id:
  assumes "content_ok c" and "plain d" and "kind_of d = kind_of c" and "auxTabId d = auxTabId c"
    and "kind_of d = Some Shell \<Longrightarrow> clean (attr d ''sessionId'') \<noteq> []"
  shows "isAuxContent d"
proof -
  have v: "isAuxContent c" and pc: "plain c" using assms(1) by (simp_all add: content_ok_def)
  obtain k where k: "kind_of c = Some k" using v by (cases "kind_of c") (auto simp: isAuxContent_def)
  then have kd: "kind_of d = Some k" using assms(3) by simp
  show ?thesis
  proof (cases "k = Preview")
    case True
    obtain x xs where x: "clean (attr c ''sessionId'') = x # xs"
      using v k True by (cases "clean (attr c ''sessionId'')") (auto simp: isAuxContent_def)
    then have colon: "x \<noteq> CHR '':''" using pc by (auto simp: plain_def)
    have "clean (attr d ''sessionId'') \<noteq> []"
    proof
      assume none: "clean (attr d ''sessionId'') = []"
      show False using assms(4) k kd True none x colon by (auto simp: auxTabId_def Let_def split: if_splits)
    qed
    then show ?thesis using kd True by (simp add: isAuxContent_def)
  next
    case not_preview: False
    show ?thesis
    proof (cases "k = Ticket")
      case True
      have "clean (attr d ''chainId'') = clean (attr c ''chainId'')" "clean (attr d ''taskId'') = clean (attr c ''taskId'')"
        using append_sep_eq [of "clean (attr d ''chainId'')" "CHR '':''" "clean (attr d ''taskId'')"
            "clean (attr c ''chainId'')" "clean (attr c ''taskId'')"] assms(2,4) pc k kd True
        by (simp_all add: auxTabId_def plain_def)
      then show ?thesis using v k kd True by (simp add: isAuxContent_def)
    next
      case False
      then show ?thesis using v k kd assms(4,5) not_preview by (cases k) (simp_all add: isAuxContent_def auxTabId_def)
    qed
  qed
qed

lemma kind_of_patched [simp]: "kind_of (patched_content c patch) = kind_of c"
  unfolding patched_content_def kind_of_normalize by (rule kind_of_cong) simp

lemma normalize_shell: "kind_of c = Some Shell \<Longrightarrow> clean (attr (normalizeAuxContent c) ''sessionId'') \<noteq> []"
  using clean_idem [of "attr c ''sessionId''"]
  by (auto simp: normalizeAuxContent_def str_or_def NEW_SHELL_SESSION_ID_def js_trim_no_space_id is_js_space_def)

lemma patched_ok:
  assumes "content_ok c" and "obj_ok patch" and "plain patch" and "auxTabId (patched_content c patch) = auxTabId c"
  shows "content_ok (patched_content c patch)"
proof -
  let ?d = "patched_content c patch"
  have p: "plain ?d" "obj_ok ?d"
    using assms(1-3)
    by (simp_all add: patched_content_def content_ok_def plain_normalize plain_spread obj_ok_spread obj_ok_normalize)
  have "isAuxContent ?d"
  proof (rule valid_from_id [OF assms(1) p(1) _ assms(4)])
    assume "kind_of ?d = Some Shell"
    then have "kind_of (obj_set (spread c patch) ''type'' (attr c ''type'')) = Some Shell"
      unfolding patched_content_def kind_of_normalize .
    then show "clean (attr ?d ''sessionId'') \<noteq> []"
      unfolding patched_content_def by (rule normalize_shell)
  qed simp
  with p show ?thesis by (simp add: content_ok_def)
qed

lemma active_ok_same_ids:
  "active_ok p \<Longrightarrow> activeTabId q = activeTabId p \<Longrightarrow> set (tab_ids p) \<subseteq> set (tab_ids q) \<Longrightarrow> active_ok q"
  by (auto simp: active_ok_def)

lemma update_ids: "tab_ids (update_tab i patch title p) = tab_ids p"
proof (cases "find_index (\<lambda>t. tab_id t = i) (tabs p)")
  case (Some idx)
  note f = find_id_Some [OF Some]
  have "(tab_ids p)[idx := tab_id (tabs p ! idx)] = tab_ids p" using f(1) by (simp add: list_update_same_conv)
  then show ?thesis using Some f by (simp add: update_tab_def map_update Let_def)
qed (simp add: update_tab_def)

lemma update_ok:
  assumes "strip_ok p" and "obj_ok patch" and "plain patch"
  shows "strip_ok (update_tab i patch title p)"
proof -
  have t: "tabs_ok (tabs p)" and a: "active_ok p" using assms by (simp_all add: strip_ok_def)
  have "activeTabId (update_tab i patch title p) = activeTabId p"
    by (simp add: update_tab_def Let_def split: option.split)
  then have "active_ok (update_tab i patch title p)"
    by (rule active_ok_same_ids [OF a]) (simp only: update_ids subset_refl)
  moreover have "tabs_ok (tabs (update_tab i patch title p))"
  proof (cases "find_index (\<lambda>t. tab_id t = i) (tabs p)")
    case (Some idx)
    note f = find_id_Some [OF Some]
    let ?t = "tabs p ! idx" and ?next = "patched_content (tab_content (tabs p ! idx)) patch"
    have ok: "tab_ok ?t" by (rule tabs_ok_nth [OF t f(1)])
    have "tabs_ok ((tabs p)[idx := ?t\<lparr>tab_content := ?next, tab_title := x\<rparr>])"
      if "auxTabId ?next = tab_id ?t" for x
      using ok that patched_ok [OF _ assms(2,3), of "tab_content ?t"]
      by (intro tabs_ok_update [OF t f(1)]) (simp_all add: tab_ok_def)
    then show ?thesis using Some t by (simp add: update_tab_def Let_def)
  qed (use t in \<open>simp add: update_tab_def\<close>)
  ultimately show ?thesis by (simp add: strip_ok_def)
qed

lemma move_ids_mset: "mset (tabs (move_tab i n p)) = mset (tabs (materializeActive p))"
proof (cases "find_index (\<lambda>t. tab_id t = i) (tabs (materializeActive p))")
  case (Some k)
  note f = find_id_Some [OF Some]
  let ?ts = "tabs (materializeActive p)"
  have ins: "mset (insert_at j x xs) = add_mset x (mset xs)" for j and x :: aux_tab and xs
    unfolding insert_at_def by (metis append_take_drop_id mset.simps(2) mset_append union_mset_add_mset_right)
  have "mset ?ts = mset (take k ?ts @ ?ts ! k # drop (Suc k) ?ts)" using id_take_nth_drop [OF f(1)] by simp
  then have "add_mset (?ts ! k) (mset (remove_at k ?ts)) = mset ?ts" by (simp add: remove_at_def)
  then show ?thesis using Some by (simp add: move_tab_def ins Let_def)
qed (simp add: move_tab_def)

lemma tabs_ok_mset:
  assumes "tabs_ok ts" and "mset us = mset ts"
  shows "tabs_ok us"
proof -
  have "mset (vol_ids us) = mset (vol_ids ts)" by (simp add: vol_ids_def assms(2))
  then have "distinct (vol_ids us) = distinct (vol_ids ts)" by (rule mset_eq_imp_distinct_iff)
  moreover have "set us = set ts" using assms(2) by (metis set_mset_mset)
  ultimately show ?thesis using assms(1) by (simp add: tabs_ok_def list_all_iff)
qed

lemma move_strip_ok:
  assumes "strip_ok p"
  shows "strip_ok (move_tab i n p)"
proof -
  let ?q = "materializeActive p"
  have q: "tabs_ok (tabs ?q)" and a: "active_ok p"
    using assms materialize_ok by (simp_all add: strip_ok_def)
  have "activeTabId (move_tab i n p) = activeTabId p"
    by (simp add: move_tab_def Let_def split: option.split)
  moreover have "set (tabs (move_tab i n p)) = set (tabs ?q)"
    using move_ids_mset [of i n p] by (metis set_mset_mset)
  then have "set (tab_ids p) \<subseteq> set (tab_ids (move_tab i n p))"
    using materialize_ids_mono [of p] by simp
  ultimately have "active_ok (move_tab i n p)" using active_ok_same_ids [OF a] by blast
  moreover have "tabs_ok (tabs (move_tab i n p))"
    by (rule tabs_ok_mset [OF q move_ids_mset])
  ultimately show ?thesis by (simp add: strip_ok_def)
qed

lemma nth_in_remove_at: "e < length xs \<Longrightarrow> e \<noteq> i \<Longrightarrow> xs ! e \<in> set (remove_at i xs)"
proof (cases "e < i")
  case True
  assume "e < length xs"
  with True have "xs ! e \<in> set (take i xs)" by (auto simp: in_set_conv_nth intro!: exI [of _ e])
  then show ?thesis by (simp add: remove_at_def)
next
  case False
  assume "e < length xs" "e \<noteq> i"
  with False have "Suc i \<le> e" by simp
  with \<open>e < length xs\<close> have "xs ! e \<in> set (drop (Suc i) xs)"
    by (auto simp: in_set_conv_nth intro!: exI [of _ "e - Suc i"])
  then show ?thesis by (simp add: remove_at_def)
qed

lemma rekey_ok:
  assumes "strip_ok p" and "obj_ok c" and "plain c"
  shows "strip_ok (rekey_tab i c title p)"
proof (cases "isAuxContent c \<and> find_index (\<lambda>t. tab_id t = i) (tabs p) \<noteq> None")
  case False
  then show ?thesis using assms(1) by (auto simp: rekey_tab_def)
next
  case True
  then obtain idx where idx: "find_index (\<lambda>t. tab_id t = i) (tabs p) = Some idx" and v: "isAuxContent c" by blast
  have c: "content_ok c" using assms v by (simp add: content_ok_def)
  have t: "tabs_ok (tabs p)" and a: "active_ok p" using assms by (simp_all add: strip_ok_def)
  note f = find_id_Some [OF idx]
  define n where "n = createAuxTab c (case title of Some x \<Rightarrow> Some x | None \<Rightarrow> tab_title (tabs p ! idx))"
  have n: "tab_ok n" unfolding n_def by (rule tab_ok_create [OF c])
  let ?ex = "find_index (\<lambda>t. tab_id t = tab_id n) (tabs p)"
  have r: "rekey_tab i c title p =
    (let q = (if ?ex \<noteq> None \<and> ?ex \<noteq> Some idx then p\<lparr>tabs := remove_at idx (tabs p)\<rparr>
              else p\<lparr>tabs := (tabs p)[idx := n]\<rparr>)
     in if activeTabId p = Some i \<or> ?ex \<noteq> None then q\<lparr>activeTabId := Some (tab_id n)\<rparr> else q)"
    using v idx by (simp add: rekey_tab_def n_def Let_def)
  have n_in: "tab_id n \<in> set (map tab_id ((tabs p)[idx := n]))"
    using f(1) by (simp add: set_update_memI)
  show ?thesis
  proof (cases ?ex)
    case none: None
    then have upd: "tabs_ok ((tabs p)[idx := n])"
      using tabs_ok_update [OF t f(1) n] by (simp add: find_id_None)
    obtain j where j: "activeTabId p = Some j" "j = NEW_TAB_ID \<or> j \<in> set (tab_ids p) \<or> isFixedAuxTabId (Some j)"
      using a by (auto simp: active_ok_def)
    have "j \<in> set (map tab_id ((tabs p)[idx := n]))" if jm: "j \<in> set (tab_ids p)" "j \<noteq> i"
    proof -
      obtain m where m: "m < length (tabs p)" "j = tab_id (tabs p ! m)"
        using jm(1) in_set_conv_nth [of j "tab_ids p"] by auto
      then have "m \<noteq> idx" using jm(2) f(2) by auto
      with m have "(tabs p)[idx := n] ! m = tabs p ! m" by simp
      with m show ?thesis by (metis image_eqI length_list_update nth_mem set_map)
    qed
    with j upd n_in none show ?thesis
      unfolding r strip_ok_def active_ok_def Let_def by auto
  next
    case (Some e)
    note g = find_id_Some [OF Some]
    show ?thesis
    proof (cases "e = idx")
      case True
      have "tabs_ok ((tabs p)[idx := n])" using tabs_ok_update [OF t f(1) n] g(2) True by simp
      then show ?thesis using Some True n_in unfolding r strip_ok_def active_ok_def Let_def by simp
    next
      case False
      have "tabs p ! e \<in> set (remove_at idx (tabs p))" by (rule nth_in_remove_at [OF g(1) False])
      then have "tab_id n \<in> set (map tab_id (remove_at idx (tabs p)))" using g(2) by (metis image_eqI set_map)
      then show ?thesis
        using Some False tabs_ok_remove [OF t] unfolding r strip_ok_def active_ok_def Let_def by simp
    qed
  qed
qed

section \<open>Persisted strips\<close>

definition tab_raw_ok :: "js \<Rightarrow> bool" where
  "tab_raw_ok t =
     (case content_of_js (js_prop (Some t) ''content'') of Some c \<Rightarrow> obj_ok c \<and> plain c | None \<Rightarrow> True)"

definition pane_raw_ok :: "js \<Rightarrow> bool" where
  "pane_raw_ok raw = list_all tab_raw_ok (js_items (js_prop (Some raw) ''tabs''))"

definition raw_entries :: "js option \<Rightarrow> (string \<times> js) list" where
  "raw_entries raw =
     (case raw of
        Some (JObj _) \<Rightarrow> (case js_prop raw ''agentPanes'' of Some (JObj ob) \<Rightarrow> ob | _ \<Rightarrow> [])
      | _ \<Rightarrow> [])"

definition raw_ok :: "js option \<Rightarrow> bool" where
  "raw_ok raw = list_all (\<lambda>(_, p). pane_raw_ok p) (raw_entries raw)"

lemma sanitize_tab_ok: "tab_raw_ok t \<Longrightarrow> sanitize_tab t = Some x \<Longrightarrow> tab_ok x"
  by (auto simp: sanitize_tab_def tab_raw_ok_def content_ok_def split: option.splits if_splits
      intro!: tab_ok_create)

lemma sanitize_tabs_ok:
  "list_all tab_raw_ok ts \<Longrightarrow> list_all tab_ok acc \<Longrightarrow> distinct (map tab_id acc) \<Longrightarrow>
   list_all tab_ok (sanitize_tabs ts acc) \<and> distinct (map tab_id (sanitize_tabs ts acc))"
proof (induction ts arbitrary: acc)
  case (Cons t ts)
  show ?case
  proof (cases "sanitize_tab t")
    case None
    then show ?thesis using Cons by simp
  next
    case (Some x)
    have x: "tab_ok x" using sanitize_tab_ok [OF _ Some] Cons.prems(1) by simp
    let ?acc = "if tab_id x = NEW_TAB_ID \<or> tab_id x \<in> tab_id ` set acc then acc else acc @ [x]"
    have "list_all tab_ok (sanitize_tabs ts ?acc) \<and> distinct (map tab_id (sanitize_tabs ts ?acc))"
      by (rule Cons.IH) (use Cons.prems x in auto)
    then show ?thesis using Some by simp
  qed
qed simp

lemma distinct_tabs_ok: "list_all tab_ok ts \<Longrightarrow> distinct (map tab_id ts) \<Longrightarrow> tabs_ok ts"
  by (simp add: tabs_ok_def vol_ids_def)

lemma sanitizePane_ok:
  assumes "pane_raw_ok raw" and "sanitizePane raw = Some p"
  shows "strip_ok p" and "distinct (tab_ids p)"
proof -
  let ?ts = "sanitize_tabs (js_items (js_prop (Some raw) ''tabs'')) []"
  have ts: "list_all tab_ok ?ts" "distinct (map tab_id ?ts)"
    using sanitize_tabs_ok [of _ "[]"] assms(1) by (simp_all add: pane_raw_ok_def)
  have p: "tabs p = ?ts" using assms(2) by (auto simp: sanitizePane_def Let_def split: js.splits)
  then show "distinct (tab_ids p)" using ts by simp
  have head: "tab_id x \<in> set (map tab_id ?ts)" if "?ts = x # xs" for x xs using that by simp
  have "active_ok p"
    using assms(2)
    by (cases raw; cases "js_string (js_prop (Some raw) ''activeTabId'')"; cases ?ts)
       (auto simp: sanitizePane_def active_ok_def Let_def split: if_splits)
  then show "strip_ok p" using p ts by (simp add: strip_ok_def distinct_tabs_ok)
qed

section \<open>The slice\<close>

definition aux_ok :: "aux_panes_state \<Rightarrow> bool" where
  "aux_ok s = (obj_ok (agentPanes s) \<and> (\<forall>k p. obj_get (agentPanes s) k = Some p \<longrightarrow> strip_ok p))"

lemma aux_ok_set: "aux_ok s \<Longrightarrow> strip_ok p \<Longrightarrow> aux_ok (setAuxPane s t p)"
  by (auto simp: aux_ok_def setAuxPane_def)

lemma aux_ok_open [simp]: "aux_ok (s\<lparr>isOpen := b\<rparr>) = aux_ok s"
  by (simp add: aux_ok_def)

lemma aux_ok_get: "aux_ok s \<Longrightarrow> getAuxPane s (Some t) = Some p \<Longrightarrow> strip_ok p"
  by (auto simp: aux_ok_def getAuxPane_def)

lemma ensure_ok:
  assumes "aux_ok s" and "ensurePane s t h = (s1, p)"
  shows "aux_ok s1" and "strip_ok p"
proof -
  have "strip_ok p \<and> aux_ok s1"
  proof (cases "getAuxPane s (Some t)")
    case None
    then show ?thesis
      using assms default_strip_ok aux_ok_set [OF assms(1)] by (auto simp: ensurePane_def Let_def)
  next
    case (Some q)
    have q: "strip_ok q" by (rule aux_ok_get [OF assms(1) Some])
    then have "activeTabId q \<noteq> None" by (auto simp: strip_ok_def active_ok_def)
    then show ?thesis
      using assms Some q aux_ok_set [OF assms(1)] by (auto simp: ensurePane_def Let_def)
  qed
  then show "aux_ok s1" "strip_ok p" by simp_all
qed

lemma ensure_fst_ok: "aux_ok s \<Longrightarrow> aux_ok (fst (ensurePane s t h))"
  using ensure_ok(1) by (metis prod.collapse)

lemma on_pane_ok: "aux_ok s \<Longrightarrow> (\<And>p. strip_ok p \<Longrightarrow> strip_ok (f p)) \<Longrightarrow> aux_ok (on_pane t f s)"
  using aux_ok_set aux_ok_get by (simp add: on_pane_def split: option.split)

lemma strips_ok:
  "list_all (\<lambda>(_, p). pane_raw_ok p) es \<Longrightarrow> obj_ok (sanitize_strips es) \<and>
   (\<forall>k p. obj_get (sanitize_strips es) k = Some p \<longrightarrow> strip_ok p \<and> distinct (tab_ids p))"
proof (induction es rule: rev_induct)
  case (snoc e es)
  obtain k r where e: "e = (k, r)" by fastforce
  have r: "pane_raw_ok r" using snoc.prems e by simp
  have IH: "obj_ok (sanitize_strips es)"
    "\<forall>k p. obj_get (sanitize_strips es) k = Some p \<longrightarrow> strip_ok p \<and> distinct (tab_ids p)"
    using snoc by simp_all
  have step: "sanitize_strips (es @ [e]) =
      (if k = [] \<or> k = NEW_PANE_AGENT_ID \<or> isShellPaneId (Some k) then sanitize_strips es
       else (case sanitizePane r of Some p \<Rightarrow> obj_set (sanitize_strips es) k p | None \<Rightarrow> sanitize_strips es))"
    by (simp add: sanitize_strips_def e split: option.split)
  show ?case
    using IH sanitizePane_ok [OF r] unfolding step by (auto split: option.split if_splits)
qed (simp add: sanitize_strips_def)

lemma hydrate_ok: "raw_ok raw \<Longrightarrow> aux_ok (sanitizeAuxPanesState raw)"
  using strips_ok [of "raw_entries raw"]
  by (auto simp: sanitizeAuxPanesState_def raw_ok_def raw_entries_def aux_ok_def initial_aux_panes_def Let_def
      split: option.splits js.splits)

fun aux_admissible :: "aux_action \<Rightarrow> bool" where
  "aux_admissible (OpenAuxTab a) = (obj_ok (op_content a) \<and> plain (op_content a))"
| "aux_admissible (UpdateAuxTabContent t i patch title) = (obj_ok patch \<and> plain patch)"
| "aux_admissible (RekeyAuxTab t i c title) = (obj_ok c \<and> plain c)"
| "aux_admissible (HydrateAuxPanes raw) = raw_ok raw"
| "aux_admissible _ = True"

lemma initial_aux_ok: "aux_ok initial_aux_panes"
  by (simp add: aux_ok_def initial_aux_panes_def)

lemma open_ok:
  assumes "aux_ok s" and "obj_ok (op_content a)" and "plain (op_content a)"
  shows "aux_ok (openAuxTab a s)"
proof -
  obtain s1 p where e: "ensurePane s (op_tree a) (op_hasChain a) = (s1, p)" by fastforce
  note ok = ensure_ok [OF assms(1) e]
  have "strip_ok (upsertTab p (op_content a) (op_title a))" if "isAuxContent (op_content a)"
    by (rule upsert_ok) (use ok that assms in \<open>simp_all add: strip_ok_def content_ok_def\<close>)
  then show ?thesis using assms(1) ok e by (simp add: openAuxTab_def aux_ok_set Let_def)
qed

lemma open_new_ok:
  assumes "aux_ok s"
  shows "aux_ok (openAuxNewTab t h s)"
proof -
  obtain s1 p where e: "ensurePane s t h = (s1, p)" by fastforce
  note ok = ensure_ok [OF assms e]
  then show ?thesis
    using e new_active_ok [OF materialize_ok] by (simp add: openAuxNewTab_def aux_ok_set strip_ok_def)
qed

lemma aux_step: "aux_ok s \<Longrightarrow> aux_admissible a \<Longrightarrow> aux_ok (aux_reduce s a)"
  by (cases a)
     (simp_all add: ensure_fst_ok open_ok open_new_ok setActiveAuxTab_def closeAuxTab_def moveAuxTab_def
        updateAuxTabContent_def rekeyAuxTab_def setAuxPaneOpen_def toggleAuxPane_def on_pane_ok activate_ok
        close_strip_ok move_strip_ok update_ok rekey_ok hydrate_ok initial_aux_ok Let_def)

interpretation aux_panes: reducer "\<lambda>s a. Some (aux_reduce s a)" aux_ok aux_admissible initial_aux_panes
  by unfold_locales (simp_all add: initial_aux_ok aux_step)

end
