(* ===== verification/AuxPanesProps.thy ===== *)
theory AuxPanesProps
  imports AuxPanesInv
begin

text \<open>
  What the reducers of the dock do: opening a tab shows it and keeps the others, closing one shows a
  neighbour, moving one is a permutation, an action touches the strip of its target only, and a
  persisted state is repaired.
\<close>

section \<open>Opening\<close>

lemma getAuxPane_set [simp]:
  "getAuxPane (setAuxPane s t p) (Some u) = (if auxStripKey u = auxStripKey t then Some p else getAuxPane s (Some u))"
  by (simp add: getAuxPane_def setAuxPane_def)

lemma getAuxPane_isOpen [simp]: "getAuxPane (s\<lparr>isOpen := b\<rparr>) t = getAuxPane s t"
  by (simp add: getAuxPane_def split: option.split)

lemma setAuxPane_set [simp]: "isOpen (setAuxPane s t p) = isOpen s"
  by (simp add: setAuxPane_def)

definition strip_of :: "aux_panes_state \<Rightarrow> aux_tree_id \<Rightarrow> bool option \<Rightarrow> aux_tabbed_pane" where
  "strip_of s t h = (case getAuxPane s (Some t) of Some p \<Rightarrow> p | None \<Rightarrow> createDefaultAuxPane (h \<noteq> Some False))"

lemma ensure_strip:
  assumes "aux_ok s"
  shows "snd (ensurePane s t h) = strip_of s t h"
    and "getAuxPane (fst (ensurePane s t h)) (Some u) =
          (if auxStripKey u = auxStripKey t then Some (strip_of s t h) else getAuxPane s (Some u))"
    and "isOpen (fst (ensurePane s t h)) = isOpen s"
proof -
  have "activeTabId p \<noteq> None" if "getAuxPane s (Some t) = Some p" for p
    using aux_ok_get [OF assms that] by (auto simp: strip_ok_def active_ok_def)
  then show "snd (ensurePane s t h) = strip_of s t h"
    "getAuxPane (fst (ensurePane s t h)) (Some u) =
       (if auxStripKey u = auxStripKey t then Some (strip_of s t h) else getAuxPane s (Some u))"
    "isOpen (fst (ensurePane s t h)) = isOpen s"
    by (auto simp: ensurePane_def strip_of_def Let_def split: option.split)
qed

lemma visible_ids: "map tab_id (visibleAuxTabs (Some p)) = tab_ids (materializeActive p)"
  by (auto simp: visibleAuxTabs_def materializeActive_def split: option.split)

text \<open>A tab that is not stored is visible at most once: as the tab the strip is seeded with.\<close>

lemma count_visible:
  assumes "i \<notin> set (tab_ids p)"
  shows "count_list (map tab_id (visibleAuxTabs (Some p))) i
    = (if i \<in> set (map tab_id (visibleAuxTabs (Some p))) then 1 else 0)"
  using assms unfolding visible_ids by (auto simp: materializeActive_def split: option.split)

lemma resolve_stored:
  assumes "activeTabId p = Some i" and "i \<in> set (tab_ids p)" and "i \<noteq> []" and "i \<noteq> NEW_TAB_ID"
  shows "\<exists>t \<in> set (tabs p). resolveActiveAuxTab (Some p) = Some t \<and> tab_id t = i"
proof -
  have "find (\<lambda>t. tab_id t = i) (tabs p) \<noteq> None"
    using assms(2) by (auto simp: find_None_iff)
  then obtain t where t: "find (\<lambda>t. tab_id t = i) (tabs p) = Some t" by blast
  then have "resolveActiveAuxTab (Some p) = Some t" using assms by (simp add: resolveActiveAuxTab_def)
  with t show ?thesis by (auto simp: find_Some_iff)
qed

lemma open_strip:
  assumes "aux_ok s" and "isAuxContent (op_content a)"
  shows "getAuxPane (openAuxTab a s) (Some u) =
           (if auxStripKey u = auxStripKey (op_tree a)
            then Some (upsertTab (strip_of s (op_tree a) (op_hasChain a)) (op_content a) (op_title a))
            else getAuxPane s (Some u))"
    and "isOpen (openAuxTab a s) = (op_openPane a \<noteq> Some False \<or> isOpen s)"
proof -
  obtain s1 p where e: "ensurePane s (op_tree a) (op_hasChain a) = (s1, p)" by fastforce
  note st = ensure_strip [OF assms(1), of "op_tree a" "op_hasChain a", unfolded e fst_conv snd_conv]
  show "getAuxPane (openAuxTab a s) (Some u) =
           (if auxStripKey u = auxStripKey (op_tree a)
            then Some (upsertTab (strip_of s (op_tree a) (op_hasChain a)) (op_content a) (op_title a))
            else getAuxPane s (Some u))"
    "isOpen (openAuxTab a s) = (op_openPane a \<noteq> Some False \<or> isOpen s)"
    using assms(2) e st by (simp_all add: openAuxTab_def Let_def)
qed

text \<open>
  C21. In a dock that satisfies the invariant, opening a valid content leaves the target's strip with
  that tab stored, active and resolved; every tab that was visible is still stored; the dock is open
  unless the action asks otherwise; no other strip changes; opening it again changes no tab id. When
  the content is already stored no tab is added. When it is not stored its tab is added at the end, after
  every visible tab: it is then stored once if it was not visible, but TWICE if it was the tab the strip is
  seeded with (visible and active without being stored), against the comment of \<open>openAuxTab\<close> that opening
  the same thing twice focuses the existing tab. \<open>open_seeded_twice\<close> is that case on a fresh strip.
\<close>

theorem open_tab_spec:
  assumes "aux_ok s" and "content_ok (op_content a)"
  defines "p \<equiv> strip_of s (op_tree a) (op_hasChain a)" and "i \<equiv> auxTabId (op_content a)"
  shows "\<exists>q. getAuxPane (openAuxTab a s) (Some (op_tree a)) = Some q \<and> activeTabId q = Some i
     \<and> (\<exists>t \<in> set (tabs q). resolveActiveAuxTab (Some q) = Some t \<and> tab_id t = i)
     \<and> tab_ids q = (if i \<in> set (tab_ids p) then tab_ids p else map tab_id (visibleAuxTabs (Some p)) @ [i])
     \<and> (i \<notin> set (tab_ids p) \<longrightarrow>
          count_list (tab_ids q) i = (if i \<in> set (map tab_id (visibleAuxTabs (Some p))) then 2 else 1))
     \<and> map_option tab_ids (getAuxPane (openAuxTab a (openAuxTab a s)) (Some (op_tree a))) = Some (tab_ids q)
     \<and> isOpen (openAuxTab a s) = (op_openPane a \<noteq> Some False \<or> isOpen s)
     \<and> (\<forall>u. auxStripKey u \<noteq> auxStripKey (op_tree a) \<longrightarrow>
            getAuxPane (openAuxTab a s) (Some u) = getAuxPane s (Some u))"
proof -
  have v: "isAuxContent (op_content a)" and ok': "aux_ok (openAuxTab a s)"
    using assms(2) open_ok [OF assms(1)] by (simp_all add: content_ok_def)
  note st = open_strip [OF assms(1) v] and st' = open_strip [OF ok' v]
  let ?q = "upsertTab p (op_content a) (op_title a)"
  have q: "getAuxPane (openAuxTab a s) (Some (op_tree a)) = Some ?q" by (simp add: st(1) p_def)
  note ids = upsert_ids [OF assms(2), of p "op_title a", folded i_def]
  have tab: "tab_ok (createAuxTab (op_content a) None)" by (rule tab_ok_create [OF assms(2)])
  then have ne: "i \<noteq> []" "i \<noteq> NEW_TAB_ID"
    using tab_ok_type [OF tab] tab_ok_not_new [OF tab] create_tab_id [OF assms(2)] by (simp_all add: i_def)
  have "strip_of (openAuxTab a s) (op_tree a) (op_hasChain a) = ?q" by (simp add: strip_of_def q)
  then have again: "map_option tab_ids (getAuxPane (openAuxTab a (openAuxTab a s)) (Some (op_tree a))) = Some (tab_ids ?q)"
    using st'(1) [of "op_tree a"] upsert_ids(1) [OF assms(2), of ?q "op_title a"] ids(3) by (simp add: i_def)
  show ?thesis
    using q ids again resolve_stored [OF ids(2) ids(3) ne] st count_visible [of i p]
    unfolding visible_ids by auto
qed

definition sample_open :: open_aux_payload where
  "sample_open = \<lparr>op_tree = AuxAgent ''a1'', op_content = [(''type'', Some (JStr ''agentPty'')),
     (''agentInstanceId'', Some (JStr ''a1''))], op_title = None, op_hasChain = Some True, op_openPane = None\<rparr>"

lemma sample_open_ok: "content_ok (op_content sample_open)"
  by (simp add: sample_open_def content_ok_def obj_ok_def plain_def isAuxContent_def kind_of_def
      AUX_TAB_KINDS_def js_trim_no_space_id is_js_space_def)

text \<open>The seeded overview of a fresh strip, opened explicitly.\<close>

definition open_overview :: open_aux_payload where
  "open_overview = \<lparr>op_tree = AuxAgent ''a1'', op_content = [(''type'', Some (JStr ''chainOverview''))],
     op_title = None, op_hasChain = Some True, op_openPane = None\<rparr>"

lemma open_overview_ok: "content_ok (op_content open_overview)"
  by (simp add: open_overview_def content_ok_def obj_ok_def plain_def isAuxContent_def kind_of_def
      AUX_TAB_KINDS_def)

theorem open_tab_spec_witness:
  "(\<exists>q. getAuxPane (openAuxTab sample_open initial_aux_panes) (Some (AuxAgent ''a1'')) = Some q \<and>
       activeTabId q = Some ''pty__a1'' \<and> tab_ids q = [''overview'', ''pty__a1''])
   \<and> (\<exists>q. getAuxPane (openAuxTab open_overview initial_aux_panes) (Some (AuxAgent ''a1'')) = Some q \<and>
       count_list (tab_ids q) ''overview'' = 2)"
proof -
  let ?p = "strip_of initial_aux_panes (AuxAgent ''a1'') (Some True)"
  have "auxTabId (op_content sample_open) = ''pty__a1''" "auxTabId (op_content open_overview) = ''overview''"
    by code_simp+
  moreover have "tab_ids ?p = []" by code_simp
  moreover have "map tab_id (visibleAuxTabs (Some ?p)) = [''overview'']" by code_simp
  moreover have "op_tree sample_open = AuxAgent ''a1''" "op_hasChain sample_open = Some True"
    "op_tree open_overview = AuxAgent ''a1''" "op_hasChain open_overview = Some True"
    by (simp_all add: sample_open_def open_overview_def)
  ultimately show ?thesis
    using open_tab_spec [OF initial_aux_ok sample_open_ok] open_tab_spec [OF initial_aux_ok open_overview_ok]
    by auto
qed

text \<open>
  The tab a strip is seeded with is active without being stored; opening it on a fresh strip stores it
  twice, so that the strip shows two tabs with one id.
\<close>

theorem open_seeded_twice:
  "map_option tab_ids (getAuxPane (openAuxTab open_overview initial_aux_panes) (Some (AuxAgent ''a1'')))
     = Some [''overview'', ''overview'']"
  by code_simp

section \<open>Runs\<close>

text \<open>
  C22. From the initial dock, any sequence of actions (contents and patches with session and chain ids
  without a colon and whole ports, persisted states of that kind) leads to a dock in which every strip is
  well-formed: each tab holds a valid content and has the id of that content, no id other than a fixed
  one is stored twice, and the active id is stored, fixed, or the launcher.
\<close>

theorem aux_runs_ok:
  assumes "list_all aux_admissible as"
  shows "\<exists>s. run_actions (\<lambda>s a. Some (aux_reduce s a)) initial_aux_panes as = Some s \<and> aux_ok s"
  using aux_panes.reachable_inv [OF assms] by blast

theorem aux_runs_ok_witness:
  "\<exists>s. run_actions (\<lambda>s a. Some (aux_reduce s a)) initial_aux_panes
         [OpenAuxTab sample_open, MoveAuxTab (AuxAgent ''a1'') ''pty__a1'' (Fin 0), CloseAuxTab (AuxAgent ''a1'') ''pty__a1'']
       = Some s \<and> aux_ok s"
  using sample_open_ok by (intro aux_runs_ok) (simp add: content_ok_def)

section \<open>Closing\<close>

definition next_active :: "aux_tab list \<Rightarrow> nat \<Rightarrow> string" where
  "next_active ts idx =
     (if Suc idx < length ts then tab_id (ts ! Suc idx)
      else if 0 < idx then tab_id (ts ! (idx - 1)) else NEW_TAB_ID)"

lemma next_active_select:
  assumes "idx < length ts"
  shows "(case (case arr_at (remove_at idx ts) idx of Some t \<Rightarrow> Some t
       | None \<Rightarrow> if idx = 0 then None else arr_at (remove_at idx ts) (idx - 1)) of
       Some t \<Rightarrow> tab_id t | None \<Rightarrow> NEW_TAB_ID) = next_active ts idx"
proof -
  have len: "length (remove_at idx ts) = length ts - 1" using assms by (simp add: remove_at_def)
  have nth: "remove_at idx ts ! k = (if k < idx then ts ! k else ts ! Suc k)" if "k < length ts - 1" for k
    using that assms by (auto simp: remove_at_def nth_append min_def)
  show ?thesis
    using assms nth [of idx] nth [of "idx - 1"] by (auto simp: arr_at_def next_active_def len split: if_splits)
qed

lemma ticket_not_fixed:
  assumes "tab_ok t" and "kind_of (tab_content t) = Some Ticket"
  shows "\<not> isFixedAuxTabId (Some (tab_id t))"
proof -
  have "tab_id t = ''ticket__'' @ clean (attr (tab_content t) ''chainId'') @ '':'' @
      clean (attr (tab_content t) ''taskId'')"
    using assms by (simp add: tab_ok_def auxTabId_def)
  then show ?thesis by (simp add: decode_tests)
qed

lemma close_ticket:
  assumes ok: "tab_ok (tabs p ! idx)" and idx: "find_index (\<lambda>t. tab_id t = i) (tabs p) = Some idx"
    and a: "activeTabId p = Some i" and kind: "kind_of (tab_content (tabs p ! idx)) = Some Ticket"
  shows "activeTabId (close_tab i p) = Some TASKS_TAB_ID \<and>
       tab_ids (close_tab i p) =
         (if TASKS_TAB_ID \<in> set (remove_at idx (tab_ids p)) then remove_at idx (tab_ids p)
          else remove_at idx (tab_ids p) @ [TASKS_TAB_ID])"
proof -
  let ?q = "p\<lparr>tabs := remove_at idx (tabs p)\<rparr>"
  note f = find_id_Some [OF idx]
  have "i \<noteq> NEW_TAB_ID" using tab_ok_not_new [OF ok] f(2) by simp
  moreover have "attr (tab_content (tabs p ! idx)) ''type'' = Some (JStr ''ticket'')"
    using kind by (simp add: kind_of_iff)
  ultimately have c: "close_tab i p = upsertTab ?q [(''type'', Some (JStr ''tasks''))] None"
    using a idx by (simp add: close_tab_def)
  have nofix: "\<not> isFixedAuxTabId (Some i)" using ticket_not_fixed [OF ok kind] f(2) by simp
  have "materializeActive ?q = ?q"
  proof (cases "resolveActiveAuxTab (Some ?q)")
    case (Some t)
    then have "tab_id t = i" using resolve_active_id [OF Some] a by simp
    then have "tab_id t \<in> set (tab_ids ?q)"
      using Some nofix a by (auto simp: resolveActiveAuxTab_def find_Some_iff split: if_splits option.splits)
    then show ?thesis using Some by (simp add: materializeActive_def)
  qed (simp add: materializeActive_def)
  moreover have "auxTabId [(''type'', Some (JStr ''tasks''))] = TASKS_TAB_ID" by code_simp
  ultimately show ?thesis
    unfolding c upsert_ids(1,2) [OF tasks_content_ok] by (simp add: map_remove_at)
qed

text \<open>
  Closing the first stored tab with an id removes exactly that tab. If it was not active the active id
  stays; if it was, the tab to its right becomes active, else the one to its left, else the launcher; only
  closing an active ticket shows the ticket board instead, as the active tab.
\<close>

theorem close_tab_spec:
  assumes "strip_ok p" and "find_index (\<lambda>t. tab_id t = i) (tabs p) = Some idx"
  defines "ticket \<equiv> kind_of (tab_content (tabs p ! idx)) = Some Ticket"
  shows "(activeTabId p \<noteq> Some i \<longrightarrow> close_tab i p = p\<lparr>tabs := remove_at idx (tabs p)\<rparr>) \<and>
    (activeTabId p = Some i \<and> \<not> ticket \<longrightarrow>
       close_tab i p = p\<lparr>tabs := remove_at idx (tabs p), activeTabId := Some (next_active (tabs p) idx)\<rparr>) \<and>
    (activeTabId p = Some i \<and> ticket \<longrightarrow>
       activeTabId (close_tab i p) = Some TASKS_TAB_ID \<and>
       tab_ids (close_tab i p) =
         (if TASKS_TAB_ID \<in> set (remove_at idx (tab_ids p)) then remove_at idx (tab_ids p)
          else remove_at idx (tab_ids p) @ [TASKS_TAB_ID]))"
proof -
  note f = find_id_Some [OF assms(2)]
  have ok: "tab_ok (tabs p ! idx)" using assms(1) f(1) by (simp add: strip_ok_def tabs_ok_nth)
  have new: "i \<noteq> NEW_TAB_ID" using tab_ok_not_new [OF ok] f(2) by simp
  have tick: "attr (tab_content (tabs p ! idx)) ''type'' = Some (JStr ''ticket'') \<longleftrightarrow> ticket"
    by (simp add: ticket_def kind_of_iff)
  note next' = next_active_select [OF f(1)]
  have "close_tab i p = p\<lparr>tabs := remove_at idx (tabs p)\<rparr>" if "activeTabId p \<noteq> Some i"
    using that new assms(2) by (simp add: close_tab_def)
  moreover have "close_tab i p = p\<lparr>tabs := remove_at idx (tabs p), activeTabId := Some (next_active (tabs p) idx)\<rparr>"
    if "activeTabId p = Some i" "\<not> ticket"
  proof -
    let ?q = "p\<lparr>tabs := remove_at idx (tabs p)\<rparr>"
    have "close_tab i p = ?q\<lparr>activeTabId := Some (case (case arr_at (tabs ?q) idx of Some t \<Rightarrow> Some t
       | None \<Rightarrow> if idx = 0 then None else arr_at (tabs ?q) (idx - 1)) of
       Some t \<Rightarrow> tab_id t | None \<Rightarrow> NEW_TAB_ID)\<rparr>"
      using new by (simp only: close_tab_def assms(2) option.case Let_def if_False that tick simp_thms if_True)
    moreover have "tabs ?q = remove_at idx (tabs p)" by simp
    ultimately show ?thesis by (simp only: next')
  qed
  ultimately show ?thesis using close_ticket [OF ok assms(2)] unfolding ticket_def by blast
qed

definition sample_strip :: aux_tabbed_pane where
  "sample_strip = upsertTab (createDefaultAuxPane True)
     [(''type'', Some (JStr ''ticket'')), (''chainId'', Some (JStr ''c1'')), (''taskId'', Some (JStr ''t1''))] None"

lemma sample_strip_ok: "strip_ok sample_strip"
proof -
  have "content_ok [(''type'', Some (JStr ''ticket'')), (''chainId'', Some (JStr ''c1'')), (''taskId'', Some (JStr ''t1''))]"
    by (simp add: content_ok_def obj_ok_def plain_def isAuxContent_def kind_of_def AUX_TAB_KINDS_def
        js_trim_no_space_id is_js_space_def)
  moreover have "tabs_ok (tabs (createDefaultAuxPane True))" using default_strip_ok by (simp add: strip_ok_def)
  ultimately show ?thesis unfolding sample_strip_def by (rule upsert_ok [rotated])
qed

theorem close_tab_spec_witness:
  "tab_ids sample_strip = [''overview'', ''ticket__c1:t1''] \<and>
   tab_ids (close_tab ''ticket__c1:t1'' sample_strip) = [''overview'', ''tasks''] \<and>
   activeTabId (close_tab ''ticket__c1:t1'' sample_strip) = Some ''tasks''"
proof -
  have i: "tab_ids sample_strip = [''overview'', ''ticket__c1:t1'']"
    and a: "activeTabId sample_strip = Some ''ticket__c1:t1''"
    and f: "find_index (\<lambda>t. tab_id t = ''ticket__c1:t1'') (tabs sample_strip) = Some 1"
    and k: "kind_of (tab_content (tabs sample_strip ! 1)) = Some Ticket"
    by code_simp+
  have "remove_at 1 [''overview'', ''ticket__c1:t1''] = [''overview'']" by (simp add: remove_at_def)
  then show ?thesis
    using close_tab_spec [OF sample_strip_ok f] i a k by (simp add: TASKS_TAB_ID_def)
qed

section \<open>Moving\<close>

text \<open>
  Moving a tab permutes the visible tabs (a seeded tab becomes a stored one first), keeps the active
  id, and puts the tab at the requested index cut to the range of the strip.
\<close>

theorem move_tab_spec:
  assumes "find_index (\<lambda>t. tab_id t = i) (visibleAuxTabs (Some p)) = Some from_i"
    and "clamp_index (length (visibleAuxTabs (Some p))) n = Some to_i"
  shows "mset (tabs (move_tab i n p)) = mset (visibleAuxTabs (Some p))
    \<and> activeTabId (move_tab i n p) = activeTabId p
    \<and> to_i < length (tabs (move_tab i n p))
    \<and> tabs (move_tab i n p) ! to_i = visibleAuxTabs (Some p) ! from_i
    \<and> remove_at to_i (tabs (move_tab i n p)) = remove_at from_i (visibleAuxTabs (Some p))"
proof -
  let ?ts = "tabs (materializeActive p)"
  have vis: "visibleAuxTabs (Some p) = ?ts"
    by (auto simp: visibleAuxTabs_def materializeActive_def split: option.split)
  note f = find_index_Some [OF assms(1) [unfolded vis]]
  have len: "length (remove_at from_i ?ts) = length ?ts - 1" using f by (simp add: remove_at_def)
  have to: "to_i \<le> length ?ts - 1"
    using assms(2) f unfolding vis by (cases n) auto
  have res: "tabs (move_tab i n p) =
      (if to_i = from_i then ?ts else insert_at to_i (?ts ! from_i) (remove_at from_i ?ts))"
    using assms unfolding vis by (auto simp: move_tab_def Let_def)
  have ins: "to_i < length (insert_at to_i x xs)" "insert_at to_i x xs ! to_i = x"
    "remove_at to_i (insert_at to_i x xs) = xs" if "to_i \<le> length xs" for x :: aux_tab and xs
    using that by (simp_all add: insert_at_def remove_at_def nth_append)
  have "to_i < length (tabs (move_tab i n p)) \<and> tabs (move_tab i n p) ! to_i = ?ts ! from_i
    \<and> remove_at to_i (tabs (move_tab i n p)) = remove_at from_i ?ts"
    using ins [of "remove_at from_i ?ts" "?ts ! from_i"] to f len unfolding res by auto
  moreover have "activeTabId (move_tab i n p) = activeTabId p"
    by (simp add: move_tab_def Let_def split: option.split)
  ultimately show ?thesis using move_ids_mset [of i n p] unfolding vis by simp
qed

theorem move_tab_spec_witness:
  "tab_ids (move_tab ''ticket__c1:t1'' NegInf sample_strip) = [''ticket__c1:t1'', ''overview''] \<and>
   mset (tabs (move_tab ''ticket__c1:t1'' NegInf sample_strip)) = mset (tabs sample_strip)"
proof -
  have v: "visibleAuxTabs (Some sample_strip) = tabs sample_strip"
    and f: "find_index (\<lambda>t. tab_id t = ''ticket__c1:t1'') (visibleAuxTabs (Some sample_strip)) = Some 1"
    and c: "clamp_index (length (visibleAuxTabs (Some sample_strip))) NegInf = Some 0"
    and m: "tab_ids (move_tab ''ticket__c1:t1'' NegInf sample_strip) = [''ticket__c1:t1'', ''overview'']"
    by code_simp+
  show ?thesis using move_tab_spec [OF f c] v m by simp
qed

section \<open>Independence and repair\<close>

fun action_strip :: "aux_action \<Rightarrow> string option" where
  "action_strip (EnsureAuxPane t h) = Some (auxStripKey t)"
| "action_strip (OpenAuxTab a) = Some (auxStripKey (op_tree a))"
| "action_strip (SetActiveAuxTab t i) = Some (auxStripKey t)"
| "action_strip (OpenAuxNewTab t h) = Some (auxStripKey t)"
| "action_strip (CloseAuxTab t i) = Some (auxStripKey t)"
| "action_strip (MoveAuxTab t i n) = Some (auxStripKey t)"
| "action_strip (UpdateAuxTabContent t i patch title) = Some (auxStripKey t)"
| "action_strip (RekeyAuxTab t i c title) = Some (auxStripKey t)"
| "action_strip (SetAuxPaneOpen t op h) = Some (auxStripKey t)"
| "action_strip (ToggleAuxPane t h) = Some (auxStripKey t)"
| "action_strip _ = None"

lemma on_pane_other: "auxStripKey u \<noteq> auxStripKey t \<Longrightarrow> getAuxPane (on_pane t f s) (Some u) = getAuxPane s (Some u)"
  by (simp add: on_pane_def split: option.split)

lemma ensure_other:
  "auxStripKey u \<noteq> auxStripKey t \<Longrightarrow> getAuxPane (fst (ensurePane s t h)) (Some u) = getAuxPane s (Some u)"
  by (simp add: ensurePane_def Let_def split: option.split)

lemmas strip_actions =
  setActiveAuxTab_def closeAuxTab_def moveAuxTab_def updateAuxTabContent_def rekeyAuxTab_def
  setAuxPaneOpen_def toggleAuxPane_def openAuxNewTab_def openAuxTab_def

text \<open>
  An action on the strip of one target leaves the strip of every other target as it is, on any state,
  so that a focus change never disturbs another conversation's tabs.
\<close>

theorem strips_independent:
  assumes "action_strip a = Some k" and "auxStripKey u \<noteq> k"
  shows "getAuxPane (aux_reduce s a) (Some u) = getAuxPane s (Some u)"
  using assms ensure_other [of u]
  by (cases a) (auto simp: strip_actions on_pane_other Let_def split: prod.split if_splits,
      (metis fst_conv)+)

theorem strips_independent_witness:
  "getAuxPane (aux_reduce (openAuxTab sample_open initial_aux_panes) (CloseAuxTab (AuxChain ''c1'') ''overview''))
     (Some (AuxAgent ''a1'')) = getAuxPane (openAuxTab sample_open initial_aux_panes) (Some (AuxAgent ''a1''))"
  by (rule strips_independent [of _ "''chain:c1''"]) code_simp+

text \<open>
  Whatever was persisted, the restored dock is well-formed: no two tabs of a strip share an id, every
  strip satisfies the invariant, and no strip belongs to the launcher, to a shell pane or to the empty id.
\<close>

theorem hydrate_repairs:
  assumes "raw_ok raw" and "obj_get (agentPanes (sanitizeAuxPanesState raw)) k = Some p"
  shows "strip_ok p \<and> distinct (tab_ids p) \<and> k \<noteq> [] \<and> k \<noteq> NEW_PANE_AGENT_ID \<and> \<not> isShellPaneId (Some k)"
proof -
  have strips: "agentPanes (sanitizeAuxPanesState raw) = sanitize_strips (raw_entries raw)"
    by (auto simp: sanitizeAuxPanesState_def raw_entries_def initial_aux_panes_def sanitize_strips_def Let_def
        split: option.splits js.splits)
  have keys: "obj_get (sanitize_strips es) k = Some p \<longrightarrow>
    k \<noteq> [] \<and> k \<noteq> NEW_PANE_AGENT_ID \<and> \<not> isShellPaneId (Some k)" for es
  proof (induction es rule: rev_induct)
    case (snoc e es)
    then show ?case
      by (auto simp: sanitize_strips_def split: prod.splits if_splits option.splits)
  qed (simp add: sanitize_strips_def)
  then show ?thesis
    using strips_ok [of "raw_entries raw"] assms unfolding strips raw_ok_def by blast
qed

definition sample_saved :: js where
  "sample_saved = JObj [(''agentPanes'', JObj
     [(''a1'', JObj [(''tabs'', JArr
        [JObj [(''content'', JObj [(''type'', JStr ''files'')])],
         JObj [(''content'', JObj [(''type'', JStr ''files'')])],
         JObj [(''content'', JObj [(''type'', JStr ''shell''), (''sessionId'', JStr '' '')])]]),
         (''activeTabId'', JStr ''gone''), (''isPaneOpen'', JBool True)]),
      (''sh_1'', JObj [])])]"

theorem hydrate_repairs_witness:
  "\<exists>p. obj_get (agentPanes (sanitizeAuxPanesState (Some sample_saved))) ''a1'' = Some p \<and>
       tab_ids p = [''files''] \<and> activeTabId p = Some ''files'' \<and> strip_ok p \<and> distinct (tab_ids p) \<and>
       isOpen (sanitizeAuxPanesState (Some sample_saved))"
proof -
  define p where "p = the (obj_get (agentPanes (sanitizeAuxPanesState (Some sample_saved))) ''a1'')"
  have e: "obj_get (agentPanes (sanitizeAuxPanesState (Some sample_saved))) ''a1'' = Some p"
    unfolding p_def by code_simp
  have i: "tab_ids p = [''files'']" "activeTabId p = Some ''files''"
    unfolding p_def by code_simp+
  have o: "isOpen (sanitizeAuxPanesState (Some sample_saved))" by code_simp
  have r: "raw_ok (Some sample_saved)"
    by (simp add: raw_ok_def raw_entries_def sample_saved_def pane_raw_ok_def js_items_def tab_raw_ok_def
        content_of_js_def obj_map_def obj_ok_def plain_def js_trim_def is_js_space_def)
  show ?thesis using hydrate_repairs [OF r e] e i o by simp
qed

end
