(* ===== verification/AuxGuards.thy ===== *)
theory AuxGuards
  imports AuxPanesProps
begin

text \<open>
  Which tab contents a conversation may open (\<open>src/ui/store/auxTabGuards.ts\<close>): chats and terminals of
  other agents are limited to the participants of the owner's task chain, the explorer tabs to users
  for whom the experiment resolved to enabled.
\<close>

record guard_context =
  gc_owner :: "string option"
  gc_chain :: "string option"
  gc_participants :: "string list option"
  gc_explorer :: "bool option"

definition isExplorerAuxContent :: "aux_content \<Rightarrow> bool" where
  "isExplorerAuxContent c =
     (attr c ''type'' = Some (JStr ''files'') \<or> attr c ''type'' = Some (JStr ''vcs''))"

definition filterExplorerAuxTabs :: "aux_tab list \<Rightarrow> bool \<Rightarrow> aux_tab list" where
  "filterExplorerAuxTabs ts explorerEnabled =
     (if explorerEnabled then ts else filter (\<lambda>t. \<not> isExplorerAuxContent (tab_content t)) ts)"

text \<open>\<open>String(v || '').trim()\<close>.\<close>

definition text_of :: "js option \<Rightarrow> string" where
  "text_of v = js_trim (if js_truthy v then js_to_string (the v) else [])"

text \<open>A \<open>Set\<close> of ids is the list of its members in insertion order.\<close>

definition member_id :: "js \<Rightarrow> string" where
  "member_id m =
     (let a = js_prop (Some m) ''agentInstanceId''; b = js_prop (Some m) ''agent_instance_id''
      in text_of (if js_truthy a then a else b))"

definition chainParticipantIdsFromMembers :: "js list option \<Rightarrow> string list" where
  "chainParticipantIdsFromMembers members =
     fold (\<lambda>m ids. let i = member_id m in if i = [] \<or> i \<in> set ids then ids else ids @ [i])
       (case members of Some ms \<Rightarrow> ms | None \<Rightarrow> []) []"

definition isAuxContentAllowed :: "aux_content \<Rightarrow> guard_context \<Rightarrow> bool" where
  "isAuxContentAllowed c ctx =
     (let owner = js_trim (opt_str (gc_owner ctx)); chain = js_trim (opt_str (gc_chain ctx));
          participants = (case gc_participants ctx of Some ps \<Rightarrow> if ps = [] then None else Some ps | None \<Rightarrow> None)
      in if isExplorerAuxContent c then gc_explorer ctx = Some True
         else if attr c ''type'' = Some (JStr ''subagentChat'')
         then (let target = text_of (attr c ''agentInstanceId'')
               in if target = [] \<or> target = owner \<or> chain = [] \<or> participants = None then False
                  else target \<in> set (the participants))
         else if attr c ''type'' = Some (JStr ''agentPty'')
         then (let target = text_of (attr c ''agentInstanceId'')
               in if target = [] then False
                  else if chain = [] then target = owner
                  else if participants = None then True
                  else target = owner \<or> target \<in> set (the participants))
         else True)"

definition explorerSafeActiveTab :: "aux_tab option \<Rightarrow> aux_tab list \<Rightarrow> bool \<Rightarrow> aux_tab option" where
  "explorerSafeActiveTab active storedTabs explorerEnabled =
     (case active of
        None \<Rightarrow> None
      | Some t \<Rightarrow>
          if explorerEnabled \<or> \<not> isExplorerAuxContent (tab_content t) then active
          else if tab_id t \<in> tab_id ` set storedTabs then active else None)"

lemma set_participants:
  "set (chainParticipantIdsFromMembers (Some ms)) = {i \<in> member_id ` set ms. i \<noteq> []}"
proof -
  have "set (fold (\<lambda>m ids. let i = member_id m in if i = [] \<or> i \<in> set ids then ids else ids @ [i]) ms acc)
    = set acc \<union> {i \<in> member_id ` set ms. i \<noteq> []}" for acc
    by (induction ms arbitrary: acc) (auto simp: Let_def)
  from this [of "[]"] show ?thesis by (simp add: chainParticipantIdsFromMembers_def)
qed

text \<open>
  C23. Once the members of the owner's chain are known (one of them has an id), the only agents whose
  chat or terminal may be opened are the members, and of the owner only the terminal; without a chain
  only the owner's terminal may be opened; and with the explorer not enabled a fresh chain-less strip
  shows no explorer tab.
\<close>

theorem guards_admit_participants:
  assumes "kind_of c = Some k" and "k = SubagentChat \<or> k = AgentPty"
    and "gc_participants ctx = Some (chainParticipantIdsFromMembers (Some ms))"
    and "\<exists>m \<in> set ms. member_id m \<noteq> []" and "isAuxContentAllowed c ctx"
  defines "target \<equiv> text_of (attr c ''agentInstanceId'')" and "owner \<equiv> js_trim (opt_str (gc_owner ctx))"
    and "chain \<equiv> js_trim (opt_str (gc_chain ctx))"
  shows "target \<noteq> [] \<and> (chain = [] \<longrightarrow> k = AgentPty \<and> target = owner)
    \<and> (chain \<noteq> [] \<longrightarrow> target \<in> member_id ` set ms \<or> k = AgentPty \<and> target = owner)
    \<and> (k = SubagentChat \<longrightarrow> target \<noteq> owner)
    \<and> explorerSafeActiveTab (resolveActiveAuxTab (Some (createDefaultAuxPane False))) [] False = None"
proof -
  have nonempty: "chainParticipantIdsFromMembers (Some ms) \<noteq> []"
    using set_participants [of ms] assms(4) by (metis (mono_tags, lifting) empty_iff image_eqI list.set(1) mem_Collect_eq)
  have ty: "attr c ''type'' = Some (JStr (kind_name k))" using assms(1) by (simp add: kind_of_iff)
  then have "\<not> isExplorerAuxContent c" using assms(2) by (auto simp: isExplorerAuxContent_def)
  moreover have "explorerSafeActiveTab (resolveActiveAuxTab (Some (createDefaultAuxPane False))) [] False = None"
    by code_simp
  moreover have "kind_name SubagentChat = ''subagentChat''" "kind_name AgentPty = ''agentPty''" by simp_all
  moreover have "case k of SubagentChat \<Rightarrow> target \<noteq> [] \<and> target \<noteq> owner \<and> chain \<noteq> [] \<and> target \<in> member_id ` set ms
      | _ \<Rightarrow> target \<noteq> [] \<and> (if chain = [] then target = owner else target = owner \<or> target \<in> member_id ` set ms)"
    if "\<not> isExplorerAuxContent c"
    using assms(2) 
  proof
    assume k: "k = SubagentChat"
    then show ?thesis using assms(5) ty that nonempty set_participants [of ms]
      by (simp add: isAuxContentAllowed_def assms(3) target_def owner_def chain_def Let_def split: if_splits)
  next
    assume k: "k = AgentPty"
    then show ?thesis using assms(5) ty that nonempty set_participants [of ms]
      by (simp add: isAuxContentAllowed_def assms(3) target_def owner_def chain_def Let_def split: if_splits)
  qed
  ultimately show ?thesis using assms(2) by (auto split: if_splits)
qed

theorem guards_admit_participants_witness:
  "js_trim (opt_str (Some '' c1 '')) \<noteq> [] \<and>
   text_of (attr [(''type'', Some (JStr ''subagentChat'')), (''agentInstanceId'', Some (JStr ''a2''))] ''agentInstanceId'')
     \<in> member_id ` set [JObj [(''agent_instance_id'', JStr '' a2 '')], JNull]"
proof -
  let ?c = "[(''type'', Some (JStr ''subagentChat'')), (''agentInstanceId'', Some (JStr ''a2''))]"
  let ?ms = "[JObj [(''agent_instance_id'', JStr '' a2 '')], JNull]"
  let ?ctx = "\<lparr>gc_owner = Some ''a1'', gc_chain = Some '' c1 '',
    gc_participants = Some (chainParticipantIdsFromMembers (Some ?ms)), gc_explorer = None\<rparr>"
  have k: "kind_of ?c = Some SubagentChat" by code_simp
  have m: "\<exists>m \<in> set ?ms. member_id m \<noteq> []" by code_simp
  have a: "isAuxContentAllowed ?c ?ctx" by code_simp
  have t: "js_trim (opt_str (gc_chain ?ctx)) \<noteq> []" by code_simp
  show ?thesis using guards_admit_participants [OF k _ _ m a] t by simp
qed

end
