(* ===== verification/Bytes.thy ===== *)
theory Bytes
  imports JsPrelude "HOL-Library.Word" PaneTarget
begin

text \<open>
  Byte arrays: big-endian numbers as \<open>DataView\<close> reads and writes them, the hexadecimal spelling of
  bytes, the conversions between code units and bytes, and UTF-8 of one-byte code units. Every codec
  is an instance of \<open>partial_codec\<close>.
\<close>

type_synonym byte = "8 word"
type_synonym bytes = "byte list"

section \<open>Big-endian numbers\<close>

text \<open>\<open>setUint16\<close>, \<open>setUint32\<close>, \<open>setBigUint64\<close> write the lowest bytes; the getters read them back.\<close>

primrec be_bytes :: "nat \<Rightarrow> nat \<Rightarrow> bytes" where
  "be_bytes 0 n = []"
| "be_bytes (Suc k) n = be_bytes k (n div 256) @ [word_of_nat n]"

definition be_value :: "bytes \<Rightarrow> nat" where
  "be_value bs = foldl (\<lambda>a b. 256 * a + unat b) 0 bs"

lemma length_be_bytes [simp]: "length (be_bytes k n) = k"
  by (induction k arbitrary: n) simp_all

lemma be_value_snoc [simp]: "be_value (bs @ [b]) = 256 * be_value bs + unat b"
  by (simp add: be_value_def)

lemma be_value_Nil [simp]: "be_value [] = 0"
  by (simp add: be_value_def)

lemma unat_byte: "unat (b :: byte) < 256"
  using unsigned_less [of b] by simp

lemma unat_of_nat_byte [simp]: "unat (word_of_nat n :: byte) = n mod 256"
  by (simp add: unat_of_nat take_bit_eq_mod)

lemma be_value_bytes: "be_value (be_bytes k n) = n mod 256 ^ k"
proof (induction k arbitrary: n)
  case (Suc k)
  have "n mod 256 ^ Suc k = 256 * (n div 256 mod 256 ^ k) + n mod 256"
    by (simp add: mod_mult2_eq)
  with Suc show ?case by simp
qed simp

lemma be_value_bytes_id [simp]: "n < 256 ^ k \<Longrightarrow> be_value (be_bytes k n) = n"
  by (simp add: be_value_bytes)

lemma be_bytes_value [simp]: "length bs = k \<Longrightarrow> be_bytes k (be_value bs) = bs"
proof (induction bs arbitrary: k rule: rev_induct)
  case (snoc b bs)
  have "be_value (bs @ [b]) div 256 = be_value bs" using unat_byte [of b] by simp
  moreover have "(word_of_nat (be_value (bs @ [b])) :: byte) = b"
  proof (rule word_unat_eq_iff [THEN iffD2])
    have "unat (word_of_nat (be_value (bs @ [b])) :: byte) = be_value (bs @ [b]) mod 256"
      by (rule unat_of_nat_byte)
    also have "\<dots> = unat b" using unat_byte [of b] by simp
    finally show "unat (word_of_nat (be_value (bs @ [b])) :: byte) = unat b" .
  qed
  ultimately show ?case using snoc by auto
qed simp

lemma be_value_bound: "be_value bs < 256 ^ length bs"
  by (metis be_bytes_value be_value_bytes mod_less_divisor zero_less_numeral zero_less_power)

interpretation u32_codec: partial_codec "be_bytes 4" "\<lambda>bs. if length bs = 4 then Some (be_value bs) else None"
    "\<lambda>n. n < 4294967296"
  by unfold_locales simp

interpretation u64_codec: partial_codec "be_bytes 8" "\<lambda>bs. if length bs = 8 then Some (be_value bs) else None"
    "\<lambda>n. n < 18446744073709551616"
  by unfold_locales simp

text \<open>\<open>arr.set(bs, off)\<close> inside the bounds, and \<open>arr.subarray(a, b)\<close>.\<close>

definition write_at :: "nat \<Rightarrow> bytes \<Rightarrow> bytes \<Rightarrow> bytes" where
  "write_at off bs arr = take off arr @ bs @ drop (off + length bs) arr"

definition sub_bytes :: "nat \<Rightarrow> nat \<Rightarrow> bytes \<Rightarrow> bytes" where
  "sub_bytes a b arr = take (b - a) (drop a arr)"

lemma write_at_append [simp]:
  "length a = off \<Longrightarrow> length b = length bs \<Longrightarrow> write_at off bs (a @ b @ c) = a @ bs @ c"
  by (simp add: write_at_def)

lemma length_write_at: "off + length bs \<le> length arr \<Longrightarrow> length (write_at off bs arr) = length arr"
  by (simp add: write_at_def)

section \<open>Hexadecimal\<close>

definition hex_char :: "nat \<Rightarrow> char" where
  "hex_char n = char_of (if n < 10 then 48 + n else 87 + n)"

definition hex_code :: "char \<Rightarrow> nat option" where
  "hex_code c =
     (let n = of_char c in
      if 48 \<le> n \<and> n \<le> 57 then Some (n - 48) else if 97 \<le> n \<and> n \<le> 102 then Some (n - 87) else None)"

definition hex_byte :: "byte \<Rightarrow> string" where
  "hex_byte b = [hex_char (unat b div 16), hex_char (unat b mod 16)]"

definition bytesToHex :: "bytes \<Rightarrow> string" where
  "bytesToHex bs = concat (map hex_byte bs)"

text \<open>The pairs of lowercase hex digits, as \<open>parseInt(.., 16)\<close> reads them; \<open>None\<close> when one is not a digit.\<close>

fun hex_pairs :: "string \<Rightarrow> bytes option" where
  "hex_pairs [] = Some []"
| "hex_pairs [c] = None"
| "hex_pairs (c # d # r) =
     (case (hex_code c, hex_code d, hex_pairs r) of
        (Some x, Some y, Some bs) \<Rightarrow> Some (word_of_nat (16 * x + y) # bs)
      | _ \<Rightarrow> None)"

definition lower_char :: "char \<Rightarrow> char" where
  "lower_char c =
     (let n = of_char c :: nat in
      if 65 \<le> n \<and> n \<le> 90 \<or> 192 \<le> n \<and> n \<le> 222 \<and> n \<noteq> 215 then char_of (n + 32) else c)"

datatype hex_error = OddHexLength | InvalidHexCharacter

definition hexToBytes :: "string \<Rightarrow> hex_error + bytes" where
  "hexToBytes hex =
     (let c = map lower_char (js_trim hex) in
      if length c mod 2 \<noteq> 0 then Inl OddHexLength
      else (case hex_pairs c of None \<Rightarrow> Inl InvalidHexCharacter | Some bs \<Rightarrow> Inr bs))"

lemma hex_code_char: "n < 16 \<Longrightarrow> hex_code (hex_char n) = Some n"
  by (auto simp: hex_code_def hex_char_def Let_def)

lemma of_hex_char: "n < 16 \<Longrightarrow> of_char (hex_char n) = (if n < 10 then 48 + n else 87 + n)"
  by (simp add: hex_char_def)

lemma hex_char_plain:
  assumes "n < 16"
  shows "\<not> is_js_space (hex_char n)" and "lower_char (hex_char n) = hex_char n" and "hex_char n \<noteq> CHR ''|''"
proof -
  note v = of_hex_char [OF assms]
  show "\<not> is_js_space (hex_char n)" "lower_char (hex_char n) = hex_char n"
    using assms by (auto simp: is_js_space_def lower_char_def v Let_def)
  have "(of_char (CHR ''|'') :: nat) = 124" by simp
  then show "hex_char n \<noteq> CHR ''|''" using v assms by (auto split: if_splits)
qed

lemma byte_nibbles: "unat (b :: byte) div 16 < 16" "unat b mod 16 < 16"
  "16 * (unat b div 16) + unat b mod 16 = unat b"
  using unat_byte [of b] by simp_all

lemma hex_pairs_byte [simp]:
  "hex_pairs (hex_byte b @ s) = (case hex_pairs s of Some bs \<Rightarrow> Some (b # bs) | None \<Rightarrow> None)"
  by (simp add: hex_byte_def hex_code_char byte_nibbles split: option.split)

lemma hex_pairs_hex: "hex_pairs (bytesToHex bs) = Some bs"
  by (induction bs) (simp_all add: bytesToHex_def)

lemma length_bytesToHex [simp]: "length (bytesToHex bs) = 2 * length bs"
  by (induction bs) (simp_all add: bytesToHex_def hex_byte_def)

lemma hex_units: "c \<in> set (bytesToHex bs) \<Longrightarrow> \<exists>n < 16. c = hex_char n"
proof (induction bs)
  case (Cons b bs)
  have "\<exists>n < 16. hex_char (unat b div 16) = hex_char n" "\<exists>n < 16. hex_char (unat b mod 16) = hex_char n"
    using byte_nibbles by blast+
  then show ?case using Cons by (auto simp: bytesToHex_def hex_byte_def)
qed (simp add: bytesToHex_def)

lemma hexToBytes_hex: "hexToBytes (bytesToHex bs) = Inr bs"
proof -
  have "js_trim (bytesToHex bs) = bytesToHex bs"
    by (rule js_trim_no_space_id) (use hex_units hex_char_plain in blast)
  moreover have "map lower_char (bytesToHex bs) = bytesToHex bs"
    by (rule map_idI) (use hex_units hex_char_plain in blast)
  ultimately show ?thesis by (simp add: hexToBytes_def hex_pairs_hex)
qed

interpretation hex_codec: partial_codec bytesToHex hex_pairs "\<lambda>_. True"
  by unfold_locales (simp add: hex_pairs_hex)

section \<open>Code units and UTF-8\<close>

definition char_byte :: "char \<Rightarrow> byte" where
  "char_byte c = word_of_nat (of_char c)"

definition byte_char :: "byte \<Rightarrow> char" where
  "byte_char b = char_of (unat b)"

lemma char_byte_inverse [simp]: "byte_char (char_byte c) = c" "char_byte (byte_char b) = b"
proof -
  show "byte_char (char_byte c) = c" by (simp add: byte_char_def char_byte_def)
  have "word_of_nat (unat b) = b" by simp
  then show "char_byte (byte_char b) = b" using unat_byte [of b] by (simp add: byte_char_def char_byte_def)
qed

interpretation unit_codec: partial_codec "map char_byte" "\<lambda>bs. Some (map byte_char bs)" "\<lambda>_. True"
  by unfold_locales (simp add: comp_def)

text \<open>\<open>new TextEncoder().encode(s)\<close>.\<close>

definition utf8_char :: "char \<Rightarrow> bytes" where
  "utf8_char c =
     (let n = of_char c in
      if n < 128 then [word_of_nat n] else [word_of_nat (192 + n div 64), word_of_nat (128 + n mod 64)])"

definition utf8_encode :: "string \<Rightarrow> bytes" where
  "utf8_encode s = concat (map utf8_char s)"

fun utf8_prefix :: "bytes \<Rightarrow> char option" where
  "utf8_prefix (b # r) =
     (if unat b < 128 then Some (char_of (unat b))
      else (case r of b2 # _ \<Rightarrow> Some (char_of (64 * (unat b - 192) + (unat b2 - 128))) | [] \<Rightarrow> None))"
| "utf8_prefix [] = None"

lemma utf8_char_nonempty [simp]: "utf8_char c \<noteq> []"
  by (simp add: utf8_char_def Let_def)

lemma utf8_prefix_char: "utf8_prefix (utf8_char c @ s) = Some c"
proof -
  define n where "n = (of_char c :: nat)"
  have n: "n < 256" "char_of n = c" by (simp_all add: n_def)
  show ?thesis
  proof (cases "n < 128")
    case True
    then have "utf8_char c = [word_of_nat n]" by (simp add: utf8_char_def n_def [symmetric])
    then show ?thesis using True n(2) by simp
  next
    case False
    then have u: "utf8_char c = [word_of_nat (192 + n div 64), word_of_nat (128 + n mod 64)]"
      by (simp add: utf8_char_def n_def [symmetric])
    have w: "unat (word_of_nat (192 + n div 64) :: byte) = 192 + n div 64"
      unfolding unat_of_nat_byte by (rule mod_less) (use n(1) in simp)
    have w2: "unat (word_of_nat (128 + n mod 64) :: byte) = 128 + n mod 64"
      unfolding unat_of_nat_byte by (rule mod_less) simp
    have "64 * (n div 64) + n mod 64 = n" by simp
    then show ?thesis
      unfolding u append_Cons append_Nil utf8_prefix.simps list.case w w2 by (simp add: n(2))
  qed
qed

lemma utf8_encode_inj: "utf8_encode s = utf8_encode t \<longleftrightarrow> s = t"
proof
  show "utf8_encode s = utf8_encode t \<Longrightarrow> s = t"
  proof (induction s arbitrary: t)
    case Nil
    then show ?case by (cases t) (simp_all add: utf8_encode_def)
  next
    case (Cons c s)
    then obtain d t' where t: "t = d # t'"
      by (cases t) (simp_all add: utf8_encode_def)
    have eq: "utf8_char c @ utf8_encode s = utf8_char d @ utf8_encode t'"
      using Cons.prems by (simp add: t utf8_encode_def)
    have "Some c = Some d"
      by (subst utf8_prefix_char [of c "utf8_encode s", symmetric], subst eq) (rule utf8_prefix_char)
    then have "c = d" by simp
    with eq Cons.IH [of t'] show ?case by (simp add: t)
  qed
qed simp

end
