(* ===== verification/VaultKeyring.thy ===== *)
theory VaultKeyring
  imports Bytes JsValue
begin

text \<open>
  The vault keyring (\<open>src/ui/utils/vaultKeyring.ts\<close>): the HKR2 byte layout of the epoch keys of one
  account, its parser and printer, and the keyring of imported keys. A raise is the left injection;
  importing a raw key with WebCrypto is an argument.
\<close>

section \<open>Constants and grammars\<close>

definition KEYRING_MAGIC :: string where "KEYRING_MAGIC = ''HKR2''"
definition KEYRING_MAX_EPOCHS :: nat where "KEYRING_MAX_EPOCHS = 64"
definition KEYRING_MAX_USER_ID :: nat where "KEYRING_MAX_USER_ID = 64"
definition KEYRING_KEY_BYTES :: nat where "KEYRING_KEY_BYTES = 32"
definition VAULT_ID_BYTES :: nat where "VAULT_ID_BYTES = 8"
definition KEYRING_ENTRY_BYTES :: nat where "KEYRING_ENTRY_BYTES = 4 + KEYRING_KEY_BYTES"
definition KEYRING_MAX_BYTES :: nat where
  "KEYRING_MAX_BYTES =
     4 + 2 + KEYRING_MAX_USER_ID + VAULT_ID_BYTES + 4 + 2 + KEYRING_MAX_EPOCHS * KEYRING_ENTRY_BYTES"
definition MAX_EPOCH :: int where "MAX_EPOCH = 4294967295"

lemmas keyring_sizes =
  KEYRING_MAX_EPOCHS_def KEYRING_MAX_USER_ID_def KEYRING_KEY_BYTES_def VAULT_ID_BYTES_def
  KEYRING_ENTRY_BYTES_def KEYRING_MAX_BYTES_def

definition VAULT_ID_RE :: "string \<Rightarrow> bool" where
  "VAULT_ID_RE s = (length s = 16 \<and> list_all (\<lambda>c. hex_code c \<noteq> None) s)"

definition is_id_char :: "char \<Rightarrow> bool" where
  "is_id_char c =
     (let n = of_char c :: nat in
      65 \<le> n \<and> n \<le> 90 \<or> 97 \<le> n \<and> n \<le> 122 \<or> 48 \<le> n \<and> n \<le> 57 \<or> n = 95 \<or> n = 46 \<or> n = 58 \<or> n = 45)"

definition ID_VALUE_RE :: "string \<Rightarrow> bool" where
  "ID_VALUE_RE s = list_all is_id_char s"

definition isValidAadId :: "js option \<Rightarrow> bool" where
  "isValidAadId v =
     (case js_string v of None \<Rightarrow> False | Some s \<Rightarrow> 0 < length s \<and> length s \<le> 256 \<and> ID_VALUE_RE s)"

text \<open>\<open>Number.isInteger\<close> and the integer it holds of.\<close>

definition js_whole :: "jsnum \<Rightarrow> bool" where
  "js_whole n = (case n of Fin r \<Rightarrow> r = of_int \<lfloor>r\<rfloor> | _ \<Rightarrow> False)"

definition num_int :: "jsnum \<Rightarrow> int" where
  "num_int n = (case n of Fin r \<Rightarrow> \<lfloor>r\<rfloor> | _ \<Rightarrow> 0)"

section \<open>The parsed keyring\<close>

record keyring_entry =
  ke_epoch :: jsnum
  ke_key :: bytes

record parsed_keyring =
  pk_userId :: string
  pk_vaultId :: string
  pk_currentEpoch :: jsnum
  pk_entries :: "keyring_entry list"

datatype keyring_error =
    BadUserIdLength | BadUserIdCharacters | BadVaultId | BadEntryCount | BadEpochRange | EpochsNotAscending
  | CurrentEpochNotNewest | BadLength | BadMagic | Truncated | LengthMismatch | OtherUser | BadKeyLength
  | CurrentKeyMissing

fun validate_epochs :: "int \<Rightarrow> jsnum list \<Rightarrow> keyring_error option" where
  "validate_epochs prev [] = None"
| "validate_epochs prev (e # es) =
     (if \<not> js_whole e \<or> num_int e < 1 \<or> MAX_EPOCH < num_int e then Some BadEpochRange
      else if num_int e \<le> prev then Some EpochsNotAscending
      else validate_epochs (num_int e) es)"

definition validateParsed :: "string \<Rightarrow> string \<Rightarrow> jsnum \<Rightarrow> jsnum list \<Rightarrow> keyring_error option" where
  "validateParsed userId vaultId currentEpoch epochs =
     (if length userId < 1 \<or> KEYRING_MAX_USER_ID < length userId then Some BadUserIdLength
      else if \<not> ID_VALUE_RE userId then Some BadUserIdCharacters
      else if \<not> VAULT_ID_RE vaultId \<or> vaultId = replicate 16 (CHR ''0'') then Some BadVaultId
      else if length epochs < 1 \<or> KEYRING_MAX_EPOCHS < length epochs then Some BadEntryCount
      else (case validate_epochs 0 epochs of
              Some err \<Rightarrow> Some err
            | None \<Rightarrow> if currentEpoch \<noteq> last epochs then Some CurrentEpochNotNewest else None))"

definition js_nat :: "nat \<Rightarrow> jsnum" where
  "js_nat n = Fin (of_nat n)"

fun parse_entries :: "nat \<Rightarrow> nat \<Rightarrow> bytes \<Rightarrow> keyring_entry list" where
  "parse_entries 0 off bs = []"
| "parse_entries (Suc n) off bs =
     \<lparr>ke_epoch = js_nat (be_value (sub_bytes off (off + 4) bs)),
      ke_key = sub_bytes (off + 4) (off + KEYRING_ENTRY_BYTES) bs\<rparr>
     # parse_entries n (off + KEYRING_ENTRY_BYTES) bs"

definition parseKeyringBytes :: "bytes \<Rightarrow> string option \<Rightarrow> keyring_error + parsed_keyring" where
  "parseKeyringBytes bs expectedUserId =
     (if length bs < 6 \<or> KEYRING_MAX_BYTES < length bs then Inl BadLength
      else if map byte_char (sub_bytes 0 4 bs) \<noteq> KEYRING_MAGIC then Inl BadMagic
      else
        (let uidLen = be_value (sub_bytes 4 6 bs) in
         if uidLen < 1 \<or> KEYRING_MAX_USER_ID < uidLen then Inl BadUserIdLength
         else if length bs < 6 + uidLen + VAULT_ID_BYTES + 6 then Inl Truncated
         else
           (let off = 6 + uidLen;
                userId = map byte_char (sub_bytes 6 off bs);
                off1 = off + VAULT_ID_BYTES;
                vaultId = bytesToHex (sub_bytes off off1 bs);
                currentEpoch = js_nat (be_value (sub_bytes off1 (off1 + 4) bs));
                count = be_value (sub_bytes (off1 + 4) (off1 + 6) bs)
            in if count < 1 \<or> KEYRING_MAX_EPOCHS < count then Inl BadEntryCount
               else if length bs \<noteq> off1 + 6 + count * KEYRING_ENTRY_BYTES then Inl LengthMismatch
               else
                 (let entries = parse_entries count (off1 + 6) bs in
                  case validateParsed userId vaultId currentEpoch (map ke_epoch entries) of
                    Some err \<Rightarrow> Inl err
                  | None \<Rightarrow>
                      if truthy expectedUserId \<and> Some userId \<noteq> expectedUserId then Inl OtherUser
                      else Inr \<lparr>pk_userId = userId, pk_vaultId = vaultId, pk_currentEpoch = currentEpoch,
                                pk_entries = entries\<rparr>))))"

text \<open>The array is filled field after field, with \<open>setUint32\<close> of a whole number.\<close>

definition entry_bytes :: "keyring_entry \<Rightarrow> bytes" where
  "entry_bytes e = be_bytes 4 (nat (num_int (ke_epoch e))) @ ke_key e"

definition serializeKeyringBytes :: "parsed_keyring \<Rightarrow> keyring_error + bytes" where
  "serializeKeyringBytes p =
     (case validateParsed (pk_userId p) (pk_vaultId p) (pk_currentEpoch p) (map ke_epoch (pk_entries p)) of
        Some err \<Rightarrow> Inl err
      | None \<Rightarrow>
          if list_ex (\<lambda>e. length (ke_key e) \<noteq> KEYRING_KEY_BYTES) (pk_entries p) then Inl BadKeyLength
          else Inr (map char_byte KEYRING_MAGIC @ be_bytes 2 (length (pk_userId p))
                    @ map char_byte (pk_userId p)
                    @ (case hex_pairs (pk_vaultId p) of Some v \<Rightarrow> v | None \<Rightarrow> [])
                    @ be_bytes 4 (nat (num_int (pk_currentEpoch p)))
                    @ be_bytes 2 (length (pk_entries p))
                    @ concat (map entry_bytes (pk_entries p))))"

section \<open>The imported keyring\<close>

text \<open>
  \<open>'k\<close> are AES-GCM keys and \<open>'b\<close> HKDF base keys; a base key may be a pending import that fails
  (\<open>None\<close>). A \<open>Map\<close> is the list of its entries in insertion order.
\<close>

record ('k, 'b) vault_keyring =
  kr_userId :: string
  kr_vaultId :: string
  kr_currentEpoch :: jsnum
  kr_keys :: "(jsnum \<times> 'k) list"
  kr_ptyBaseKeys :: "(jsnum \<times> 'b option) list option"

definition map_set :: "'a \<Rightarrow> 'v \<Rightarrow> ('a \<times> 'v) list \<Rightarrow> ('a \<times> 'v) list" where
  "map_set k v m = (if k \<in> fst ` set m then map (\<lambda>(j, w). (j, if j = k then v else w)) m else m @ [(k, v)])"

definition importPtyBaseKey :: "(bytes \<Rightarrow> 'b) \<Rightarrow> bytes \<Rightarrow> keyring_error + 'b" where
  "importPtyBaseKey imp raw = (if length raw \<noteq> KEYRING_KEY_BYTES then Inl BadKeyLength else Inr (imp raw))"

fun import_entries ::
  "(bytes \<Rightarrow> 'k) \<Rightarrow> (bytes \<Rightarrow> 'b) \<Rightarrow> keyring_entry list \<Rightarrow>
   (jsnum \<times> 'k) list \<Rightarrow> (jsnum \<times> 'b option) list \<Rightarrow>
   keyring_error + ((jsnum \<times> 'k) list \<times> (jsnum \<times> 'b option) list)" where
  "import_entries ik ib [] keys bases = Inr (keys, bases)"
| "import_entries ik ib (e # es) keys bases =
     (case importPtyBaseKey ib (ke_key e) of
        Inl err \<Rightarrow> Inl err
      | Inr b \<Rightarrow> import_entries ik ib es (map_set (ke_epoch e) (ik (ke_key e)) keys)
                   (map_set (ke_epoch e) (Some b) bases))"

text \<open>The second component is what the caller's array holds afterwards.\<close>

definition importKeyring ::
  "(bytes \<Rightarrow> 'k) \<Rightarrow> (bytes \<Rightarrow> 'b) \<Rightarrow> bytes \<Rightarrow> string option \<Rightarrow>
   (keyring_error + ('k, 'b) vault_keyring) \<times> bytes" where
  "importKeyring ik ib bs expectedUserId =
     ((case parseKeyringBytes bs expectedUserId of
         Inl err \<Rightarrow> Inl err
       | Inr p \<Rightarrow>
           (case import_entries ik ib (pk_entries p) [] [] of
              Inl err \<Rightarrow> Inl err
            | Inr (keys, bases) \<Rightarrow>
                Inr \<lparr>kr_userId = pk_userId p, kr_vaultId = pk_vaultId p,
                     kr_currentEpoch = pk_currentEpoch p, kr_keys = keys, kr_ptyBaseKeys = Some bases\<rparr>)),
      replicate (length bs) 0)"

definition keyFor :: "('k, 'b) vault_keyring option \<Rightarrow> jsnum \<Rightarrow> 'k option" where
  "keyFor keyring epoch = (case keyring of None \<Rightarrow> None | Some kr \<Rightarrow> map_of (kr_keys kr) epoch)"

definition currentKey :: "('k, 'b) vault_keyring \<Rightarrow> keyring_error + 'k" where
  "currentKey kr =
     (case map_of (kr_keys kr) (kr_currentEpoch kr) of Some k \<Rightarrow> Inr k | None \<Rightarrow> Inl CurrentKeyMissing)"

section \<open>The grammar of a keyring\<close>

abbreviation valid_epoch :: "jsnum \<Rightarrow> bool" where
  "valid_epoch e \<equiv> js_whole e \<and> 1 \<le> num_int e \<and> num_int e \<le> MAX_EPOCH"

lemma validate_epochs_None:
  "validate_epochs prev es = None \<longleftrightarrow>
     list_all valid_epoch es \<and> list_all (\<lambda>e. prev < num_int e) es \<and> sorted_wrt (\<lambda>a b. num_int a < num_int b) es"
proof (induction prev es rule: validate_epochs.induct)
  case (2 prev e es)
  show ?case
  proof (cases "valid_epoch e \<and> prev < num_int e")
    case True
    then have "list_all (\<lambda>x. prev < num_int x) es" if "list_all (\<lambda>x. num_int e < num_int x) es"
      using that by (auto simp: list_all_iff)
    then show ?thesis using 2 True by (auto simp: not_less not_le list_all_iff)
  next
    case False
    then show ?thesis by (auto simp: not_less not_le)
  qed
qed simp

lemma validateParsed_None:
  "validateParsed u v c es = None \<longleftrightarrow>
     1 \<le> length u \<and> length u \<le> KEYRING_MAX_USER_ID \<and> ID_VALUE_RE u \<and> VAULT_ID_RE v
     \<and> v \<noteq> replicate 16 (CHR ''0'') \<and> 1 \<le> length es \<and> length es \<le> KEYRING_MAX_EPOCHS
     \<and> validate_epochs 0 es = None \<and> c = last es"
  by (auto simp: validateParsed_def not_less Suc_le_eq split: option.split)

lemma epoch_num:
  assumes "valid_epoch e"
  shows "js_nat (nat (num_int e)) = e" and "nat (num_int e) < 256 ^ 4"
proof -
  obtain r where r: "e = Fin r" using assms by (cases e) (auto simp: js_whole_def)
  then have "r = of_int \<lfloor>r\<rfloor>" "1 \<le> \<lfloor>r\<rfloor>" "\<lfloor>r\<rfloor> \<le> 4294967295"
    using assms by (simp_all add: js_whole_def num_int_def MAX_EPOCH_def)
  then show "js_nat (nat (num_int e)) = e" "nat (num_int e) < 256 ^ 4"
    unfolding r by (simp_all add: js_nat_def num_int_def)
qed

lemma num_int_js_nat [simp]: "num_int (js_nat n) = int n"
  by (simp add: js_nat_def num_int_def)

lemma vault_id_pairs:
  assumes "VAULT_ID_RE v"
  obtains bs where "hex_pairs v = Some bs" and "length bs = 8" and "bytesToHex bs = v"
proof -
  have "\<exists>bs. hex_pairs s = Some bs \<and> length s = 2 * length bs \<and> bytesToHex bs = s"
    if "list_all (\<lambda>c. hex_code c \<noteq> None) s" "even (length s)" for s
    using that
  proof (induction s rule: hex_pairs.induct)
    case (3 c d r)
    then obtain bs where bs: "hex_pairs r = Some bs" "length r = 2 * length bs" "bytesToHex bs = r" by auto
    have dig: "x < 16 \<and> hex_char x = e" if "hex_code e = Some x" for e x
    proof -
      have "(of_char e :: nat) < 256" by simp
      then show ?thesis
        using that by (auto simp: hex_code_def hex_char_def Let_def split: if_splits)
    qed
    obtain x y where xy: "hex_code c = Some x" "hex_code d = Some y" using "3.prems" by auto
    note dx = dig [OF xy(1)] and dy = dig [OF xy(2)]
    then have "(16 * x + y) mod 256 = 16 * x + y" by simp
    then have "unat (word_of_nat (16 * x + y) :: byte) = 16 * x + y" by (simp only: unat_of_nat_byte)
    then have "hex_byte (word_of_nat (16 * x + y)) = [c, d]" using dx dy by (simp only: hex_byte_def) simp
    then show ?case using bs xy by (simp add: bytesToHex_def)
  qed (simp_all add: bytesToHex_def)
  from this [of v] assms show thesis by (auto simp: VAULT_ID_RE_def intro: that)
qed

section \<open>Parsing what was printed\<close>

lemma sub_bytes_at: "bs = pre @ mid @ post \<Longrightarrow> length pre = a \<Longrightarrow> b = a + length mid \<Longrightarrow> sub_bytes a b bs = mid"
  by (simp add: sub_bytes_def)

lemma parse_entries_printed:
  assumes "list_all (\<lambda>e. valid_epoch (ke_epoch e) \<and> length (ke_key e) = KEYRING_KEY_BYTES) es"
    and "bs = pre @ concat (map entry_bytes es)" and "length pre = off"
  shows "parse_entries (length es) off bs = es"
  using assms
proof (induction es arbitrary: pre off)
  case (Cons e es)
  note num = epoch_num [of "ke_epoch e"]
  have k: "length (ke_key e) = 32" and v: "valid_epoch (ke_epoch e)"
    using Cons.prems(1) by (simp_all add: KEYRING_KEY_BYTES_def)
  have len: "length (entry_bytes e) = KEYRING_ENTRY_BYTES"
    using k by (simp add: entry_bytes_def keyring_sizes)
  have e1: "sub_bytes off (off + 4) bs = be_bytes 4 (nat (num_int (ke_epoch e)))"
    by (rule sub_bytes_at [of _ pre _ "ke_key e @ concat (map entry_bytes es)"])
       (use Cons.prems in \<open>simp_all add: entry_bytes_def [of e]\<close>)
  have e2: "sub_bytes (off + 4) (off + KEYRING_ENTRY_BYTES) bs = ke_key e"
    by (rule sub_bytes_at [of _ "pre @ be_bytes 4 (nat (num_int (ke_epoch e)))" _ "concat (map entry_bytes es)"])
       (use Cons.prems k in \<open>simp_all add: entry_bytes_def [of e] keyring_sizes\<close>)
  have "parse_entries (length es) (off + KEYRING_ENTRY_BYTES) bs = es"
    by (rule Cons.IH [of "pre @ entry_bytes e"]) (use Cons.prems len in simp_all)
  then show ?case
    using e1 e2 num [OF v] by simp
qed simp

lemma length_entries:
  "list_all (\<lambda>e. length (ke_key e) = KEYRING_KEY_BYTES) es \<Longrightarrow>
   length (concat (map entry_bytes es)) = length es * KEYRING_ENTRY_BYTES"
  by (induction es) (simp_all add: entry_bytes_def keyring_sizes)

lemma entry_bytes_fields: "entry_bytes \<lparr>ke_epoch = js_nat n, ke_key = k\<rparr> = be_bytes 4 n @ k"
  by (simp add: entry_bytes_def)

lemma print_then_parse:
  assumes "serializeKeyringBytes p = Inr bs"
  shows "parseKeyringBytes bs None = Inr p" and "length bs \<le> KEYRING_MAX_BYTES"
proof -
  let ?u = "pk_userId p" and ?es = "pk_entries p" and ?c = "pk_currentEpoch p"
  have valid: "validateParsed ?u (pk_vaultId p) ?c (map ke_epoch ?es) = None"
    using assms by (simp add: serializeKeyringBytes_def split: option.splits)
  then have keys: "list_all (\<lambda>e. length (ke_key e) = KEYRING_KEY_BYTES) ?es"
    using assms by (auto simp: serializeKeyringBytes_def list_all_iff list_ex_iff split: if_splits)
  note v = valid [unfolded validateParsed_None validate_epochs_None]
  obtain vid where vid: "hex_pairs (pk_vaultId p) = Some vid" "length vid = 8" "bytesToHex vid = pk_vaultId p"
    using v vault_id_pairs by blast
  have "last (map ke_epoch ?es) \<in> set (map ke_epoch ?es)" using v by (intro last_in_set) auto
  then have ec: "valid_epoch ?c" using v by (metis (no_types, lifting) list_all_iff)
  have es: "list_all (\<lambda>e. valid_epoch (ke_epoch e) \<and> length (ke_key e) = KEYRING_KEY_BYTES) ?es"
    using v keys by (simp add: list_all_iff)
  define M where "M = map char_byte KEYRING_MAGIC"
  define L where "L = be_bytes 2 (length ?u)"
  define U where "U = map char_byte ?u"
  define C where "C = be_bytes 4 (nat (num_int ?c))"
  define N where "N = be_bytes 2 (length ?es)"
  define E where "E = concat (map entry_bytes ?es)"
  note defs = M_def L_def U_def C_def N_def E_def
  have bs: "bs = M @ L @ U @ vid @ C @ N @ E"
    using assms valid keys vid(1) by (simp add: serializeKeyringBytes_def defs list_ex_iff list_all_iff)
  have lens: "length M = 4" "length L = 2" "length U = length ?u" "length C = 4" "length N = 2"
    by (simp_all add: defs KEYRING_MAGIC_def)
  have lenE: "length E = length ?es * KEYRING_ENTRY_BYTES"
    unfolding E_def by (rule length_entries [OF keys])
  have small: "length ?u < 256 ^ 2" "length ?es < 256 ^ 2" using v by (simp_all add: keyring_sizes)
  let ?off = "6 + length ?u"
  have subs: "sub_bytes 0 4 bs = M" "sub_bytes 4 6 bs = L" "sub_bytes 6 ?off bs = U"
    "sub_bytes ?off (?off + 8) bs = vid" "sub_bytes (?off + 8) (?off + 8 + 4) bs = C"
    "sub_bytes (?off + 8 + 4) (?off + 8 + 6) bs = N"
    using lens vid(2) by (simp_all add: bs sub_bytes_def)
  have ents: "parse_entries (length ?es) (?off + 8 + 6) bs = ?es"
    by (rule parse_entries_printed [OF es, of _ "M @ L @ U @ vid @ C @ N"])
       (use lens vid(2) in \<open>simp_all add: bs E_def\<close>)
  have len: "length bs = ?off + 8 + 6 + length ?es * KEYRING_ENTRY_BYTES"
    using lens vid(2) lenE by (simp add: bs)
  show "length bs \<le> KEYRING_MAX_BYTES" using v len by (simp add: keyring_sizes)
  then have "\<not> (length bs < 6 \<or> KEYRING_MAX_BYTES < length bs)" using len by simp
  moreover have "map byte_char M = KEYRING_MAGIC" "map byte_char U = ?u" by (simp_all add: defs comp_def)
  moreover have "be_value L = length ?u" "be_value N = length ?es" "js_nat (be_value C) = ?c"
    using small epoch_num [OF ec] by (simp_all add: defs)
  moreover have "\<not> length bs < ?off + VAULT_ID_BYTES + 6" using len by (simp add: VAULT_ID_BYTES_def)
  moreover have "?u \<noteq> []" "?es \<noteq> []" using v by auto
  ultimately show "parseKeyringBytes bs None = Inr p"
    using v valid subs ents len vid(3)
    by (simp add: parseKeyringBytes_def VAULT_ID_BYTES_def Let_def)
qed

section \<open>Printing what was parsed\<close>

lemma sub_drop: "a \<le> b \<Longrightarrow> sub_bytes a b bs @ drop b bs = drop a bs"
  unfolding sub_bytes_def by (metis append_take_drop_id drop_drop le_add_diff_inverse2)

lemma length_sub: "a \<le> b \<Longrightarrow> b \<le> length bs \<Longrightarrow> length (sub_bytes a b bs) = b - a"
  by (simp add: sub_bytes_def)

lemma printed_entries:
  "length bs = off + n * KEYRING_ENTRY_BYTES \<Longrightarrow>
   concat (map entry_bytes (parse_entries n off bs)) = drop off bs \<and>
   list_all (\<lambda>e. length (ke_key e) = KEYRING_KEY_BYTES) (parse_entries n off bs)"
proof (induction n arbitrary: off)
  case (Suc n)
  have sz: "KEYRING_ENTRY_BYTES = 36" "KEYRING_KEY_BYTES = 32" by (simp_all add: keyring_sizes)
  have IH: "concat (map entry_bytes (parse_entries n (off + 36) bs)) = drop (off + 36) bs"
    "list_all (\<lambda>e. length (ke_key e) = KEYRING_KEY_BYTES) (parse_entries n (off + 36) bs)"
    using Suc.IH [of "off + 36"] Suc.prems by (simp_all add: sz)
  have "length (sub_bytes off (off + 4) bs) = 4" using Suc.prems by (simp add: length_sub sz)
  then have "be_bytes 4 (be_value (sub_bytes off (off + 4) bs)) = sub_bytes off (off + 4) bs" by simp
  moreover have "length (sub_bytes (off + 4) (off + 36) bs) = 32" using Suc.prems by (simp add: length_sub sz)
  ultimately show ?case
    using IH sub_drop [of off "off + 4" bs] sub_drop [of "off + 4" "off + 36" bs]
    by (simp add: entry_bytes_fields sz)
qed simp

lemma parse_then_print:
  assumes "parseKeyringBytes bs u = Inr p"
  shows "serializeKeyringBytes p = Inr bs" and "truthy u \<Longrightarrow> u = Some (pk_userId p)"
proof -
  define n where "n = be_value (sub_bytes 4 6 bs)"
  define count where "count = be_value (sub_bytes (18 + n) (20 + n) bs)"
  let ?uid = "sub_bytes 6 (6 + n) bs" and ?vid = "sub_bytes (6 + n) (14 + n) bs"
  let ?c = "sub_bytes (14 + n) (18 + n) bs" and ?es = "parse_entries count (20 + n) bs"
  have facts: "\<not> length bs < 6" "map byte_char (sub_bytes 0 4 bs) = KEYRING_MAGIC"
    "length bs = 20 + n + count * KEYRING_ENTRY_BYTES" "1 \<le> count" "count \<le> KEYRING_MAX_EPOCHS"
    and valid: "validateParsed (map byte_char ?uid) (bytesToHex ?vid) (js_nat (be_value ?c)) (map ke_epoch ?es) = None"
    and p: "p = \<lparr>pk_userId = map byte_char ?uid, pk_vaultId = bytesToHex ?vid,
                 pk_currentEpoch = js_nat (be_value ?c), pk_entries = ?es\<rparr>"
    and user: "truthy u \<Longrightarrow> u = Some (map byte_char ?uid)"
    using assms
    by (auto simp: parseKeyringBytes_def VAULT_ID_BYTES_def n_def [symmetric] count_def [symmetric] Let_def
        split: if_splits option.splits)
  show "truthy u \<Longrightarrow> u = Some (pk_userId p)" using user p by simp
  note ent = printed_entries [of bs "20 + n" count, OF facts(3)]
  have "length (parse_entries k off bs) = k" for k off by (induction k arbitrary: off) simp_all
  then have les: "length ?es = count" by simp
  have l4: "length (sub_bytes 0 4 bs) = 4" "length (sub_bytes 4 6 bs) = 2" "length ?uid = n" "length ?vid = 8"
    "length ?c = 4" "length (sub_bytes (18 + n) (20 + n) bs) = 2"
    using facts(3) by (simp_all add: length_sub)
  have "map char_byte KEYRING_MAGIC = sub_bytes 0 4 bs"
    using facts(2) by (metis (no_types, lifting) char_byte_inverse(2) list.map_comp list.map_id0 id_apply map_idI comp_def)
  moreover have "be_bytes 2 n = sub_bytes 4 6 bs" using l4(2) by (simp add: n_def)
  moreover have "be_bytes 2 count = sub_bytes (18 + n) (20 + n) bs" using l4(6) by (simp add: count_def)
  moreover have "be_bytes 4 (be_value ?c) = ?c" using l4(5) by simp
  moreover have "\<not> list_ex (\<lambda>e. length (ke_key e) \<noteq> KEYRING_KEY_BYTES) ?es"
    using ent by (simp add: list_ex_iff list_all_iff)
  ultimately have "serializeKeyringBytes p = Inr (sub_bytes 0 4 bs @ sub_bytes 4 6 bs @ ?uid @ ?vid @ ?c
      @ sub_bytes (18 + n) (20 + n) bs @ drop (20 + n) bs)"
    using valid ent l4(3) les by (simp add: serializeKeyringBytes_def p hex_pairs_hex comp_def)
  also have "\<dots> = Inr bs"
    using sub_drop [of 0 4 bs] sub_drop [of 4 6 bs] sub_drop [of 6 "6 + n" bs] sub_drop [of "6 + n" "14 + n" bs]
      sub_drop [of "14 + n" "18 + n" bs] sub_drop [of "18 + n" "20 + n" bs] by simp
  finally show "serializeKeyringBytes p = Inr bs" .
qed

section \<open>The keys of an imported keyring\<close>

lemma map_set_new: "k \<notin> fst ` set m \<Longrightarrow> map_set k v m = m @ [(k, v)]"
  by (simp add: map_set_def)

lemma import_entries_all:
  assumes "list_all (\<lambda>e. length (ke_key e) = KEYRING_KEY_BYTES) es"
    and "distinct (map fst keys @ map ke_epoch es)" and "map fst bases = map fst keys"
  shows "import_entries ik ib es keys bases =
     Inr (keys @ map (\<lambda>e. (ke_epoch e, ik (ke_key e))) es,
          bases @ map (\<lambda>e. (ke_epoch e, Some (ib (ke_key e)))) es)"
  using assms
proof (induction es arbitrary: keys bases)
  case (Cons e es)
  have "fst ` set bases = fst ` set keys" using Cons.prems(3) by (metis list.set_map)
  then have fresh: "ke_epoch e \<notin> fst ` set keys" "ke_epoch e \<notin> fst ` set bases"
    using Cons.prems(2) by auto
  have "import_entries ik ib es (keys @ [(ke_epoch e, ik (ke_key e))]) (bases @ [(ke_epoch e, Some (ib (ke_key e)))])
    = Inr ((keys @ [(ke_epoch e, ik (ke_key e))]) @ map (\<lambda>e. (ke_epoch e, ik (ke_key e))) es,
          (bases @ [(ke_epoch e, Some (ib (ke_key e)))]) @ map (\<lambda>e. (ke_epoch e, Some (ib (ke_key e)))) es)"
    by (rule Cons.IH) (use Cons.prems in auto)
  then show ?case using Cons.prems(1) fresh by (simp add: importPtyBaseKey_def map_set_new)
qed simp

lemma sorted_epochs_distinct: "sorted_wrt (\<lambda>a b. num_int a < num_int b) es \<Longrightarrow> distinct es"
  by (induction es) auto

lemma parsed_valid:
  assumes "parseKeyringBytes bs u = Inr p"
  shows "validateParsed (pk_userId p) (pk_vaultId p) (pk_currentEpoch p) (map ke_epoch (pk_entries p)) = None"
    and "list_all (\<lambda>e. length (ke_key e) = KEYRING_KEY_BYTES) (pk_entries p)"
  using parse_then_print(1) [OF assms]
  by (auto simp: serializeKeyringBytes_def list_all_iff list_ex_iff split: option.splits if_splits)

text \<open>
  A keyring that serializes fits in 2388 bytes and parses back to itself: user, vault, current epoch
  and every entry.
\<close>

theorem keyring_round_trip:
  assumes "serializeKeyringBytes p = Inr bs"
  shows "parseKeyringBytes bs None = Inr p \<and> length bs \<le> 2388"
  using print_then_parse [OF assms] by (simp add: keyring_sizes)

definition sample_keyring :: parsed_keyring where
  "sample_keyring = \<lparr>pk_userId = ''u_1'', pk_vaultId = replicate 16 (CHR ''a''), pk_currentEpoch = js_nat 7,
     pk_entries = [\<lparr>ke_epoch = js_nat 3, ke_key = replicate 32 9\<rparr>, \<lparr>ke_epoch = js_nat 7, ke_key = replicate 32 5\<rparr>]\<rparr>"

lemma sample_keyring_valid:
  "validateParsed (pk_userId sample_keyring) (pk_vaultId sample_keyring) (pk_currentEpoch sample_keyring)
     (map ke_epoch (pk_entries sample_keyring)) = None"
proof -
  have "ID_VALUE_RE ''u_1''" by code_simp
  moreover have "VAULT_ID_RE (replicate 16 (CHR ''a''))" "replicate 16 (CHR ''a'') \<noteq> replicate 16 (CHR ''0'')"
    by code_simp+
  moreover have "js_whole (js_nat n)" for n by (simp add: js_whole_def js_nat_def)
  ultimately show ?thesis
    unfolding validateParsed_None validate_epochs_None
    by (simp add: sample_keyring_def MAX_EPOCH_def keyring_sizes)
qed

lemma sample_keyring_printed: "\<exists>bs. serializeKeyringBytes sample_keyring = Inr bs"
  using sample_keyring_valid
  by (simp add: serializeKeyringBytes_def) (simp add: sample_keyring_def KEYRING_KEY_BYTES_def)

theorem keyring_round_trip_witness:
  "\<exists>bs. serializeKeyringBytes sample_keyring = Inr bs \<and> parseKeyringBytes bs None = Inr sample_keyring"
  using sample_keyring_printed keyring_round_trip [of sample_keyring] by blast

text \<open>
  C24. The parser accepts canonical bytes only: what it accepts is exactly what the printer writes for the
  result, so a keyring has one spelling; the epochs are whole, within 32 bits and strictly ascending, the
  current one is the newest, and the keyring belongs to the expected user when one is given.
\<close>

theorem keyring_canonical:
  assumes "parseKeyringBytes bs u = Inr p"
  shows "serializeKeyringBytes p = Inr bs
    \<and> sorted_wrt (\<lambda>a b. num_int a < num_int b) (map ke_epoch (pk_entries p))
    \<and> list_all valid_epoch (map ke_epoch (pk_entries p))
    \<and> pk_entries p \<noteq> [] \<and> pk_currentEpoch p = ke_epoch (last (pk_entries p))
    \<and> length (pk_entries p) \<le> 64
    \<and> (truthy u \<longrightarrow> u = Some (pk_userId p))"
proof -
  note v = parsed_valid(1) [OF assms, unfolded validateParsed_None validate_epochs_None]
  have "pk_entries p \<noteq> []" using v by auto
  then show ?thesis using v parse_then_print [OF assms] by (simp add: last_map keyring_sizes)
qed

theorem keyring_canonical_witness:
  "\<exists>bs. parseKeyringBytes bs (Some ''u_1'') = Inr sample_keyring \<and> serializeKeyringBytes sample_keyring = Inr bs"
proof -
  obtain bs where bs: "serializeKeyringBytes sample_keyring = Inr bs" using sample_keyring_printed by blast
  have "parseKeyringBytes bs None = Inr sample_keyring" by (rule print_then_parse [OF bs])
  moreover from this have "parseKeyringBytes bs (Some ''u_1'') = parseKeyringBytes bs None"
    by (auto simp: parseKeyringBytes_def sample_keyring_def Let_def split: if_splits option.splits)
  ultimately have "parseKeyringBytes bs (Some ''u_1'') = Inr sample_keyring" by simp
  then show ?thesis using keyring_canonical by blast
qed

text \<open>
  Importing a keyring zeroes the caller's bytes whether it succeeds or raises; when it succeeds the
  keyring holds the imported key of every entry under its epoch, no key for another epoch, a base key for
  every entry, and its current key is that of the newest entry.
\<close>

theorem import_keyring_spec:
  assumes "importKeyring ik ib bs u = (r, after)"
  shows "after = replicate (length bs) 0 \<and>
    (\<forall>kr. r = Inr kr \<longrightarrow> (\<exists>p. parseKeyringBytes bs u = Inr p
       \<and> (\<forall>e k. keyFor (Some kr) e = Some k \<longleftrightarrow> (\<exists>x \<in> set (pk_entries p). e = ke_epoch x \<and> k = ik (ke_key x)))
       \<and> currentKey kr = Inr (ik (ke_key (last (pk_entries p))))
       \<and> kr_ptyBaseKeys kr = Some (map (\<lambda>x. (ke_epoch x, Some (ib (ke_key x)))) (pk_entries p))))"
proof (intro conjI allI impI)
  show "after = replicate (length bs) 0" using assms by (simp add: importKeyring_def)
  fix kr assume "r = Inr kr"
  then obtain p where p: "parseKeyringBytes bs u = Inr p"
    using assms by (auto simp: importKeyring_def split: sum.splits)
  let ?es = "pk_entries p" and ?m = "map (\<lambda>e. (ke_epoch e, ik (ke_key e))) (pk_entries p)"
  note v = parsed_valid(1) [OF p, unfolded validateParsed_None validate_epochs_None]
  have d: "distinct (map ke_epoch ?es)" using v sorted_epochs_distinct by blast
  have ne: "?es \<noteq> []" using v by auto
  have kr: "kr = \<lparr>kr_userId = pk_userId p, kr_vaultId = pk_vaultId p, kr_currentEpoch = pk_currentEpoch p,
      kr_keys = ?m, kr_ptyBaseKeys = Some (map (\<lambda>x. (ke_epoch x, Some (ib (ke_key x)))) ?es)\<rparr>"
    using assms \<open>r = Inr kr\<close> p import_entries_all [OF parsed_valid(2) [OF p], of "[]" "[]" ik ib] d
    by (simp add: importKeyring_def)
  have dm: "distinct (map fst ?m)" using d by (simp add: comp_def)
  have look: "map_of ?m e = Some k \<longleftrightarrow> (\<exists>x \<in> set ?es. e = ke_epoch x \<and> k = ik (ke_key x))" for e k
    using map_of_eq_Some_iff [OF dm] by auto
  have "pk_currentEpoch p = ke_epoch (last ?es)" using v ne by (simp add: last_map)
  then have "map_of ?m (pk_currentEpoch p) = Some (ik (ke_key (last ?es)))"
    using look ne by (metis last_in_set)
  then have "currentKey kr = Inr (ik (ke_key (last ?es)))" by (simp add: kr currentKey_def)
  moreover have "\<forall>e k. keyFor (Some kr) e = Some k \<longleftrightarrow> (\<exists>x \<in> set ?es. e = ke_epoch x \<and> k = ik (ke_key x))"
    unfolding keyFor_def option.case using look by (simp add: kr)
  moreover have "kr_ptyBaseKeys kr = Some (map (\<lambda>x. (ke_epoch x, Some (ib (ke_key x)))) ?es)" by (simp add: kr)
  ultimately show "\<exists>p. parseKeyringBytes bs u = Inr p
       \<and> (\<forall>e k. keyFor (Some kr) e = Some k \<longleftrightarrow> (\<exists>x \<in> set (pk_entries p). e = ke_epoch x \<and> k = ik (ke_key x)))
       \<and> currentKey kr = Inr (ik (ke_key (last (pk_entries p))))
       \<and> kr_ptyBaseKeys kr = Some (map (\<lambda>x. (ke_epoch x, Some (ib (ke_key x)))) (pk_entries p))"
    using p by blast
qed

theorem import_keyring_spec_witness:
  "\<exists>bs kr. importKeyring id id bs None = (Inr kr, replicate (length bs) 0) \<and>
     currentKey kr = Inr (replicate 32 (5 :: byte)) \<and> keyFor (Some kr) (js_nat 3) = Some (replicate 32 9)"
proof -
  obtain bs where "serializeKeyringBytes sample_keyring = Inr bs" using sample_keyring_printed by blast
  then have p: "parseKeyringBytes bs None = Inr sample_keyring" by (rule print_then_parse)
  have "distinct (map fst [] @ map ke_epoch (pk_entries sample_keyring))"
    by (simp add: sample_keyring_def js_nat_def)
  then obtain kr where kr: "fst (importKeyring id id bs None) = Inr kr"
    using p import_entries_all [OF parsed_valid(2) [OF p], of "[]" "[]" id id] by (simp add: importKeyring_def)
  have i: "importKeyring id id bs None = (Inr kr, snd (importKeyring id id bs None))"
    using kr by (metis prod.collapse)
  note s = import_keyring_spec [OF i]
  then obtain q where q: "parseKeyringBytes bs None = Inr q"
     "\<forall>e k. keyFor (Some kr) e = Some k \<longleftrightarrow> (\<exists>x \<in> set (pk_entries q). e = ke_epoch x \<and> k = id (ke_key x))"
     "currentKey kr = Inr (id (ke_key (last (pk_entries q))))" by blast
  have "q = sample_keyring" using q(1) p by simp
  then have "currentKey kr = Inr (replicate 32 5)" "keyFor (Some kr) (js_nat 3) = Some (replicate 32 9)"
    using q(2,3) by (simp_all add: sample_keyring_def)
  moreover have "importKeyring id id bs None = (Inr kr, replicate (length bs) 0)" using s i by metis
  ultimately show ?thesis by blast
qed

end
