(* ===== verification/Sha256.thy ===== *)
theory Sha256
  imports Bytes
begin

unbundle bit_operations_syntax

text \<open>
  The synchronous SHA-256 of \<open>src/ui/utils/vaultCrypto.ts\<close> (\<open>sha256Sync\<close>): 32-bit words with the wrap-around
  of \<open>| 0\<close>, a message schedule filled in place and eight chaining values updated block by block. It is
  proved equal to the definition of FIPS 180-4 on messages below \<open>2 ^ 32\<close> bits, the length the code stores.
\<close>

section \<open>The implementation\<close>

type_synonym word32 = "32 word"

text \<open>The table \<open>SHA256_K\<close>, its 32-bit constants read in decimal (\<open>sha_constants\<close> below derives them from the primes).\<close>

definition sha_K :: "word32 list" where
  "sha_K = [
      1116352408, 1899447441, 3049323471, 3921009573,
      961987163, 1508970993, 2453635748, 2870763221,
      3624381080, 310598401, 607225278, 1426881987,
      1925078388, 2162078206, 2614888103, 3248222580,
      3835390401, 4022224774, 264347078, 604807628,
      770255983, 1249150122, 1555081692, 1996064986,
      2554220882, 2821834349, 2952996808, 3210313671,
      3336571891, 3584528711, 113926993, 338241895,
      666307205, 773529912, 1294757372, 1396182291,
      1695183700, 1986661051, 2177026350, 2456956037,
      2730485921, 2820302411, 3259730800, 3345764771,
      3516065817, 3600352804, 4094571909, 275423344,
      430227734, 506948616, 659060556, 883997877,
      958139571, 1322822218, 1537002063, 1747873779,
      1955562222, 2024104815, 2227730452, 2361852424,
      2428436474, 2756734187, 3204031479, 3329325298
    ]"

definition sha_H0 :: "word32 list" where
  "sha_H0 = [0x6a09e667, 0xbb67ae85, 0x3c6ef372, 0xa54ff53a,
             0x510e527f, 0x9b05688c, 0x1f83d9ab, 0x5be0cd19]"

definition rotr :: "word32 \<Rightarrow> nat \<Rightarrow> word32" where
  "rotr x n = drop_bit n x OR push_bit (32 - n) x"

definition get_u32 :: "nat \<Rightarrow> bytes \<Rightarrow> word32" where
  "get_u32 off bs = word_of_nat (be_value (sub_bytes off (off + 4) bs))"

definition with_pad :: "bytes \<Rightarrow> bytes" where
  "with_pad bs =
     (let l = length bs; n = (l + 8 + 64) div 64 * 64
      in write_at (n - 4) (be_bytes 4 (l * 8)) ((write_at 0 bs (replicate n 0))[l := 0x80]))"

definition load_block :: "bytes \<Rightarrow> nat \<Rightarrow> word32 list \<Rightarrow> word32 list" where
  "load_block padded i W = fold (\<lambda>t W. W[t := get_u32 (i + t * 4) padded]) [0..<16] W"

definition extend_step :: "nat \<Rightarrow> word32 list \<Rightarrow> word32 list" where
  "extend_step t W =
     (let s0 = rotr (W ! (t - 15)) 7 XOR rotr (W ! (t - 15)) 18 XOR drop_bit 3 (W ! (t - 15));
          s1 = rotr (W ! (t - 2)) 17 XOR rotr (W ! (t - 2)) 19 XOR drop_bit 10 (W ! (t - 2))
      in W[t := W ! (t - 16) + s0 + W ! (t - 7) + s1])"

type_synonym sha_state = "word32 \<times> word32 \<times> word32 \<times> word32 \<times> word32 \<times> word32 \<times> word32 \<times> word32"

definition sha_round :: "word32 list \<Rightarrow> nat \<Rightarrow> sha_state \<Rightarrow> sha_state" where
  "sha_round W t = (\<lambda>(a, b, c, d, e, f, g, h).
     let S1 = rotr e 6 XOR rotr e 11 XOR rotr e 25;
         ch = (e AND f) XOR (NOT e AND g);
         temp1 = h + S1 + ch + sha_K ! t + W ! t;
         S0 = rotr a 2 XOR rotr a 13 XOR rotr a 22;
         maj = (a AND b) XOR (a AND c) XOR (b AND c);
         temp2 = S0 + maj
     in (temp1 + temp2, a, b, c, d + temp1, e, f, g))"

fun state_of :: "word32 list \<Rightarrow> sha_state" where
  "state_of [a, b, c, d, e, f, g, h] = (a, b, c, d, e, f, g, h)"
| "state_of _ = (0, 0, 0, 0, 0, 0, 0, 0)"

fun add_state :: "word32 list \<Rightarrow> sha_state \<Rightarrow> word32 list" where
  "add_state H (a, b, c, d, e, f, g, h) = map2 (+) H [a, b, c, d, e, f, g, h]"

definition sha_block :: "bytes \<Rightarrow> nat \<Rightarrow> word32 list \<times> word32 list \<Rightarrow> word32 list \<times> word32 list" where
  "sha_block padded i = (\<lambda>(H, W0).
     let W = fold extend_step [16..<64] (load_block padded i W0)
     in (add_state H (fold (sha_round W) [0..<64] (state_of H)), W))"

definition sha256Sync :: "bytes \<Rightarrow> bytes" where
  "sha256Sync bs =
     (let padded = with_pad bs;
          (H, W) = fold (sha_block padded) (map ((*) 64) [0..<length padded div 64]) (sha_H0, replicate 64 0)
      in concat (map (\<lambda>h. be_bytes 4 (unat h)) H))"

section \<open>The standard\<close>

text \<open>FIPS 180-4: padding to a multiple of 512 bits, blocks, the schedule as a recursion, and rotations.\<close>

definition sha_padding :: "bytes \<Rightarrow> bytes" where
  "sha_padding m = m @ 0x80 # replicate ((119 - length m mod 64) mod 64) 0 @ be_bytes 8 (8 * length m)"

function sha_blocks :: "bytes \<Rightarrow> bytes list" where
  "sha_blocks bs = (if length bs < 64 then [] else take 64 bs # sha_blocks (drop 64 bs))"
  by auto
termination by (relation "measure length") simp_all

declare sha_blocks.simps [simp del]

definition sigma0 :: "word32 \<Rightarrow> word32" where
  "sigma0 x = word_rotr 7 x XOR word_rotr 18 x XOR drop_bit 3 x"

definition sigma1 :: "word32 \<Rightarrow> word32" where
  "sigma1 x = word_rotr 17 x XOR word_rotr 19 x XOR drop_bit 10 x"

definition Sigma0 :: "word32 \<Rightarrow> word32" where
  "Sigma0 x = word_rotr 2 x XOR word_rotr 13 x XOR word_rotr 22 x"

definition Sigma1 :: "word32 \<Rightarrow> word32" where
  "Sigma1 x = word_rotr 6 x XOR word_rotr 11 x XOR word_rotr 25 x"

definition Ch :: "word32 \<Rightarrow> word32 \<Rightarrow> word32 \<Rightarrow> word32" where
  "Ch x y z = (x AND y) XOR (NOT x AND z)"

definition Maj :: "word32 \<Rightarrow> word32 \<Rightarrow> word32 \<Rightarrow> word32" where
  "Maj x y z = (x AND y) XOR (x AND z) XOR (y AND z)"

fun schedule :: "bytes \<Rightarrow> nat \<Rightarrow> word32" where
  "schedule block t =
     (if t < 16 then get_u32 (4 * t) block
      else sigma1 (schedule block (t - 2)) + schedule block (t - 7) + sigma0 (schedule block (t - 15))
           + schedule block (t - 16))"

declare schedule.simps [simp del]

definition sha_step :: "bytes \<Rightarrow> nat \<Rightarrow> sha_state \<Rightarrow> sha_state" where
  "sha_step block t = (\<lambda>(a, b, c, d, e, f, g, h).
     let T1 = h + Sigma1 e + Ch e f g + sha_K ! t + schedule block t; T2 = Sigma0 a + Maj a b c
     in (T1 + T2, a, b, c, d + T1, e, f, g))"

definition sha_compress :: "word32 list \<Rightarrow> bytes \<Rightarrow> word32 list" where
  "sha_compress H block = add_state H (fold (sha_step block) [0..<64] (state_of H))"

definition sha256 :: "bytes \<Rightarrow> bytes" where
  "sha256 m = concat (map (\<lambda>h. be_bytes 4 (unat h)) (foldl sha_compress sha_H0 (sha_blocks (sha_padding m))))"

section \<open>Padding and blocks\<close>

lemma rotr_word_rotr:
  assumes "n \<le> 32"
  shows "rotr x n = word_rotr n x"
proof (rule bit_word_eqI)
  fix m assume "m < LENGTH(32)"
  then have m: "m < 32" by simp
  show "bit (rotr x n) m \<longleftrightarrow> bit (word_rotr n x) m"
  proof (cases "n + m < 32")
    case True
    then show ?thesis using m assms
      by (auto simp: rotr_def bit_or_iff bit_drop_bit_eq bit_push_bit_iff bit_word_rotr_iff add.commute)
  next
    case False
    then have "n + m = 32 + (m - (32 - n))" using m assms by linarith
    moreover have "m - (32 - n) < 32" using m by simp
    ultimately have "(n + m) mod 32 = m - (32 - n)" by (metis mod_add_self1 mod_less)
    moreover have "\<not> bit x (n + m)" using False bit_imp_le_length [of x "n + m"] by auto
    ultimately show ?thesis using m assms False
      by (auto simp: rotr_def bit_or_iff bit_drop_bit_eq bit_push_bit_iff bit_word_rotr_iff add.commute)
  qed
qed

lemma be_bytes_split: "be_bytes (j + k) n = be_bytes j (n div 256 ^ k) @ be_bytes k n"
  by (induction k arbitrary: n) (simp_all add: div_mult2_eq)

lemma be_bytes_zero: "be_bytes k 0 = replicate k 0"
  by (induction k) (simp_all add: replicate_append_same)

lemma with_pad_shape:
  fixes bs :: bytes
  defines "l \<equiv> length bs"
  defines "n \<equiv> (l + 8 + 64) div 64 * 64"
  shows "l + 9 \<le> n" and "n mod 64 = 0"
    and "with_pad bs = bs @ 0x80 # replicate (n - l - 5) 0 @ be_bytes 4 (8 * l)"
proof -
  have "64 * ((l + 72) div 64) + (l + 72) mod 64 = l + 72" by simp
  moreover have "(l + 72) mod 64 < 64" by simp
  ultimately show n: "l + 9 \<le> n" by (simp add: n_def)
  show "n mod 64 = 0" by (simp add: n_def)
  have "write_at 0 bs (replicate n 0) = bs @ replicate (n - l) 0"
    using n by (simp add: write_at_def l_def)
  moreover have "n - l = Suc (n - l - 1)" using n by linarith
  then have "replicate (n - l) (0 :: byte) = 0 # replicate (n - l - 1) 0" by (metis replicate_Suc)
  ultimately have upd: "(write_at 0 bs (replicate n 0))[l := 0x80] = bs @ 0x80 # replicate (n - l - 1) 0"
    by (simp add: l_def)
  have w: "with_pad bs = write_at (n - 4) (be_bytes 4 (8 * l)) (bs @ 0x80 # replicate (n - l - 1) 0)"
    unfolding with_pad_def Let_def l_def [symmetric] n_def [symmetric] upd by (simp only: mult.commute)
  have "take (n - 4) (bs @ 0x80 # replicate (n - l - 1) 0) = bs @ 0x80 # replicate (n - l - 5) 0"
  proof -
    have "n - 4 - l = Suc (n - l - 5)" using n by simp
    then show ?thesis using n by (simp add: l_def min_def)
  qed
  moreover have "drop n (bs @ 0x80 # replicate (n - l - 1) (0 :: byte)) = []"
    using n by (simp add: l_def)
  ultimately show "with_pad bs = bs @ 0x80 # replicate (n - l - 5) 0 @ be_bytes 4 (8 * l)"
    using n unfolding w write_at_def by simp
qed

lemma with_pad_padding:
  assumes "8 * length bs < 4294967296"
  shows "with_pad bs = sha_padding bs" and "length (with_pad bs) mod 64 = 0"
proof -
  define l where "l = length bs"
  define n where "n = (l + 8 + 64) div 64 * 64"
  note s = with_pad_shape [of bs, folded l_def, folded n_def]
  have "8 * l div 256 ^ 4 = 0" using assms by (simp add: l_def)
  then have len8: "be_bytes 8 (8 * l) = replicate 4 0 @ be_bytes 4 (8 * l)"
    using be_bytes_split [of 4 4 "8 * l"] by (simp add: be_bytes_zero)
  have "n - l - 5 = (119 - l mod 64) mod 64 + 4"
  proof -
    define q r where "q = l div 64" and "r = l mod 64"
    have l: "l = 64 * q + r" "r < 64" by (simp_all add: q_def r_def)
    have "64 * q + r + 8 + 64 = (r + 72) + q * 64" by simp
    then have "(64 * q + r + 8 + 64) div 64 = q + (r + 72) div 64"
      by (metis div_mult_self1 zero_neq_numeral)
    then have "n = 64 * q + (r + 72) div 64 * 64" unfolding n_def l(1) by simp
    moreover have "(r + 72) div 64 = (if r < 56 then 1 else 2)" using l(2) by auto
    moreover have "(119 - r) mod 64 = (if r < 56 then 55 - r else 119 - r)"
    proof (cases "r < 56")
      case True
      then have "119 - r = (55 - r) + 64" by simp
      then show ?thesis using True by (simp only: mod_add_self2 if_True) simp
    qed (use l(2) in simp)
    ultimately show ?thesis using l by (cases "r < 56") (simp_all add: r_def [symmetric] q_def [symmetric])
  qed
  then show "with_pad bs = sha_padding bs"
    unfolding s(3) sha_padding_def l_def [symmetric] len8 by (simp add: replicate_add)
  have "length (with_pad bs) = n" using s(1) unfolding s(3) by (simp add: l_def)
  then show "length (with_pad bs) mod 64 = 0" using s(2) by simp
qed

lemma sha_blocks_map:
  "sha_blocks bs = map (\<lambda>j. take 64 (drop (64 * j) bs)) [0..<length bs div 64]"
proof (induction bs rule: sha_blocks.induct)
  case (1 bs)
  show ?case
  proof (cases "length bs < 64")
    case True
    then show ?thesis by (simp add: sha_blocks.simps)
  next
    case False
    have "length bs div 64 = Suc ((length bs - 64) div 64)" using False by (simp add: le_div_geq)
    then have "[0..<length bs div 64] = 0 # map Suc [0..<(length bs - 64) div 64]"
      by (simp add: upt_conv_Cons map_Suc_upt)
    then show ?thesis
      using 1 [OF False] False by (subst sha_blocks.simps) (simp add: comp_def algebra_simps)
  qed
qed

section \<open>Schedule and rounds\<close>

lemma fold_update_nth:
  assumes "length W = n" and "m \<le> n"
  shows "length (fold (\<lambda>t W. W[t := f t]) [0..<m] W) = n"
    and "\<forall>t < m. fold (\<lambda>t W. W[t := f t]) [0..<m] W ! t = f t"
  using assms(2)
proof (induction m)
  case (Suc m)
  { case 1 then show ?case using Suc assms(1) by simp }
  { case 2 then show ?case using Suc assms(1) by (auto simp: nth_list_update less_Suc_eq) }
qed (use assms in simp_all)

lemma load_block_words:
  fixes padded :: bytes and i :: nat
  assumes "length W = 64"
  defines "block \<equiv> take 64 (drop i padded)"
  shows "length (load_block padded i W) = 64"
    and "\<forall>t < 16. load_block padded i W ! t = schedule block t"
proof -
  have get: "get_u32 (i + t * 4) padded = schedule block t" if "t < 16" for t
    using that by (simp add: schedule.simps get_u32_def sub_bytes_def block_def take_drop add.commute mult.commute)
  show "length (load_block padded i W) = 64" "\<forall>t < 16. load_block padded i W ! t = schedule block t"
    using fold_update_nth [of W 64 16 "\<lambda>t. get_u32 (i + t * 4) padded"] assms(1) get
    by (simp_all add: load_block_def)
qed

lemma extend_step_word:
  assumes "\<forall>t < n. V ! t = schedule block t" and "16 \<le> n"
  shows "extend_step n V = V[n := schedule block n]"
proof -
  have "schedule block n = schedule block (n - 16) + sigma0 (schedule block (n - 15)) + schedule block (n - 7)
      + sigma1 (schedule block (n - 2))"
    using assms(2) by (subst schedule.simps) simp
  moreover have "V ! (n - 16) = schedule block (n - 16)" "V ! (n - 15) = schedule block (n - 15)"
    "V ! (n - 7) = schedule block (n - 7)" "V ! (n - 2) = schedule block (n - 2)"
    using assms by simp_all
  ultimately show ?thesis
    by (simp add: extend_step_def sigma0_def sigma1_def rotr_word_rotr Let_def)
qed

lemma extend_words:
  assumes "length W = 64" and "\<forall>t < 16. W ! t = schedule block t" and "16 \<le> n"
  shows "n \<le> 64 \<longrightarrow> length (fold extend_step [16..<n] W) = 64 \<and>
    (\<forall>t < n. fold extend_step [16..<n] W ! t = schedule block t)"
  using assms(3)
proof (induction n rule: dec_induct)
  case (step n)
  let ?V = "fold extend_step [16..<n] W"
  have split: "fold extend_step [16..<Suc n] W = extend_step n ?V" using step.hyps by simp
  show ?case
  proof
    assume n: "Suc n \<le> 64"
    then have len: "length ?V = 64" and val: "\<forall>t < n. ?V ! t = schedule block t" using step.IH by simp_all
    have "extend_step n ?V = ?V[n := schedule block n]"
      by (rule extend_step_word [OF val]) (use step.hyps in simp)
    then show "length (fold extend_step [16..<Suc n] W) = 64 \<and>
        (\<forall>t < Suc n. fold extend_step [16..<Suc n] W ! t = schedule block t)"
      using len val n unfolding split by (auto simp: nth_list_update less_Suc_eq)
  qed
qed (use assms in auto)

lemma round_step: "W ! t = schedule block t \<Longrightarrow> sha_round W t = sha_step block t"
  by (simp add: sha_round_def sha_step_def Sigma0_def Sigma1_def Ch_def Maj_def rotr_word_rotr fun_eq_iff Let_def)

lemma sha_block_compress:
  assumes "length W = 64"
  shows "fst (sha_block padded i (H, W)) = sha_compress H (take 64 (drop i padded))"
    and "length (snd (sha_block padded i (H, W))) = 64"
proof -
  let ?block = "take 64 (drop i padded)" and ?L = "load_block padded i W"
  let ?W = "fold extend_step [16..<64] ?L"
  note load = load_block_words [OF assms, of padded i]
  have ext: "length ?W = 64" "\<forall>t < 64. ?W ! t = schedule ?block t"
    using extend_words [OF load, of 64] by simp_all
  have "fold (sha_round ?W) [0..<64] s = fold (sha_step ?block) [0..<64] s" for s
    by (rule List.fold_cong) (use ext(2) round_step in auto)
  then show "fst (sha_block padded i (H, W)) = sha_compress H ?block"
    by (simp add: sha_block_def sha_compress_def Let_def)
  show "length (snd (sha_block padded i (H, W))) = 64" using ext(1) by (simp add: sha_block_def Let_def)
qed

lemma sha_fold_blocks:
  "length W = 64 \<Longrightarrow>
   fst (fold (sha_block padded) is (H, W)) = foldl sha_compress H (map (\<lambda>i. take 64 (drop i padded)) is)"
proof (induction "is" arbitrary: H W)
  case (Cons i "is")
  obtain H' W' where s: "sha_block padded i (H, W) = (H', W')" by fastforce
  note b = sha_block_compress [OF Cons.prems, of padded i H, unfolded s fst_conv snd_conv]
  show ?case using Cons.IH [OF b(2)] b(1) s by simp
qed simp

text \<open>
  C25. On a message shorter than \<open>2 ^ 29\<close> bytes the synchronous implementation computes SHA-256 as the
  standard defines it.
\<close>

theorem sha256Sync_correct:
  assumes "8 * length bs < 4294967296"
  shows "sha256Sync bs = sha256 bs"
proof -
  let ?p = "with_pad bs"
  have "fst (fold (sha_block ?p) (map ((*) 64) [0..<length ?p div 64]) (sha_H0, replicate 64 0))
    = foldl sha_compress sha_H0 (sha_blocks ?p)"
    by (subst sha_fold_blocks) (simp_all add: sha_blocks_map comp_def)
  then show ?thesis
    using with_pad_padding(1) [OF assms]
    by (simp add: sha256Sync_def sha256_def Let_def case_prod_beta)
qed

theorem sha256Sync_correct_witness: "sha256Sync [0x61, 0x62, 0x63] = sha256 [0x61, 0x62, 0x63]"
  by (rule sha256Sync_correct) simp

section \<open>The constants\<close>

definition first_primes :: "nat list" where
  "first_primes =
     [2, 3, 5, 7, 11, 13, 17, 19, 23, 29, 31, 37, 41, 43, 47, 53, 59, 61, 67, 71, 73, 79, 83, 89, 97, 101, 103,
      107, 109, 113, 127, 131, 137, 139, 149, 151, 157, 163, 167, 173, 179, 181, 191, 193, 197, 199, 211, 223,
      227, 229, 233, 239, 241, 251, 257, 263, 269, 271, 277, 281, 283, 293, 307, 311]"

text \<open>\<open>k\<close> are the first 32 bits of the fractional part of the \<open>d\<close>-th root of \<open>p\<close>, whose integral part is \<open>a\<close>.\<close>

definition root_bits :: "nat \<Rightarrow> nat \<Rightarrow> nat \<Rightarrow> word32 \<Rightarrow> bool" where
  "root_bits d a p k =
     (let n = a * 4294967296 + unat k in n ^ d \<le> p * 4294967296 ^ d \<and> p * 4294967296 ^ d < (n + 1) ^ d)"

definition int_root :: "nat \<Rightarrow> nat \<Rightarrow> nat" where
  "int_root d p = (case find (\<lambda>b. p < b ^ d) [1, 2, 3, 4, 5, 6, 7] of Some b \<Rightarrow> b - 1 | None \<Rightarrow> 0)"

text \<open>
  The tables are those of the standard: the round constants are the first 32 bits of the fractional
  parts of the cube roots of the first 64 primes, the initial chaining values those of the square roots of
  the first eight.
\<close>

theorem sha_constants:
  "list_all2 (\<lambda>p k. root_bits 3 (int_root 3 p) p k) first_primes sha_K \<and>
   list_all2 (\<lambda>p k. root_bits 2 (int_root 2 p) p k) (take 8 first_primes) sha_H0"
  unfolding first_primes_def sha_K_def sha_H0_def root_bits_def int_root_def
  by (intro conjI; simp)

end
