(* ===== verification/RecoveryWords.thy ===== *)
theory RecoveryWords
  imports RecoveryWordList Sha256
begin

text \<open>
  Recovery words of the vault (\<open>src/ui/utils/vaultCrypto.ts\<close>): twelve BIP-39 words for 128 bits of
  entropy and four checksum bits. Bit strings are strings of zeros and ones, as in the source.
\<close>

section \<open>Bit strings\<close>

text \<open>\<open>n.toString(2)\<close>, \<open>s.padStart(k, '0')\<close>, \<open>parseInt(s, 2)\<close> of a bit string and \<open>s.slice(a, b)\<close>.\<close>

fun to_binary :: "nat \<Rightarrow> string" where
  "to_binary n = (if n < 2 then [digit_char n] else to_binary (n div 2) @ [digit_char (n mod 2)])"

declare to_binary.simps [simp del]

definition pad_start :: "nat \<Rightarrow> string \<Rightarrow> string" where
  "pad_start k s = replicate (k - length s) (CHR ''0'') @ s"

definition parse_binary :: "string \<Rightarrow> nat" where
  "parse_binary s = foldl (\<lambda>a c. 2 * a + digit_val c) 0 s"

definition str_slice :: "nat \<Rightarrow> nat \<Rightarrow> string \<Rightarrow> string" where
  "str_slice a b s = take (b - a) (drop a s)"

section \<open>Words\<close>

definition RECOVERY_ENTROPY_BYTES :: nat where "RECOVERY_ENTROPY_BYTES = 16"

text \<open>\<open>Map\<close> from word to index: the last index set for a word counts.\<close>

definition wordToBip39IndexMap :: "string \<Rightarrow> nat option" where
  "wordToBip39IndexMap = map_of (rev (zip BIP39_WORDS [0..<length BIP39_WORDS]))"

datatype recovery_error = BadEntropyLength | InvalidRecoveryWords

definition checksum_bits :: "bytes \<Rightarrow> string" where
  "checksum_bits entropy = pad_start 4 (to_binary (unat (drop_bit 4 (hd (sha256Sync entropy)))))"

definition generate12RecoveryWords :: "bytes \<Rightarrow> recovery_error + (string list \<times> string)" where
  "generate12RecoveryWords entropy =
     (if length entropy \<noteq> RECOVERY_ENTROPY_BYTES then Inl BadEntropyLength
      else
        (let bits = concat (map (\<lambda>b. pad_start 8 (to_binary (unat b))) entropy) @ checksum_bits entropy;
             words = map (\<lambda>i. BIP39_WORDS ! parse_binary (str_slice (i * 11) ((i + 1) * 11) bits)) [0..<12]
         in Inr (words, bytesToHex entropy)))"

definition clean_word :: "string \<Rightarrow> string" where
  "clean_word w = map lower_char (js_trim w)"

text \<open>The bits of the words; \<open>None\<close> when one is not in the list.\<close>

fun word_bits :: "string list \<Rightarrow> string option" where
  "word_bits [] = Some []"
| "word_bits (w # ws) =
     (case wordToBip39IndexMap (clean_word w) of
        None \<Rightarrow> None
      | Some idx \<Rightarrow> map_option (\<lambda>r. pad_start 11 (to_binary idx) @ r) (word_bits ws))"

definition entropy_of_bits :: "string \<Rightarrow> bytes" where
  "entropy_of_bits bits = map (\<lambda>i. word_of_nat (parse_binary (str_slice (i * 8) ((i + 1) * 8) bits))) [0..<16]"

definition validateRecoveryWords :: "string list \<Rightarrow> bool" where
  "validateRecoveryWords words =
     (if length words \<noteq> 12 then False
      else (case word_bits words of
              None \<Rightarrow> False
            | Some bits \<Rightarrow> str_slice 128 132 bits = checksum_bits (entropy_of_bits (str_slice 0 128 bits))))"

definition recoveryWordsToEntropy :: "string list \<Rightarrow> recovery_error + bytes" where
  "recoveryWordsToEntropy words =
     (if \<not> validateRecoveryWords words then Inl InvalidRecoveryWords
      else Inr (entropy_of_bits (the (word_bits words))))"

section \<open>Bits of a number\<close>

primrec bin_string :: "nat \<Rightarrow> nat \<Rightarrow> string" where
  "bin_string 0 n = []"
| "bin_string (Suc k) n = bin_string k (n div 2) @ [digit_char (n mod 2)]"

lemma length_bin_string [simp]: "length (bin_string k n) = k"
  by (induction k arbitrary: n) simp_all

lemma bin_string_zero: "bin_string k 0 = replicate k (CHR ''0'')"
proof (induction k)
  case (Suc k)
  have "digit_char 0 = CHR ''0''" by code_simp
  with Suc show ?case by (simp add: replicate_append_same)
qed simp

lemma pad_binary:
  assumes "n < 2 ^ k" and "0 < k"
  shows "pad_start k (to_binary n) = bin_string k n"
  using assms
proof (induction k arbitrary: n)
  case (Suc k)
  show ?case
  proof (cases "n < 2")
    case True
    then have "bin_string k (n div 2) = replicate k (CHR ''0'')" "n mod 2 = n" by (simp_all add: bin_string_zero)
    then show ?thesis using True by (simp add: pad_start_def to_binary.simps [of n])
  next
    case False
    have "n div 2 < 2 ^ k" using Suc.prems(1) by (simp add: less_mult_imp_div_less mult.commute)
    moreover have "0 < k" using False Suc.prems(1) by (cases k) auto
    ultimately have "pad_start k (to_binary (n div 2)) = bin_string k (n div 2)" by (rule Suc.IH)
    then show ?thesis using False by (simp add: pad_start_def to_binary.simps [of n])
  qed
qed simp

lemma parse_bin_string: "parse_binary (bin_string k n) = n mod 2 ^ k"
proof (induction k arbitrary: n)
  case (Suc k)
  have "digit_val (digit_char (n mod 2)) = n mod 2" by (rule digit_char_props) simp
  moreover have "n mod (2 * 2 ^ k) = 2 * (n div 2 mod 2 ^ k) + n mod 2" by (rule mod_mult2_eq)
  ultimately show ?case using Suc by (simp add: parse_binary_def)
qed (simp add: parse_binary_def)

definition binary :: "string \<Rightarrow> bool" where
  "binary s = list_all (\<lambda>c. c = CHR ''0'' \<or> c = CHR ''1'') s"

lemma binary_bin_string: "binary (bin_string k n)"
proof (induction k arbitrary: n)
  case (Suc k)
  have "digit_char 0 = CHR ''0''" "digit_char 1 = CHR ''1''" by code_simp+
  moreover have "n mod 2 = 0 \<or> n mod 2 = 1" by auto
  ultimately have "digit_char (n mod 2) = CHR ''0'' \<or> digit_char (n mod 2) = CHR ''1''" by metis
  with Suc show ?case by (simp add: binary_def)
qed (simp add: binary_def)

lemma bin_string_parse: "binary s \<Longrightarrow> bin_string (length s) (parse_binary s) = s \<and> parse_binary s < 2 ^ length s"
proof (induction s rule: rev_induct)
  case (snoc c s)
  have d: "digit_char 0 = CHR ''0''" "digit_char (Suc 0) = CHR ''1''" "digit_val (CHR ''0'') = 0"
    "digit_val (CHR ''1'') = 1" by code_simp+
  have c: "digit_val c < 2" "digit_char (digit_val c) = c" using snoc.prems d by (auto simp: binary_def)
  have p: "parse_binary (s @ [c]) = 2 * parse_binary s + digit_val c" by (simp add: parse_binary_def)
  have IH: "bin_string (length s) (parse_binary s) = s" "parse_binary s < 2 ^ length s"
    using snoc by (simp_all add: binary_def)
  have "(2 * parse_binary s + digit_val c) div 2 = parse_binary s" "(2 * parse_binary s + digit_val c) mod 2 = digit_val c"
    using c(1) by simp_all
  then show ?case using IH c unfolding p by simp
qed (simp add: parse_binary_def)

text \<open>Cutting a string into parts of one length.\<close>

lemma concat_slices:
  "length s = n * k \<Longrightarrow> concat (map (\<lambda>i. str_slice (i * k) ((i + 1) * k) s) [0..<n]) = s"
proof (induction n arbitrary: s)
  case (Suc n)
  have "concat (map (\<lambda>i. str_slice (i * k) ((i + 1) * k) (take (n * k) s)) [0..<n]) = take (n * k) s"
    by (rule Suc.IH) (use Suc.prems in simp)
  moreover have "str_slice (i * k) ((i + 1) * k) (take (n * k) s) = str_slice (i * k) ((i + 1) * k) s" if "i < n" for i
  proof -
    have "(i + 1) * k \<le> n * k" using that by (intro mult_le_mono) simp_all
    then show ?thesis by (simp add: str_slice_def drop_take min_def)
  qed
  then have "map (\<lambda>i. str_slice (i * k) ((i + 1) * k) (take (n * k) s)) [0..<n]
      = map (\<lambda>i. str_slice (i * k) ((i + 1) * k) s) [0..<n]" by (intro map_cong) simp_all
  ultimately have "concat (map (\<lambda>i. str_slice (i * k) ((i + 1) * k) s) [0..<n]) = take (n * k) s" by metis
  moreover have "str_slice (n * k) ((n + 1) * k) s = drop (n * k) s" using Suc.prems by (simp add: str_slice_def)
  ultimately show ?case by simp
qed simp

lemma slice_concat:
  assumes "list_all (\<lambda>p. length p = k) ps" and "i < length ps"
  shows "str_slice (i * k) ((i + 1) * k) (concat ps @ r) = ps ! i"
  using assms
proof (induction ps arbitrary: i)
  case (Cons p ps)
  have p: "length p = k" "list_all (\<lambda>p. length p = k) ps" using Cons.prems by simp_all
  show ?case
  proof (cases i)
    case 0
    then show ?thesis using p by (simp add: str_slice_def)
  next
    case (Suc j)
    then have "str_slice (j * k) ((j + 1) * k) (concat ps @ r) = ps ! j"
      using Cons.IH [OF p(2)] Cons.prems(2) by simp
    then show ?thesis using p(1) Suc by (simp add: str_slice_def)
  qed
qed simp

section \<open>The word index\<close>

lemma zip_index_distinct: "distinct (map fst (rev (zip BIP39_WORDS [0..<length BIP39_WORDS])))"
  by (simp add: rev_map [symmetric] map_fst_zip distinct_words)

lemma index_iff: "wordToBip39IndexMap w = Some i \<longleftrightarrow> i < 2048 \<and> BIP39_WORDS ! i = w"
  unfolding wordToBip39IndexMap_def map_of_eq_Some_iff [OF zip_index_distinct]
  by (auto simp: set_zip)

lemma clean_lower: "is_lower w \<Longrightarrow> clean_word w = w"
proof -
  assume "is_lower w"
  then have u: "\<forall>c \<in> set w. 97 \<le> (of_char c :: nat) \<and> of_char c \<le> (122 :: nat)"
    by (simp add: is_lower_def list_all_iff)
  then have "js_trim w = w" by (intro js_trim_no_space_id) (auto simp: is_js_space_def Let_def)
  moreover have "map lower_char w = w" by (rule map_idI) (use u in \<open>auto simp: lower_char_def Let_def\<close>)
  ultimately show ?thesis by (simp add: clean_word_def)
qed

lemma listed_word: "i < 2048 \<Longrightarrow> clean_word (BIP39_WORDS ! i) = BIP39_WORDS ! i"
  by (intro clean_lower lower_words) simp

lemma index_bits: "i < 2048 \<Longrightarrow> pad_start 11 (to_binary i) = bin_string 11 i"
  by (rule pad_binary) simp_all

lemma word_bits_iff:
  "word_bits ws = Some bits \<longleftrightarrow>
     (\<exists>is. list_all (\<lambda>i. i < 2048) is \<and> map clean_word ws = map ((!) BIP39_WORDS) is
        \<and> bits = concat (map (bin_string 11) is))"
proof (induction ws arbitrary: bits)
  case Nil
  show ?case by auto
next
  case (Cons w ws)
  show ?case
  proof
    assume "word_bits (w # ws) = Some bits"
    then obtain i r where i: "wordToBip39IndexMap (clean_word w) = Some i" "word_bits ws = Some r"
      "bits = pad_start 11 (to_binary i) @ r" by (auto split: option.splits)
    obtain "is" where "list_all (\<lambda>i. i < 2048) is" "map clean_word ws = map ((!) BIP39_WORDS) is"
      "r = concat (map (bin_string 11) is)" using i(2) Cons.IH by blast
    with i show "\<exists>is. list_all (\<lambda>i. i < 2048) is \<and> map clean_word (w # ws) = map ((!) BIP39_WORDS) is
        \<and> bits = concat (map (bin_string 11) is)"
      by (intro exI [of _ "i # is"]) (simp add: index_iff index_bits)
  next
    assume "\<exists>is. list_all (\<lambda>i. i < 2048) is \<and> map clean_word (w # ws) = map ((!) BIP39_WORDS) is
        \<and> bits = concat (map (bin_string 11) is)"
    then obtain i js where i: "i < 2048" "list_all (\<lambda>i. i < 2048) js" "clean_word w = BIP39_WORDS ! i"
      "map clean_word ws = map ((!) BIP39_WORDS) js" "bits = bin_string 11 i @ concat (map (bin_string 11) js)"
      by (auto simp: Cons_eq_map_conv)
    have "word_bits ws = Some (concat (map (bin_string 11) js))" using Cons.IH i(2,4) by blast
    moreover have "wordToBip39IndexMap (clean_word w) = Some i" using i(1,3) by (simp add: index_iff)
    ultimately show "word_bits (w # ws) = Some bits" using i(1,5) by (simp add: index_bits)
  qed
qed

section \<open>Entropy and bits\<close>

definition byte_bits :: "bytes \<Rightarrow> string" where
  "byte_bits bs = concat (map (\<lambda>b. bin_string 8 (unat b)) bs)"

lemma length_concat_bits: "length (concat (map (\<lambda>x. bin_string k (f x)) xs)) = k * length xs"
  by (induction xs) simp_all

lemma length_byte_bits [simp]: "length (byte_bits bs) = 8 * length bs"
  by (simp add: byte_bits_def length_concat_bits)

lemma byte_padded: "pad_start 8 (to_binary (unat (b :: byte))) = bin_string 8 (unat b)"
  using unat_byte [of b] by (intro pad_binary) simp_all

lemma checksum_length: "length (checksum_bits e) = 4" and checksum_binary: "binary (checksum_bits e)"
proof -
  let ?b = "hd (sha256Sync e)"
  have "unat (drop_bit 4 ?b) = drop_bit 4 (take_bit LENGTH(8) (unat ?b))" by (rule unsigned_drop_bit_eq)
  then have "unat (drop_bit 4 ?b) < 2 ^ 4"
    using unat_byte [of ?b] by (simp only: drop_bit_eq_div take_bit_eq_mod) simp
  then have "checksum_bits e = bin_string 4 (unat (drop_bit 4 ?b))"
    unfolding checksum_bits_def by (intro pad_binary) simp_all
  then show "length (checksum_bits e) = 4" "binary (checksum_bits e)" by (simp_all add: binary_bin_string)
qed

lemma binary_concat: "list_all binary ps \<Longrightarrow> binary (concat ps)"
  by (induction ps) (simp_all add: binary_def)

lemma binary_append: "binary (a @ b) \<longleftrightarrow> binary a \<and> binary b"
  by (simp add: binary_def)

lemma binary_byte_bits: "binary (byte_bits bs)"
  unfolding byte_bits_def by (rule binary_concat) (simp add: list_all_iff binary_bin_string)

lemma binary_slice: "binary s \<Longrightarrow> binary (str_slice a b s)"
  by (auto simp: binary_def str_slice_def list_all_iff dest: in_set_takeD in_set_dropD)

lemma entropy_of_byte_bits:
  assumes "length bs = 16"
  shows "entropy_of_bits (byte_bits bs @ r) = bs"
proof (rule nth_equalityI)
  show "length (entropy_of_bits (byte_bits bs @ r)) = length bs" using assms by (simp add: entropy_of_bits_def)
  fix i assume "i < length (entropy_of_bits (byte_bits bs @ r))"
  then have i: "i < 16" by (simp add: entropy_of_bits_def)
  have "str_slice (i * 8) ((i + 1) * 8) (byte_bits bs @ r) = map (\<lambda>b. bin_string 8 (unat b)) bs ! i"
    unfolding byte_bits_def by (rule slice_concat) (use i assms in \<open>simp_all add: list_all_iff\<close>)
  also have "\<dots> = bin_string 8 (unat (bs ! i))" using i assms by simp
  finally show "entropy_of_bits (byte_bits bs @ r) ! i = bs ! i"
    using i unat_byte [of "bs ! i"] by (simp add: entropy_of_bits_def parse_bin_string)
qed

lemma byte_bits_entropy:
  assumes "length s = 128" and "binary s"
  shows "byte_bits (entropy_of_bits (s @ r)) = s"
proof -
  have part: "bin_string 8 (unat (word_of_nat (parse_binary (str_slice (i * 8) ((i + 1) * 8) (s @ r))) :: byte))
      = str_slice (i * 8) ((i + 1) * 8) s" if "i < 16" for i
  proof -
    let ?p = "str_slice (i * 8) ((i + 1) * 8) s"
    have "str_slice (i * 8) ((i + 1) * 8) (s @ r) = ?p" using that assms(1) by (simp add: str_slice_def)
    moreover have "length ?p = 8" using that assms(1) by (simp add: str_slice_def)
    moreover have "bin_string (length ?p) (parse_binary ?p) = ?p \<and> parse_binary ?p < 2 ^ length ?p"
      by (rule bin_string_parse [OF binary_slice [OF assms(2)]])
    ultimately show ?thesis by simp
  qed
  have "byte_bits (entropy_of_bits (s @ r)) = concat (map (\<lambda>i. str_slice (i * 8) ((i + 1) * 8) s) [0..<16])"
    unfolding byte_bits_def entropy_of_bits_def map_map comp_def by (rule arg_cong [where f = concat], rule map_cong) (use part in auto)
  also have "\<dots> = s" by (rule concat_slices) (simp add: assms)
  finally show ?thesis .
qed

section \<open>The words and the entropy name each other\<close>

definition all_bits :: "bytes \<Rightarrow> string" where
  "all_bits e = byte_bits e @ checksum_bits e"

lemma all_bits_facts:
  "length e = 16 \<Longrightarrow> length (all_bits e) = 12 * 11" "binary (all_bits e)"
  by (simp_all add: all_bits_def checksum_length checksum_binary binary_byte_bits binary_append)

lemma generated:
  "length e = 16 \<Longrightarrow> generate12RecoveryWords e =
     Inr (map (\<lambda>i. BIP39_WORDS ! parse_binary (str_slice (i * 11) ((i + 1) * 11) (all_bits e))) [0..<12], bytesToHex e)"
  by (simp add: generate12RecoveryWords_def RECOVERY_ENTROPY_BYTES_def all_bits_def byte_bits_def byte_padded Let_def)

lemma generated_bits:
  assumes "length e = 16" and "generate12RecoveryWords e = Inr (words, hex)" and "map clean_word ws = words"
  shows "word_bits ws = Some (all_bits e)" and "length ws = 12"
proof -
  let ?s = "\<lambda>i. str_slice (i * 11) ((i + 1) * 11) (all_bits e)"
  let ?is = "map (\<lambda>i. parse_binary (?s i)) [0..<12]"
  have len: "length (?s i) = 11" if "i < 12" for i
    using that all_bits_facts(1) [OF assms(1)] by (simp add: str_slice_def)
  have part: "bin_string (length (?s i)) (parse_binary (?s i)) = ?s i \<and> parse_binary (?s i) < 2 ^ length (?s i)" for i
    by (rule bin_string_parse [OF binary_slice [OF all_bits_facts(2)]])
  have "parse_binary (?s i) < 2048 \<and> bin_string 11 (parse_binary (?s i)) = ?s i" if "i < 12" for i
    using part [of i] len [OF that] by simp
  then have small: "list_all (\<lambda>i. i < 2048) ?is"
    and "map (\<lambda>i. bin_string 11 (parse_binary (?s i))) [0..<12] = map ?s [0..<12]"
    by (simp_all add: list_all_iff)
  then have parts: "concat (map (bin_string 11) ?is) = all_bits e"
    using concat_slices [OF all_bits_facts(1) [OF assms(1)]] unfolding map_map comp_def by metis
  have w: "words = map ((!) BIP39_WORDS) ?is" using assms(2) generated [OF assms(1)] by (simp add: comp_def)
  show "word_bits ws = Some (all_bits e)"
    unfolding word_bits_iff assms(3) using small parts w by metis
  have "length (map clean_word ws) = length words" using assms(3) by simp
  then show "length ws = 12" by (simp add: w)
qed

text \<open>
  Twelve words generated from 16 bytes of entropy are valid and give the entropy back, also when they
  are typed with other capitals or with space around them.
\<close>

theorem recovery_words_round_trip:
  assumes "length e = 16" and "generate12RecoveryWords e = Inr (words, hex)" and "map clean_word ws = words"
  shows "validateRecoveryWords ws \<and> recoveryWordsToEntropy ws = Inr e \<and> map clean_word words = words"
proof -
  note g = generated_bits [OF assms]
  have s: "str_slice 0 128 (all_bits e) = byte_bits e" "str_slice 128 132 (all_bits e) = checksum_bits e"
    using assms(1) by (simp_all add: str_slice_def all_bits_def checksum_length)
  have "entropy_of_bits (byte_bits e) = e" "entropy_of_bits (all_bits e) = e"
    using entropy_of_byte_bits [OF assms(1), of "[]"] entropy_of_byte_bits [OF assms(1)] by (simp_all add: all_bits_def)
  then have "validateRecoveryWords ws" "recoveryWordsToEntropy ws = Inr e"
    using g s by (simp_all add: validateRecoveryWords_def recoveryWordsToEntropy_def)
  moreover obtain "is" where "list_all (\<lambda>i. i < 2048) is" "words = map ((!) BIP39_WORDS) is"
    using g(1) assms(3) unfolding word_bits_iff by blast
  then have "map clean_word words = words" by (simp add: listed_word list_all_iff)
  ultimately show ?thesis by blast
qed

lemma generate_total:
  "length e = 16 \<Longrightarrow> \<exists>words. generate12RecoveryWords e = Inr (words, bytesToHex e)"
  by (simp add: generated)

theorem recovery_words_round_trip_witness:
  "\<exists>words. generate12RecoveryWords (replicate 16 0) = Inr (words, bytesToHex (replicate 16 0)) \<and>
     recoveryWordsToEntropy words = Inr (replicate 16 0)"
proof -
  have len: "length (replicate 16 (0 :: byte)) = 16" by simp
  obtain words where w: "generate12RecoveryWords (replicate 16 0) = Inr (words, bytesToHex (replicate 16 0))"
    using generate_total [OF len] by blast
  obtain "is" where i: "words = map ((!) BIP39_WORDS) is" "list_all (\<lambda>i. i < 2048) is"
  proof -
    let ?b = "all_bits (replicate 16 0)"
    have "parse_binary (str_slice (i * 11) ((i + 1) * 11) ?b) < 2048" if "i < 12" for i
      using bin_string_parse [OF binary_slice [OF all_bits_facts(2)], of "i * 11" "(i + 1) * 11" "replicate 16 0"]
        all_bits_facts(1) [OF len] that by (simp add: str_slice_def)
    then show thesis
      using that [of "map (\<lambda>i. parse_binary (str_slice (i * 11) ((i + 1) * 11) ?b)) [0..<12]"] w generated [OF len]
      by (simp add: comp_def list_all_iff)
  qed
  then have "map clean_word words = words" by (simp add: listed_word list_all_iff)
  then show ?thesis using recovery_words_round_trip [OF len w] w by blast
qed

text \<open>
  C26. Words that are accepted name 16 bytes of entropy from which exactly those words (cleaned of capitals
  and surrounding space) are generated: no other sequence of list words has that entropy, and a mistyped
  checksum is refused. Entropy of any other length is refused.
\<close>

theorem accepted_words_are_generated:
  assumes "recoveryWordsToEntropy ws = Inr e"
  shows "length e = 16 \<and> generate12RecoveryWords e = Inr (map clean_word ws, bytesToHex e)
    \<and> (\<forall>e'. length e' \<noteq> 16 \<longrightarrow> generate12RecoveryWords e' = Inl BadEntropyLength)"
proof -
  obtain bits where b: "word_bits ws = Some bits" "length ws = 12" "e = entropy_of_bits bits"
    and chk: "str_slice 128 132 bits = checksum_bits (entropy_of_bits (str_slice 0 128 bits))"
    using assms by (auto simp: recoveryWordsToEntropy_def validateRecoveryWords_def split: if_splits option.splits)
  obtain "is" where i: "list_all (\<lambda>i. i < 2048) is" "map clean_word ws = map ((!) BIP39_WORDS) is"
    "bits = concat (map (bin_string 11) is)" using b(1) unfolding word_bits_iff by blast
  have li: "length is = 12" using i(2) b(2) by (metis length_map)
  have lb: "length bits = 132" using li length_concat_bits [of 11 "\<lambda>x. x" "is"] by (simp add: i(3))
  have bin: "binary bits" unfolding i(3) by (rule binary_concat) (simp add: list_all_iff binary_bin_string)
  define s r where "s = take 128 bits" and "r = drop 128 bits"
  have sr: "bits = s @ r" "length s = 128" "binary s" "length r = 4"
    using lb bin by (auto simp: s_def r_def binary_def list_all_iff dest: in_set_takeD)
  have e16: "length e = 16" by (simp add: b(3) entropy_of_bits_def)
  have e: "byte_bits e = s" using byte_bits_entropy [OF sr(2,3)] b(3) sr(1) by simp
  have e2: "entropy_of_bits s = e"
    using entropy_of_byte_bits [OF e16, of "[]"] e by simp
  have "str_slice 128 132 bits = r" "str_slice 0 128 bits = s" using sr by (simp_all add: str_slice_def)
  then have "checksum_bits e = r" using chk e2 by simp
  then have all: "all_bits e = bits" using e sr(1) by (simp add: all_bits_def)
  have "BIP39_WORDS ! parse_binary (str_slice (j * 11) ((j + 1) * 11) bits) = map clean_word ws ! j" if "j < 12" for j
  proof -
    have "str_slice (j * 11) ((j + 1) * 11) (concat (map (bin_string 11) is) @ []) = map (bin_string 11) is ! j"
      by (rule slice_concat) (use that li in \<open>simp_all add: list_all_iff\<close>)
    then have "parse_binary (str_slice (j * 11) ((j + 1) * 11) bits) = is ! j"
      using that li i(1) by (simp add: i(3) parse_bin_string list_all_length)
    then show ?thesis using that li unfolding i(2) by simp
  qed
  then have "map (\<lambda>j. BIP39_WORDS ! parse_binary (str_slice (j * 11) ((j + 1) * 11) bits)) [0..<12] = map clean_word ws"
    using b(2) by (intro nth_equalityI) simp_all
  then show ?thesis
    using generated [OF e16] e16 all by (simp add: generate12RecoveryWords_def RECOVERY_ENTROPY_BYTES_def)
qed

theorem accepted_words_are_generated_witness:
  "\<exists>ws. recoveryWordsToEntropy ws = Inr (replicate 16 0) \<and>
     generate12RecoveryWords (replicate 16 0) = Inr (map clean_word ws, bytesToHex (replicate 16 0))"
proof -
  have len: "length (replicate 16 (0 :: byte)) = 16" by simp
  have s: "str_slice 0 128 (all_bits (replicate 16 0)) = byte_bits (replicate 16 0)"
    "str_slice 128 132 (all_bits (replicate 16 0)) = checksum_bits (replicate 16 0)"
    by (simp_all add: str_slice_def all_bits_def checksum_length)
  let ?is = "map (\<lambda>i. parse_binary (str_slice (i * 11) ((i + 1) * 11) (all_bits (replicate 16 0)))) [0..<12]"
  let ?ws = "map ((!) BIP39_WORDS) ?is"
  have "parse_binary (str_slice (i * 11) ((i + 1) * 11) (all_bits (replicate 16 0))) < 2048" if "i < 12" for i
    using bin_string_parse [OF binary_slice [OF all_bits_facts(2)], of "i * 11" "(i + 1) * 11" "replicate 16 0"]
      all_bits_facts(1) [OF len] that by (simp add: str_slice_def)
  then have "map clean_word ?ws = ?ws" by (simp add: listed_word)
  moreover have "generate12RecoveryWords (replicate 16 0) = Inr (?ws, bytesToHex (replicate 16 0))"
    using generated [OF len] by (simp add: comp_def)
  ultimately have g: "word_bits ?ws = Some (all_bits (replicate 16 0))" "length ?ws = 12"
    using generated_bits [OF len] by blast+
  have "entropy_of_bits (byte_bits (replicate 16 0)) = replicate 16 0"
    "entropy_of_bits (all_bits (replicate 16 0)) = replicate 16 0"
    using entropy_of_byte_bits [OF len, of "[]"] entropy_of_byte_bits [OF len] by (simp_all add: all_bits_def)
  then have "recoveryWordsToEntropy ?ws = Inr (replicate 16 0)"
    using g s by (simp add: recoveryWordsToEntropy_def validateRecoveryWords_def)
  then show ?thesis using accepted_words_are_generated by blast
qed

end
