(* ===== verification/Utf8.thy ===== *)
theory Utf8
  imports Bytes
begin

text \<open>
  Texts with arbitrary code points, \<open>TextEncoder\<close> and the streaming UTF-8 \<open>TextDecoder\<close> of the encoding
  standard, and the persistent decoder of a terminal connection (\<open>PtyTextDecoder\<close> of
  \<open>src/ui/components/shells/ptyWire.ts\<close>).
\<close>

section \<open>Texts and their encoding\<close>

text \<open>A text is its list of code points; a code point between \<open>0xD800\<close> and \<open>0xDFFF\<close> is a lone surrogate.\<close>

type_synonym utext = "nat list"

definition of_ascii :: "string \<Rightarrow> utext" where
  "of_ascii s = map of_char s"

definition is_scalar :: "nat \<Rightarrow> bool" where
  "is_scalar n = (n < 55296 \<or> 57343 < n \<and> n < 1114112)"

definition replacement_char :: nat where "replacement_char = 65533"

definition byte_of :: "nat \<Rightarrow> byte" where
  "byte_of n = word_of_nat n"

definition encode_scalar :: "nat \<Rightarrow> bytes" where
  "encode_scalar n =
     (if n < 128 then [byte_of n]
      else if n < 2048 then [byte_of (192 + n div 64), byte_of (128 + n mod 64)]
      else if n < 65536
      then [byte_of (224 + n div 4096), byte_of (128 + n div 64 mod 64), byte_of (128 + n mod 64)]
      else [byte_of (240 + n div 262144), byte_of (128 + n div 4096 mod 64),
            byte_of (128 + n div 64 mod 64), byte_of (128 + n mod 64)])"

definition encode_text :: "utext \<Rightarrow> bytes" where
  "encode_text t = concat (map (\<lambda>n. encode_scalar (if is_scalar n then n else replacement_char)) t)"

section \<open>The decoder\<close>

text \<open>The code point read so far, the bytes it still needs, and the range its next byte must be in.\<close>

record utf8_state =
  u_code :: nat
  u_needed :: nat
  u_lower :: nat
  u_upper :: nat

definition utf8_idle :: utf8_state where
  "utf8_idle = \<lparr>u_code = 0, u_needed = 0, u_lower = 128, u_upper = 191\<rparr>"

definition utf8_lead :: "nat \<Rightarrow> utext \<times> utf8_state" where
  "utf8_lead b =
     (if b < 128 then ([b], utf8_idle)
      else if 194 \<le> b \<and> b \<le> 223 then ([], utf8_idle\<lparr>u_code := b - 192, u_needed := 1\<rparr>)
      else if 224 \<le> b \<and> b \<le> 239
      then ([], \<lparr>u_code = b - 224, u_needed = 2, u_lower = (if b = 224 then 160 else 128),
                 u_upper = (if b = 237 then 159 else 191)\<rparr>)
      else if 240 \<le> b \<and> b \<le> 244
      then ([], \<lparr>u_code = b - 240, u_needed = 3, u_lower = (if b = 240 then 144 else 128),
                 u_upper = (if b = 244 then 143 else 191)\<rparr>)
      else ([replacement_char], utf8_idle))"

definition utf8_step :: "utf8_state \<Rightarrow> nat \<Rightarrow> utext \<times> utf8_state" where
  "utf8_step s b =
     (if u_needed s = 0 then utf8_lead b
      else if u_lower s \<le> b \<and> b \<le> u_upper s
      then (let code = u_code s * 64 + (b - 128) in
            if u_needed s = 1 then ([code], utf8_idle)
            else ([], utf8_idle\<lparr>u_code := code, u_needed := u_needed s - 1\<rparr>))
      else (let (out, s') = utf8_lead b in (replacement_char # out, s')))"

fun utf8_feed :: "utf8_state \<Rightarrow> bytes \<Rightarrow> utext \<times> utf8_state" where
  "utf8_feed s [] = ([], s)"
| "utf8_feed s (b # bs) =
     (let (out, s1) = utf8_step s (unat b); (rest, s2) = utf8_feed s1 bs in (out @ rest, s2))"

text \<open>The byte order mark is dropped once, at the first code point of the stream.\<close>

record text_decoder =
  td_state :: utf8_state
  td_bom_seen :: bool

definition newTextDecoder :: text_decoder where
  "newTextDecoder = \<lparr>td_state = utf8_idle, td_bom_seen = False\<rparr>"

definition strip_bom :: "bool \<Rightarrow> utext \<Rightarrow> utext \<times> bool" where
  "strip_bom seen t =
     (if seen \<or> t = [] then (t, seen) else (if hd t = 65279 then tl t else t, True))"

definition decodeStream :: "bytes \<Rightarrow> text_decoder \<Rightarrow> utext \<times> text_decoder" where
  "decodeStream bs d =
     (let (out, s) = utf8_feed (td_state d) bs; (t, seen) = strip_bom (td_bom_seen d) out
      in (t, \<lparr>td_state = s, td_bom_seen = seen\<rparr>))"

text \<open>\<open>decode\<close> without the stream option: an unfinished sequence becomes a replacement character.\<close>

definition decodeFlush :: "bytes \<Rightarrow> text_decoder \<Rightarrow> utext \<times> text_decoder" where
  "decodeFlush bs d =
     (let (out, s) = utf8_feed (td_state d) bs;
          all = out @ (if u_needed s = 0 then [] else [replacement_char])
      in (fst (strip_bom (td_bom_seen d) all), newTextDecoder))"

definition decode_text :: "bytes \<Rightarrow> utext" where
  "decode_text bs = fst (decodeFlush bs newTextDecoder)"

section \<open>The decoder of a terminal connection\<close>

definition pty_decode :: "bytes \<Rightarrow> text_decoder \<Rightarrow> utext \<times> text_decoder" where
  "pty_decode bs d = decodeStream bs d"

definition pty_reset :: "text_decoder \<Rightarrow> text_decoder" where
  "pty_reset d = snd (decodeFlush [] d)"

fun pty_decode_all :: "bytes list \<Rightarrow> text_decoder \<Rightarrow> utext \<times> text_decoder" where
  "pty_decode_all [] d = ([], d)"
| "pty_decode_all (c # cs) d =
     (let (t, d1) = pty_decode c d; (rest, d2) = pty_decode_all cs d1 in (t @ rest, d2))"

section \<open>Decoding what was encoded\<close>

lemma utf8_feed_append:
  "utf8_feed s (xs @ ys) =
     (let (a, s1) = utf8_feed s xs; (b, s2) = utf8_feed s1 ys in (a @ b, s2))"
  by (induction xs arbitrary: s) (simp_all add: Let_def split: prod.splits)

lemma unat_byte_of [simp]: "n < 256 \<Longrightarrow> unat (byte_of n) = n"
  by (simp add: byte_of_def take_bit_eq_mod unat_of_nat)

lemmas utf8_defs = utf8_step_def utf8_lead_def utf8_idle_def Let_def

lemma div_mod_64: "n div 64 * 64 + n mod 64 = (n :: nat)"
  by simp

lemma feed_scalar:
  assumes "is_scalar n"
  shows "utf8_feed utf8_idle (encode_scalar n) = ([n], utf8_idle)"
proof -
  have bound: "n < 1114112" using assms by (auto simp: is_scalar_def)
  consider "n < 128" | "128 \<le> n" "n < 2048" | "2048 \<le> n" "n < 65536" | "65536 \<le> n" by linarith
  then show ?thesis
  proof cases
    case 1
    then show ?thesis by (simp add: encode_scalar_def utf8_defs)
  next
    case 2
    define a b where ab: "a = n div 64" "b = n mod 64"
    have eq: "a * 64 + b = n" using div_mod_64 [of n] unfolding ab .
    have r: "2 \<le> a" "a < 32" "b < 64" using 2 unfolding ab by simp_all
    have enc: "encode_scalar n = [byte_of (192 + a), byte_of (128 + b)]"
      using 2 by (simp add: encode_scalar_def ab)
    show ?thesis using r eq by (auto simp: enc utf8_defs)
  next
    case 3
    define a b c where abc: "a = n div 4096" "b = n div 64 mod 64" "c = n mod 64"
    have "a * 64 + b = n div 64" using div_mod_64 [of "n div 64"] unfolding abc by (simp add: div_mult2_eq [symmetric])
    then have eq: "(a * 64 + b) * 64 + c = n" using div_mod_64 [of n] unfolding abc by simp
    have r: "a < 16" "b < 64" "c < 64" using 3 unfolding abc by simp_all
    have lo: "a = 0 \<Longrightarrow> 32 \<le> b" using 3 eq r by simp
    have hi: "a = 13 \<Longrightarrow> b < 32" using assms eq r by (auto simp: is_scalar_def)
    have enc: "encode_scalar n = [byte_of (224 + a), byte_of (128 + b), byte_of (128 + c)]"
      using 3 by (simp add: encode_scalar_def abc)
    show ?thesis using r lo hi eq by (auto simp: enc utf8_defs)
  next
    case 4
    define a b c d where abcd: "a = n div 262144" "b = n div 4096 mod 64" "c = n div 64 mod 64" "d = n mod 64"
    have eq: "((a * 64 + b) * 64 + c) * 64 + d = n" using div_mod_64 [of n] div_mod_64 [of "n div 64"] div_mod_64 [of "n div 4096"]
      unfolding abcd by (simp add: div_mult2_eq [symmetric])
    have r: "a < 5" "b < 64" "c < 64" "d < 64" using bound unfolding abcd by simp_all
    have lo: "a = 0 \<Longrightarrow> 16 \<le> b" using 4 eq r by simp
    have hi: "a = 4 \<Longrightarrow> b < 16" using bound eq r by simp
    have enc: "encode_scalar n = [byte_of (240 + a), byte_of (128 + b), byte_of (128 + c), byte_of (128 + d)]"
      using 4 by (simp add: encode_scalar_def abcd)
    show ?thesis using r lo hi eq by (auto simp: enc utf8_defs)
  qed
qed

lemma feed_text: "utf8_feed utf8_idle (encode_text t) = (map (\<lambda>n. if is_scalar n then n else replacement_char) t, utf8_idle)"
proof (induction t)
  case (Cons n t)
  have "is_scalar (if is_scalar n then n else replacement_char)" by (simp add: is_scalar_def replacement_char_def)
  from feed_scalar [OF this] Cons show ?case by (simp add: encode_text_def utf8_feed_append)
qed (simp add: encode_text_def)

lemma decodeStream_append:
  "decodeStream (xs @ ys) d =
     (let (a, d1) = decodeStream xs d; (b, d2) = decodeStream ys d1 in (a @ b, d2))"
  by (auto simp: decodeStream_def utf8_feed_append strip_bom_def Let_def split: prod.splits)

lemma decodeStream_Nil: "decodeStream [] d = ([], d)"
  by (simp add: decodeStream_def strip_bom_def)

lemma pty_decode_all_concat: "pty_decode_all cs d = decodeStream (concat cs) d"
  by (induction cs arbitrary: d) (simp_all add: decodeStream_Nil decodeStream_append pty_decode_def Let_def split: prod.splits)

lemma text_id: "list_all is_scalar t \<Longrightarrow> map (\<lambda>n. if is_scalar n then n else replacement_char) t = t"
  by (induction t) simp_all

lemma utf8_idle_needed [simp]: "u_needed utf8_idle = 0"
  by (simp add: utf8_idle_def)

text \<open>
  What is left of a text that was encoded and decoded: a lone surrogate has no encoding and becomes a
  replacement character, and the decoder drops a byte order mark at the start.
\<close>

definition received_text :: "utext \<Rightarrow> utext" where
  "received_text t =
     (let r = map (\<lambda>n. if is_scalar n then n else replacement_char) t
      in case r of [] \<Rightarrow> [] | n # rest \<Rightarrow> if n = 65279 then rest else r)"

lemma decode_encode_text: "decode_text (encode_text t) = received_text t"
proof -
  define r where "r = map (\<lambda>n. if is_scalar n then n else replacement_char) t"
  have "decode_text (encode_text t) = fst (strip_bom False r)"
    by (simp add: decode_text_def decodeFlush_def newTextDecoder_def feed_text r_def Let_def)
  also have "\<dots> = received_text t"
    unfolding received_text_def r_def [symmetric] by (cases r) (simp_all add: strip_bom_def)
  finally show ?thesis .
qed

lemma received_text_id: "list_all is_scalar t \<Longrightarrow> t = [] \<or> hd t \<noteq> 65279 \<Longrightarrow> received_text t = t"
  by (cases t) (simp_all add: received_text_def text_id)

lemma decode_text_encode:
  assumes "list_all is_scalar t" and "t = [] \<or> hd t \<noteq> 65279"
  shows "decode_text (encode_text t) = t"
  using assms by (simp add: decode_encode_text received_text_id)

text \<open>
  C27. The terminal decoder gives the same text however the bytes of a connection are cut into frames, also
  inside a character; after a reset it gives back any text that was encoded, provided that text does not
  start with a byte order mark, and holds nothing back.
\<close>

theorem frames_decode_to_text:
  assumes "concat frames = encode_text t" and "list_all is_scalar t" and "t = [] \<or> hd t \<noteq> 65279"
  shows "fst (pty_decode_all frames (pty_reset d)) = t
         \<and> u_needed (td_state (snd (pty_decode_all frames (pty_reset d)))) = 0
         \<and> pty_decode_all chunks e = pty_decode (concat chunks) e"
proof -
  have "pty_decode_all frames (pty_reset d) = decodeStream (encode_text t) newTextDecoder"
    by (simp add: pty_decode_all_concat assms(1) pty_reset_def decodeFlush_def Let_def split: prod.split)
  moreover have "utf8_feed utf8_idle (encode_text t) = (t, utf8_idle)"
    by (simp add: feed_text text_id assms(2))
  ultimately show ?thesis
    using assms(3) by (auto simp: decodeStream_def newTextDecoder_def strip_bom_def pty_decode_all_concat pty_decode_def)
qed

theorem frames_decode_to_text_witness:
  "fst (pty_decode_all [[240, 159], [148], [146, 65]] (pty_reset newTextDecoder)) = [128274, 65]"
  using frames_decode_to_text [of "[[240, 159], [148], [146, 65]]" "[128274, 65]" newTextDecoder "[]" newTextDecoder]
  by (simp add: encode_text_def encode_scalar_def is_scalar_def byte_of_def)

end
