(* ===== verification/VaultToken.thy ===== *)
theory VaultToken
  imports Utf8 VaultKeyring
begin

text \<open>
  Base64 and the vault token of \<open>src/ui/utils/vaultCrypto.ts\<close>: the exact token pattern, the search for tokens
  in a text and their replacement, and the strict parser of one token. A pattern is matched by the deterministic
  scan it admits: every repetition in it is followed by a character outside the repeated class.
\<close>

section \<open>Sizes\<close>

definition AES_GCM_NONCE_BYTES :: nat where "AES_GCM_NONCE_BYTES = 12"
definition AES_GCM_TAG_BYTES :: nat where "AES_GCM_TAG_BYTES = 16"
definition VAULT_ARMOR_PREFIX :: string where "VAULT_ARMOR_PREFIX = ''vault:v2:''"
definition MIN_ARMOR_PAYLOAD_BYTES :: nat where "MIN_ARMOR_PAYLOAD_BYTES = AES_GCM_NONCE_BYTES + AES_GCM_TAG_BYTES"
definition MAX_ARMOR_PAYLOAD_BYTES :: nat where "MAX_ARMOR_PAYLOAD_BYTES = 64 * 1024 * 1024"
definition MAX_ARMOR_B64_LEN :: nat where "MAX_ARMOR_B64_LEN = (MAX_ARMOR_PAYLOAD_BYTES + 2) div 3 * 4"

lemmas armor_sizes =
  AES_GCM_NONCE_BYTES_def AES_GCM_TAG_BYTES_def MIN_ARMOR_PAYLOAD_BYTES_def MAX_ARMOR_PAYLOAD_BYTES_def
  MAX_ARMOR_B64_LEN_def

section \<open>Base64\<close>

definition b64_char :: "nat \<Rightarrow> char" where
  "b64_char n =
     char_of (if n < 26 then n + 65 else if n < 52 then n + 71 else if n < 62 then n - 4 else if n = 62 then 43 else 47)"

definition b64_code :: "char \<Rightarrow> nat option" where
  "b64_code c =
     (let n = of_char c :: nat in
      if 65 \<le> n \<and> n \<le> 90 then Some (n - 65) else if 97 \<le> n \<and> n \<le> 122 then Some (n - 71)
      else if 48 \<le> n \<and> n \<le> 57 then Some (n + 4) else if n = 43 then Some 62 else if n = 47 then Some 63 else None)"

definition is_b64 :: "char \<Rightarrow> bool" where
  "is_b64 c = (b64_code c \<noteq> None)"

definition sextets :: "nat \<Rightarrow> char list" where
  "sextets n = [b64_char (n div 262144), b64_char (n div 4096 mod 64), b64_char (n div 64 mod 64), b64_char (n mod 64)]"

fun bytesToBase64 :: "bytes \<Rightarrow> string" where
  "bytesToBase64 [] = []"
| "bytesToBase64 [a] = take 2 (sextets (unat a * 65536)) @ ''==''"
| "bytesToBase64 [a, b] = take 3 (sextets (unat a * 65536 + unat b * 256)) @ ''=''"
| "bytesToBase64 (a # b # c # r) = sextets (unat a * 65536 + unat b * 256 + unat c) @ bytesToBase64 r"

fun b64_groups :: "nat list \<Rightarrow> bytes" where
  "b64_groups (w # x # y # z # r) =
     (let n = w * 262144 + x * 4096 + y * 64 + z
      in byte_of (n div 65536) # byte_of (n div 256 mod 256) # byte_of (n mod 256) # b64_groups r)"
| "b64_groups [w, x, y] =
     (let n = w * 262144 + x * 4096 + y * 64 in [byte_of (n div 65536), byte_of (n div 256 mod 256)])"
| "b64_groups [w, x] = [byte_of ((w * 262144 + x * 4096) div 65536)]"
| "b64_groups _ = []"

text \<open>Padding ends the data; \<open>Buffer.from\<close> skips characters outside the alphabet.\<close>

definition base64ToBytes :: "string \<Rightarrow> bytes" where
  "base64ToBytes s = b64_groups (List.map_filter b64_code (takeWhile (\<lambda>c. c \<noteq> CHR ''='') s))"

definition b64_shape :: "string \<Rightarrow> bool" where
  "b64_shape s =
     (takeWhile is_b64 s \<noteq> [] \<and> dropWhile is_b64 s \<in> {[], ''='', ''==''})"

definition isValidBase64 :: "string \<Rightarrow> bool" where
  "isValidBase64 s = (s \<noteq> [] \<and> length s mod 4 = 0 \<and> b64_shape s)"

datatype envelope_error =
    NotCanonicalToken | TokenEpochRange | PayloadTooLarge | MalformedBase64 | NonCanonicalBase64 | PayloadLength
  | InvalidVaultId | InvalidTokenEpoch

definition decodeBase64Strict :: "string \<Rightarrow> envelope_error + bytes" where
  "decodeBase64Strict b64 =
     (if \<not> isValidBase64 b64 then Inl MalformedBase64
      else (let bs = base64ToBytes b64 in if bytesToBase64 bs \<noteq> b64 then Inl NonCanonicalBase64 else Inr bs))"

section \<open>The token\<close>

text \<open>The part up to the payload: the vault id, the digits of the epoch and what follows.\<close>

definition token_head :: "string \<Rightarrow> (string \<times> string \<times> string) option" where
  "token_head s =
     (let r = drop (length VAULT_ARMOR_PREFIX) s; vid = take 16 r; r1 = drop 16 r; r2 = drop 2 r1;
          digits = takeWhile is_digit r2; r3 = dropWhile is_digit r2
      in if starts_with VAULT_ARMOR_PREFIX s \<and> VAULT_ID_RE vid \<and> starts_with '':e'' r1
            \<and> digits \<noteq> [] \<and> length digits \<le> 10 \<and> hd digits \<noteq> CHR ''0'' \<and> starts_with '':'' r3
         then Some (vid, digits, tl r3) else None)"

text \<open>\<open>VAULT_TOKEN_EXACT_RE\<close>: its three groups.\<close>

definition VAULT_TOKEN_EXACT_RE :: "string \<Rightarrow> (string \<times> string \<times> string) option" where
  "VAULT_TOKEN_EXACT_RE s =
     (case token_head s of Some (v, e, b) \<Rightarrow> if b64_shape b then Some (v, e, b) else None | None \<Rightarrow> None)"

definition parseVaultEnvelope :: "string \<Rightarrow> envelope_error + (string \<times> jsnum \<times> bytes)" where
  "parseVaultEnvelope token =
     (case VAULT_TOKEN_EXACT_RE token of
        None \<Rightarrow> Inl NotCanonicalToken
      | Some (vaultId, digits, b64) \<Rightarrow>
          (let epoch = parse_nat digits in
           if epoch < 1 \<or> 4294967295 < epoch then Inl TokenEpochRange
           else if MAX_ARMOR_B64_LEN < length b64 then Inl PayloadTooLarge
           else (case decodeBase64Strict b64 of
                   Inl err \<Rightarrow> Inl err
                 | Inr payload \<Rightarrow>
                     if length payload < MIN_ARMOR_PAYLOAD_BYTES \<or> MAX_ARMOR_PAYLOAD_BYTES < length payload
                     then Inl PayloadLength else Inr (vaultId, js_nat epoch, payload))))"

definition vaultTokenPrefix :: "string \<Rightarrow> jsnum \<Rightarrow> envelope_error + string" where
  "vaultTokenPrefix vaultId epoch =
     (if \<not> VAULT_ID_RE vaultId then Inl InvalidVaultId
      else if \<not> js_whole epoch \<or> num_int epoch < 1 \<or> 4294967295 < num_int epoch then Inl InvalidTokenEpoch
      else Inr (VAULT_ARMOR_PREFIX @ vaultId @ '':e'' @ show_nat (nat (num_int epoch)) @ '':''))"

section \<open>Tokens in a text\<close>

definition ascii_run :: "utext \<Rightarrow> string" where
  "ascii_run t = map char_of (takeWhile (\<lambda>n. n < 128) t)"

text \<open>The length of the match of \<open>VAULT_TOKEN_RE\<close> at the start of a text.\<close>

definition match_token :: "utext \<Rightarrow> nat option" where
  "match_token t =
     (case token_head (ascii_run t) of
        None \<Rightarrow> None
      | Some (v, digits, b) \<Rightarrow>
          (let body = takeWhile is_b64 b; pads = take 2 (takeWhile (\<lambda>c. c = CHR ''='') (dropWhile is_b64 b))
           in if body = [] then None
              else Some (length VAULT_ARMOR_PREFIX + 16 + 2 + length digits + 1 + length body + length pads)))"

lemma match_token_pos: "match_token t = Some k \<Longrightarrow> 0 < k"
  by (auto simp: match_token_def Let_def split: option.splits if_splits)

function findVaultTokens :: "utext \<Rightarrow> utext list" where
  "findVaultTokens [] = []"
| "findVaultTokens (c # r) =
     (case match_token (c # r) of
        Some k \<Rightarrow> take k (c # r) # findVaultTokens (drop k (c # r))
      | None \<Rightarrow> findVaultTokens r)"
  by pat_completeness auto
termination by (relation "measure length") (auto dest: match_token_pos)

function replaceVaultTokens :: "utext \<Rightarrow> utext \<Rightarrow> utext" where
  "replaceVaultTokens replacement [] = []"
| "replaceVaultTokens replacement (c # r) =
     (case match_token (c # r) of
        Some k \<Rightarrow> replacement @ replaceVaultTokens replacement (drop k (c # r))
      | None \<Rightarrow> c # replaceVaultTokens replacement r)"
  by pat_completeness auto
termination by (relation "measure (length \<circ> snd)") (auto dest: match_token_pos)

fun containsVaultArmored :: "utext \<Rightarrow> bool" where
  "containsVaultArmored [] = False"
| "containsVaultArmored (c # r) = (match_token (c # r) \<noteq> None \<or> containsVaultArmored r)"

text \<open>\<open>[LOCK Encrypted]\<close> and \<open>[LOCK From a previous vault]\<close>, with the lock sign U+1F512.\<close>

definition VAULT_LOCKED_MARKER :: utext where
  "VAULT_LOCKED_MARKER = of_ascii ''['' @ [128274] @ of_ascii '' Encrypted]''"

definition VAULT_OTHER_VAULT_MARKER :: utext where
  "VAULT_OTHER_VAULT_MARKER = of_ascii ''['' @ [128274] @ of_ascii '' From a previous vault]''"

definition isVaultArmored :: "utext \<Rightarrow> bool" where
  "isVaultArmored t = (take (length VAULT_ARMOR_PREFIX) t = of_ascii VAULT_ARMOR_PREFIX)"

definition exact_token :: "utext \<Rightarrow> bool" where
  "exact_token t = (list_all (\<lambda>n. n < 128) t \<and> VAULT_TOKEN_EXACT_RE (map char_of t) \<noteq> None)"

definition isWholeVaultArmored :: "utext \<Rightarrow> bool" where
  "isWholeVaultArmored t = (isVaultArmored t \<and> (exact_token t \<or> \<not> containsVaultArmored t))"

section \<open>Base64 round trip\<close>

lemma b64_code_char: "n < 64 \<Longrightarrow> b64_code (b64_char n) = Some n"
  by (auto simp: b64_code_def b64_char_def Let_def)

lemma b64_char_not_pad: "n < 64 \<Longrightarrow> b64_char n \<noteq> CHR ''=''"
proof
  assume "n < 64" "b64_char n = CHR ''=''"
  then show False using b64_code_char [of n] by (simp add: b64_code_def)
qed

lemma is_b64_char [simp]: "n < 64 \<Longrightarrow> is_b64 (b64_char n)"
  by (simp add: is_b64_def b64_code_char)

lemma not_is_b64_pad [simp]: "\<not> is_b64 (CHR ''='')"
  by (simp add: is_b64_def b64_code_def)

lemma byte_24:
  assumes "a < 256" "b < 256" "c < (256 :: nat)"
  defines "n \<equiv> a * 65536 + b * 256 + c"
  shows "n div 262144 * 262144 + n div 4096 mod 64 * 4096 + n div 64 mod 64 * 64 + n mod 64 = n"
    and "n div 262144 < 64" and "n div 65536 = a" and "n div 256 mod 256 = b" and "n mod 256 = c"
proof -
  have "n div 64 * 64 + n mod 64 = n" by (rule div_mod_64)
  moreover have "n div 4096 * 64 + n div 64 mod 64 = n div 64"
    using div_mod_64 [of "n div 64"] by (simp add: div_mult2_eq [symmetric])
  moreover have "n div 262144 * 64 + n div 4096 mod 64 = n div 4096"
    using div_mod_64 [of "n div 4096"] by (simp add: div_mult2_eq [symmetric])
  ultimately show "n div 262144 * 262144 + n div 4096 mod 64 * 4096 + n div 64 mod 64 * 64 + n mod 64 = n"
    by linarith
  show "n div 262144 < 64" using assms(1-3) unfolding n_def by simp
  have "n = c + (a * 256 + b) * 256" unfolding n_def by simp
  then have q: "n mod 256 = c" "n div 256 = b + a * 256"
    using assms(3) by (simp_all only: mod_mult_self3 mod_mult_self1 div_mult_self1_is_m mod_less div_mult_self3) simp_all
  then show "n mod 256 = c" "n div 256 mod 256 = b" using assms(2) by simp_all
  show "n div 65536 = a" using assms(1-3) unfolding n_def by simp
qed

lemma byte_of_unat [simp]: "byte_of (unat b) = b"
  by (simp add: byte_of_def)

lemma b64_decode_encode: "base64ToBytes (bytesToBase64 bs) = bs"
proof (induction bs rule: bytesToBase64.induct)
  case 1
  then show ?case by (simp add: base64ToBytes_def List.map_filter_simps)
next
  case (2 a)
  note b = byte_24 [OF unat_byte [of a], of 0 0, simplified]
  define n where "n = unat a * 65536"
  have z: "n mod 4096 = 0" unfolding n_def by simp
  have e: "n div 262144 * 262144 + n div 4096 mod 64 * 4096 = n" and q: "n div 262144 < 64"
    and v: "n div 65536 = unat a"
    using b z unfolding n_def by simp_all
  then show ?case
    using v by (simp add: base64ToBytes_def sextets_def n_def [symmetric] List.map_filter_simps b64_char_not_pad b64_code_char e)
next
  case (3 a b)
  note b = byte_24 [OF unat_byte [of a] unat_byte [of b], of 0, simplified]
  define n where "n = unat a * 65536 + unat b * 256"
  have z: "n mod 64 = 0" unfolding n_def by simp
  have e: "n div 262144 * 262144 + n div 4096 mod 64 * 4096 + n div 64 mod 64 * 64 = n" and q: "n div 262144 < 64"
    and v: "n div 65536 = unat a" "n div 256 mod 256 = unat b"
    using b z unfolding n_def by simp_all
  then show ?case
    by (simp add: base64ToBytes_def sextets_def n_def [symmetric] List.map_filter_simps b64_char_not_pad b64_code_char e)
next
  case (4 a b c r)
  note b = byte_24 [OF unat_byte [of a] unat_byte [of b] unat_byte [of c]]
  define n where "n = unat a * 65536 + unat b * 256 + unat c"
  note b = b [folded n_def]
  show ?case
    using 4 b by (simp add: base64ToBytes_def sextets_def n_def [symmetric] List.map_filter_simps b64_char_not_pad b64_code_char)
qed

lemma length_base64: "length (bytesToBase64 bs) = (length bs + 2) div 3 * 4"
proof (induction bs rule: bytesToBase64.induct)
  case (4 a b c r)
  have "(length r + 5) div 3 = (length r + 2) div 3 + 1"
    using div_add_self2 [of 3 "length r + 2"] by (simp add: add.commute)
  then show ?case using 4 by (simp add: sextets_def add.commute)
qed (simp_all add: sextets_def)

lemma base64_Nil_iff [simp]: "bytesToBase64 bs = [] \<longleftrightarrow> bs = []"
  by (cases bs rule: bytesToBase64.cases) (simp_all add: sextets_def)

lemma sextets_b64: "n < 16777216 \<Longrightarrow> list_all is_b64 (sextets n)"
  by (simp add: sextets_def)

lemma b64_shape_append: "list_all is_b64 p \<Longrightarrow> p \<noteq> [] \<Longrightarrow> s \<in> {[], ''='', ''==''} \<or> b64_shape s \<Longrightarrow> b64_shape (p @ s)"
  unfolding b64_shape_def by (auto simp: list_all_iff takeWhile_append2 dropWhile_append2)

lemma bytes_24: "unat (a :: byte) * 65536 + unat (b :: byte) * 256 + unat (c :: byte) < 16777216"
  using unat_byte [of a] unat_byte [of b] unat_byte [of c] by simp

lemma list_all_take: "list_all P xs \<Longrightarrow> list_all P (take k xs)"
  by (auto simp: list_all_iff dest: in_set_takeD)

lemma b64_shape_base64: "bs \<noteq> [] \<Longrightarrow> b64_shape (bytesToBase64 bs)"
proof (induction bs rule: bytesToBase64.induct)
  case (2 a)
  show ?case unfolding bytesToBase64.simps
    by (rule b64_shape_append) (use bytes_24 [of a 0 0] in \<open>auto intro!: list_all_take sextets_b64 simp: sextets_def\<close>)
next
  case (3 a b)
  show ?case unfolding bytesToBase64.simps
    by (rule b64_shape_append) (use bytes_24 [of a b 0] in \<open>auto intro!: list_all_take sextets_b64 simp: sextets_def\<close>)
next
  case (4 a b c r)
  show ?case unfolding bytesToBase64.simps
    by (rule b64_shape_append)
      (use 4 bytes_24 [of a b c] in \<open>cases "r = []"; auto intro!: sextets_b64 simp: sextets_def\<close>)+
qed simp

lemma decodeBase64Strict_iff: "decodeBase64Strict s = Inr bs \<longleftrightarrow> bs \<noteq> [] \<and> s = bytesToBase64 bs"
proof
  assume "decodeBase64Strict s = Inr bs"
  then have "s = bytesToBase64 bs" "s \<noteq> []"
    by (auto simp: decodeBase64Strict_def isValidBase64_def Let_def split: if_splits)
  then show "bs \<noteq> [] \<and> s = bytesToBase64 bs" by auto
next
  assume "bs \<noteq> [] \<and> s = bytesToBase64 bs"
  then show "decodeBase64Strict s = Inr bs"
    by (simp add: decodeBase64Strict_def isValidBase64_def length_base64 b64_shape_base64 b64_decode_encode)
qed

section \<open>The grammar of tokens\<close>

definition epoch_digits :: "string \<Rightarrow> bool" where
  "epoch_digits ds = (ds \<noteq> [] \<and> list_all is_digit ds \<and> length ds \<le> 10 \<and> hd ds \<noteq> CHR ''0'')"

definition token_start :: "string \<Rightarrow> string \<Rightarrow> string" where
  "token_start v ds = VAULT_ARMOR_PREFIX @ v @ '':e'' @ ds @ '':''"

lemma token_head_start:
  assumes "VAULT_ID_RE v" and "epoch_digits ds"
  shows "token_head (token_start v ds @ b) = Some (v, ds, b)"
proof -
  have v: "length v = 16" using assms(1) by (simp add: VAULT_ID_RE_def)
  have d: "takeWhile is_digit (ds @ CHR '':'' # b) = ds" "dropWhile is_digit (ds @ CHR '':'' # b) = CHR '':'' # b"
    using assms(2) by (auto simp: epoch_digits_def list_all_iff is_digit_def)
  show ?thesis
    using assms v by (auto simp: token_head_def token_start_def d starts_with_iff epoch_digits_def)
qed

lemma token_head_Some:
  assumes "token_head s = Some (v, ds, b)"
  shows "s = token_start v ds @ b \<and> VAULT_ID_RE v \<and> epoch_digits ds"
proof -
  obtain r where r: "s = VAULT_ARMOR_PREFIX @ r"
    using assms by (auto simp: token_head_def Let_def starts_with_iff split: if_splits)
  from assms obtain r2 r3 where v: "v = take 16 r" "VAULT_ID_RE v" "drop 16 r = '':e'' @ r2"
      and ds: "ds = takeWhile is_digit r2" "dropWhile is_digit r2 = '':'' @ r3" and b: "b = r3" and e: "ds \<noteq> []" "length ds \<le> 10" "hd ds \<noteq> CHR ''0''"
    by (auto simp: token_head_def Let_def starts_with_iff r simp del: drop_drop split: if_splits)
  have "r = v @ '':e'' @ r2" using v(1,3) append_take_drop_id [of 16 r] by simp
  moreover have "r2 = ds @ '':'' @ b" using ds b takeWhile_dropWhile_id [of is_digit r2] by simp
  moreover have "list_all is_digit ds" unfolding ds(1) list_all_iff by (auto dest: set_takeWhileD)
  ultimately show ?thesis using r v(2) e by (simp add: token_start_def epoch_digits_def)
qed

lemma char_zero: "char_of (48 :: nat) = CHR ''0''"
  by (simp add: char_of_eq_iff)

lemma digit_char_val: "is_digit c \<Longrightarrow> digit_char (digit_val c) = c"
  by (simp add: is_digit_def digit_val_def digit_char_def Let_def)

lemma parse_nat_snoc [simp]: "parse_nat (s @ [c]) = 10 * parse_nat s + digit_val c"
  by (simp add: parse_nat_def)

lemma digit_val_less: "is_digit c \<Longrightarrow> digit_val c < 10"
  by (auto simp: is_digit_def digit_val_def Let_def)

lemma show_parse_nat:
  "list_all is_digit ds \<Longrightarrow> ds \<noteq> [] \<Longrightarrow> hd ds \<noteq> CHR ''0'' \<Longrightarrow> 1 \<le> parse_nat ds \<and> show_nat (parse_nat ds) = ds"
proof (induction ds rule: rev_induct)
  case (snoc c s)
  note c = digit_val_less [of c] digit_char_val [of c]
  show ?case
  proof (cases "s = []")
    case True
    have "c = CHR ''0''" if "digit_val c = 0"
      using that c(2) snoc.prems(1) True by (simp add: digit_char_def char_of_eq_iff take_bit_eq_mod char_zero)
    then have "digit_val c \<noteq> 0" using snoc.prems(3) True by auto
    then show ?thesis using True snoc.prems(1) c
      by (simp add: parse_nat_def show_nat.simps [of "digit_val c"])
  next
    case False
    then have IH: "1 \<le> parse_nat s" "show_nat (parse_nat s) = s" using snoc by auto
    have "show_nat (10 * parse_nat s + digit_val c) = show_nat (parse_nat s) @ [digit_char (digit_val c)]"
      using IH(1) c(1) snoc.prems(1) by (subst show_nat.simps) simp
    then show ?thesis using IH c snoc.prems(1) by simp
  qed
qed simp

lemma length_show_nat: "n < 10 ^ k \<Longrightarrow> 0 < k \<Longrightarrow> length (show_nat n) \<le> k"
proof (induction k arbitrary: n)
  case (Suc k)
  show ?case
  proof (cases "n < 10")
    case False
    then have "k \<noteq> 0" using Suc.prems(1) by (cases k) simp_all
    moreover have "n div 10 < 10 ^ k" using Suc.prems(1) by (simp add: less_mult_imp_div_less mult.commute)
    ultimately have "length (show_nat (n div 10)) \<le> k" using Suc.IH by simp
    then show ?thesis using False by (subst show_nat.simps) simp
  qed (simp add: show_nat.simps [of n])
qed simp

lemma hd_show_nat: "1 \<le> n \<Longrightarrow> hd (show_nat n) \<noteq> CHR ''0''"
proof (induction n rule: show_nat.induct)
  case (1 n)
  have d: "digit_char m \<noteq> CHR ''0''" if "1 \<le> m" "m < 10" for m
    using that digit_char_props(2) [of m] by (auto simp: digit_val_def)
  show ?case
  proof (cases "n < 10")
    case False
    then have "hd (show_nat (n div 10)) \<noteq> CHR ''0''" using 1 by simp
    then show ?thesis using False by (subst show_nat.simps) simp
  qed (use 1 d in \<open>simp add: show_nat.simps [of n]\<close>)
qed

lemma epoch_digits_show: "1 \<le> n \<Longrightarrow> n \<le> 4294967295 \<Longrightarrow> epoch_digits (show_nat n)"
  using all_digits_show_nat [of n] length_show_nat [of n 10] hd_show_nat [of n]
  by (simp add: epoch_digits_def all_digits_def)

lemma vaultTokenPrefix_Inr:
  "vaultTokenPrefix v e = Inr p \<longleftrightarrow>
     VAULT_ID_RE v \<and> valid_epoch e \<and> p = token_start v (show_nat (nat (num_int e)))"
  by (auto simp: vaultTokenPrefix_def token_start_def MAX_EPOCH_def)

text \<open>The parser accepts exactly the spelling of a vault id, an epoch and a payload within its bounds.\<close>

lemma parse_envelope_iff:
  "parseVaultEnvelope s = Inr (v, e, p) \<longleftrightarrow>
     MIN_ARMOR_PAYLOAD_BYTES \<le> length p \<and> length p \<le> MAX_ARMOR_PAYLOAD_BYTES
     \<and> (\<exists>pre. vaultTokenPrefix v e = Inr pre \<and> s = pre @ bytesToBase64 p)"
  (is "?L \<longleftrightarrow> ?R")
proof
  assume ?L
  then obtain ds b where h: "token_head s = Some (v, ds, b)" and n: "1 \<le> parse_nat ds" "parse_nat ds \<le> 4294967295"
      and e: "e = js_nat (parse_nat ds)" and d: "decodeBase64Strict b = Inr p"
      and l: "MIN_ARMOR_PAYLOAD_BYTES \<le> length p" "length p \<le> MAX_ARMOR_PAYLOAD_BYTES"
    by (auto simp: parseVaultEnvelope_def VAULT_TOKEN_EXACT_RE_def Let_def split: option.splits if_splits sum.splits)
  note t = token_head_Some [OF h]
  have "b = bytesToBase64 p" using d by (simp add: decodeBase64Strict_iff)
  moreover have "show_nat (parse_nat ds) = ds" using t show_parse_nat by (auto simp: epoch_digits_def)
  moreover have "valid_epoch e" using n by (simp add: e js_whole_def js_nat_def num_int_def MAX_EPOCH_def)
  ultimately show ?R using t l e by (auto simp: vaultTokenPrefix_Inr)
next
  assume ?R
  then have l: "MIN_ARMOR_PAYLOAD_BYTES \<le> length p" "length p \<le> MAX_ARMOR_PAYLOAD_BYTES"
    and v: "VAULT_ID_RE v" "valid_epoch e" and s: "s = token_start v (show_nat (nat (num_int e))) @ bytesToBase64 p"
    by (auto simp: vaultTokenPrefix_Inr)
  have ne: "p \<noteq> []" using l(1) by (auto simp: armor_sizes)
  have "token_head s = Some (v, show_nat (nat (num_int e)), bytesToBase64 p)"
    unfolding s by (rule token_head_start) (use v in \<open>auto intro!: epoch_digits_show simp: MAX_EPOCH_def\<close>)
  moreover have "length (bytesToBase64 p) \<le> MAX_ARMOR_B64_LEN"
    using l(2) unfolding length_base64 MAX_ARMOR_B64_LEN_def by (intro mult_right_mono div_le_mono) simp_all
  moreover have "decodeBase64Strict (bytesToBase64 p) = Inr p" using ne by (simp add: decodeBase64Strict_iff)
  moreover have "js_nat (nat (num_int e)) = e" using v(2) by (rule epoch_num(1))
  ultimately show ?L
    using l v(2) ne by (simp add: parseVaultEnvelope_def VAULT_TOKEN_EXACT_RE_def b64_shape_base64 MAX_EPOCH_def Let_def not_less nat_le_iff)
qed

section \<open>Tokens in a text\<close>

definition token_chars :: "string \<Rightarrow> string \<Rightarrow> string \<Rightarrow> string \<Rightarrow> bool" where
  "token_chars v ds body pads =
     (VAULT_ID_RE v \<and> epoch_digits ds \<and> body \<noteq> [] \<and> list_all is_b64 body \<and> pads \<in> {[], ''='', ''==''})"

lemma length_token_start:
  "VAULT_ID_RE v \<Longrightarrow> length (token_start v ds) = length VAULT_ARMOR_PREFIX + 16 + 2 + length ds + 1"
  by (simp add: token_start_def VAULT_ID_RE_def)

lemma ascii_run_append: "ascii_run (of_ascii s @ t) = s @ ascii_run t" if "list_all (\<lambda>c. of_char c < (128 :: nat)) s"
  using that by (induction s) (simp_all add: ascii_run_def of_ascii_def)

lemma ascii_run_split: "t = of_ascii (ascii_run t) @ dropWhile (\<lambda>n. n < 128) t"
proof -
  have "map (of_char \<circ> (char_of :: nat \<Rightarrow> char)) (takeWhile (\<lambda>n. n < 128) t) = takeWhile (\<lambda>n. n < 128) t"
    by (rule map_idI) (auto dest!: set_takeWhileD)
  then show ?thesis by (simp add: ascii_run_def of_ascii_def)
qed

lemma match_token_Some:
  assumes "match_token t = Some k"
  obtains v ds body pads where "token_chars v ds body pads" and "take k t = of_ascii (token_start v ds @ body @ pads)"
proof -
  obtain v ds b where h: "token_head (ascii_run t) = Some (v, ds, b)" and ne: "takeWhile is_b64 b \<noteq> []"
      and k: "k = length VAULT_ARMOR_PREFIX + 16 + 2 + length ds + 1 + length (takeWhile is_b64 b)
                  + length (take 2 (takeWhile (\<lambda>c. c = CHR ''='') (dropWhile is_b64 b)))"
    using assms by (auto simp: match_token_def Let_def split: option.splits if_splits)
  define body where "body = takeWhile is_b64 b"
  define eqs where "eqs = takeWhile (\<lambda>c. c = CHR ''='') (dropWhile is_b64 b)"
  note s = token_head_Some [OF h]
  have "list_all (\<lambda>c. c = CHR ''='') eqs" unfolding eqs_def by (auto simp: list_all_iff dest: set_takeWhileD)
  then have pads: "take 2 eqs \<in> {[], ''='', ''==''}"
    by (cases eqs; cases "tl eqs") auto
  have "b = body @ eqs @ dropWhile (\<lambda>c. c = CHR ''='') (dropWhile is_b64 b)"
    unfolding body_def eqs_def by simp
  then have b: "b = body @ take 2 eqs @ drop 2 eqs @ dropWhile (\<lambda>c. c = CHR ''='') (dropWhile is_b64 b)"
    by (metis append_assoc append_take_drop_id)
  have "ascii_run t = token_start v ds @ body @ take 2 eqs @ drop 2 eqs @ dropWhile (\<lambda>c. c = CHR ''='') (dropWhile is_b64 b)"
    by (subst s [THEN conjunct1], subst b) simp
  moreover have "k = length (token_start v ds @ body @ take 2 eqs)"
    using k s by (simp add: length_token_start body_def eqs_def)
  ultimately have "take k t = of_ascii (token_start v ds @ body @ take 2 eqs)"
    by (subst ascii_run_split [of t]) (simp add: of_ascii_def)
  moreover have "token_chars v ds body (take 2 eqs)"
    using s ne pads by (auto simp: token_chars_def body_def list_all_iff dest: set_takeWhileD)
  ultimately show thesis by (rule that [rotated])
qed

lemma token_ascii:
  assumes "token_chars v ds body pads" and "c \<in> set (token_start v ds @ body @ pads)"
  shows "of_char c < (128 :: nat)" and "c \<noteq> CHR ''[''"
proof -
  have "(of_char c :: nat) < 128 \<and> (of_char c :: nat) \<noteq> 91"
  proof -
    have v: "(of_char x :: nat) < 128 \<and> of_char x \<noteq> (91 :: nat)" if "hex_code x \<noteq> None" for x
      using that by (auto simp: hex_code_def Let_def split: if_splits)
    have d: "(of_char x :: nat) < 128 \<and> of_char x \<noteq> (91 :: nat)" if "is_digit x" for x
      using that by (auto simp: is_digit_def Let_def)
    have b: "(of_char x :: nat) < 128 \<and> of_char x \<noteq> (91 :: nat)" if "is_b64 x" for x
      using that by (auto simp: is_b64_def b64_code_def Let_def split: if_splits)
    have p: "(of_char x :: nat) < 128 \<and> of_char x \<noteq> (91 :: nat)" if "x \<in> set VAULT_ARMOR_PREFIX \<or> x \<in> set '':e='' " for x
      using that by (auto simp: VAULT_ARMOR_PREFIX_def)
    show ?thesis
      using assms v d b p
      by (fastforce simp: token_start_def token_chars_def VAULT_ID_RE_def epoch_digits_def list_all_iff)
  qed
  then show "of_char c < (128 :: nat)" "c \<noteq> CHR ''[''" by auto
qed

lemma match_token_start:
  assumes "token_chars v ds body pads"
  shows "match_token (of_ascii (token_start v ds @ body @ pads) @ z) \<noteq> None"
proof -
  have "list_all (\<lambda>c. of_char c < (128 :: nat)) (token_start v ds @ body @ pads)"
    using token_ascii(1) [OF assms] unfolding list_all_iff by blast
  from ascii_run_append [OF this] have "ascii_run (of_ascii (token_start v ds @ body @ pads) @ z)
      = token_start v ds @ body @ pads @ ascii_run z" by simp
  moreover have "takeWhile is_b64 (body @ r) \<noteq> []" for r
    using assms by (cases body) (auto simp: token_chars_def)
  ultimately show ?thesis
    using assms by (simp add: match_token_def token_head_start token_chars_def Let_def)
qed

lemma match_token_extend:
  assumes "match_token t = Some k" and "take k t = take k u"
  shows "match_token u \<noteq> None"
proof -
  obtain v ds body pads where "token_chars v ds body pads" "take k u = of_ascii (token_start v ds @ body @ pads)"
    using match_token_Some [OF assms(1)] assms(2) by metis
  then show ?thesis using match_token_start [of v ds body pads "drop k u"] append_take_drop_id [of k u] by metis
qed

lemma match_token_no_bracket: "match_token t = Some k \<Longrightarrow> 91 \<notin> set (take k t)"
proof (erule match_token_Some)
  fix v ds body pads
  assume *: "token_chars v ds body pads" "take k t = of_ascii (token_start v ds @ body @ pads)"
  have "(of_char c :: nat) \<noteq> 91" if "c \<in> set (token_start v ds @ body @ pads)" for c
  proof
    assume "(of_char c :: nat) = 91"
    moreover have "c = char_of (of_char c :: nat)" by simp
    ultimately have "c = char_of (91 :: nat)" by (simp only:)
    moreover have "char_of (91 :: nat) = CHR ''[''" by (simp add: char_of_eq_iff)
    ultimately show False using token_ascii(2) [OF *(1) that] by simp
  qed
  then show "91 \<notin> set (take k t)" unfolding *(2) of_ascii_def set_map by (metis imageE)
qed

lemma locked_marker: "VAULT_LOCKED_MARKER = 91 # 128274 # of_ascii '' Encrypted]''"
  by (simp add: VAULT_LOCKED_MARKER_def of_ascii_def)

lemma replace_agrees:
  "91 \<notin> set (take k (replaceVaultTokens VAULT_LOCKED_MARKER t)) \<Longrightarrow>
     take k (replaceVaultTokens VAULT_LOCKED_MARKER t) = take k t"
proof (induction VAULT_LOCKED_MARKER t arbitrary: k rule: replaceVaultTokens.induct)
  case (2 c r)
  then show ?case by (cases k) (auto simp: locked_marker split: option.splits)
qed simp

lemma starts_v: "match_token (c # t) \<noteq> None \<Longrightarrow> c = 118"
proof -
  assume "match_token (c # t) \<noteq> None"
  then obtain k where k: "match_token (c # t) = Some k" by auto
  from k obtain v ds body pads where "take k (c # t) = of_ascii (token_start v ds @ body @ pads)"
    by (rule match_token_Some)
  moreover have "0 < k" using k by (rule match_token_pos)
  ultimately show "c = 118" by (cases k) (simp_all add: token_start_def VAULT_ARMOR_PREFIX_def of_ascii_def)
qed

lemma contains_marker:
  "containsVaultArmored (VAULT_LOCKED_MARKER @ t) = containsVaultArmored t"
proof -
  have no: "containsVaultArmored (c # u) = containsVaultArmored u" if "c \<noteq> 118" for c u
    using that starts_v [of c u] by auto
  show ?thesis by (simp add: locked_marker of_ascii_def no del: containsVaultArmored.simps)
qed

lemma no_token_left: "\<not> containsVaultArmored (replaceVaultTokens VAULT_LOCKED_MARKER t)"
proof (induction VAULT_LOCKED_MARKER t rule: replaceVaultTokens.induct)
  case (2 c r)
  show ?case
  proof (cases "match_token (c # r)")
    case None
    have "match_token (c # replaceVaultTokens VAULT_LOCKED_MARKER r) = None"
    proof (rule ccontr)
      assume "match_token (c # replaceVaultTokens VAULT_LOCKED_MARKER r) \<noteq> None"
      then obtain k where k: "match_token (c # replaceVaultTokens VAULT_LOCKED_MARKER r) = Some k" by auto
      obtain j where j: "k = Suc j" using match_token_pos [OF k] by (cases k) auto
      have "91 \<notin> set (take j (replaceVaultTokens VAULT_LOCKED_MARKER r))"
        using match_token_no_bracket [OF k] by (simp add: j)
      then have "take k (c # replaceVaultTokens VAULT_LOCKED_MARKER r) = take k (c # r)"
        using replace_agrees by (simp add: j)
      from match_token_extend [OF k this] None show False by simp
    qed
    then show ?thesis using 2 None by simp
  next
    case (Some k)
    then show ?thesis using 2 by (simp add: contains_marker)
  qed
qed simp

lemma found_tokens_exact: "list_all exact_token (findVaultTokens t)"
proof (induction t rule: findVaultTokens.induct)
  case (2 c r)
  show ?case
  proof (cases "match_token (c # r)")
    case (Some k)
    obtain v ds body pads where tc: "token_chars v ds body pads"
        and eq: "take k (c # r) = of_ascii (token_start v ds @ body @ pads)"
      using Some by (rule match_token_Some)
    have "list_all (\<lambda>n. n < 128) (take k (c # r))"
      unfolding eq of_ascii_def list_all_iff using token_ascii(1) [OF tc] by auto
    moreover have "map char_of (take k (c # r)) = token_start v ds @ body @ pads"
      unfolding eq of_ascii_def by (simp add: comp_def)
    moreover have "b64_shape (body @ pads)"
      using tc by (intro b64_shape_append) (auto simp: token_chars_def)
    ultimately have "exact_token (take k (c # r))"
      using tc by (simp add: exact_token_def VAULT_TOKEN_EXACT_RE_def token_head_start token_chars_def)
    then show ?thesis using 2(2) [OF Some] Some by simp
  qed (use 2 in simp)
qed simp

lemma find_iff_contains: "findVaultTokens t = [] \<longleftrightarrow> \<not> containsVaultArmored t"
  by (induction t rule: findVaultTokens.induct) (auto split: option.splits)

lemma replace_nothing: "\<not> containsVaultArmored t \<Longrightarrow> replaceVaultTokens r t = t"
  by (induction r t rule: replaceVaultTokens.induct) auto

section \<open>Properties\<close>

text \<open>
  C28. The parser of a vault token accepts exactly one spelling of a vault id, an epoch and a payload: it
  succeeds when the text is the prefix of that vault and epoch followed by the padded base64 of the payload,
  and the payload is within its bounds, and on no other text.
\<close>

theorem token_canonical:
  "(parseVaultEnvelope s = Inr (v, e, p)) =
     (MIN_ARMOR_PAYLOAD_BYTES \<le> length p \<and> length p \<le> MAX_ARMOR_PAYLOAD_BYTES
      \<and> (\<exists>pre. vaultTokenPrefix v e = Inr pre \<and> s = pre @ bytesToBase64 p))"
  by (rule parse_envelope_iff)

text \<open>
  C29. Masking a text with the locked marker leaves no vault token in it, not even one that spans a replaced
  place; the tokens found in a text are exact tokens, and a text without a token is not changed.
\<close>

theorem masked_text_has_no_token:
  "\<not> containsVaultArmored (replaceVaultTokens VAULT_LOCKED_MARKER t)
   \<and> findVaultTokens (replaceVaultTokens VAULT_LOCKED_MARKER t) = []
   \<and> list_all exact_token (findVaultTokens t)
   \<and> (containsVaultArmored t \<or> replaceVaultTokens r t = t)"
  using no_token_left find_iff_contains found_tokens_exact replace_nothing by metis

end
