(* ===== verification/VaultSeal.thy ===== *)
theory VaultSeal
  imports VaultToken Sha256
begin

text \<open>
  Sealing and opening vault content (\<open>src/ui/utils/vaultCrypto.ts\<close>): the envelope under the current epoch key,
  its byte and text forms, and the content of file writes. WebCrypto is a record of functions; what the code
  relies on of AES-GCM is \<open>aead_laws\<close>. A fresh nonce is an argument; zeroing the temporary arrays has no effect
  on a result and is left out.
\<close>

section \<open>WebCrypto\<close>

text \<open>
  \<open>'k\<close> are AES-GCM keys, \<open>'b\<close> HKDF base keys. Encryption takes key, nonce, additional data and plaintext and
  gives the ciphertext followed by the tag; decryption and key derivation can fail.
\<close>

record ('k, 'b) web_crypto =
  wc_encrypt :: "'k \<Rightarrow> bytes \<Rightarrow> bytes \<Rightarrow> bytes \<Rightarrow> bytes"
  wc_decrypt :: "'k \<Rightarrow> bytes \<Rightarrow> bytes \<Rightarrow> bytes \<Rightarrow> bytes option"
  wc_derive :: "'b \<Rightarrow> bytes \<Rightarrow> bytes \<Rightarrow> 'k option"

text \<open>
  AES-GCM with a 128-bit tag: the output is the plaintext's length plus sixteen, decryption inverts encryption,
  and, both being deterministic, what decrypts is the encryption of what it decrypts to.
\<close>

definition aead_laws :: "('k, 'b) web_crypto \<Rightarrow> bool" where
  "aead_laws W =
     ((\<forall>k iv aad d. length (wc_encrypt W k iv aad d) = length d + 16)
      \<and> (\<forall>k iv aad c d. wc_decrypt W k iv aad c = Some d \<longleftrightarrow> c = wc_encrypt W k iv aad d))"

datatype seal_error =
    Envelope envelope_error | KeyringUnavailable | CurrentKeyLost | PlaintextTooLarge | InvalidNonceLength
  | DoesNotAuthenticate | SealedInAnotherVault | UnknownEpoch | NeedsBridgeId | NeedsRoot | NeedsPath

section \<open>The envelope\<close>

definition vaultEnvelopeAad :: "string \<Rightarrow> jsnum \<Rightarrow> bytes" where
  "vaultEnvelopeAad vaultId epoch =
     utf8_encode (''heimdall-vault-v2|'' @ vaultId @ ''|e'' @ show_nat (nat (num_int epoch)))"

definition requireKeyring ::
  "('k, 'b) vault_keyring option \<Rightarrow> ('k, 'b) vault_keyring option \<Rightarrow> seal_error + ('k, 'b) vault_keyring" where
  "requireKeyring active keyring =
     (case (case keyring of Some kr \<Rightarrow> Some kr | None \<Rightarrow> active) of None \<Rightarrow> Inl KeyringUnavailable | Some kr \<Rightarrow> Inr kr)"

definition sealVaultEnvelope ::
  "('k, 'b) web_crypto \<Rightarrow> bytes \<Rightarrow> 'k \<Rightarrow> string \<Rightarrow> jsnum \<Rightarrow> bytes \<Rightarrow> bytes option \<Rightarrow> seal_error + string" where
  "sealVaultEnvelope W plaintext key vaultId epoch nonce aad =
     (case vaultTokenPrefix vaultId epoch of
        Inl err \<Rightarrow> Inl (Envelope err)
      | Inr prefix \<Rightarrow>
          if MAX_ARMOR_PAYLOAD_BYTES - MIN_ARMOR_PAYLOAD_BYTES < length plaintext then Inl PlaintextTooLarge
          else if length nonce \<noteq> AES_GCM_NONCE_BYTES then Inl InvalidNonceLength
          else
            (let encrypted = wc_encrypt W key nonce (case aad of Some a \<Rightarrow> a | None \<Rightarrow> vaultEnvelopeAad vaultId epoch) plaintext;
                 ctLen = length encrypted - AES_GCM_TAG_BYTES;
                 p0 = replicate (MIN_ARMOR_PAYLOAD_BYTES + ctLen) 0;
                 p1 = write_at 0 nonce p0;
                 p2 = write_at AES_GCM_NONCE_BYTES (drop ctLen encrypted) p1;
                 payload = write_at MIN_ARMOR_PAYLOAD_BYTES (take ctLen encrypted) p2
             in Inr (prefix @ bytesToBase64 payload)))"

text \<open>The decoded payload is cut into nonce, tag and ciphertext; AES-GCM takes the tag last.\<close>

definition open_payload :: "('k, 'b) web_crypto \<Rightarrow> bytes \<Rightarrow> 'k \<Rightarrow> bytes \<Rightarrow> seal_error + bytes" where
  "open_payload W payload key aad =
     (let nonce = sub_bytes 0 AES_GCM_NONCE_BYTES payload;
          tag = sub_bytes AES_GCM_NONCE_BYTES MIN_ARMOR_PAYLOAD_BYTES payload;
          ciphertext = drop MIN_ARMOR_PAYLOAD_BYTES payload;
          c0 = replicate (length ciphertext + length tag) 0;
          combined = write_at (length ciphertext) tag (write_at 0 ciphertext c0)
      in case wc_decrypt W key nonce aad combined of None \<Rightarrow> Inl DoesNotAuthenticate | Some plain \<Rightarrow> Inr plain)"

definition openVaultPayload ::
  "('k, 'b) web_crypto \<Rightarrow> bytes \<Rightarrow> 'k \<Rightarrow> string \<Rightarrow> jsnum \<Rightarrow> seal_error + bytes" where
  "openVaultPayload W payload key vaultId epoch = open_payload W payload key (vaultEnvelopeAad vaultId epoch)"

section \<open>Bytes and texts\<close>

definition encryptVaultBytes ::
  "('k, 'b) web_crypto \<Rightarrow> ('k, 'b) vault_keyring option \<Rightarrow> bytes \<Rightarrow> ('k, 'b) vault_keyring option \<Rightarrow> bytes
   \<Rightarrow> seal_error + string" where
  "encryptVaultBytes W active plaintext keyring nonce =
     (case requireKeyring active keyring of
        Inl err \<Rightarrow> Inl err
      | Inr kr \<Rightarrow>
          (case currentKey kr of
             Inl _ \<Rightarrow> Inl CurrentKeyLost
           | Inr key \<Rightarrow> sealVaultEnvelope W plaintext key (kr_vaultId kr) (kr_currentEpoch kr) nonce None))"

definition encryptVaultText ::
  "('k, 'b) web_crypto \<Rightarrow> ('k, 'b) vault_keyring option \<Rightarrow> utext \<Rightarrow> ('k, 'b) vault_keyring option \<Rightarrow> bytes
   \<Rightarrow> seal_error + string" where
  "encryptVaultText W active plaintext keyring nonce = encryptVaultBytes W active (encode_text plaintext) keyring nonce"

datatype vault_bytes_result = VaultOk bytes | NotArmored | OtherVault | Locked

definition parse_armored :: "utext \<Rightarrow> envelope_error + (string \<times> jsnum \<times> bytes)" where
  "parse_armored t =
     (if list_all (\<lambda>n. n < 128) t then parseVaultEnvelope (map char_of t) else Inl NotCanonicalToken)"

definition decryptVaultBytes ::
  "('k, 'b) web_crypto \<Rightarrow> ('k, 'b) vault_keyring option \<Rightarrow> utext \<Rightarrow> ('k, 'b) vault_keyring option
   \<Rightarrow> seal_error + vault_bytes_result" where
  "decryptVaultBytes W active armored keyring =
     (if \<not> isVaultArmored armored then Inr NotArmored
      else (case parse_armored armored of
              Inl err \<Rightarrow> Inl (Envelope err)
            | Inr (vaultId, epoch, payload) \<Rightarrow>
                (case requireKeyring active keyring of
                   Inl err \<Rightarrow> Inl err
                 | Inr kr \<Rightarrow>
                     if vaultId \<noteq> kr_vaultId kr then Inr OtherVault
                     else (case keyFor (Some kr) epoch of
                             None \<Rightarrow> Inr Locked
                           | Some key \<Rightarrow>
                               (case openVaultPayload W payload key vaultId epoch of
                                  Inl err \<Rightarrow> Inl err | Inr bs \<Rightarrow> Inr (VaultOk bs))))))"

definition decryptVaultText ::
  "('k, 'b) web_crypto \<Rightarrow> ('k, 'b) vault_keyring option \<Rightarrow> utext \<Rightarrow> ('k, 'b) vault_keyring option
   \<Rightarrow> seal_error + utext" where
  "decryptVaultText W active armored keyring =
     (case decryptVaultBytes W active armored keyring of
        Inl err \<Rightarrow> Inl err
      | Inr NotArmored \<Rightarrow> Inr armored
      | Inr OtherVault \<Rightarrow> Inr VAULT_OTHER_VAULT_MARKER
      | Inr Locked \<Rightarrow> Inr VAULT_LOCKED_MARKER
      | Inr (VaultOk bs) \<Rightarrow> Inr (decode_text bs))"

section \<open>The content of file writes\<close>

definition sha256Hex :: "utext \<Rightarrow> string" where
  "sha256Hex s = bytesToHex (sha256 (encode_text s))"

definition fsWriteAad :: "string \<Rightarrow> jsnum \<Rightarrow> string \<Rightarrow> utext \<Rightarrow> utext \<Rightarrow> seal_error + bytes" where
  "fsWriteAad vaultId epoch bridgeId rootDir path =
     (if \<not> VAULT_ID_RE vaultId then Inl (Envelope InvalidVaultId)
      else if \<not> js_whole epoch \<or> num_int epoch < 1 \<or> 4294967295 < num_int epoch then Inl (Envelope InvalidTokenEpoch)
      else if bridgeId = [] \<or> 256 < length bridgeId \<or> \<not> ID_VALUE_RE bridgeId then Inl NeedsBridgeId
      else if rootDir = [] then Inl NeedsRoot
      else if path = [] then Inl NeedsPath
      else Inr (utf8_encode (''heimdall-fs-write-v3|'' @ vaultId @ ''|e'' @ show_nat (nat (num_int epoch)) @ ''|'' @ bridgeId
                @ ''|'' @ sha256Hex rootDir @ ''|'' @ sha256Hex path)))"

definition sealFsWriteContent ::
  "('k, 'b) web_crypto \<Rightarrow> ('k, 'b) vault_keyring option \<Rightarrow> utext \<Rightarrow> string \<Rightarrow> utext \<Rightarrow> utext
   \<Rightarrow> ('k, 'b) vault_keyring option \<Rightarrow> bytes \<Rightarrow> seal_error + string" where
  "sealFsWriteContent W active plaintext bridgeId rootDir path keyring nonce =
     (case requireKeyring active keyring of
        Inl err \<Rightarrow> Inl err
      | Inr kr \<Rightarrow>
          (case fsWriteAad (kr_vaultId kr) (kr_currentEpoch kr) bridgeId rootDir path of
             Inl err \<Rightarrow> Inl err
           | Inr aad \<Rightarrow>
               (case currentKey kr of
                  Inl _ \<Rightarrow> Inl CurrentKeyLost
                | Inr key \<Rightarrow>
                    sealVaultEnvelope W (encode_text plaintext) key (kr_vaultId kr) (kr_currentEpoch kr) nonce (Some aad))))"

definition openFsWriteContent ::
  "('k, 'b) web_crypto \<Rightarrow> ('k, 'b) vault_keyring option \<Rightarrow> string \<Rightarrow> string \<Rightarrow> utext \<Rightarrow> utext
   \<Rightarrow> ('k, 'b) vault_keyring option \<Rightarrow> seal_error + utext" where
  "openFsWriteContent W active token bridgeId rootDir path keyring =
     (case requireKeyring active keyring of
        Inl err \<Rightarrow> Inl err
      | Inr kr \<Rightarrow>
          (case parseVaultEnvelope token of
             Inl err \<Rightarrow> Inl (Envelope err)
           | Inr (vaultId, epoch, payload) \<Rightarrow>
               if vaultId \<noteq> kr_vaultId kr then Inl SealedInAnotherVault
               else (case keyFor (Some kr) epoch of
                       None \<Rightarrow> Inl UnknownEpoch
                     | Some key \<Rightarrow>
                         (case fsWriteAad vaultId epoch bridgeId rootDir path of
                            Inl err \<Rightarrow> Inl err
                          | Inr aad \<Rightarrow>
                              (case open_payload W payload key aad of
                                 Inl err \<Rightarrow> Inl err
                               | Inr plain \<Rightarrow> Inr (decode_text plain))))))"

section \<open>Opening inverts sealing\<close>

definition sealed_payload :: "('k, 'b) web_crypto \<Rightarrow> 'k \<Rightarrow> bytes \<Rightarrow> bytes \<Rightarrow> bytes \<Rightarrow> bytes" where
  "sealed_payload W key nonce aad d =
     (let c = wc_encrypt W key nonce aad d in nonce @ drop (length d) c @ take (length d) c)"

text \<open>Two or three parts written one after the other into a fresh array.\<close>

lemma write_two:
  "write_at (length a) b (write_at 0 a (replicate (length a + length b) 0)) = a @ b"
  unfolding replicate_add by (simp add: write_at_def)

lemma write_three:
  "write_at (length a + length b) c (write_at (length a) b (write_at 0 a (replicate (length a + length b + length c) 0)))
   = a @ b @ c"
  unfolding replicate_add by (simp add: write_at_def)

lemma sealVaultEnvelope_eq:
  assumes "aead_laws W"
  shows "sealVaultEnvelope W d key v e nonce aad = Inr s \<longleftrightarrow>
    (\<exists>pre. vaultTokenPrefix v e = Inr pre \<and> length d \<le> MAX_ARMOR_PAYLOAD_BYTES - MIN_ARMOR_PAYLOAD_BYTES
       \<and> length nonce = AES_GCM_NONCE_BYTES
       \<and> s = pre @ bytesToBase64 (sealed_payload W key nonce (case aad of Some a \<Rightarrow> a | None \<Rightarrow> vaultEnvelopeAad v e) d))"
proof -
  define a where "a = (case aad of Some a \<Rightarrow> a | None \<Rightarrow> vaultEnvelopeAad v e)"
  define c where "c = wc_encrypt W key nonce a d"
  have l: "length c = length d + 16" using assms by (simp add: aead_laws_def c_def)
  have w: "write_at 28 (take (length d) c) (write_at 12 (drop (length d) c) (write_at 0 nonce (replicate (28 + length d) 0)))
        = nonce @ drop (length d) c @ take (length d) c" if "length nonce = 12"
  proof -
    have "length (drop (length d) c) = 16" "length (take (length d) c) = length d" using l by simp_all
    with write_three [of nonce "drop (length d) c" "take (length d) c"] that show ?thesis by simp
  qed
  show ?thesis
    unfolding sealVaultEnvelope_def a_def [symmetric] sealed_payload_def Let_def c_def [symmetric] armor_sizes
    using w by (auto simp: l split: sum.splits if_splits)
qed

lemma open_payload_eq:
  assumes "MIN_ARMOR_PAYLOAD_BYTES \<le> length p"
  shows "open_payload W p key aad = Inr d \<longleftrightarrow>
     wc_decrypt W key (take 12 p) aad (drop 28 p @ sub_bytes 12 28 p) = Some d"
proof -
  show ?thesis
    unfolding open_payload_def Let_def armor_sizes
    using write_two [of "drop 28 p" "sub_bytes 12 28 p"] by (simp add: sub_bytes_def split: option.split)
qed

lemma payload_parts: "p = take 12 p @ sub_bytes 12 28 p @ drop 28 p"
proof -
  have "sub_bytes 12 28 p @ drop 28 p = drop 12 p"
    using append_take_drop_id [of 16 "drop 12 p"] by (simp add: sub_bytes_def)
  then show ?thesis by simp
qed

lemma open_sealed_payload:
  assumes W: "aead_laws W" and "MIN_ARMOR_PAYLOAD_BYTES \<le> length p"
  shows "open_payload W p key aad = Inr d \<longleftrightarrow> p = sealed_payload W key (take 12 p) aad d"
proof -
  define c where "c = wc_encrypt W key (take 12 p) aad d"
  have l: "length c = length d + 16" using W by (simp add: aead_laws_def c_def)
  have len: "length (sub_bytes 12 28 p) = 16" using assms(2) by (simp add: sub_bytes_def armor_sizes)
  have "open_payload W p key aad = Inr d \<longleftrightarrow> drop 28 p @ sub_bytes 12 28 p = c"
    using W by (simp add: open_payload_eq [OF assms(2)] aead_laws_def c_def)
  also have "\<dots> \<longleftrightarrow> sub_bytes 12 28 p = drop (length d) c \<and> drop 28 p = take (length d) c"
    (is "?cat = c \<longleftrightarrow> ?parts")
  proof
    assume cat: "?cat = c"
    then have "length ?cat = length d + 16" using l by simp
    then have "length (drop 28 p) = length d" using len by simp
    then show ?parts unfolding cat [symmetric] by simp
  qed (simp only: append_take_drop_id)
  also have "\<dots> \<longleftrightarrow> sub_bytes 12 28 p @ drop 28 p = drop (length d) c @ take (length d) c"
    using l len by simp
  also have "\<dots> \<longleftrightarrow> p = sealed_payload W key (take 12 p) aad d"
    unfolding sealed_payload_def Let_def c_def [symmetric] using payload_parts [of p] by (metis same_append_eq)
  finally show ?thesis .
qed

section \<open>Tokens of a sealed content\<close>

lemma of_ascii_inverse [simp]: "map char_of (of_ascii s) = s"
  by (simp add: of_ascii_def comp_def)

lemma take_of_ascii: "take k (of_ascii s) = of_ascii (take k s)"
  by (simp add: of_ascii_def take_map)

lemma token_is_ascii:
  assumes "vaultTokenPrefix v e = Inr pre"
  shows "list_all (\<lambda>n. n < 128) (of_ascii (pre @ bytesToBase64 bs)) \<and> isVaultArmored (of_ascii (pre @ bytesToBase64 bs))"
proof -
  note p = assms [unfolded vaultTokenPrefix_Inr]
  have e: "epoch_digits (show_nat (nat (num_int e)))"
    using p by (intro epoch_digits_show) (auto simp: MAX_EPOCH_def)
  have start: "list_all (\<lambda>c. of_char c < (128 :: nat)) pre"
    using p e token_ascii(1) [of v _ "''A''" "[]"]
    by (auto simp: token_chars_def list_all_iff is_b64_def b64_code_def)
  have b64: "list_all (\<lambda>c. of_char c < (128 :: nat)) (bytesToBase64 bs)"
  proof -
    have s: "(of_char c :: nat) < 128" if "c \<in> set (sextets n)" for c n
      using that by (auto simp: sextets_def b64_char_def)
    show ?thesis
      by (induction bs rule: bytesToBase64.induct) (auto simp: list_all_iff dest!: in_set_takeD s)
  qed
  have "list_all (\<lambda>n. n < 128) (of_ascii (pre @ bytesToBase64 bs))"
    using start b64 by (simp add: of_ascii_def list.pred_map comp_def)
  moreover have "isVaultArmored (of_ascii (pre @ bytesToBase64 bs))"
    using p by (simp add: isVaultArmored_def take_of_ascii token_start_def)
  ultimately show ?thesis ..
qed

lemma length_sealed_payload:
  "aead_laws W \<Longrightarrow> length n = AES_GCM_NONCE_BYTES \<Longrightarrow> length (sealed_payload W k n a d) = MIN_ARMOR_PAYLOAD_BYTES + length d"
  by (simp add: sealed_payload_def Let_def aead_laws_def armor_sizes)

lemma sealed_token_parses:
  assumes W: "aead_laws W" and s: "sealVaultEnvelope W d key v e nonce aad = Inr s"
  obtains p where "parseVaultEnvelope s = Inr (v, e, p)" and "parse_armored (of_ascii s) = Inr (v, e, p)"
    and "isVaultArmored (of_ascii s)"
    and "open_payload W p key (case aad of Some a \<Rightarrow> a | None \<Rightarrow> vaultEnvelopeAad v e) = Inr d"
proof -
  define a where "a = (case aad of Some a \<Rightarrow> a | None \<Rightarrow> vaultEnvelopeAad v e)"
  obtain pre where pre: "vaultTokenPrefix v e = Inr pre" and n: "length nonce = AES_GCM_NONCE_BYTES"
    and d: "length d \<le> MAX_ARMOR_PAYLOAD_BYTES - MIN_ARMOR_PAYLOAD_BYTES"
    and eq: "s = pre @ bytesToBase64 (sealed_payload W key nonce a d)"
    using s by (auto simp: sealVaultEnvelope_eq [OF W] a_def)
  define p where "p = sealed_payload W key nonce a d"
  have l: "length p = MIN_ARMOR_PAYLOAD_BYTES + length d"
    unfolding p_def using W n by (rule length_sealed_payload)
  have parse: "parseVaultEnvelope s = Inr (v, e, p)"
    unfolding parse_envelope_iff using pre eq d l by (auto simp: p_def armor_sizes)
  have "take 12 p = nonce" using n by (simp add: p_def sealed_payload_def Let_def armor_sizes)
  then have "open_payload W p key a = Inr d"
    using l by (subst open_sealed_payload [OF W]) (simp_all add: p_def)
  then show thesis
    using parse token_is_ascii [OF pre] by (intro that [of p]) (simp_all add: parse_armored_def eq p_def a_def)
qed

lemma opened_token_sealed:
  assumes W: "aead_laws W" and s: "parseVaultEnvelope s = Inr (v, e, p)"
    and d: "open_payload W p key (case aad of Some a \<Rightarrow> a | None \<Rightarrow> vaultEnvelopeAad v e) = Inr d"
  shows "sealVaultEnvelope W d key v e (take 12 p) aad = Inr s"
proof -
  define a where "a = (case aad of Some a \<Rightarrow> a | None \<Rightarrow> vaultEnvelopeAad v e)"
  obtain pre where l: "MIN_ARMOR_PAYLOAD_BYTES \<le> length p" "length p \<le> MAX_ARMOR_PAYLOAD_BYTES"
      and pre: "vaultTokenPrefix v e = Inr pre" "s = pre @ bytesToBase64 p"
    using s by (auto simp: parse_envelope_iff)
  have p: "p = sealed_payload W key (take 12 p) a d"
    using d unfolding a_def [symmetric] by (simp only: open_sealed_payload [OF W l(1)])
  have n: "length (take 12 p) = AES_GCM_NONCE_BYTES" using l(1) by (simp add: armor_sizes)
  have "length p = MIN_ARMOR_PAYLOAD_BYTES + length d"
    by (subst p) (rule length_sealed_payload [OF W n])
  then show ?thesis
    unfolding sealVaultEnvelope_eq [OF W] a_def [symmetric] using l(2) pre n p by auto
qed

section \<open>Properties\<close>

definition sample_crypto :: "(byte, unit) web_crypto" where
  "sample_crypto =
     \<lparr>wc_encrypt = (\<lambda>k iv aad d. d @ replicate 16 k),
      wc_decrypt = (\<lambda>k iv aad c. let n = length c - 16 in if 16 \<le> length c \<and> drop n c = replicate 16 k then Some (take n c) else None),
      wc_derive = (\<lambda>b salt info. Some (hd (salt @ [0])))\<rparr>"

lemma sample_crypto_laws: "aead_laws sample_crypto"
proof -
  have "(16 \<le> length c \<and> drop (length c - 16) c = replicate 16 k \<and> take (length c - 16) c = d) = (c = d @ replicate 16 k)"
    for c d and k :: byte
    by (auto intro: append_take_drop_id [of "length c - 16" c, symmetric, THEN trans])
  then show ?thesis by (auto simp: aead_laws_def sample_crypto_def Let_def)
qed

definition sample_vault :: "string \<Rightarrow> jsnum \<Rightarrow> byte \<Rightarrow> (byte, unit) vault_keyring" where
  "sample_vault v e k = \<lparr>kr_userId = ''u'', kr_vaultId = v, kr_currentEpoch = e, kr_keys = [(e, k)],
     kr_ptyBaseKeys = Some [(e, Some ())]\<rparr>"

text \<open>
  C30. A text sealed under a keyring opens under the same keyring to what UTF-8 keeps of it
  (\<open>received_text\<close>): to itself, when it has no lone surrogate and does not start with a byte order mark;
  otherwise each lone surrogate has become a replacement character and one leading mark is gone, since the
  bytes go through \<open>TextEncoder\<close> and a \<open>TextDecoder\<close> that does not ignore marks. A keyring of another vault never
  tries its keys and shows the marker of a previous vault; a keyring of the vault without that epoch shows the
  locked marker. Neither is an error.
\<close>

theorem vault_text_round_trip:
  assumes W: "aead_laws W" and sealed: "encryptVaultText W active t (Some kr) nonce = Inr s"
  shows "decryptVaultText W active' (of_ascii s) (Some kr) = Inr (received_text t)
    \<and> (list_all is_scalar t \<and> (t = [] \<or> hd t \<noteq> 65279) \<longrightarrow> received_text t = t)
    \<and> (kr_vaultId other \<noteq> kr_vaultId kr \<longrightarrow>
         decryptVaultText W active' (of_ascii s) (Some other) = Inr VAULT_OTHER_VAULT_MARKER)
    \<and> (kr_vaultId old = kr_vaultId kr \<and> keyFor (Some old) (kr_currentEpoch kr) = None \<longrightarrow>
         decryptVaultText W active' (of_ascii s) (Some old) = Inr VAULT_LOCKED_MARKER)"
proof -
  obtain key where key: "currentKey kr = Inr key"
    and s: "sealVaultEnvelope W (encode_text t) key (kr_vaultId kr) (kr_currentEpoch kr) nonce None = Inr s"
    using sealed by (auto simp: encryptVaultText_def encryptVaultBytes_def requireKeyring_def split: sum.splits)
  obtain p where p: "parse_armored (of_ascii s) = Inr (kr_vaultId kr, kr_currentEpoch kr, p)" "isVaultArmored (of_ascii s)"
    and op: "open_payload W p key (vaultEnvelopeAad (kr_vaultId kr) (kr_currentEpoch kr)) = Inr (encode_text t)"
    using sealed_token_parses [OF W s] by auto
  have "keyFor (Some kr) (kr_currentEpoch kr) = Some key"
    using key by (simp add: currentKey_def keyFor_def split: option.splits)
  then show ?thesis
    using p op received_text_id [of t]
    by (simp add: decode_encode_text decryptVaultText_def decryptVaultBytes_def requireKeyring_def openVaultPayload_def)
qed

lemma sample_prefix:
  "vaultTokenPrefix ''0123456789abcdef'' (js_nat 7) = Inr ''vault:v2:0123456789abcdef:e7:''"
  by (simp add: vaultTokenPrefix_def VAULT_ID_RE_def hex_code_def js_whole_def js_nat_def num_int_def
      VAULT_ARMOR_PREFIX_def show_nat.simps digit_char_def char_of_eq_iff)

theorem vault_text_round_trip_witness:
  "\<exists>s. encryptVaultText sample_crypto None [65279, 128274, 55296] (Some (sample_vault ''0123456789abcdef'' (js_nat 7) 9)) (replicate 12 1) = Inr s
     \<and> decryptVaultText sample_crypto None (of_ascii s) (Some (sample_vault ''0123456789abcdef'' (js_nat 7) 9)) = Inr [128274, 65533]
     \<and> received_text [128274, 65] = [128274, 65]
     \<and> decryptVaultText sample_crypto None (of_ascii s) (Some (sample_vault ''ffffffffffffffff'' (js_nat 7) 9)) = Inr VAULT_OTHER_VAULT_MARKER
     \<and> decryptVaultText sample_crypto None (of_ascii s) (Some (sample_vault ''0123456789abcdef'' (js_nat 8) 9)) = Inr VAULT_LOCKED_MARKER"
proof -
  let ?kr = "sample_vault ''0123456789abcdef'' (js_nat 7) 9"
  have sealed: "\<exists>s. encryptVaultText sample_crypto None t (Some ?kr) (replicate 12 1) = Inr s" if "length (encode_text t) < 100" for t
    using that unfolding encryptVaultText_def encryptVaultBytes_def requireKeyring_def
    by (simp add: currentKey_def sample_vault_def sealVaultEnvelope_eq [OF sample_crypto_laws] sample_prefix armor_sizes)
  note enc = encode_text_def encode_scalar_def is_scalar_def replacement_char_def
  obtain s s' where s: "encryptVaultText sample_crypto None [65279, 128274, 55296] (Some ?kr) (replicate 12 1) = Inr s"
      "encryptVaultText sample_crypto None [128274, 65] (Some ?kr) (replicate 12 1) = Inr s'"
    using sealed [of "[65279, 128274, 55296]"] sealed [of "[128274, 65]"] by (auto simp: enc)
  have r: "received_text [65279, 128274, 55296] = [128274, 65533]" "list_all is_scalar [128274, 65 :: nat]"
    by (simp_all add: received_text_def is_scalar_def replacement_char_def)
  from vault_text_round_trip [OF sample_crypto_laws s(1), of None "sample_vault ''ffffffffffffffff'' (js_nat 7) 9"
      "sample_vault ''0123456789abcdef'' (js_nat 8) 9"]
    vault_text_round_trip [OF sample_crypto_laws s(2), of None ?kr ?kr]
  show ?thesis using s r by (auto simp: sample_vault_def keyFor_def js_nat_def)
qed

text \<open>
  C31. Whatever the vault shows as plaintext was sealed as that plaintext: if an envelope opens under a keyring,
  it is the envelope its key makes of the result for the keyring's vault and the epoch it names. A file write
  that opens for a bridge, a directory and a path was sealed for exactly that bridge, directory and path.
\<close>

theorem opened_was_sealed:
  assumes "aead_laws W"
  shows "(decryptVaultBytes W active (of_ascii s) (Some kr) = Inr (VaultOk d) \<longrightarrow>
      (\<exists>key e nonce. keyFor (Some kr) e = Some key \<and> sealVaultEnvelope W d key (kr_vaultId kr) e nonce None = Inr s))
    \<and> (openFsWriteContent W active s bridgeId dir path (Some kr) = Inr t \<longrightarrow>
      (\<exists>key e nonce aad plain. keyFor (Some kr) e = Some key \<and> fsWriteAad (kr_vaultId kr) e bridgeId dir path = Inr aad
          \<and> sealVaultEnvelope W plain key (kr_vaultId kr) e nonce (Some aad) = Inr s \<and> t = decode_text plain))"
proof (intro conjI impI)
  assume "decryptVaultBytes W active (of_ascii s) (Some kr) = Inr (VaultOk d)"
  then obtain e p key where parse: "parse_armored (of_ascii s) = Inr (kr_vaultId kr, e, p)" and key: "keyFor (Some kr) e = Some key"
      and op: "open_payload W p key (vaultEnvelopeAad (kr_vaultId kr) e) = Inr d"
    by (auto simp: decryptVaultBytes_def requireKeyring_def openVaultPayload_def split: if_splits sum.splits option.splits)
  have "parseVaultEnvelope s = Inr (kr_vaultId kr, e, p)"
    using parse by (simp add: parse_armored_def split: if_splits)
  from opened_token_sealed [OF assms this, where aad = None and d = d and key = key] op key
  show "\<exists>key e nonce. keyFor (Some kr) e = Some key \<and> sealVaultEnvelope W d key (kr_vaultId kr) e nonce None = Inr s"
    by (metis option.simps(4))
next
  assume "openFsWriteContent W active s bridgeId dir path (Some kr) = Inr t"
  then obtain e p key aad plain where parse: "parseVaultEnvelope s = Inr (kr_vaultId kr, e, p)" and key: "keyFor (Some kr) e = Some key"
      and aad: "fsWriteAad (kr_vaultId kr) e bridgeId dir path = Inr aad"
      and op: "open_payload W p key aad = Inr plain" and t: "t = decode_text plain"
    by (auto simp: openFsWriteContent_def requireKeyring_def split: if_splits sum.splits option.splits)
  from opened_token_sealed [OF assms parse, where aad = "Some aad"] op
  have "sealVaultEnvelope W plain key (kr_vaultId kr) e (take 12 p) (Some aad) = Inr s" by simp
  then show "\<exists>key e nonce aad plain. keyFor (Some kr) e = Some key \<and> fsWriteAad (kr_vaultId kr) e bridgeId dir path = Inr aad
          \<and> sealVaultEnvelope W plain key (kr_vaultId kr) e nonce (Some aad) = Inr s \<and> t = decode_text plain"
    using key aad t by blast
qed

lemma file_write_opens:
  assumes W: "aead_laws W" and s: "sealFsWriteContent W active t bridgeId dir path (Some kr) nonce = Inr s"
    and t: "list_all is_scalar t" "t = [] \<or> hd t \<noteq> 65279"
  shows "openFsWriteContent W active' s bridgeId dir path (Some kr) = Inr t"
proof -
  obtain aad key where a: "fsWriteAad (kr_vaultId kr) (kr_currentEpoch kr) bridgeId dir path = Inr aad"
    and k: "currentKey kr = Inr key"
    and s: "sealVaultEnvelope W (encode_text t) key (kr_vaultId kr) (kr_currentEpoch kr) nonce (Some aad) = Inr s"
    using s by (auto simp: sealFsWriteContent_def requireKeyring_def split: sum.splits)
  obtain p where "parseVaultEnvelope s = Inr (kr_vaultId kr, kr_currentEpoch kr, p)" "open_payload W p key aad = Inr (encode_text t)"
    using sealed_token_parses [OF W s] by auto
  moreover have "keyFor (Some kr) (kr_currentEpoch kr) = Some key"
    using k by (simp add: currentKey_def keyFor_def split: option.splits)
  ultimately show ?thesis using a decode_text_encode [OF t] by (simp add: openFsWriteContent_def requireKeyring_def)
qed

theorem opened_was_sealed_witness:
  "\<exists>s key e nonce aad plain.
     openFsWriteContent sample_crypto None s ''bridge-1'' [47] [97] (Some (sample_vault ''0123456789abcdef'' (js_nat 7) 9)) = Inr [65]
     \<and> fsWriteAad ''0123456789abcdef'' e ''bridge-1'' [47] [97] = Inr aad
     \<and> sealVaultEnvelope sample_crypto plain key ''0123456789abcdef'' e nonce (Some aad) = Inr s \<and> decode_text plain = [65]"
proof -
  let ?kr = "sample_vault ''0123456789abcdef'' (js_nat 7) 9"
  have "\<exists>aad. fsWriteAad ''0123456789abcdef'' (js_nat 7) ''bridge-1'' [47] [97] = Inr aad"
    by (simp add: fsWriteAad_def VAULT_ID_RE_def hex_code_def js_whole_def js_nat_def num_int_def ID_VALUE_RE_def is_id_char_def)
  then have "\<exists>s. sealFsWriteContent sample_crypto None [65] ''bridge-1'' [47] [97] (Some ?kr) (replicate 12 1) = Inr s"
    by (auto simp: sealFsWriteContent_def requireKeyring_def currentKey_def sample_vault_def
        sealVaultEnvelope_eq [OF sample_crypto_laws] sample_prefix armor_sizes encode_text_def encode_scalar_def is_scalar_def)
  then obtain s where s: "sealFsWriteContent sample_crypto None [65] ''bridge-1'' [47] [97] (Some ?kr) (replicate 12 1) = Inr s" ..
  have o: "openFsWriteContent sample_crypto None s ''bridge-1'' [47] [97] (Some ?kr) = Inr [65]"
    by (rule file_write_opens [OF sample_crypto_laws s]) (simp_all add: is_scalar_def)
  have "kr_vaultId ?kr = ''0123456789abcdef''" by (simp add: sample_vault_def)
  with opened_was_sealed [OF sample_crypto_laws, of None s ?kr "[]" "''bridge-1''" "[47]" "[97]" "[65]"] o
  show ?thesis by (metis (no_types, lifting))
qed

end
