(* ===== verification/PtyWire.thy ===== *)
theory PtyWire
  imports VaultSeal
begin

text \<open>
  Terminal frames (\<open>src/ui/components/shells/ptyWire.ts\<close>): the binary viewer frame, the encrypted payload
  with its additional data and counter nonce, sealing and decrypting, and the cache of derived subkeys.
\<close>

section \<open>Viewer frames\<close>

definition PTY_WIRE_KIND_OUTPUT :: byte where "PTY_WIRE_KIND_OUTPUT = 1"
definition PTY_WIRE_KIND_INPUT :: byte where "PTY_WIRE_KIND_INPUT = 2"
definition PTY_WIRE_KIND_SCREEN :: byte where "PTY_WIRE_KIND_SCREEN = 3"
definition PTY_WIRE_FLAG_SNAPSHOT :: byte where "PTY_WIRE_FLAG_SNAPSHOT = 1"
definition PTY_WIRE_FLAG_ENCRYPTED :: byte where "PTY_WIRE_FLAG_ENCRYPTED = 2"
definition PTY_WIRE_FLAG_CURSOR :: byte where "PTY_WIRE_FLAG_CURSOR = 4"
definition PTY_WIRE_VIEWER_HEADER_BYTES :: nat where "PTY_WIRE_VIEWER_HEADER_BYTES = 2"
definition PTY_WIRE_VIEWER_CURSOR_BYTES :: nat where "PTY_WIRE_VIEWER_CURSOR_BYTES = 4"

lemmas frame_sizes = PTY_WIRE_VIEWER_HEADER_BYTES_def PTY_WIRE_VIEWER_CURSOR_BYTES_def

unbundle bit_operations_syntax

record pty_viewer_frame =
  vf_kind :: byte
  vf_flags :: byte
  vf_snapshot :: bool
  vf_encrypted :: bool
  vf_cursorRow :: int
  vf_cursorCol :: int
  vf_payload :: bytes

text \<open>\<open>(hi << 8) | lo\<close> on 32-bit integers.\<close>

definition be_pair :: "byte \<Rightarrow> byte \<Rightarrow> int" where
  "be_pair hi lo = sint (push_bit 8 (ucast hi) OR ucast lo :: 32 word)"

definition decodePtyViewerFrame :: "bytes \<Rightarrow> pty_viewer_frame option" where
  "decodePtyViewerFrame bs =
     (if length bs < PTY_WIRE_VIEWER_HEADER_BYTES then None
      else
        (let flags = bs ! 1; cursor = (flags AND PTY_WIRE_FLAG_CURSOR \<noteq> 0) in
         if cursor \<and> length bs < PTY_WIRE_VIEWER_HEADER_BYTES + PTY_WIRE_VIEWER_CURSOR_BYTES then None
         else Some
           \<lparr>vf_kind = bs ! 0, vf_flags = flags,
            vf_snapshot = (flags AND PTY_WIRE_FLAG_SNAPSHOT \<noteq> 0),
            vf_encrypted = (flags AND PTY_WIRE_FLAG_ENCRYPTED \<noteq> 0),
            vf_cursorRow = (if cursor then be_pair (bs ! 2) (bs ! 3) else - 1),
            vf_cursorCol = (if cursor then be_pair (bs ! 4) (bs ! 5) else - 1),
            vf_payload = drop (if cursor then PTY_WIRE_VIEWER_HEADER_BYTES + PTY_WIRE_VIEWER_CURSOR_BYTES
                               else PTY_WIRE_VIEWER_HEADER_BYTES) bs\<rparr>))"

text \<open>\<open>kind & 0xff\<close> and \<open>flags & 0xff\<close> of any integer.\<close>

definition encodePtyViewerFrame :: "int \<Rightarrow> int \<Rightarrow> bytes \<Rightarrow> bytes" where
  "encodePtyViewerFrame kind flags payload =
     (let out = replicate (PTY_WIRE_VIEWER_HEADER_BYTES + length payload) 0;
          out1 = out[0 := word_of_int kind]; out2 = out1[1 := word_of_int flags]
      in write_at PTY_WIRE_VIEWER_HEADER_BYTES payload out2)"

section \<open>Encrypted payloads\<close>

datatype pty_direction = PtyOut | PtyIn

fun direction_name :: "pty_direction \<Rightarrow> string" where
  "direction_name PtyOut = ''out''"
| "direction_name PtyIn = ''in''"

definition PTY_V2_SALT_BYTES :: nat where "PTY_V2_SALT_BYTES = 16"
definition PTY_V2_HEADER_BYTES :: nat where "PTY_V2_HEADER_BYTES = 4 + PTY_V2_SALT_BYTES + MIN_ARMOR_PAYLOAD_BYTES"
definition PTY_V2_NONCE_OFFSET :: nat where "PTY_V2_NONCE_OFFSET = 4 + PTY_V2_SALT_BYTES"
definition PTY_V2_INFO :: string where "PTY_V2_INFO = ''heimdall-pty-v2''"

lemmas pty_sizes = PTY_V2_SALT_BYTES_def PTY_V2_HEADER_BYTES_def PTY_V2_NONCE_OFFSET_def armor_sizes

datatype pty_error =
    InvalidPtyEpoch | InvalidPtyCounter | InvalidPtySession | NeedsCounter | NeedsBootId | InvalidSalt
  | DeriveFailed | FrameTooShort | EpochZero | NonCounterNonce | CounterZero | FrameDoesNotAuthenticate
  | ReplayedFrame | CaptureMalformed envelope_error | BootIdUnknown | PtyKeyUnavailable | PaneVaultLocked
  | PaneKeyMissing

definition assertPtyEpoch :: "jsnum \<Rightarrow> pty_error option" where
  "assertPtyEpoch epoch =
     (if \<not> js_whole epoch \<or> num_int epoch < 1 \<or> 4294967295 < num_int epoch then Some InvalidPtyEpoch else None)"

definition assertPtyCounter :: "int \<Rightarrow> pty_error option" where
  "assertPtyCounter c = (if c < 1 \<or> 18446744073709551615 < c then Some InvalidPtyCounter else None)"

definition assertPtySession :: "string \<Rightarrow> pty_error option" where
  "assertPtySession s = (if \<not> isValidAadId (Some (JStr s)) then Some InvalidPtySession else None)"

definition ptyAad ::
  "jsnum \<Rightarrow> string \<Rightarrow> pty_direction \<Rightarrow> int option \<Rightarrow> string option \<Rightarrow> pty_error + bytes" where
  "ptyAad epoch session direction counter bootId =
     (case assertPtyEpoch epoch of Some err \<Rightarrow> Inl err | None \<Rightarrow>
      case assertPtySession session of Some err \<Rightarrow> Inl err | None \<Rightarrow>
        (let head = PTY_V2_INFO @ ''|e'' @ show_nat (nat (num_int epoch)) @ ''|'' @ session @ ''|''
         in case direction of
              PtyOut \<Rightarrow> Inr (utf8_encode (head @ ''out''))
            | PtyIn \<Rightarrow>
                (case counter of
                   None \<Rightarrow> Inl NeedsCounter
                 | Some c \<Rightarrow>
                     (case assertPtyCounter c of Some err \<Rightarrow> Inl err | None \<Rightarrow>
                        if \<not> isValidAadId (map_option JStr bootId) then Inl NeedsBootId
                        else Inr (utf8_encode (head @ ''in|'' @ show_nat (nat c) @ ''|'' @ opt_str bootId))))))"

definition ptyNonce :: "int \<Rightarrow> pty_error + bytes" where
  "ptyNonce c =
     (case assertPtyCounter c of
        Some err \<Rightarrow> Inl err
      | None \<Rightarrow> Inr (write_at 4 (be_bytes 8 (nat c)) (replicate AES_GCM_NONCE_BYTES 0)))"

definition derivePtySubkey ::
  "('k, 'b) web_crypto \<Rightarrow> 'b \<Rightarrow> bytes \<Rightarrow> string \<Rightarrow> pty_direction \<Rightarrow> pty_error + 'k" where
  "derivePtySubkey W baseKey salt session direction =
     (case assertPtySession session of
        Some err \<Rightarrow> Inl err
      | None \<Rightarrow>
          if length salt \<noteq> PTY_V2_SALT_BYTES then Inl InvalidSalt
          else (case wc_derive W baseKey salt
                       (utf8_encode (PTY_V2_INFO @ ''|'' @ session @ ''|'' @ direction_name direction)) of
                  None \<Rightarrow> Inl DeriveFailed | Some k \<Rightarrow> Inr k))"

definition ptyBaseKeyFor :: "('k, 'b) vault_keyring option \<Rightarrow> jsnum \<Rightarrow> 'b option" where
  "ptyBaseKeyFor keyring epoch =
     (case keyring of
        None \<Rightarrow> None
      | Some kr \<Rightarrow> (case kr_ptyBaseKeys kr of
                      None \<Rightarrow> None
                    | Some m \<Rightarrow> (case map_of m epoch of None \<Rightarrow> None | Some b \<Rightarrow> b)))"

definition ptyPayloadEpoch :: "bytes \<Rightarrow> jsnum" where
  "ptyPayloadEpoch payload =
     (if length payload < PTY_V2_HEADER_BYTES then js_nat 0 else js_nat (be_value (sub_bytes 0 4 payload)))"

definition sealPtyWithSubkey ::
  "('k, 'b) web_crypto \<Rightarrow> bytes \<Rightarrow> 'k \<Rightarrow> jsnum \<Rightarrow> bytes \<Rightarrow> bytes \<Rightarrow> bytes \<Rightarrow> bytes" where
  "sealPtyWithSubkey W plain subkey epoch salt nonce aad =
     (let sealed = wc_encrypt W subkey nonce aad plain;
          ciphertextLen = length sealed - AES_GCM_TAG_BYTES;
          o0 = replicate (PTY_V2_HEADER_BYTES + ciphertextLen) 0;
          o1 = write_at 0 (be_bytes 4 (nat (num_int epoch))) o0;
          o2 = write_at 4 salt o1;
          o3 = write_at PTY_V2_NONCE_OFFSET nonce o2;
          o4 = write_at (PTY_V2_NONCE_OFFSET + AES_GCM_NONCE_BYTES) (drop ciphertextLen sealed) o3
      in write_at PTY_V2_HEADER_BYTES (take ciphertextLen sealed) o4)"

definition sealPtyPayload ::
  "('k, 'b) web_crypto \<Rightarrow> bytes \<Rightarrow> 'b \<Rightarrow> jsnum \<Rightarrow> string \<Rightarrow> pty_direction \<Rightarrow> bytes \<Rightarrow> int \<Rightarrow> string option
   \<Rightarrow> pty_error + bytes" where
  "sealPtyPayload W plain baseKey epoch session direction salt counter bootId =
     (case ptyAad epoch session direction (Some counter) bootId of Inl err \<Rightarrow> Inl err | Inr aad \<Rightarrow>
      case ptyNonce counter of Inl err \<Rightarrow> Inl err | Inr nonce \<Rightarrow>
      case derivePtySubkey W baseKey salt session direction of Inl err \<Rightarrow> Inl err | Inr subkey \<Rightarrow>
        Inr (sealPtyWithSubkey W plain subkey epoch salt nonce aad))"

section \<open>Reading viewer frames\<close>

lemma byte_pair_or: "unat (push_bit 8 (ucast hi) OR ucast lo :: 32 word) = unat (hi :: byte) * 256 + unat (lo :: byte)"
proof -
  have d: "push_bit 8 (ucast hi) AND ucast lo = (0 :: 32 word)"
    by (rule bit_word_eqI) (auto simp: bit_simps dest: bit_imp_le_length)
  have "push_bit 8 (ucast hi) OR ucast lo = push_bit 8 (ucast hi) + (ucast lo :: 32 word)"
    by (rule disjunctive_add_eq_or [OF d, symmetric])
  moreover have u: "unat (ucast b :: 32 word) = unat b" for b :: byte
    using unat_byte [of b] by (simp add: unsigned_ucast_eq take_bit_eq_mod)
  moreover have "unat (push_bit 8 (ucast hi) :: 32 word) = unat hi * 256"
  proof -
    have "unat (push_bit 8 (ucast hi) :: 32 word) = take_bit LENGTH(32) (push_bit 8 (unat hi))"
      by (simp only: unsigned_push_bit_eq u)
    then show ?thesis using unat_byte [of hi] by (simp only: take_bit_eq_mod push_bit_eq_mult) simp
  qed
  ultimately show ?thesis
    using unat_byte [of hi] unat_byte [of lo] by (simp add: unat_word_ariths)
qed
lemma be_pair_value: "be_pair hi lo = int (unat hi * 256 + unat lo)"
proof -
  let ?w = "push_bit 8 (ucast hi) OR ucast lo :: 32 word"
  have "unat ?w < 65536" using byte_pair_or [of hi lo] unat_byte [of hi] unat_byte [of lo] by simp
  then have "0 \<le> int (unat ?w)" "int (unat ?w) < 65536" by linarith+
  moreover have "signed_take_bit 31 m = m" if "0 \<le> m" "m < 65536" for m :: int
    by (rule signed_take_bit_int_eq_self) (use that in simp_all)
  ultimately have "signed_take_bit 31 (int (unat ?w)) = int (unat ?w)" by blast
  moreover have "sint ?w = signed_take_bit 31 (int (unat ?w))" by (simp add: sint_uint)
  ultimately have "sint ?w = int (unat ?w)" by (rule trans [rotated])
  then show ?thesis by (simp add: be_pair_def byte_pair_or)
qed

lemma be_pair_bounds: "0 \<le> be_pair hi lo" "be_pair hi lo \<le> 65535"
proof -
  have "unat hi * 256 + unat lo \<le> 65535" using unat_byte [of hi] unat_byte [of lo] by linarith
  then show "0 \<le> be_pair hi lo" "be_pair hi lo \<le> 65535" unfolding be_pair_value by linarith+
qed

lemma be_bytes_two: "be_bytes 2 n = [word_of_nat (n div 256), word_of_nat n]"
  by (simp add: numeral_2_eq_2)

lemma be_pair_of: "n < 65536 \<Longrightarrow> be_pair (word_of_nat (n div 256)) (word_of_nat n) = int n"
  by (simp add: be_pair_value unat_of_nat_byte del: of_nat_div word_of_nat_eq_0_iff)

lemma encode_frame_bytes:
  "encodePtyViewerFrame kind flags p = word_of_int kind # word_of_int flags # p"
  by (simp add: encodePtyViewerFrame_def frame_sizes write_at_def Let_def)

text \<open>
  C32. A viewer frame shorter than its header, or than the cursor block its flags announce, is refused, and
  every other frame is read: the cursor is minus one without the block and a 16-bit number with it, and the
  payload is the rest of the frame. A frame the client builds without a cursor flag is read back with its kind
  and flags reduced to bytes, and a frame with a cursor block gives back row, column and payload.
\<close>

theorem viewer_frame_spec:
  "((decodePtyViewerFrame bs = None) =
      (length bs < 2 \<or> bs ! 1 AND PTY_WIRE_FLAG_CURSOR \<noteq> 0 \<and> length bs < 6))
   \<and> (case decodePtyViewerFrame bs of
        None \<Rightarrow> True
      | Some f \<Rightarrow> - 1 \<le> vf_cursorRow f \<and> vf_cursorRow f \<le> 65535 \<and> - 1 \<le> vf_cursorCol f \<and> vf_cursorCol f \<le> 65535
          \<and> (vf_cursorRow f = - 1) = (bs ! 1 AND PTY_WIRE_FLAG_CURSOR = 0)
          \<and> bs = take (length bs - length (vf_payload f)) bs @ vf_payload f)
   \<and> (word_of_int flags AND PTY_WIRE_FLAG_CURSOR \<noteq> 0
      \<or> decodePtyViewerFrame (encodePtyViewerFrame kind flags p) =
          Some \<lparr>vf_kind = word_of_int kind, vf_flags = word_of_int flags,
                vf_snapshot = (word_of_int flags AND PTY_WIRE_FLAG_SNAPSHOT \<noteq> 0),
                vf_encrypted = (word_of_int flags AND PTY_WIRE_FLAG_ENCRYPTED \<noteq> 0),
                vf_cursorRow = - 1, vf_cursorCol = - 1, vf_payload = p\<rparr>)
   \<and> (case decodePtyViewerFrame (k # PTY_WIRE_FLAG_CURSOR # be_bytes 2 (row mod 65536) @ be_bytes 2 (col mod 65536) @ p) of
        None \<Rightarrow> False
      | Some f \<Rightarrow> vf_cursorRow f = int (row mod 65536) \<and> vf_cursorCol f = int (col mod 65536) \<and> vf_payload f = p)"
  (is "?refused \<and> ?bounds \<and> ?built \<and> ?cursor")
proof (intro conjI)
  show ?refused by (auto simp: decodePtyViewerFrame_def frame_sizes Let_def)
  have pos: "be_pair a b \<noteq> - 1" for a b using be_pair_bounds(1) [of a b] by simp
  have low: "- 1 \<le> be_pair a b" for a b using be_pair_bounds(1) [of a b] by linarith
  have cut: "bs = take (length bs - length (drop n bs)) bs @ drop n bs" if "n \<le> length bs" for n
    using that by simp
  show ?bounds
    using be_pair_bounds(2) pos low cut [of 2] cut [of 6]
    by (auto simp: decodePtyViewerFrame_def frame_sizes Let_def)
  show ?built
    by (simp add: encode_frame_bytes decodePtyViewerFrame_def frame_sizes Let_def)
  have p: "be_pair (word_of_nat (n mod 65536 div 256)) (word_of_nat (n mod 65536)) = int (n mod 65536)" for n
    by (rule be_pair_of) simp
  define a b c d where abcd: "a = (word_of_nat (row mod 65536 div 256) :: byte)" "b = (word_of_nat (row mod 65536) :: byte)"
    "c = (word_of_nat (col mod 65536 div 256) :: byte)" "d = (word_of_nat (col mod 65536) :: byte)"
  show ?cursor
    unfolding be_bytes_two abcd [symmetric] p [symmetric, of row] p [symmetric, of col]
    by (simp add: decodePtyViewerFrame_def frame_sizes Let_def PTY_WIRE_FLAG_CURSOR_def)
qed

theorem viewer_frame_spec_witness:
  "decodePtyViewerFrame (encodePtyViewerFrame 2 2 [65]) =
     Some \<lparr>vf_kind = 2, vf_flags = 2, vf_snapshot = False, vf_encrypted = True, vf_cursorRow = - 1, vf_cursorCol = - 1,
           vf_payload = [65]\<rparr>"
  using viewer_frame_spec [of "[2, 2]" 2 2 "[65]" 2 0 0]
  by (simp add: PTY_WIRE_FLAG_CURSOR_def PTY_WIRE_FLAG_SNAPSHOT_def PTY_WIRE_FLAG_ENCRYPTED_def)

section \<open>The layout of a payload\<close>

lemma assertPtySession_None: "assertPtySession s = None \<longleftrightarrow> s \<noteq> [] \<and> length s \<le> 256 \<and> ID_VALUE_RE s"
  by (simp add: assertPtySession_def isValidAadId_def)

lemma id_no_bar: "ID_VALUE_RE s \<Longrightarrow> CHR ''|'' \<notin> set s"
  by (auto simp: ID_VALUE_RE_def list_all_iff is_id_char_def)

lemma assertPtyEpoch_None: "assertPtyEpoch e = None \<longleftrightarrow> valid_epoch e"
  by (auto simp: assertPtyEpoch_def MAX_EPOCH_def)

lemma ptyNonce_Inr:
  "ptyNonce c = Inr n \<longleftrightarrow> 1 \<le> c \<and> c \<le> 18446744073709551615 \<and> n = [0, 0, 0, 0] @ be_bytes 8 (nat c)"
proof -
  have "write_at 4 (be_bytes 8 m) (replicate 12 0) = [0, 0, 0, 0] @ be_bytes 8 m" for m
  proof -
    have "replicate 12 (0 :: byte) = [0, 0, 0, 0] @ replicate 8 0" by (simp add: numeral_eq_Suc)
    then show ?thesis by (simp add: write_at_def)
  qed
  then show ?thesis by (auto simp: ptyNonce_def assertPtyCounter_def armor_sizes)
qed

lemma write_five:
  "write_at (length a + length b + length c + length d) e
     (write_at (length a + length b + length c) d
       (write_at (length a + length b) c
         (write_at (length a) b (write_at 0 a (replicate (length a + length b + length c + length d + length e) 0)))))
   = a @ b @ c @ d @ e"
  unfolding replicate_add by (simp add: write_at_def)

definition pty_payload :: "nat \<Rightarrow> bytes \<Rightarrow> bytes \<Rightarrow> bytes \<Rightarrow> bytes" where
  "pty_payload epoch salt nonce c =
     be_bytes 4 epoch @ salt @ nonce @ drop (length c - 16) c @ take (length c - 16) c"

lemma sealPtyWithSubkey_eq:
  assumes "length (wc_encrypt W k nonce aad d) = length d + 16" and "length salt = 16" and "length nonce = 12"
  shows "sealPtyWithSubkey W d k e salt nonce aad = pty_payload (nat (num_int e)) salt nonce (wc_encrypt W k nonce aad d)"
proof -
  define c where "c = wc_encrypt W k nonce aad d"
  have l: "length c = length d + 16" using assms(1) by (simp add: c_def)
  have "length (drop (length d) c) = 16" "length (take (length d) c) = length d" using l by simp_all
  with write_five [of "be_bytes 4 (nat (num_int e))" salt nonce "drop (length d) c" "take (length d) c"] assms(2,3)
  show ?thesis
    unfolding sealPtyWithSubkey_def Let_def c_def [symmetric] pty_payload_def pty_sizes l by simp
qed

end
