(* ===== verification/PtyReplay.thy ===== *)
theory PtyReplay
  imports PtyWire
begin

text \<open>
  The receiving side of a terminal (\<open>src/ui/components/shells/ptyWire.ts\<close>): the cache of derived subkeys,
  the replay guard of a connection, decryption of a frame, of a captured pane and of a pane reply.
\<close>

section \<open>The cache of subkeys\<close>

text \<open>
  A weak map from base keys to maps in insertion order. A derivation that fails is taken out of its map again.
\<close>

type_synonym ('k, 'b) subkey_cache = "('b \<times> (string \<times> 'k) list) list"

definition PTY_SUBKEY_CACHE_MAX :: nat where "PTY_SUBKEY_CACHE_MAX = 32"

definition subkey_id :: "bytes \<Rightarrow> string \<Rightarrow> pty_direction \<Rightarrow> string" where
  "subkey_id salt session direction = bytesToHex salt @ ''|'' @ session @ ''|'' @ direction_name direction"

definition streams_of :: "'b \<Rightarrow> ('k, 'b) subkey_cache \<Rightarrow> (string \<times> 'k) list" where
  "streams_of baseKey cache = (case map_of cache baseKey of Some m \<Rightarrow> m | None \<Rightarrow> [])"

definition cachedPtySubkey ::
  "('k, 'b) web_crypto \<Rightarrow> 'b \<Rightarrow> bytes \<Rightarrow> string \<Rightarrow> pty_direction \<Rightarrow> ('k, 'b) subkey_cache
   \<Rightarrow> (pty_error + 'k) \<times> ('k, 'b) subkey_cache" where
  "cachedPtySubkey W baseKey salt session direction cache =
     (let byStream = streams_of baseKey cache; i = subkey_id salt session direction in
      case map_of byStream i of
        Some k \<Rightarrow> (Inr k, cache)
      | None \<Rightarrow>
          (let kept = (if PTY_SUBKEY_CACHE_MAX \<le> length byStream then tl byStream else byStream) in
           case derivePtySubkey W baseKey salt session direction of
             Inl err \<Rightarrow> (Inl err, map_set baseKey kept cache)
           | Inr k \<Rightarrow> (Inr k, map_set baseKey (kept @ [(i, k)]) cache)))"

section \<open>The replay guard\<close>

text \<open>
  The oldest key of an empty map is \<open>undefined\<close>, the \<open>None\<close> of a retired entry; it arises only when no salt
  may be kept.
\<close>

record replay_guard =
  rg_last :: "(string \<times> nat) list"
  rg_retired :: "string option list"
  rg_maxSalts :: nat
  rg_maxRetired :: nat

definition newReplayGuard :: "nat \<Rightarrow> nat \<Rightarrow> replay_guard" where
  "newReplayGuard m r = \<lparr>rg_last = [], rg_retired = [], rg_maxSalts = m, rg_maxRetired = r\<rparr>"

definition defaultReplayGuard :: replay_guard where
  "defaultReplayGuard = newReplayGuard 8 1024"

definition retire :: "string option \<Rightarrow> nat \<Rightarrow> string option list \<Rightarrow> string option list" where
  "retire x limit xs =
     (let ys = (if limit \<le> length xs then tl xs else xs) in if x \<in> set ys then ys else ys @ [x])"

definition accept_id :: "replay_guard \<Rightarrow> string \<Rightarrow> nat \<Rightarrow> bool \<times> replay_guard" where
  "accept_id g i c =
     (case map_of (rg_last g) i of
        Some prev \<Rightarrow>
          if c \<le> prev then (False, g)
          else (True, g\<lparr>rg_last := filter (\<lambda>(j, _). j \<noteq> i) (rg_last g) @ [(i, c)]\<rparr>)
      | None \<Rightarrow>
          if Some i \<in> set (rg_retired g) then (False, g)
          else
            (let g1 = (if rg_maxSalts g \<le> length (rg_last g)
                       then (let oldest = (case rg_last g of [] \<Rightarrow> None | (j, _) # _ \<Rightarrow> Some j)
                             in g\<lparr>rg_last := tl (rg_last g),
                                  rg_retired := retire oldest (rg_maxRetired g) (rg_retired g)\<rparr>)
                       else g)
             in (True, g1\<lparr>rg_last := rg_last g1 @ [(i, c)]\<rparr>)))"

definition accept_frame :: "replay_guard \<Rightarrow> bytes \<Rightarrow> nat \<Rightarrow> bool \<times> replay_guard" where
  "accept_frame g salt counter = accept_id g (bytesToHex salt) counter"

section \<open>Decryption\<close>

text \<open>\<open>Inr None\<close> is the locked result; the caches and the guard of the connection are returned updated.\<close>

definition decryptPtyPayload ::
  "('k, 'b) web_crypto \<Rightarrow> bytes \<Rightarrow> ('k, 'b) vault_keyring \<Rightarrow> string \<Rightarrow> pty_direction \<Rightarrow> string option
   \<Rightarrow> ('k, 'b) subkey_cache \<Rightarrow> replay_guard option
   \<Rightarrow> (pty_error + bytes option) \<times> ('k, 'b) subkey_cache \<times> replay_guard option" where
  "decryptPtyPayload W payload keyring session direction bootId cache replay =
     (let epoch = ptyPayloadEpoch payload;
          counter = be_value (sub_bytes (PTY_V2_NONCE_OFFSET + 4) (PTY_V2_NONCE_OFFSET + 12) payload)
      in if length payload < PTY_V2_HEADER_BYTES then (Inl FrameTooShort, cache, replay)
         else if num_int epoch < 1 then (Inl EpochZero, cache, replay)
         else if assertPtySession session \<noteq> None then (Inl InvalidPtySession, cache, replay)
         else if be_value (sub_bytes PTY_V2_NONCE_OFFSET (PTY_V2_NONCE_OFFSET + 4) payload) \<noteq> 0
         then (Inl NonCounterNonce, cache, replay)
         else if counter < 1 then (Inl CounterZero, cache, replay)
         else
           (case ptyBaseKeyFor (Some keyring) epoch of
              None \<Rightarrow> (Inr None, cache, replay)
            | Some baseKey \<Rightarrow>
                (let salt = sub_bytes 4 PTY_V2_NONCE_OFFSET payload;
                     nonce = sub_bytes PTY_V2_NONCE_OFFSET (PTY_V2_NONCE_OFFSET + AES_GCM_NONCE_BYTES) payload;
                     tag = sub_bytes (PTY_V2_NONCE_OFFSET + AES_GCM_NONCE_BYTES) PTY_V2_HEADER_BYTES payload;
                     ciphertext = drop PTY_V2_HEADER_BYTES payload;
                     c0 = replicate (length ciphertext + AES_GCM_TAG_BYTES) 0;
                     combined = write_at (length ciphertext) tag (write_at 0 ciphertext c0);
                     (subkey, cache1) = cachedPtySubkey W baseKey salt session direction cache
                 in case subkey of
                      Inl err \<Rightarrow> (Inl err, cache1, replay)
                    | Inr k \<Rightarrow>
                        (case ptyAad epoch session direction (Some (int counter)) bootId of
                           Inl err \<Rightarrow> (Inl err, cache1, replay)
                         | Inr aad \<Rightarrow>
                             (case wc_decrypt W k nonce aad combined of
                                None \<Rightarrow> (Inl FrameDoesNotAuthenticate, cache1, replay)
                              | Some plain \<Rightarrow>
                                  (case replay of
                                     None \<Rightarrow> (Inr (Some plain), cache1, None)
                                   | Some g \<Rightarrow>
                                       (let (ok, g1) = accept_frame g salt counter
                                        in (if ok then Inr (Some plain) else Inl ReplayedFrame, cache1, Some g1))))))))"

definition decryptPtyCaptureText ::
  "('k, 'b) web_crypto \<Rightarrow> utext \<Rightarrow> ('k, 'b) vault_keyring \<Rightarrow> string \<Rightarrow> ('k, 'b) subkey_cache
   \<Rightarrow> (pty_error + utext option) \<times> ('k, 'b) subkey_cache" where
  "decryptPtyCaptureText W armored keyring session cache =
     (case parse_armored armored of
        Inl err \<Rightarrow> (Inl (CaptureMalformed err), cache)
      | Inr (vaultId, epoch, payload) \<Rightarrow>
          if vaultId \<noteq> kr_vaultId keyring then (Inr None, cache)
          else
            (let f0 = replicate (4 + length payload) 0;
                 frame = write_at 4 payload (write_at 0 (be_bytes 4 (nat (num_int epoch))) f0);
                 (plain, cache1, _) = decryptPtyPayload W frame keyring session PtyOut None cache None
             in (case plain of
                   Inl err \<Rightarrow> Inl err
                 | Inr None \<Rightarrow> Inr None
                 | Inr (Some bs) \<Rightarrow> Inr (Some (decode_text bs)), cache1)))"

text \<open>The output of a pane reply, when it is a text; the other fields of the reply are passed on.\<close>

definition openPaneReplyOutput ::
  "('k, 'b) web_crypto \<Rightarrow> ('k, 'b) vault_keyring option \<Rightarrow> utext option \<Rightarrow> string \<Rightarrow> ('k, 'b) subkey_cache
   \<Rightarrow> (pty_error + utext option) \<times> ('k, 'b) subkey_cache" where
  "openPaneReplyOutput W active out session cache =
     (case out of
        None \<Rightarrow> (Inr None, cache)
      | Some t \<Rightarrow>
          if \<not> isVaultArmored t then (Inr (Some t), cache)
          else (case active of
                  None \<Rightarrow> (Inl PaneVaultLocked, cache)
                | Some kr \<Rightarrow>
                    (let (r, cache1) = decryptPtyCaptureText W t kr session cache
                     in (case r of Inl err \<Rightarrow> Inl err | Inr None \<Rightarrow> Inl PaneKeyMissing | Inr (Some s) \<Rightarrow> Inr (Some s),
                         cache1))))"

section \<open>The cache holds derived subkeys only\<close>

definition streams_ok :: "('k, 'b) web_crypto \<Rightarrow> 'b \<Rightarrow> (string \<times> 'k) list \<Rightarrow> bool" where
  "streams_ok W b m =
     (length m \<le> PTY_SUBKEY_CACHE_MAX
      \<and> (\<forall>i k. (i, k) \<in> set m \<longrightarrow>
           (\<exists>salt session dir. i = subkey_id salt session dir \<and> derivePtySubkey W b salt session dir = Inr k)))"

definition cache_ok :: "('k, 'b) web_crypto \<Rightarrow> ('k, 'b) subkey_cache \<Rightarrow> bool" where
  "cache_ok W cache = (\<forall>b m. (b, m) \<in> set cache \<longrightarrow> streams_ok W b m)"

lemma bytesToHex_inj: "bytesToHex a = bytesToHex b \<longleftrightarrow> a = b"
  by (metis hex_pairs_hex option.inject)

lemma hex_no_bar: "CHR ''|'' \<notin> set (bytesToHex s)"
  using hex_units hex_char_plain(3) by metis

lemma split_at_bar:
  "CHR ''|'' \<notin> set a \<Longrightarrow> CHR ''|'' \<notin> set b \<Longrightarrow> a @ CHR ''|'' # x = b @ CHR ''|'' # y \<longleftrightarrow> a = b \<and> x = y"
  by (induction a arbitrary: b) (case_tac b; auto)+

lemma direction_name_inj: "direction_name d = direction_name e \<longleftrightarrow> d = e"
  by (cases d; cases e) simp_all

lemma subkey_id_inj:
  assumes "assertPtySession s = None" and "assertPtySession t = None"
  shows "subkey_id x s d = subkey_id y t e \<longleftrightarrow> x = y \<and> s = t \<and> d = e"
  using assms id_no_bar
  by (auto simp: subkey_id_def split_at_bar hex_no_bar bytesToHex_inj direction_name_inj assertPtySession_None)

lemma derive_session: "derivePtySubkey W b salt s d = Inr k \<Longrightarrow> assertPtySession s = None"
  by (simp add: derivePtySubkey_def split: option.splits)

lemma streams_of_in: "streams_of b cache = [] \<or> (b, streams_of b cache) \<in> set cache"
  by (auto simp: streams_of_def split: option.split dest: map_of_SomeD)

lemma set_map_set: "set (map_set k v m) \<subseteq> insert (k, v) (set m)"
  by (auto simp: map_set_def split: if_splits)

lemma cache_ok_streams: "cache_ok W cache \<Longrightarrow> streams_ok W b (streams_of b cache)"
  using streams_of_in [of b cache] by (auto simp: cache_ok_def streams_ok_def)

lemma cache_ok_set: "cache_ok W cache \<Longrightarrow> streams_ok W b m \<Longrightarrow> cache_ok W (map_set b m cache)"
  unfolding cache_ok_def using set_map_set [of b m cache] by blast

lemma cached_subkey:
  assumes ok: "cache_ok W cache" and s: "assertPtySession session = None"
  shows "fst (cachedPtySubkey W b salt session d cache) = derivePtySubkey W b salt session d
    \<and> cache_ok W (snd (cachedPtySubkey W b salt session d cache))"
proof -
  let ?m = "streams_of b cache" and ?i = "subkey_id salt session d"
  define kept where "kept = (if PTY_SUBKEY_CACHE_MAX \<le> length ?m then tl ?m else ?m)"
  have m: "streams_ok W b ?m" using ok by (rule cache_ok_streams)
  have len: "length kept < PTY_SUBKEY_CACHE_MAX"
    using m by (auto simp: streams_ok_def kept_def PTY_SUBKEY_CACHE_MAX_def)
  have sub: "set kept \<subseteq> set ?m" unfolding kept_def by (cases ?m) auto
  show ?thesis
  proof (cases "map_of ?m ?i")
    case None
    have "streams_ok W b kept" using m len sub by (auto simp: streams_ok_def)
    moreover have "streams_ok W b (kept @ [(?i, k)])" if "derivePtySubkey W b salt session d = Inr k" for k
      using \<open>streams_ok W b kept\<close> len that by (auto simp: streams_ok_def)
    ultimately show ?thesis
      using None cache_ok_set [OF ok] by (simp add: cachedPtySubkey_def Let_def kept_def [symmetric] split: sum.split)
  next
    case (Some k)
    obtain x t e where "?i = subkey_id x t e" "derivePtySubkey W b x t e = Inr k"
      using m map_of_SomeD [OF Some] unfolding streams_ok_def by blast
    then have "derivePtySubkey W b salt session d = Inr k"
      using subkey_id_inj [OF s derive_session] by metis
    then show ?thesis using Some ok by (simp add: cachedPtySubkey_def)
  qed
qed
section \<open>Decryption field by field\<close>

lemma payload_fields:
  assumes "length E = 4" "length S = 16" "length N = 12" "length T = 16"
  shows "sub_bytes 0 4 (E @ S @ N @ T @ C) = E" "sub_bytes 4 20 (E @ S @ N @ T @ C) = S"
    "sub_bytes 20 32 (E @ S @ N @ T @ C) = N" "sub_bytes 32 48 (E @ S @ N @ T @ C) = T"
    "drop 48 (E @ S @ N @ T @ C) = C"
    "sub_bytes 20 24 (E @ S @ N @ T @ C) = take 4 N" "sub_bytes 24 32 (E @ S @ N @ T @ C) = drop 4 N"
  using assms by (simp_all add: sub_bytes_def)

lemma payload_split:
  assumes "48 \<le> length p"
  obtains E S N T C where "p = E @ S @ N @ T @ C" and "length E = 4" "length S = 16" "length N = 12" "length T = 16"
proof -
  have "p = take 4 p @ take 16 (drop 4 p) @ take 12 (drop 20 p) @ take 16 (drop 32 p) @ drop 48 p"
    using append_take_drop_id [of 4 p] append_take_drop_id [of 16 "drop 4 p"] append_take_drop_id [of 12 "drop 20 p"]
      append_take_drop_id [of 16 "drop 32 p"] by simp
  then show thesis by (rule that) (use assms in simp_all)
qed

lemma decrypt_fields:
  assumes "length E = 4" "length S = 16" "length N = 12" "length T = 16"
  shows "decryptPtyPayload W (E @ S @ N @ T @ C) kr session d bootId cache replay =
    (if be_value E < 1 then (Inl EpochZero, cache, replay)
     else if assertPtySession session \<noteq> None then (Inl InvalidPtySession, cache, replay)
     else if be_value (take 4 N) \<noteq> 0 then (Inl NonCounterNonce, cache, replay)
     else if be_value (drop 4 N) < 1 then (Inl CounterZero, cache, replay)
     else (case ptyBaseKeyFor (Some kr) (js_nat (be_value E)) of
             None \<Rightarrow> (Inr None, cache, replay)
           | Some baseKey \<Rightarrow>
               (let r = cachedPtySubkey W baseKey S session d cache in
                case fst r of
                  Inl err \<Rightarrow> (Inl err, snd r, replay)
                | Inr k \<Rightarrow>
                    (case ptyAad (js_nat (be_value E)) session d (Some (int (be_value (drop 4 N)))) bootId of
                       Inl err \<Rightarrow> (Inl err, snd r, replay)
                     | Inr aad \<Rightarrow>
                         (case wc_decrypt W k N aad (C @ T) of
                            None \<Rightarrow> (Inl FrameDoesNotAuthenticate, snd r, replay)
                          | Some plain \<Rightarrow>
                              (case replay of
                                 None \<Rightarrow> (Inr (Some plain), snd r, None)
                               | Some g \<Rightarrow>
                                   (if fst (accept_frame g S (be_value (drop 4 N))) then Inr (Some plain) else Inl ReplayedFrame,
                                    snd r, Some (snd (accept_frame g S (be_value (drop 4 N)))))))))))"
proof -
  have len: "\<not> length (E @ S @ N @ T @ C) < 48" using assms by simp
  have e: "num_int (js_nat (be_value E)) < 1 \<longleftrightarrow> be_value E < 1" by simp
  have w: "write_at (length C) T (write_at 0 C (replicate (length C + 16) 0)) = C @ T"
    using write_two [of C T] assms(4) by simp
  show ?thesis
    unfolding decryptPtyPayload_def ptyPayloadEpoch_def Let_def pty_sizes
    by (simp only: payload_fields [OF assms] len e w add_numeral_left numeral_plus_numeral semiring_norm if_False if_cancel
        case_prod_beta) simp
qed

section \<open>Decryption inverts sealing\<close>

lemma zero_be_value: "length bs = 4 \<Longrightarrow> be_value bs = 0 \<longleftrightarrow> bs = [0, 0, 0, 0]"
proof
  assume "length bs = 4" "be_value bs = 0"
  then have zero: "bs = be_bytes 4 0" using be_bytes_value [of bs 4] by simp
  have "be_bytes (Suc (Suc (Suc (Suc 0)))) 0 = [0, 0, 0, 0]" by simp
  moreover have "(4 :: nat) = Suc (Suc (Suc (Suc 0)))" by simp
  ultimately have "be_bytes 4 0 = [0, 0, 0, 0]" by (simp only:)
  then show "bs = [0, 0, 0, 0]" using zero by simp
qed (simp add: be_value_def)

lemma pty_nonce_split:
  assumes "length N = 12"
  shows "be_value (take 4 N) = 0 \<and> \<not> be_value (drop 4 N) < 1 \<longleftrightarrow> ptyNonce (int (be_value (drop 4 N))) = Inr N"
proof -
  have l: "length (take 4 N) = 4" "length (drop 4 N) = 8" using assms by simp_all
  have b: "be_value (drop 4 N) < 18446744073709551616" using be_value_bound [of "drop 4 N"] l(2) by simp
  have "be_bytes 8 (be_value (drop 4 N)) = drop 4 N" by (rule be_bytes_value) (rule l(2))
  moreover have "[0, 0, 0, 0] @ drop 4 N = take 4 N @ drop 4 N \<longleftrightarrow> [0, 0, 0, 0] = take 4 N" by (rule append_same_eq)
  ultimately have "N = [0, 0, 0, 0] @ be_bytes 8 (nat (int (be_value (drop 4 N)))) \<longleftrightarrow> take 4 N = [0, 0, 0, 0]"
    unfolding nat_int append_take_drop_id by metis
  then show ?thesis
    using b zero_be_value [OF l(1)] unfolding ptyNonce_Inr by auto
qed

lemma num_of_u32:
  assumes "length E = 4" and "\<not> be_value E < 1"
  shows "valid_epoch (js_nat (be_value E))" and "be_bytes 4 (nat (num_int (js_nat (be_value E)))) = E"
proof -
  have "be_value E < 4294967296" using be_value_bound [of E] assms(1) by simp
  then show "valid_epoch (js_nat (be_value E))"
    using assms(2) by (auto simp: js_whole_def js_nat_def num_int_def MAX_EPOCH_def)
  show "be_bytes 4 (nat (num_int (js_nat (be_value E)))) = E"
    using assms(1) by simp
qed

text \<open>What decrypts, with a cache that holds derived subkeys: the payloads that were sealed, and no others.\<close>

lemma sealPtyPayload_Inr:
  "sealPtyPayload W plain base epoch session d salt counter bootId = Inr p \<longleftrightarrow>
     (\<exists>aad nonce k. ptyAad epoch session d (Some counter) bootId = Inr aad \<and> ptyNonce counter = Inr nonce
        \<and> derivePtySubkey W base salt session d = Inr k \<and> p = sealPtyWithSubkey W plain k epoch salt nonce aad)"
  unfolding sealPtyPayload_def
  by (cases "ptyAad epoch session d (Some counter) bootId"; cases "ptyNonce counter";
      cases "derivePtySubkey W base salt session d") auto

lemma decrypt_iff_sealed:
  assumes W: "aead_laws W" and ok: "cache_ok W cache"
  shows "fst (decryptPtyPayload W p kr session d bootId cache None) = Inr (Some plain) \<longleftrightarrow>
     (\<exists>epoch base salt counter. ptyBaseKeyFor (Some kr) epoch = Some base
        \<and> sealPtyPayload W plain base epoch session d salt counter bootId = Inr p)"
  (is "?L \<longleftrightarrow> ?R")
proof
  assume ?L
  then have "48 \<le> length p" by (auto simp: decryptPtyPayload_def pty_sizes Let_def split: if_splits)
  then obtain E S N T C where p: "p = E @ S @ N @ T @ C" and l: "length E = 4" "length S = 16" "length N = 12" "length T = 16"
    by (rule payload_split)
  let ?e = "js_nat (be_value E)" and ?c = "int (be_value (drop 4 N))"
  from \<open>?L\<close> obtain base k aad where E: "\<not> be_value E < 1" and s: "assertPtySession session = None"
      and N: "be_value (take 4 N) = 0" "\<not> be_value (drop 4 N) < 1"
      and base: "ptyBaseKeyFor (Some kr) ?e = Some base" and k: "fst (cachedPtySubkey W base S session d cache) = Inr k"
      and aad: "ptyAad ?e session d (Some ?c) bootId = Inr aad" and dec: "wc_decrypt W k N aad (C @ T) = Some plain"
    unfolding p decrypt_fields [OF l] Let_def by (auto split: if_splits option.splits sum.splits)
  have "wc_encrypt W k N aad plain = C @ T" using W dec by (simp add: aead_laws_def)
  moreover have "sealPtyWithSubkey W plain k ?e S N aad = pty_payload (nat (num_int ?e)) S N (wc_encrypt W k N aad plain)"
    by (rule sealPtyWithSubkey_eq) (use W l in \<open>simp_all add: aead_laws_def\<close>)
  ultimately have "sealPtyWithSubkey W plain k ?e S N aad = p"
    using l num_of_u32(2) [OF l(1) E] by (simp add: p pty_payload_def)
  moreover have "derivePtySubkey W base S session d = Inr k" using cached_subkey [OF ok s] k by metis
  moreover have "ptyNonce ?c = Inr N" using N pty_nonce_split [OF l(3)] by blast
  ultimately have "sealPtyPayload W plain base ?e session d S ?c bootId = Inr p"
    using aad by (simp add: sealPtyPayload_Inr)
  then show ?R using base by blast
next
  assume ?R
  then obtain epoch base salt counter aad nonce k where base: "ptyBaseKeyFor (Some kr) epoch = Some base"
      and aad: "ptyAad epoch session d (Some counter) bootId = Inr aad" and nonce: "ptyNonce counter = Inr nonce"
      and k: "derivePtySubkey W base salt session d = Inr k" and p: "p = sealPtyWithSubkey W plain k epoch salt nonce aad"
    unfolding sealPtyPayload_Inr by blast
  define c where "c = wc_encrypt W k nonce aad plain"
  have lc: "length c = length plain + 16" using W by (simp add: c_def aead_laws_def)
  have e: "valid_epoch epoch" and s: "assertPtySession session = None"
    using aad by (auto simp: ptyAad_def assertPtyEpoch_None split: option.splits)
  have salt: "length salt = 16" using k by (auto simp: derivePtySubkey_def pty_sizes split: option.splits if_splits)
  have n: "nonce = [0, 0, 0, 0] @ be_bytes 8 (nat counter)" and cn: "1 \<le> counter" "counter \<le> 18446744073709551615"
    using nonce by (simp_all add: ptyNonce_Inr)
  have ln: "length nonce = 12" using n by simp
  have cv: "be_value (drop 4 nonce) = nat counter" "be_value (take 4 nonce) = 0"
    using cn by (simp_all add: n be_value_def [of "[0, 0, 0, 0]"])
  have en: "js_nat (be_value (be_bytes 4 (nat (num_int epoch)))) = epoch" "\<not> be_value (be_bytes 4 (nat (num_int epoch))) < 1"
    using epoch_num [OF e] e by simp_all
  have p: "p = be_bytes 4 (nat (num_int epoch)) @ salt @ nonce @ drop (length plain) c @ take (length plain) c"
    unfolding p by (subst sealPtyWithSubkey_eq) (use W salt ln lc in \<open>simp_all add: aead_laws_def pty_payload_def c_def\<close>)
  have lt: "length (drop (length plain) c) = 16" using lc by simp
  have "wc_decrypt W k nonce aad c = Some plain" using W by (simp add: aead_laws_def c_def)
  moreover have "fst (cachedPtySubkey W base salt session d cache) = Inr k" using cached_subkey [OF ok s] k by metis
  ultimately show ?L
    unfolding p decrypt_fields [OF length_be_bytes salt ln lt] en(1) Let_def
    using cv cn en(2) s base aad by simp
qed

section \<open>Histories of the replay guard\<close>

fun accept_ids :: "replay_guard \<Rightarrow> (string \<times> nat) list \<Rightarrow> (string \<times> nat) list" where
  "accept_ids g [] = []"
| "accept_ids g ((i, c) # fs) =
     (let (ok, g1) = accept_id g i c in (if ok then [(i, c)] else []) @ accept_ids g1 fs)"

definition counters :: "('a \<times> nat) list \<Rightarrow> 'a \<Rightarrow> nat list" where
  "counters h i = map snd (filter (\<lambda>(j, _). j = i) h)"

lemma counters_simps [simp]:
  "counters [] i = []" "counters (a @ b) i = counters a i @ counters b i"
  "counters [(j, c)] i = (if j = i then [c] else [])"
  by (simp_all add: counters_def)

definition is_fresh :: "('a \<times> nat) list \<Rightarrow> 'a \<Rightarrow> nat \<Rightarrow> bool" where
  "is_fresh h i c = (\<forall>d \<in> set (counters h i). d < c)"

lemma counters_Nil: "counters h i = [] \<longleftrightarrow> i \<notin> fst ` set h"
  by (force simp: counters_def filter_empty_conv)

text \<open>
  The state after the accepted frames \<open>h\<close>: every salt accepted so far is kept or retired, a kept salt with its
  last counter, and the counters of a salt increase.
\<close>

definition guard_inv :: "replay_guard \<Rightarrow> (string \<times> nat) list \<Rightarrow> bool" where
  "guard_inv g h =
     (distinct (map fst (rg_last g)) \<and> distinct (rg_retired g) \<and> length (rg_last g) \<le> rg_maxSalts g
      \<and> Some ` fst ` set (rg_last g) \<inter> set (rg_retired g) = {}
      \<and> Some ` fst ` set h = Some ` fst ` set (rg_last g) \<union> set (rg_retired g)
      \<and> (\<forall>i c. (i, c) \<in> set (rg_last g) \<longrightarrow> counters h i \<noteq> [] \<and> last (counters h i) = c)
      \<and> (\<forall>i. sorted_wrt (<) (counters h i)))"

lemma guard_inv_card:
  assumes "guard_inv g h"
  shows "card (fst ` set h) = length (rg_last g) + length (rg_retired g)"
proof -
  have "card (fst ` set h) = card (Some ` fst ` set h)" by (rule card_image [symmetric]) simp
  also have "\<dots> = card (Some ` fst ` set (rg_last g)) + card (set (rg_retired g))"
    using assms by (simp add: guard_inv_def card_Un_disjoint)
  also have "card (Some ` fst ` set (rg_last g)) = card (set (map fst (rg_last g)))"
    by (subst card_image) simp_all
  finally show ?thesis using assms by (simp add: guard_inv_def distinct_card del: set_map)
qed

lemma sorted_snoc: "sorted_wrt (<) (xs :: nat list) \<Longrightarrow> xs = [] \<or> last xs < c \<Longrightarrow> sorted_wrt (<) (xs @ [c])"
  by (cases xs rule: rev_cases) (auto simp: sorted_wrt_append)

lemma guard_inv_known:
  assumes inv: "guard_inv g h" and known: "map_of (rg_last g) i = Some prev" and c: "prev < c"
  shows "guard_inv (g\<lparr>rg_last := filter (\<lambda>(j, _). j \<noteq> i) (rg_last g) @ [(i, c)]\<rparr>) (h @ [(i, c)])"
proof -
  have mem: "(i, prev) \<in> set (rg_last g)" using known by (rule map_of_SomeD)
  let ?l = "filter (\<lambda>(j, _). j \<noteq> i) (rg_last g)"
  have keys: "fst ` set ?l = fst ` set (rg_last g) - {i}" by (force simp: image_iff)
  have d: "distinct (map fst ?l)" using inv by (simp add: guard_inv_def distinct_map_filter)
  have "length ?l < length (rg_last g)"
    using mem by (intro length_filter_less [of "(i, prev)"]) auto
  moreover have "i \<in> fst ` set (rg_last g)" using mem by force
  moreover have "sorted_wrt (<) (counters h i @ [c])"
    using inv mem c by (intro sorted_snoc) (auto simp: guard_inv_def)
  ultimately show ?thesis
    using inv d keys unfolding guard_inv_def by (auto simp: image_Un)
qed

lemma guard_inv_new:
  assumes inv: "guard_inv g h" and new: "i \<notin> fst ` set h" and room: "length (rg_last g) < rg_maxSalts g"
  shows "guard_inv (g\<lparr>rg_last := rg_last g @ [(i, c)]\<rparr>) (h @ [(i, c)])"
proof -
  have "Some i \<notin> Some ` fst ` set (rg_last g) \<union> set (rg_retired g)"
    using inv new unfolding guard_inv_def by (metis imageE option.inject)
  moreover have "counters h i = []" using new by (simp add: counters_Nil)
  ultimately show ?thesis
    using inv room unfolding guard_inv_def by auto
qed

lemma guard_inv_retire:
  assumes inv: "guard_inv g h" and full: "rg_last g = (j, d) # l" and room: "length (rg_retired g) < rg_maxRetired g"
  shows "guard_inv (g\<lparr>rg_last := l, rg_retired := rg_retired g @ [Some j]\<rparr>) h"
  using inv full unfolding guard_inv_def by auto

text \<open>
  While no more salts were accepted than the two tables hold, one frame keeps the invariant; it is accepted
  only above every counter accepted on its salt, and surely so when no salt was retired.
\<close>

lemma accept_id_step:
  assumes inv: "guard_inv g h" and m: "1 \<le> rg_maxSalts g"
    and few: "card (insert i (fst ` set h)) \<le> rg_maxSalts g + rg_maxRetired g"
  shows "rg_maxSalts (snd (accept_id g i c)) = rg_maxSalts g \<and> rg_maxRetired (snd (accept_id g i c)) = rg_maxRetired g
    \<and> guard_inv (snd (accept_id g i c)) (if fst (accept_id g i c) then h @ [(i, c)] else h)
    \<and> (rg_retired g = [] \<longrightarrow> fst (accept_id g i c) = is_fresh h i c)
    \<and> (card (insert i (fst ` set h)) \<le> rg_maxSalts g \<and> rg_retired g = [] \<longrightarrow> rg_retired (snd (accept_id g i c)) = [])"
proof (cases "map_of (rg_last g) i")
  case (Some prev)
  have mem: "(i, prev) \<in> set (rg_last g)" using Some by (rule map_of_SomeD)
  have cs: "counters h i \<noteq> []" "last (counters h i) = prev" "sorted_wrt (<) (counters h i)"
    using inv mem unfolding guard_inv_def by blast+
  have "is_fresh h i c = (prev < c)"
    unfolding is_fresh_def using cs by (cases "counters h i" rule: rev_cases) (auto simp: sorted_wrt_append)
  then show ?thesis
    using Some inv guard_inv_known [OF inv Some, of c] by (simp add: accept_id_def)
next
  case None
  then have kept: "i \<notin> fst ` set (rg_last g)" by (simp add: map_of_eq_None_iff)
  have fin: "finite (fst ` set h)" by simp
  show ?thesis
  proof (cases "Some i \<in> set (rg_retired g)")
    case True
    then show ?thesis using None inv by (auto simp: accept_id_def)
  next
    case False
    then have "Some i \<notin> Some ` fst ` set h" using inv kept unfolding guard_inv_def by auto
    then have new: "i \<notin> fst ` set h" by blast
    then have card: "card (insert i (fst ` set h)) = Suc (length (rg_last g) + length (rg_retired g))"
      using guard_inv_card [OF inv] fin by simp
    have none: "is_fresh h i c" using new counters_Nil [of h i] by (simp add: is_fresh_def)
    show ?thesis
    proof (cases "rg_maxSalts g \<le> length (rg_last g)")
      case True
      then obtain j d l where full: "rg_last g = (j, d) # l"
        using m by (cases "rg_last g") auto
      have eq: "length (rg_last g) = rg_maxSalts g" using True inv unfolding guard_inv_def by simp
      have room: "length (rg_retired g) < rg_maxRetired g" using few card eq by simp
      have notin: "Some j \<notin> set (rg_retired g)" using inv full unfolding guard_inv_def by auto
      define g1 where "g1 = g\<lparr>rg_last := l, rg_retired := rg_retired g @ [Some j]\<rparr>"
      have step: "accept_id g i c = (True, g1\<lparr>rg_last := rg_last g1 @ [(i, c)]\<rparr>)"
        using None False True full room notin by (simp add: accept_id_def retire_def g1_def Let_def)
      have "guard_inv g1 h" unfolding g1_def using inv full room by (rule guard_inv_retire)
      moreover have "length (rg_last g1) < rg_maxSalts g1" using eq full by (simp add: g1_def)
      ultimately have "guard_inv (g1\<lparr>rg_last := rg_last g1 @ [(i, c)]\<rparr>) (h @ [(i, c)])"
        using new by (intro guard_inv_new)
      then show ?thesis unfolding step using none card eq by (simp add: g1_def)
    next
      case room: False
      have step: "accept_id g i c = (True, g\<lparr>rg_last := rg_last g @ [(i, c)]\<rparr>)"
        using None False room by (simp add: accept_id_def Let_def)
      show ?thesis unfolding step using none guard_inv_new [OF inv new, of c] room by simp
    qed
  qed
qed
lemma accept_ids_sorted:
  assumes "guard_inv g h" and "1 \<le> rg_maxSalts g"
    and "card (fst ` set h \<union> fst ` set fs) \<le> rg_maxSalts g + rg_maxRetired g"
  shows "sorted_wrt (<) (counters (h @ accept_ids g fs) i)"
  using assms
proof (induction fs arbitrary: g h)
  case Nil
  then show ?case by (simp add: guard_inv_def)
next
  case (Cons f fs)
  obtain j c where f: "f = (j, c)" by (cases f)
  have "card (insert j (fst ` set h)) \<le> card (fst ` set h \<union> fst ` set (f # fs))"
    by (rule card_mono) (auto simp: f)
  then have few: "card (insert j (fst ` set h)) \<le> rg_maxSalts g + rg_maxRetired g" using Cons.prems(3) by simp
  let ?g1 = "snd (accept_id g j c)" and ?h1 = "if fst (accept_id g j c) then h @ [(j, c)] else h"
  note step = accept_id_step [OF Cons.prems(1,2) few, of c]
  have "card (fst ` set ?h1 \<union> fst ` set fs) \<le> card (fst ` set h \<union> fst ` set (f # fs))"
    by (rule card_mono) (auto simp: f)
  then have "sorted_wrt (<) (counters (?h1 @ accept_ids ?g1 fs) i)"
    using step Cons.prems(2,3) by (intro Cons.IH) simp_all
  moreover have "?h1 @ accept_ids ?g1 fs = h @ accept_ids g (f # fs)"
    by (simp add: f split: prod.split)
  ultimately show ?case by simp
qed

text \<open>The reference: a frame is fresh when its counter is above all counters accepted before on its salt.\<close>

fun fresh_frames :: "('a \<times> nat) list \<Rightarrow> ('a \<times> nat) list \<Rightarrow> ('a \<times> nat) list" where
  "fresh_frames h [] = []"
| "fresh_frames h ((i, c) # fs) =
     (if is_fresh h i c then (i, c) # fresh_frames (h @ [(i, c)]) fs else fresh_frames h fs)"

lemma accept_ids_fresh:
  assumes "guard_inv g h" and "1 \<le> rg_maxSalts g" and "rg_retired g = []"
    and "card (fst ` set h \<union> fst ` set fs) \<le> rg_maxSalts g"
  shows "accept_ids g fs = fresh_frames h fs"
  using assms
proof (induction fs arbitrary: g h)
  case (Cons f fs)
  obtain j c where f: "f = (j, c)" by (cases f)
  have "card (insert j (fst ` set h)) \<le> card (fst ` set h \<union> fst ` set (f # fs))"
    by (rule card_mono) (auto simp: f)
  then have few: "card (insert j (fst ` set h)) \<le> rg_maxSalts g" using Cons.prems(4) by simp
  let ?g1 = "snd (accept_id g j c)" and ?h1 = "if fst (accept_id g j c) then h @ [(j, c)] else h"
  have "card (insert j (fst ` set h)) \<le> rg_maxSalts g + rg_maxRetired g" using few by simp
  note step = accept_id_step [OF Cons.prems(1,2) this, of c]
  have "card (fst ` set ?h1 \<union> fst ` set fs) \<le> card (fst ` set h \<union> fst ` set (f # fs))"
    by (rule card_mono) (auto simp: f)
  then have "accept_ids ?g1 fs = fresh_frames ?h1 fs"
    using step few Cons.prems by (intro Cons.IH; cases "is_fresh h j c"; simp)
  then show ?case
    using step Cons.prems(3) by (cases "accept_id g j c"; cases "is_fresh h j c"; simp add: f)
qed simp

section \<open>Runs over salts\<close>

fun accept_all :: "replay_guard \<Rightarrow> (bytes \<times> nat) list \<Rightarrow> (bytes \<times> nat) list" where
  "accept_all g [] = []"
| "accept_all g ((salt, c) # fs) =
     (let (ok, g1) = accept_frame g salt c in (if ok then [(salt, c)] else []) @ accept_all g1 fs)"

abbreviation by_id :: "(bytes \<times> nat) list \<Rightarrow> (string \<times> nat) list" where
  "by_id fs \<equiv> map (apfst bytesToHex) fs"

lemma accept_ids_by_id: "accept_ids g (by_id fs) = by_id (accept_all g fs)"
  by (induction g fs rule: accept_all.induct) (simp_all add: accept_frame_def split: prod.split)

lemma counters_by_id: "counters (by_id h) (bytesToHex s) = counters h s"
  by (induction h) (auto simp: counters_def bytesToHex_inj)

lemma fresh_id: "is_fresh (by_id h) (bytesToHex s) c = is_fresh h s c"
  by (simp add: is_fresh_def counters_by_id)

lemma fresh_by_id: "fresh_frames (by_id h) (by_id fs) = by_id (fresh_frames h fs)"
  proof (induction h fs rule: fresh_frames.induct)
  case (2 h i c fs)
  then show ?case by (cases "is_fresh h i c") (simp_all add: fresh_id)
qed simp

lemma by_id_inj: "by_id a = by_id b \<longleftrightarrow> a = b"
proof -
  have "inj (apfst bytesToHex :: bytes \<times> nat \<Rightarrow> string \<times> nat)"
    by (auto simp: inj_on_def bytesToHex_inj)
  then show ?thesis by (simp add: inj_map_eq_map)
qed

lemma card_by_id: "card (fst ` set (by_id fs)) = card (fst ` set fs)"
proof -
  have "fst ` set (by_id fs) = bytesToHex ` fst ` set fs" by (simp add: image_image)
  then show ?thesis by (simp add: card_image inj_on_def bytesToHex_inj)
qed

lemma guard_inv_new_guard: "guard_inv (newReplayGuard m r) []"
  by (simp add: guard_inv_def newReplayGuard_def)

text \<open>Beyond that number a retired salt is forgotten and its frames are accepted a second time.\<close>

lemma forgotten_salt_starts_fresh:
  "accept_all (newReplayGuard 1 1) [([1], 5), ([2], 5), ([3], 5), ([1], 5)] = [([1], 5), ([2], 5), ([3], 5), ([1], 5)]"
  by (simp add: newReplayGuard_def accept_frame_def accept_id_def retire_def bytesToHex_inj Let_def)

section \<open>Properties\<close>

text \<open>
  C34. On a connection that sees at most as many salts as the guard's two tables hold, the counters accepted on
  one salt strictly increase: no frame is accepted twice and none out of order. With no more salts than the first
  table holds, the guard accepts exactly the frames whose counter is above all those accepted on their salt.
\<close>

theorem replay_guard_accepts_fresh:
  assumes "1 \<le> m" and "card (fst ` set frames) \<le> m + r"
  shows "sorted_wrt (<) (counters (accept_all (newReplayGuard m r) frames) salt)
    \<and> (card (fst ` set frames) \<le> m \<longrightarrow> accept_all (newReplayGuard m r) frames = fresh_frames [] frames)"
proof -
  let ?g = "newReplayGuard m r"
  have size: "rg_maxSalts ?g = m" "rg_maxRetired ?g = r" "rg_retired ?g = []" by (simp_all add: newReplayGuard_def)
  have "sorted_wrt (<) (counters ([] @ accept_ids ?g (by_id frames)) (bytesToHex salt))"
    by (rule accept_ids_sorted [OF guard_inv_new_guard]) (use assms size card_by_id [of frames] in simp_all)
  moreover have "accept_ids ?g (by_id frames) = fresh_frames (by_id []) (by_id frames)" if "card (fst ` set frames) \<le> m"
    using accept_ids_fresh [OF guard_inv_new_guard] assms(1) that size card_by_id [of frames] by simp
  ultimately show ?thesis
    unfolding accept_ids_by_id fresh_by_id by_id_inj by (simp add: counters_by_id)
qed

theorem replay_guard_accepts_fresh_witness:
  "accept_all (newReplayGuard 8 1024) [([1], 5), ([2], 1), ([1], 5), ([1], 4), ([1], 6)] = [([1], 5), ([2], 1), ([1], 6)]"
  (is "accept_all _ ?f = _")
proof -
  have few: "card (fst ` set ?f) \<le> 8" by (simp add: card_insert_if)
  have "accept_all (newReplayGuard 8 1024) ?f = fresh_frames [] ?f"
    using replay_guard_accepts_fresh [of 8 ?f 1024 "[]"] few by (simp del: accept_all.simps fresh_frames.simps)
  also have "\<dots> = [([1], 5), ([2], 1), ([1], 6)]" by (simp add: is_fresh_def counters_def)
  finally show ?thesis .
qed

lemma decrypt_guard:
  "decryptPtyPayload W p kr session d bootId cache replay =
     (let (x, c, _) = decryptPtyPayload W p kr session d bootId cache None in
      case (x, replay) of
        (Inr (Some plain), Some g) \<Rightarrow>
          (let (ok, g1) = accept_frame g (sub_bytes 4 20 p) (be_value (sub_bytes 24 32 p))
           in (if ok then Inr (Some plain) else Inl ReplayedFrame, c, Some g1))
      | _ \<Rightarrow> (x, c, replay))"
proof (cases "length p < 48")
  case True
  then show ?thesis by (simp add: decryptPtyPayload_def pty_sizes)
next
  case False
  then obtain E S N T C where p: "p = E @ S @ N @ T @ C" and l: "length E = 4" "length S = 16" "length N = 12" "length T = 16"
    by (rule payload_split [OF leI])
  show ?thesis
    unfolding p decrypt_fields [OF l] payload_fields [OF l] Let_def
    by (simp split: option.split sum.split prod.split)
qed

lemma decrypt_cache_ok:
  assumes "cache_ok W cache"
  shows "cache_ok W (fst (snd (decryptPtyPayload W p kr session d bootId cache None)))"
proof (cases "length p < 48")
  case True
  then show ?thesis using assms by (simp add: decryptPtyPayload_def pty_sizes)
next
  case False
  then obtain E S N T C where p: "p = E @ S @ N @ T @ C" and l: "length E = 4" "length S = 16" "length N = 12" "length T = 16"
    by (rule payload_split [OF leI])
  show ?thesis
    unfolding p decrypt_fields [OF l] Let_def
    using assms cached_subkey [OF assms] by (simp split: option.split sum.split)
qed

text \<open>
  C33. A terminal frame opens to a plaintext exactly when it is the frame that sealing this plaintext produces
  for this session, direction and boot id, under a base key of the keyring and with the counter in its nonce,
  and the replay guard of the connection takes that counter. The cache of subkeys has no influence and keeps
  derived keys only; a frame that does not open leaves the guard as it was.
\<close>

theorem pty_payload_authentic:
  assumes "aead_laws W" and "cache_ok W cache"
  shows "(fst (decryptPtyPayload W p kr session d bootId cache replay) = Inr (Some plain)) =
      ((\<exists>epoch base salt counter. ptyBaseKeyFor (Some kr) epoch = Some base
          \<and> sealPtyPayload W plain base epoch session d salt counter bootId = Inr p)
       \<and> (case replay of None \<Rightarrow> True | Some g \<Rightarrow> fst (accept_frame g (sub_bytes 4 20 p) (be_value (sub_bytes 24 32 p)))))
    \<and> cache_ok W (fst (snd (decryptPtyPayload W p kr session d bootId cache replay)))
    \<and> ((\<exists>opened. fst (decryptPtyPayload W p kr session d bootId cache None) = Inr (Some opened))
       \<or> snd (snd (decryptPtyPayload W p kr session d bootId cache replay)) = replay)"
proof -
  obtain x c r where r: "decryptPtyPayload W p kr session d bootId cache None = (x, c, r)" by (metis prod.exhaust)
  show ?thesis
    using decrypt_iff_sealed [OF assms, of p kr session d bootId plain] decrypt_cache_ok [OF assms(2), of p kr session d bootId]
    unfolding decrypt_guard [of W p kr session d bootId cache replay] r
    by (auto split: sum.splits option.splits prod.splits if_splits)
qed

theorem pty_payload_authentic_witness:
  "\<exists>p. sealPtyPayload sample_crypto [65] () (js_nat 7) ''s'' PtyOut (replicate 16 3) 1 None = Inr p
     \<and> fst (decryptPtyPayload sample_crypto p (sample_vault ''0123456789abcdef'' (js_nat 7) 9) ''s'' PtyOut None [] None) = Inr (Some [65])"
proof -
  have "\<exists>p. sealPtyPayload sample_crypto [65] () (js_nat 7) ''s'' PtyOut (replicate 16 3) 1 None = Inr p"
  proof -
    have s: "assertPtySession ''s'' = None" by (simp add: assertPtySession_None ID_VALUE_RE_def is_id_char_def)
    have "assertPtyEpoch (js_nat 7) = None" by (simp add: assertPtyEpoch_def js_whole_def js_nat_def num_int_def)
    then have "\<exists>aad. ptyAad (js_nat 7) ''s'' PtyOut (Some 1) None = Inr aad" by (simp add: ptyAad_def s)
    moreover have "\<exists>n. ptyNonce 1 = Inr n" by (simp add: ptyNonce_Inr)
    moreover have "\<exists>k. derivePtySubkey sample_crypto () (replicate 16 3) ''s'' PtyOut = Inr k"
      by (simp add: derivePtySubkey_def s pty_sizes sample_crypto_def)
    ultimately show ?thesis unfolding sealPtyPayload_Inr by blast
  qed
  then obtain p where p: "sealPtyPayload sample_crypto [65] () (js_nat 7) ''s'' PtyOut (replicate 16 3) 1 None = Inr p" ..
  have "ptyBaseKeyFor (Some (sample_vault ''0123456789abcdef'' (js_nat 7) 9)) (js_nat 7) = Some ()"
    by (simp add: ptyBaseKeyFor_def sample_vault_def)
  moreover have "cache_ok sample_crypto ([] :: (byte, unit) subkey_cache)" by (simp add: cache_ok_def)
  ultimately show ?thesis
    using p pty_payload_authentic [OF sample_crypto_laws, of "[]" p _ "''s''" PtyOut None None "[65]"]
    by (metis (no_types, lifting) option.simps(4))
qed

end
