(* ===== verification/PtyInput.thy ===== *)
theory PtyInput
  imports PtyReplay
begin

text \<open>
  The browser's input streams (\<open>src/ui/components/shells/ptyWire.ts\<close>): boot ids of the bridges, one stream per
  session with a salt, a subkey and a counter, and \<open>encryptPtyPayload\<close> as the three parts its awaits cut it into.
  Between the parts of one call any other operation may run; this is the step relation \<open>pty_step\<close>.
\<close>

section \<open>State\<close>

text \<open>
  A keyring object is named by a reference, which is what \<open>!==\<close> compares; \<open>K\<close> maps references to the
  keyrings, whose fields are read-only. The promise of a subkey is the result
  it settles with. The three module-level maps are the state.
\<close>

record 'k pty_input_stream =
  is_keyring :: nat
  is_bootId :: string
  is_epoch :: jsnum
  is_salt :: bytes
  is_subkey :: "pty_error + 'k"
  is_counter :: nat

record 'k pty_input_state =
  ptyInputStreams :: "string \<Rightarrow> 'k pty_input_stream option"
  ptyInputHighWater :: "string \<Rightarrow> nat option"
  ptyBridgeBootIds :: "string \<Rightarrow> string option"

definition initial_pty_input :: "'k pty_input_state" where
  "initial_pty_input =
     \<lparr>ptyInputStreams = (\<lambda>_. None), ptyInputHighWater = (\<lambda>_. None), ptyBridgeBootIds = (\<lambda>_. None)\<rparr>"

definition setPtyBridgeBootId :: "string \<Rightarrow> js option \<Rightarrow> 'k pty_input_state \<Rightarrow> 'k pty_input_state" where
  "setPtyBridgeBootId session bootId s =
     (if session = [] \<or> \<not> isValidAadId bootId then s
      else if ptyBridgeBootIds s session \<noteq> js_string bootId
      then s\<lparr>ptyBridgeBootIds := (ptyBridgeBootIds s)(session := js_string bootId),
             ptyInputStreams := (ptyInputStreams s)(session := None)\<rparr>
      else s)"

definition resetPtyInputStream :: "string \<Rightarrow> 'k pty_input_state \<Rightarrow> 'k pty_input_state" where
  "resetPtyInputStream session s = s\<lparr>ptyInputStreams := (ptyInputStreams s)(session := None)\<rparr>"

section \<open>One call\<close>

text \<open>A call that waits for its base key, and a frame whose counter is reserved and that waits for its subkey.\<close>

record waiting_call =
  wt_ref :: nat
  wt_session :: string
  wt_epoch :: jsnum
  wt_bootId :: string

record 'k reserved_frame =
  rf_keyring :: nat
  rf_session :: string
  rf_epoch :: jsnum
  rf_bootId :: string
  rf_salt :: bytes
  rf_subkey :: "pty_error + 'k"
  rf_counter :: nat

definition stream_matches :: "nat \<Rightarrow> jsnum \<Rightarrow> string \<Rightarrow> 'k pty_input_stream \<Rightarrow> bool" where
  "stream_matches kref epoch bootId st = (is_keyring st = kref \<and> is_epoch st = epoch \<and> is_bootId st = bootId)"

definition reserve :: "string \<Rightarrow> 'k pty_input_stream \<Rightarrow> 'k pty_input_state \<Rightarrow> 'k pty_input_state \<times> 'k reserved_frame" where
  "reserve session st s =
     (let counter = is_counter st + 1
      in (s\<lparr>ptyInputStreams := (ptyInputStreams s)(session \<mapsto> st\<lparr>is_counter := counter\<rparr>),
            ptyInputHighWater := (ptyInputHighWater s)(session \<mapsto> counter)\<rparr>,
          \<lparr>rf_keyring = is_keyring st, rf_session = session, rf_epoch = is_epoch st, rf_bootId = is_bootId st, rf_salt = is_salt st,
           rf_subkey = is_subkey st, rf_counter = counter\<rparr>))"

datatype 'k begin_result =
    Refused pty_error
  | Reserved "'k pty_input_state \<times> 'k reserved_frame"
  | Waiting waiting_call

type_synonym ('k, 'b) keyring_heap = "nat \<Rightarrow> ('k, 'b) vault_keyring"

definition encrypt_begin ::
  "('k, 'b) keyring_heap \<Rightarrow> nat \<Rightarrow> string \<Rightarrow> 'k pty_input_state \<Rightarrow> 'k begin_result" where
  "encrypt_begin K kref session s =
     (let epoch = kr_currentEpoch (K kref) in
      case assertPtySession session of Some err \<Rightarrow> Refused err | None \<Rightarrow>
      case assertPtyEpoch epoch of Some err \<Rightarrow> Refused err | None \<Rightarrow>
      if \<not> truthy (ptyBridgeBootIds s session) then Refused BootIdUnknown
      else
        (let bootId = opt_str (ptyBridgeBootIds s session);
             waiting = Waiting \<lparr>wt_ref = kref, wt_session = session, wt_epoch = epoch, wt_bootId = bootId\<rparr>
         in case ptyInputStreams s session of
              None \<Rightarrow> waiting
            | Some st \<Rightarrow> if stream_matches kref epoch bootId st then Reserved (reserve session st s) else waiting))"

text \<open>The clock in milliseconds and the fresh salt are arguments.\<close>

definition encrypt_resume ::
  "('k, 'b) web_crypto \<Rightarrow> ('k, 'b) keyring_heap \<Rightarrow> waiting_call \<Rightarrow> bytes \<Rightarrow> rat \<Rightarrow> 'k pty_input_state
   \<Rightarrow> pty_error + ('k pty_input_state \<times> 'k reserved_frame)" where
  "encrypt_resume W K w salt now s =
     (case ptyBaseKeyFor (Some (K (wt_ref w))) (wt_epoch w) of
        None \<Rightarrow> Inl PtyKeyUnavailable
      | Some baseKey \<Rightarrow>
          (let seed = nat (max 0 \<lfloor>now\<rfloor>) * 1000;
               prev = (case ptyInputHighWater s (wt_session w) of None \<Rightarrow> 0 | Some c \<Rightarrow> c);
               fresh = \<lparr>is_keyring = wt_ref w, is_bootId = wt_bootId w, is_epoch = wt_epoch w, is_salt = salt,
                        is_subkey = derivePtySubkey W baseKey salt (wt_session w) PtyIn, is_counter = max seed prev\<rparr>;
               st = (case ptyInputStreams s (wt_session w) of
                       Some st \<Rightarrow> if stream_matches (wt_ref w) (wt_epoch w) (wt_bootId w) st then st else fresh
                     | None \<Rightarrow> fresh)
           in Inr (reserve (wt_session w) st s)))"

definition encrypt_finish :: "('k, 'b) web_crypto \<Rightarrow> bytes \<Rightarrow> 'k reserved_frame \<Rightarrow> pty_error + bytes" where
  "encrypt_finish W plain f =
     (case rf_subkey f of Inl err \<Rightarrow> Inl err | Inr k \<Rightarrow>
      case ptyNonce (int (rf_counter f)) of Inl err \<Rightarrow> Inl err | Inr nonce \<Rightarrow>
      case ptyAad (rf_epoch f) (rf_session f) PtyIn (Some (int (rf_counter f))) (Some (rf_bootId f)) of
        Inl err \<Rightarrow> Inl err
      | Inr aad \<Rightarrow> Inr (sealPtyWithSubkey W plain k (rf_epoch f) (rf_salt f) nonce aad))"

section \<open>Interleaved calls\<close>

record 'k pty_config =
  pc_state :: "'k pty_input_state"
  pc_waiting :: "waiting_call list"
  pc_log :: "'k reserved_frame list"

definition initial_config :: "'k pty_config" where
  "initial_config = \<lparr>pc_state = initial_pty_input, pc_waiting = [], pc_log = []\<rparr>"

text \<open>The log lists the frames in the order in which their counters were reserved.\<close>

inductive pty_step :: "('k, 'b) web_crypto \<Rightarrow> ('k, 'b) keyring_heap \<Rightarrow> 'k pty_config \<Rightarrow> 'k pty_config \<Rightarrow> bool"
  for W K where
  set_boot: "pty_step W K c (c\<lparr>pc_state := setPtyBridgeBootId session bootId (pc_state c)\<rparr>)"
| reset: "pty_step W K c (c\<lparr>pc_state := resetPtyInputStream session (pc_state c)\<rparr>)"
| call_reserved: "encrypt_begin K kref session (pc_state c) = Reserved (s, f) \<Longrightarrow>
    pty_step W K c (c\<lparr>pc_state := s, pc_log := pc_log c @ [f]\<rparr>)"
| call_waiting: "encrypt_begin K kref session (pc_state c) = Waiting w \<Longrightarrow>
    pty_step W K c (c\<lparr>pc_waiting := pc_waiting c @ [w]\<rparr>)"
| resumed: "w \<in> set (pc_waiting c) \<Longrightarrow> length salt = PTY_V2_SALT_BYTES \<Longrightarrow>
    encrypt_resume W K w salt now (pc_state c) = Inr (s, f) \<Longrightarrow>
    pty_step W K c (c\<lparr>pc_state := s, pc_waiting := remove1 w (pc_waiting c), pc_log := pc_log c @ [f]\<rparr>)"
| refused: "w \<in> set (pc_waiting c) \<Longrightarrow> encrypt_resume W K w salt now (pc_state c) = Inl err \<Longrightarrow>
    pty_step W K c (c\<lparr>pc_waiting := remove1 w (pc_waiting c)\<rparr>)"

inductive pty_reachable :: "('k, 'b) web_crypto \<Rightarrow> ('k, 'b) keyring_heap \<Rightarrow> 'k pty_config \<Rightarrow> bool" for W K where
  start: "pty_reachable W K initial_config"
| step: "pty_reachable W K c \<Longrightarrow> pty_step W K c c' \<Longrightarrow> pty_reachable W K c'"

section \<open>Counters\<close>

definition session_counters :: "'k reserved_frame list \<Rightarrow> string \<Rightarrow> nat list" where
  "session_counters fs session = map rf_counter (filter (\<lambda>f. rf_session f = session) fs)"

text \<open>A frame that can be sealed: valid fields, and the subkey of its salt.\<close>

definition frame_ok :: "('k, 'b) web_crypto \<Rightarrow> ('k, 'b) keyring_heap \<Rightarrow> 'k reserved_frame \<Rightarrow> bool" where
  "frame_ok W K f =
     (valid_epoch (rf_epoch f) \<and> assertPtySession (rf_session f) = None \<and> isValidAadId (Some (JStr (rf_bootId f)))
      \<and> length (rf_salt f) = PTY_V2_SALT_BYTES \<and> 1 \<le> rf_counter f
      \<and> (\<exists>base. ptyBaseKeyFor (Some (K (rf_keyring f))) (rf_epoch f) = Some base
            \<and> rf_subkey f = derivePtySubkey W base (rf_salt f) (rf_session f) PtyIn))"

definition stream_ok :: "('k, 'b) web_crypto \<Rightarrow> ('k, 'b) keyring_heap \<Rightarrow> string \<Rightarrow> 'k pty_input_stream \<Rightarrow> bool" where
  "stream_ok W K session st =
     (valid_epoch (is_epoch st) \<and> isValidAadId (Some (JStr (is_bootId st))) \<and> length (is_salt st) = PTY_V2_SALT_BYTES
      \<and> (\<exists>base. ptyBaseKeyFor (Some (K (is_keyring st))) (is_epoch st) = Some base
            \<and> is_subkey st = derivePtySubkey W base (is_salt st) session PtyIn))"

definition call_ok :: "waiting_call \<Rightarrow> bool" where
  "call_ok w =
     (valid_epoch (wt_epoch w) \<and> assertPtySession (wt_session w) = None \<and> isValidAadId (Some (JStr (wt_bootId w))))"

definition last_opt :: "'a list \<Rightarrow> 'a option" where
  "last_opt xs = (if xs = [] then None else Some (last xs))"

lemma last_opt_simps [simp]: "last_opt [] = None" "last_opt (xs @ [x]) = Some x"
  by (simp_all add: last_opt_def)

text \<open>
  The high-water mark of a session is its last reserved counter, and a stream in the map has exactly that
  counter; the counters of a session increase.
\<close>

definition input_inv :: "('k, 'b) web_crypto \<Rightarrow> ('k, 'b) keyring_heap \<Rightarrow> 'k pty_input_state \<Rightarrow> 'k reserved_frame list \<Rightarrow> bool" where
  "input_inv W K s fs =
     ((\<forall>x. ptyInputHighWater s x = last_opt (session_counters fs x))
      \<and> (\<forall>x st. ptyInputStreams s x = Some st \<longrightarrow> stream_ok W K x st \<and> ptyInputHighWater s x = Some (is_counter st))
      \<and> (\<forall>x b. ptyBridgeBootIds s x = Some b \<longrightarrow> isValidAadId (Some (JStr b)))
      \<and> (\<forall>x. sorted_wrt (<) (session_counters fs x))
      \<and> (\<forall>f \<in> set fs. frame_ok W K f))"

lemma session_counters_snoc [simp]:
  "session_counters (fs @ [f]) x = session_counters fs x @ (if rf_session f = x then [rf_counter f] else [])"
  by (simp add: session_counters_def)

lemma reserve_inv:
  assumes inv: "input_inv W K s fs" and st: "stream_ok W K session st" and s: "assertPtySession session = None"
    and high: "case ptyInputHighWater s session of None \<Rightarrow> True | Some c \<Rightarrow> c \<le> is_counter st"
  shows "input_inv W K (fst (reserve session st s)) (fs @ [snd (reserve session st s)])"
proof -
  let ?cs = "session_counters fs session"
  have "?cs = [] \<or> last ?cs < is_counter st + 1"
    using inv high by (auto simp: input_inv_def last_opt_def split: if_splits option.splits)
  moreover have "sorted_wrt (<) ?cs" using inv by (simp add: input_inv_def)
  ultimately have sorted: "sorted_wrt (<) (?cs @ [is_counter st + 1])" by (intro sorted_snoc)
  have "frame_ok W K (snd (reserve session st s))"
    using st s by (simp add: frame_ok_def stream_ok_def reserve_def)
  moreover have "stream_ok W K session (st\<lparr>is_counter := is_counter st + 1\<rparr>)"
    using st by (simp add: stream_ok_def)
  moreover define s' f where "s' = fst (reserve session st s)" and "f = snd (reserve session st s)"
  moreover have high': "ptyInputHighWater s' = (ptyInputHighWater s)(session \<mapsto> is_counter st + 1)"
    and streams: "ptyInputStreams s' = (ptyInputStreams s)(session \<mapsto> st\<lparr>is_counter := is_counter st + 1\<rparr>)"
    and boots: "ptyBridgeBootIds s' = ptyBridgeBootIds s"
    and f: "rf_session f = session" "rf_counter f = is_counter st + 1"
    by (simp_all add: s'_def f_def reserve_def Let_def)
  moreover have "session_counters (fs @ [f]) x = (if x = session then session_counters fs x @ [is_counter st + 1] else session_counters fs x)"
    for x using f by simp
  ultimately show ?thesis
    using inv sorted unfolding input_inv_def s'_def [symmetric] f_def [symmetric]
    by simp metis
qed

lemma setPtyBridgeBootId_inv: "input_inv W K s fs \<Longrightarrow> input_inv W K (setPtyBridgeBootId x b s) fs"
  by (auto simp: input_inv_def setPtyBridgeBootId_def isValidAadId_def split: option.splits)

lemma resetPtyInputStream_inv: "input_inv W K s fs \<Longrightarrow> input_inv W K (resetPtyInputStream x s) fs"
  by (auto simp: input_inv_def resetPtyInputStream_def)

lemma encrypt_begin_cases:
  assumes "encrypt_begin K kref session s = r"
  obtains (refused) err where "r = Refused err"
  | (reserved) st where "r = Reserved (reserve session st s)" and "ptyInputStreams s session = Some st"
      and "assertPtySession session = None"
  | (waiting) w b where "r = Waiting w" and "w = \<lparr>wt_ref = kref, wt_session = session,
        wt_epoch = kr_currentEpoch (K kref), wt_bootId = b\<rparr>" and "ptyBridgeBootIds s session = Some b"
      and "assertPtySession session = None" and "assertPtyEpoch (kr_currentEpoch (K kref)) = None"
  using assms unfolding encrypt_begin_def Let_def
  by (cases "ptyBridgeBootIds s session") (auto split: option.splits if_splits)

lemma encrypt_begin_inv:
  assumes inv: "input_inv W K s fs" and "encrypt_begin K kref session s = Reserved (s', f)"
  shows "input_inv W K s' (fs @ [f])"
  using assms(2)
proof (cases rule: encrypt_begin_cases)
  case (reserved st)
  have "stream_ok W K session st" "ptyInputHighWater s session = Some (is_counter st)"
    using inv reserved(2) unfolding input_inv_def by blast+
  then show ?thesis using reserve_inv [OF inv _ reserved(3)] reserved(1) by (metis begin_result.inject(2) fst_conv le_refl option.simps(5) snd_conv)
qed simp_all

lemma encrypt_resume_reserves:
  assumes inv: "input_inv W K s fs" and w: "call_ok w" and salt: "length salt = PTY_V2_SALT_BYTES"
    and r: "encrypt_resume W K w salt now s = Inr (s', f)"
  shows "input_inv W K s' (fs @ [f])"
proof -
  obtain base where base: "ptyBaseKeyFor (Some (K (wt_ref w))) (wt_epoch w) = Some base"
    using r by (auto simp: encrypt_resume_def split: option.splits)
  define fresh where "fresh = \<lparr>is_keyring = wt_ref w, is_bootId = wt_bootId w, is_epoch = wt_epoch w, is_salt = salt,
    is_subkey = derivePtySubkey W base salt (wt_session w) PtyIn,
    is_counter = max (nat (max 0 \<lfloor>now\<rfloor>) * 1000) (case ptyInputHighWater s (wt_session w) of None \<Rightarrow> 0 | Some c \<Rightarrow> c)\<rparr>"
  define st where "st = (case ptyInputStreams s (wt_session w) of
      Some st \<Rightarrow> if stream_matches (wt_ref w) (wt_epoch w) (wt_bootId w) st then st else fresh | None \<Rightarrow> fresh)"
  have eq: "reserve (wt_session w) st s = (s', f)"
    using r base unfolding encrypt_resume_def st_def fresh_def Let_def by simp
  have fresh: "stream_ok W K (wt_session w) fresh"
    "case ptyInputHighWater s (wt_session w) of None \<Rightarrow> True | Some c \<Rightarrow> c \<le> is_counter fresh"
    using w salt base by (auto simp: stream_ok_def call_ok_def fresh_def split: option.split)
  have old: "stream_ok W K (wt_session w) t" "ptyInputHighWater s (wt_session w) = Some (is_counter t)"
    if "ptyInputStreams s (wt_session w) = Some t" for t
    using inv that unfolding input_inv_def by blast+
  have "stream_ok W K (wt_session w) st \<and> (case ptyInputHighWater s (wt_session w) of None \<Rightarrow> True | Some c \<Rightarrow> c \<le> is_counter st)"
    using fresh old by (auto simp: st_def split: option.split)
  then have "input_inv W K (fst (reserve (wt_session w) st s)) (fs @ [snd (reserve (wt_session w) st s)])"
    using inv w by (intro reserve_inv) (simp_all add: call_ok_def)
  then show ?thesis by (simp add: eq)
qed
section \<open>Every interleaving\<close>

lemma pty_reachable_inv:
  "pty_reachable W K c \<Longrightarrow> input_inv W K (pc_state c) (pc_log c) \<and> (\<forall>w \<in> set (pc_waiting c). call_ok w)"
proof (induction rule: pty_reachable.induct)
  case start
  then show ?case by (simp add: initial_config_def initial_pty_input_def input_inv_def session_counters_def)
next
  case (step c c')
  from step.hyps(2) step.IH show ?case
  proof (induction rule: pty_step.induct)
    case (call_waiting kref session c w)
    from call_waiting.hyps have "call_ok w"
    proof (cases rule: encrypt_begin_cases)
      case (waiting v b)
      have "isValidAadId (Some (JStr b))" using call_waiting.prems waiting(3) unfolding input_inv_def by blast
      then show ?thesis using waiting by (simp add: call_ok_def assertPtyEpoch_None)
    qed simp_all
    then show ?case using call_waiting.prems by auto
  qed (auto intro: setPtyBridgeBootId_inv resetPtyInputStream_inv encrypt_begin_inv encrypt_resume_reserves
      dest: in_set_remove1 notin_set_remove1)
qed

text \<open>A reserved frame is sealed as \<open>sealPtyPayload\<close> does, for the input direction with its counter and boot id.\<close>

lemma finish_seals:
  assumes "frame_ok W K f"
  obtains base where "ptyBaseKeyFor (Some (K (rf_keyring f))) (rf_epoch f) = Some base"
    and "\<And>p. encrypt_finish W plain f = Inr p \<longleftrightarrow>
      sealPtyPayload W plain base (rf_epoch f) (rf_session f) PtyIn (rf_salt f) (int (rf_counter f)) (Some (rf_bootId f)) = Inr p"
proof -
  obtain base where base: "ptyBaseKeyFor (Some (K (rf_keyring f))) (rf_epoch f) = Some base"
      "rf_subkey f = derivePtySubkey W base (rf_salt f) (rf_session f) PtyIn"
    using assms by (auto simp: frame_ok_def)
  have "encrypt_finish W plain f = Inr p \<longleftrightarrow>
      sealPtyPayload W plain base (rf_epoch f) (rf_session f) PtyIn (rf_salt f) (int (rf_counter f)) (Some (rf_bootId f)) = Inr p" for p
    unfolding encrypt_finish_def sealPtyPayload_Inr base(2) [symmetric]
    by (cases "rf_subkey f"; cases "ptyNonce (int (rf_counter f))";
        cases "ptyAad (rf_epoch f) (rf_session f) PtyIn (Some (int (rf_counter f))) (Some (rf_bootId f))") auto
  with base(1) show thesis by (rule that)
qed

lemma finish_works:
  assumes "frame_ok W K f" and "rf_subkey f = Inr k" and "rf_counter f \<le> 18446744073709551615"
  shows "\<exists>p. encrypt_finish W plain f = Inr p"
proof -
  have "int (rf_counter f) \<le> 18446744073709551615" using assms(3) by simp
  then have n: "\<exists>n. ptyNonce (int (rf_counter f)) = Inr n" "assertPtyCounter (int (rf_counter f)) = None"
    using assms(1) by (simp_all add: ptyNonce_Inr assertPtyCounter_def frame_ok_def)
  moreover have "\<exists>aad. ptyAad (rf_epoch f) (rf_session f) PtyIn (Some (int (rf_counter f))) (Some (rf_bootId f)) = Inr aad"
  proof -
    have "assertPtyEpoch (rf_epoch f) = None" using assms(1) by (simp add: frame_ok_def assertPtyEpoch_None)
    then show ?thesis using assms(1) n(2) by (simp add: ptyAad_def frame_ok_def)
  qed
  ultimately show ?thesis using assms(2) by (auto simp: encrypt_finish_def)
qed

lemma counters_of_session:
  "counters (map (\<lambda>f. (rf_session f, rf_counter f)) fs) x = session_counters fs x"
  by (induction fs) (auto simp: session_counters_def counters_def)

lemma resume_fields:
  assumes "encrypt_resume W K w salt now s = Inr (s', f)"
  shows "rf_session f = wt_session w \<and> rf_keyring f = wt_ref w \<and> rf_epoch f = wt_epoch w \<and> rf_bootId f = wt_bootId w"
  using assms by (auto simp: encrypt_resume_def reserve_def stream_matches_def Let_def split: option.splits if_splits)

lemma resume_counter:
  assumes "input_inv W K s fs" and "encrypt_resume W K w salt now s = Inr (s', f)"
    and "now * 1000 < 18446744073709551615" and "\<forall>d \<in> set (session_counters fs (wt_session w)). d < 18446744073709551615"
  shows "rf_counter f \<le> 18446744073709551615"
proof -
  have "rat_of_int \<lfloor>now\<rfloor> \<le> now" by simp
  then have "rat_of_int \<lfloor>now\<rfloor> * 1000 < 18446744073709551615" using assms(3) by linarith
  then have "rat_of_int (\<lfloor>now\<rfloor> * 1000) < rat_of_int 18446744073709551615" by simp
  then have "\<lfloor>now\<rfloor> * 1000 < 18446744073709551615" by (simp only: of_int_less_iff)
  then have "int (nat (max 0 \<lfloor>now\<rfloor>)) * 1000 < 18446744073709551615" by simp
  then have clock: "nat (max 0 \<lfloor>now\<rfloor>) * 1000 < 18446744073709551615" by linarith
  have high: "d < 18446744073709551615" if "ptyInputHighWater s (wt_session w) = Some d" for d
    using assms(1,4) that by (auto simp: input_inv_def last_opt_def split: if_splits)
  moreover have "is_counter st < 18446744073709551615" if "ptyInputStreams s (wt_session w) = Some st" for st
    using assms(1) that high unfolding input_inv_def by blast
  ultimately show ?thesis
    using assms(2) clock by (auto simp: encrypt_resume_def reserve_def Let_def Suc_le_eq split: option.splits if_splits)
qed

text \<open>
  C35. Whatever calls overlap, and however boot ids change and streams are reset in between, the counters
  reserved for the input of one session strictly increase in the order of reservation, also across salts, so a
  receiver that keeps one floor per session finds every frame fresh; and no frame's salt and counter are reused.
\<close>

theorem input_counters_increase:
  assumes "pty_reachable W K c"
  shows "sorted_wrt (<) (session_counters (pc_log c) session)
    \<and> fresh_frames [] (map (\<lambda>f. (rf_session f, rf_counter f)) (pc_log c)) = map (\<lambda>f. (rf_session f, rf_counter f)) (pc_log c)
    \<and> distinct (map (\<lambda>f. (rf_session f, rf_salt f, rf_counter f)) (pc_log c))"
proof -
  have inc: "sorted_wrt (<) (session_counters (pc_log c) x)" for x
    using pty_reachable_inv [OF assms] by (simp add: input_inv_def)
  have fresh: "fresh_frames h fs = fs" if "\<And>x. sorted_wrt (<) (counters (h @ fs) x)" for h fs :: "(string \<times> nat) list"
    using that
  proof (induction fs arbitrary: h)
    case (Cons p fs)
    obtain x n where p: "p = (x, n)" by (cases p)
    have "is_fresh h x n"
      using Cons.prems [of x] by (auto simp: p is_fresh_def counters_def sorted_wrt_append)
    moreover have "fresh_frames (h @ [p]) fs = fs" by (rule Cons.IH) (use Cons.prems in simp)
    ultimately show ?case by (simp add: p)
  qed simp
  have "distinct (map (\<lambda>f. (rf_session f, rf_salt f, rf_counter f)) fs)"
    if "\<And>x. sorted_wrt (<) (session_counters fs x)" for fs :: "'a reserved_frame list"
    using that
  proof (induction fs)
    case (Cons f fs)
    have "sorted_wrt (<) (session_counters fs x)" for x
      using Cons.prems [of x] by (auto simp: session_counters_def split: if_splits)
    moreover have "rf_counter f < rf_counter g" if "g \<in> set fs" "rf_session g = rf_session f" for g
      using Cons.prems [of "rf_session f"] that by (auto simp: session_counters_def)
    ultimately show ?case using Cons.IH by fastforce
  qed simp
  then show ?thesis
    using inc fresh [of "[]" "map (\<lambda>f. (rf_session f, rf_counter f)) (pc_log c)"] by (simp add: counters_of_session)
qed

text \<open>
  A call that waits for its base key is never stuck. Whatever happened since it was made, when the keyring
  has the key it resumes: it reserves a counter above all those of its session, and, below the 64-bit limit,
  seals a frame that a receiver with the same keyring opens for that session and boot id to what was typed.
\<close>

theorem waiting_input_is_sent:
  assumes W: "aead_laws W" and cache: "cache_ok W cache" and reach: "pty_reachable W K c"
    and w: "w \<in> set (pc_waiting c)" and key: "ptyBaseKeyFor (Some (K (wt_ref w))) (wt_epoch w) \<noteq> None"
    and salt: "length salt = PTY_V2_SALT_BYTES" and derive: "\<forall>b x i. wc_derive W b x i \<noteq> None"
    and room: "now * 1000 < 18446744073709551615" "\<forall>d \<in> set (session_counters (pc_log c) (wt_session w)). d < 18446744073709551615"
  shows "\<exists>s f p. encrypt_resume W K w salt now (pc_state c) = Inr (s, f)
    \<and> pty_reachable W K (c\<lparr>pc_state := s, pc_waiting := remove1 w (pc_waiting c), pc_log := pc_log c @ [f]\<rparr>)
    \<and> (\<forall>d \<in> set (session_counters (pc_log c) (wt_session w)). d < rf_counter f)
    \<and> encrypt_finish W plain f = Inr p
    \<and> fst (decryptPtyPayload W p (K (wt_ref w)) (wt_session w) PtyIn (Some (wt_bootId w)) cache None) = Inr (Some plain)"
proof -
  have inv: "input_inv W K (pc_state c) (pc_log c)" and ok: "call_ok w" using pty_reachable_inv [OF reach] w by auto
  obtain s f where r: "encrypt_resume W K w salt now (pc_state c) = Inr (s, f)"
    using key by (cases "encrypt_resume W K w salt now (pc_state c)") (auto simp: encrypt_resume_def Let_def)
  have inv': "input_inv W K s (pc_log c @ [f])" by (rule encrypt_resume_reserves [OF inv ok salt r])
  then have f: "frame_ok W K f" by (simp add: input_inv_def)
  note fields = resume_fields [OF r]
  have "sorted_wrt (<) (session_counters (pc_log c @ [f]) (wt_session w))" using inv' by (simp add: input_inv_def)
  then have above: "\<forall>d \<in> set (session_counters (pc_log c) (wt_session w)). d < rf_counter f"
    using fields by (simp add: sorted_wrt_append)
  obtain base where base: "ptyBaseKeyFor (Some (K (wt_ref w))) (wt_epoch w) = Some base"
    and seal: "\<And>p. encrypt_finish W plain f = Inr p \<longleftrightarrow>
      sealPtyPayload W plain base (wt_epoch w) (wt_session w) PtyIn (rf_salt f) (int (rf_counter f)) (Some (wt_bootId w)) = Inr p"
    using finish_seals [OF f, of plain] fields by metis
  have "\<exists>k. derivePtySubkey W b (rf_salt f) (rf_session f) PtyIn = Inr k" for b
  proof -
    obtain k where "wc_derive W b (rf_salt f) (utf8_encode (PTY_V2_INFO @ ''|'' @ rf_session f @ ''|'' @ direction_name PtyIn)) = Some k"
      using derive by blast
    then show ?thesis using f by (simp add: derivePtySubkey_def frame_ok_def)
  qed
  then obtain k where "rf_subkey f = Inr k" using f unfolding frame_ok_def by metis
  then obtain p where p: "encrypt_finish W plain f = Inr p"
    using finish_works [OF f] resume_counter [OF inv r room] by blast
  have "fst (decryptPtyPayload W p (K (wt_ref w)) (wt_session w) PtyIn (Some (wt_bootId w)) cache None) = Inr (Some plain)"
    using base seal p decrypt_iff_sealed [OF W cache] by blast
  moreover have "pty_reachable W K (c\<lparr>pc_state := s, pc_waiting := remove1 w (pc_waiting c), pc_log := pc_log c @ [f]\<rparr>)"
    using reach w salt r by (blast intro: pty_reachable.step pty_step.resumed)
  ultimately show ?thesis using r above p by blast
qed

section \<open>A run\<close>

definition sample_heap :: "(byte, unit) keyring_heap" where
  "sample_heap = (\<lambda>_. sample_vault ''0123456789abcdef'' (js_nat 7) 9)"

definition sample_call :: waiting_call where
  "sample_call = \<lparr>wt_ref = 0, wt_session = ''s'', wt_epoch = js_nat 7, wt_bootId = ''b''\<rparr>"

definition waiting_config :: "byte pty_config" where
  "waiting_config = \<lparr>pc_state = setPtyBridgeBootId ''s'' (Some (JStr ''b'')) initial_pty_input, pc_waiting = [sample_call], pc_log = []\<rparr>"

lemma sample_ids: "isValidAadId (Some (JStr ''b''))" "assertPtySession ''s'' = None"
  by (simp_all add: isValidAadId_def assertPtySession_None ID_VALUE_RE_def is_id_char_def)

lemma waiting_reachable: "pty_reachable sample_crypto sample_heap waiting_config"
proof -
  let ?c1 = "(initial_config :: byte pty_config)\<lparr>pc_state := setPtyBridgeBootId ''s'' (Some (JStr ''b'')) (pc_state initial_config)\<rparr>"
  have b: "ptyBridgeBootIds (pc_state ?c1) ''s'' = Some ''b''" "ptyInputStreams (pc_state ?c1) ''s'' = None"
    using sample_ids(1) by (simp_all add: setPtyBridgeBootId_def initial_config_def initial_pty_input_def)
  have e: "kr_currentEpoch (sample_heap 0) = js_nat 7" by (simp add: sample_heap_def sample_vault_def)
  have "assertPtyEpoch (js_nat 7) = None" by (simp add: assertPtyEpoch_def js_whole_def js_nat_def num_int_def)
  then have "encrypt_begin sample_heap 0 ''s'' (pc_state ?c1) = Waiting sample_call"
    using b sample_ids(2) e by (simp add: encrypt_begin_def sample_call_def Let_def)
  then have "pty_reachable sample_crypto sample_heap (?c1\<lparr>pc_waiting := pc_waiting ?c1 @ [sample_call]\<rparr>)"
    by (intro pty_reachable.step [OF pty_reachable.step [OF pty_reachable.start pty_step.set_boot] pty_step.call_waiting])
  then show ?thesis by (simp add: waiting_config_def initial_config_def)
qed

theorem waiting_input_is_sent_witness:
  "\<exists>s f p. encrypt_resume sample_crypto sample_heap sample_call (replicate 16 3) 1000 (pc_state waiting_config) = Inr (s, f)
     \<and> encrypt_finish sample_crypto [65] f = Inr p
     \<and> fst (decryptPtyPayload sample_crypto p (sample_heap 0) ''s'' PtyIn (Some ''b'') [] None) = Inr (Some [65])"
proof -
  have "cache_ok sample_crypto ([] :: (byte, unit) subkey_cache)" by (simp add: cache_ok_def)
  moreover have "sample_call \<in> set (pc_waiting waiting_config)" by (simp add: waiting_config_def)
  moreover have "ptyBaseKeyFor (Some (sample_heap (wt_ref sample_call))) (wt_epoch sample_call) \<noteq> None"
    by (simp add: sample_heap_def sample_call_def ptyBaseKeyFor_def sample_vault_def)
  moreover have "length (replicate 16 3 :: bytes) = PTY_V2_SALT_BYTES" by (simp add: pty_sizes)
  moreover have "\<forall>b x i. wc_derive sample_crypto b x i \<noteq> None" by (simp add: sample_crypto_def)
  moreover have "(1000 :: rat) * 1000 < 18446744073709551615" by simp
  moreover have "\<forall>d \<in> set (session_counters (pc_log waiting_config) (wt_session sample_call)). d < 18446744073709551615"
    by (simp add: waiting_config_def session_counters_def)
  ultimately have "\<exists>s f p. encrypt_resume sample_crypto sample_heap sample_call (replicate 16 3) 1000 (pc_state waiting_config) = Inr (s, f)
     \<and> encrypt_finish sample_crypto [65] f = Inr p
     \<and> fst (decryptPtyPayload sample_crypto p (sample_heap (wt_ref sample_call)) (wt_session sample_call) PtyIn
              (Some (wt_bootId sample_call)) [] None) = Inr (Some [65])"
    using waiting_input_is_sent [OF sample_crypto_laws _ waiting_reachable, of "[]" sample_call "replicate 16 3" 1000 "[65]"] by blast
  then show ?thesis by (simp add: sample_call_def)
qed

theorem input_counters_increase_witness:
  "sorted_wrt (<) (session_counters (pc_log waiting_config) ''s'')"
  using input_counters_increase [OF waiting_reachable] by blast

end
