(* ===== verification/VaultAad.thy ===== *)
theory VaultAad
  imports PtyInput
begin

text \<open>
  The additional data of the three sealed formats: vault envelopes and file writes
  (\<open>src/ui/utils/vaultCrypto.ts\<close>) and terminal frames (\<open>src/ui/components/shells/ptyWire.ts\<close>). No two requests
  share it, so a ciphertext of one can never be presented as another.
\<close>

lemma show_nat_no_bar: "CHR ''|'' \<notin> set (show_nat n)"
  using show_nat_digits [of "CHR ''|''" n] by (auto simp: is_digit_def)

lemma vault_id_no_bar: "VAULT_ID_RE v \<Longrightarrow> CHR ''|'' \<notin> set v"
  by (auto simp: VAULT_ID_RE_def list_all_iff hex_code_def)

lemma aad_id: "isValidAadId (map_option JStr b) \<Longrightarrow> \<exists>s. b = Some s \<and> CHR ''|'' \<notin> set s"
  using id_no_bar by (cases b) (auto simp: isValidAadId_def)

lemma epoch_inj: "valid_epoch e \<Longrightarrow> valid_epoch f \<Longrightarrow> show_nat (nat (num_int e)) = show_nat (nat (num_int f)) \<Longrightarrow> e = f"
  by (metis epoch_num(1) show_nat_inj)

text \<open>The fields of terminal additional data: after the head, either the output mark or counter and boot id.\<close>

lemma ptyAad_Inr:
  assumes "ptyAad e s d c b = Inr a"
  shows "valid_epoch e \<and> CHR ''|'' \<notin> set s
    \<and> (d = PtyOut \<and> a = utf8_encode (''heimdall-pty-v2|e'' @ show_nat (nat (num_int e)) @ ''|'' @ s @ ''|out'')
       \<or> d = PtyIn \<and> (\<exists>n x. c = Some (int n) \<and> b = Some x \<and> CHR ''|'' \<notin> set x
            \<and> a = utf8_encode (''heimdall-pty-v2|e'' @ show_nat (nat (num_int e)) @ ''|'' @ s @ ''|in|'' @ show_nat n @ ''|'' @ x)))"
proof -
  have e: "assertPtyEpoch e = None" and s: "assertPtySession s = None"
    using assms by (auto simp: ptyAad_def split: option.splits)
  then have 1: "valid_epoch e" "CHR ''|'' \<notin> set s"
    using id_no_bar by (auto simp: assertPtyEpoch_None assertPtySession_None)
  show ?thesis
  proof (cases d)
    case PtyOut
    then show ?thesis using assms e s 1 by (simp add: ptyAad_def PTY_V2_INFO_def)
  next
    case PtyIn
    then obtain k where c: "c = Some k" "assertPtyCounter k = None" and b: "isValidAadId (map_option JStr b)"
      and a: "a = utf8_encode (PTY_V2_INFO @ ''|e'' @ show_nat (nat (num_int e)) @ ''|'' @ s @ ''|'' @ ''in|'' @ show_nat (nat k) @ ''|'' @ opt_str b)"
      using assms e s by (auto simp: ptyAad_def Let_def split: option.splits if_splits)
    obtain x where x: "b = Some x" "CHR ''|'' \<notin> set x" using aad_id [OF b] by auto
    have "k = int (nat k)" using c(2) by (simp add: assertPtyCounter_def split: if_splits)
    then show ?thesis using PtyIn 1 x a c by (auto simp: PTY_V2_INFO_def intro!: exI [of _ "nat k"])
  qed
qed

lemma fsWriteAad_Inr:
  assumes "fsWriteAad v e b r p = Inr a"
  shows "valid_epoch e \<and> CHR ''|'' \<notin> set v \<and> CHR ''|'' \<notin> set b
    \<and> a = utf8_encode (''heimdall-fs-write-v3|'' @ v @ ''|e'' @ show_nat (nat (num_int e)) @ ''|'' @ b @ ''|''
           @ sha256Hex r @ ''|'' @ sha256Hex p)"
  using assms vault_id_no_bar id_no_bar by (auto simp: fsWriteAad_def MAX_EPOCH_def split: if_splits)

lemma sha_no_bar: "CHR ''|'' \<notin> set (sha256Hex t)"
  by (simp add: sha256Hex_def hex_no_bar)

lemma cons_append: "x # xs = [x] @ xs"
  by simp

lemmas bar_rules = split_at_bar show_nat_no_bar sha_no_bar show_nat_inj utf8_encode_inj

lemma pty_aad_inj:
  assumes "ptyAad e s d c b = Inr a" and "ptyAad e' s' d' c' b' = Inr a"
  shows "e = e' \<and> s = s' \<and> d = d' \<and> (d = PtyIn \<longrightarrow> c = c' \<and> b = b')"
  using ptyAad_Inr [OF assms(1)] ptyAad_Inr [OF assms(2)] epoch_inj [of e e'] by (auto simp: bar_rules)

lemma fs_aad_inj:
  assumes "fsWriteAad v e b r p = Inr a" and "fsWriteAad v' e' b' r' p' = Inr a"
  shows "v = v' \<and> e = e' \<and> b = b' \<and> sha256Hex r = sha256Hex r' \<and> sha256Hex p = sha256Hex p'"
  using fsWriteAad_Inr [OF assms(1)] fsWriteAad_Inr [OF assms(2)] epoch_inj [of e e'] by (auto simp: bar_rules)

lemma pty_aad_domain:
  assumes "ptyAad e s d c b = Inr a"
  shows "fsWriteAad v e1 i r p \<noteq> Inr a \<and> vaultEnvelopeAad w e2 \<noteq> a"
  using ptyAad_Inr [OF assms] fsWriteAad_Inr [of v e1 i r p a] by (auto simp: bar_rules vaultEnvelopeAad_def)

lemma fs_aad_domain: "fsWriteAad v e i r p = Inr a \<Longrightarrow> vaultEnvelopeAad w e2 \<noteq> a"
  using fsWriteAad_Inr [of v e i r p a] by (auto simp: bar_rules vaultEnvelopeAad_def)

text \<open>
  C36. Additional data determines the request it belongs to: equal data of two terminal frames means the same
  epoch, session and direction, and for input the same counter and boot id; equal data of two file writes means
  the same vault, epoch, bridge and the same digests of directory and path; and the three formats never share
  their data.
\<close>

theorem aad_fields_unambiguous:
  shows "(ptyAad e s d c b = Inr a \<and> ptyAad e' s' d' c' b' = Inr a \<longrightarrow>
            e = e' \<and> s = s' \<and> d = d' \<and> (d = PtyIn \<longrightarrow> c = c' \<and> b = b'))
    \<and> (fsWriteAad v e1 i r p = Inr a1 \<and> fsWriteAad v' e2 i' r' p' = Inr a1 \<longrightarrow>
            v = v' \<and> e1 = e2 \<and> i = i' \<and> sha256Hex r = sha256Hex r' \<and> sha256Hex p = sha256Hex p')
    \<and> (ptyAad e s d c b = Inr a \<longrightarrow> fsWriteAad v e1 i r p \<noteq> Inr a \<and> vaultEnvelopeAad w e2 \<noteq> a)
    \<and> (fsWriteAad v e1 i r p = Inr a1 \<longrightarrow> vaultEnvelopeAad w e2 \<noteq> a1)"
  using pty_aad_inj [of e s d c b a e' s' d' c' b'] fs_aad_inj [of v e1 i r p a1 v' e2 i' r' p']
    pty_aad_domain [of e s d c b a v e1 i r p w e2] fs_aad_domain [of v e1 i r p a1 w e2] by (simp, blast)

theorem aad_fields_unambiguous_witness:
  "\<exists>a. ptyAad (js_nat 7) ''s'' PtyOut None None = Inr a \<and> vaultEnvelopeAad ''0123456789abcdef'' (js_nat 7) \<noteq> a"
proof -
  have "assertPtyEpoch (js_nat 7) = None" by (simp add: assertPtyEpoch_def js_whole_def js_nat_def num_int_def)
  then have "\<exists>a. ptyAad (js_nat 7) ''s'' PtyOut None None = Inr a" by (simp add: ptyAad_def sample_ids(2))
  then show ?thesis using aad_fields_unambiguous [of "js_nat 7" "''s''" PtyOut None None] by blast
qed

end
