(* ===== verification/VaultStatements.thy ===== *)
theory VaultStatements
  imports VaultAad
begin

text \<open>
  Signed statements of the vault (\<open>src/ui/utils/vaultStatements.ts\<close>): algorithm allowlists and device kinds,
  signature objects, the canonical layout of a statement and its parser (\<open>vaultDirectoryVerify.ts\<close>), derived
  identifiers (\<open>deviceIdentity.ts\<close>, \<open>vaultKeyring.ts\<close>), and the keyring wrap. SHA-256 is the definition of
  the standard; signature checks, HMAC, ECDH and the JSON reader and writer are arguments.
\<close>

section \<open>Allowlists and kinds\<close>

definition SIGN_ALG_ECDSA_P256_SHA256 :: string where "SIGN_ALG_ECDSA_P256_SHA256 = ''ecdsa-p256-sha256''"
definition WRAP_ALG_ECDH_P256_HKDF_AES :: string where
  "WRAP_ALG_ECDH_P256_HKDF_AES = ''ecdh-p256-hkdf-sha256-aes256gcm''"

definition signAlgFromId :: "js option \<Rightarrow> string option" where
  "signAlgFromId v = (if v = Some (JStr SIGN_ALG_ECDSA_P256_SHA256) then Some SIGN_ALG_ECDSA_P256_SHA256 else None)"

definition wrapAlgFromId :: "js option \<Rightarrow> string option" where
  "wrapAlgFromId v = (if v = Some (JStr WRAP_ALG_ECDH_P256_HKDF_AES) then Some WRAP_ALG_ECDH_P256_HKDF_AES else None)"

datatype device_kind = Browser | Bridge | Recovery

definition deviceKindFromId :: "string \<Rightarrow> device_kind option" where
  "deviceKindFromId s =
     (if s = ''browser'' then Some Browser else if s = ''bridge'' then Some Bridge
      else if s = ''recovery'' then Some Recovery else None)"

fun kind_id :: "device_kind \<Rightarrow> string" where
  "kind_id Browser = ''browser''"
| "kind_id Bridge = ''bridge''"
| "kind_id Recovery = ''recovery''"

record kind_policy =
  canApprove :: bool
  countsAsApprover :: bool
  receivesWrap :: bool

definition NO_POLICY :: kind_policy where
  "NO_POLICY = \<lparr>canApprove = False, countsAsApprover = False, receivesWrap = False\<rparr>"

definition kindPolicy :: "string \<Rightarrow> kind_policy" where
  "kindPolicy kind =
     (case deviceKindFromId kind of
        Some Browser \<Rightarrow> \<lparr>canApprove = True, countsAsApprover = True, receivesWrap = True\<rparr>
      | Some Recovery \<Rightarrow> \<lparr>canApprove = True, countsAsApprover = True, receivesWrap = True\<rparr>
      | _ \<Rightarrow> NO_POLICY)"

lemma deviceKindFromId_kind [simp]: "deviceKindFromId (kind_id k) = Some k"
  by (cases k) (simp_all add: deviceKindFromId_def)

lemma deviceKindFromId_Some: "deviceKindFromId s = Some k \<longleftrightarrow> s = kind_id k"
  by (cases k) (auto simp: deviceKindFromId_def split: if_splits)

lemma canApprove_kind: "canApprove (kindPolicy (kind_id k)) \<longleftrightarrow> k \<noteq> Bridge"
  by (cases k) (simp_all add: kindPolicy_def deviceKindFromId_def NO_POLICY_def)

section \<open>Lowercase hexadecimal\<close>

definition isLowerHex :: "string \<Rightarrow> nat option \<Rightarrow> bool" where
  "isLowerHex s n =
     (list_all (\<lambda>c. hex_code c \<noteq> None) s \<and> length s mod 2 = 0
      \<and> (case n of None \<Rightarrow> True | Some k \<Rightarrow> length s = k * 2))"

datatype statement_error =
    NotLowerHex | UnknownStatementType | UnknownSubjectKind | UnknownSignAlg | UnknownWrapAlg | InvalidStatementValue string
  | InvalidBridgeKey | InvalidWrapAad | InvalidWrapField | InvalidDirectoryVersion | InvalidWrapEpoch | InvalidWrapIv
  | InvalidWrapCiphertext | InvalidPeerKey | WrapDoesNotAuthenticate | WrapKeyring keyring_error | WrapEpochMismatch
  | InvalidRootKey

definition lowerHexToBytes :: "string \<Rightarrow> nat option \<Rightarrow> statement_error + bytes" where
  "lowerHexToBytes s n =
     (if \<not> isLowerHex s n then Inl NotLowerHex
      else (case hex_pairs s of None \<Rightarrow> Inl NotLowerHex | Some bs \<Rightarrow> Inr bs))"

definition toLowerHex :: "bytes \<Rightarrow> string" where
  "toLowerHex bs = bytesToHex bs"

section \<open>Derived identifiers\<close>

definition deviceIdFor :: "string \<Rightarrow> statement_error + string" where
  "deviceIdFor signPub =
     (if \<not> isLowerHex signPub (Some 65) then Inl NotLowerHex
      else (case lowerHexToBytes signPub None of
              Inl err \<Rightarrow> Inl err
            | Inr bs \<Rightarrow> Inr (''dev_'' @ take 32 (toLowerHex (sha256 bs)))))"

definition vaultIdFor :: "string \<Rightarrow> statement_error + string" where
  "vaultIdFor rootSignPub =
     (if \<not> (starts_with ''04'' rootSignPub \<and> length rootSignPub = 130 \<and> list_all (\<lambda>c. hex_code c \<noteq> None) rootSignPub)
      then Inl InvalidRootKey
      else (case hex_pairs rootSignPub of
              None \<Rightarrow> Inl InvalidRootKey
            | Some raw \<Rightarrow> Inr (bytesToHex (sub_bytes 0 VAULT_ID_BYTES (sha256 raw)))))"

section \<open>Signatures\<close>

text \<open>
  \<open>sc_verify\<close> takes the raw public key, the signature and the message; \<open>None\<close> when WebCrypto refuses the key.
  \<open>sc_parse\<close> is \<open>JSON.parse\<close> (\<open>None\<close> when it throws) and \<open>sc_stringify\<close> is \<open>JSON.stringify\<close>.
\<close>

record sign_crypto =
  sc_verify :: "bytes \<Rightarrow> bytes \<Rightarrow> bytes \<Rightarrow> bool option"
  sc_parse :: "string \<Rightarrow> js option"
  sc_stringify :: "js \<Rightarrow> string"

definition renderSignatureObject :: "string \<Rightarrow> string \<Rightarrow> string" where
  "renderSignatureObject alg sig =
     ''{'' @ [CHR 0x22] @ ''alg'' @ [CHR 0x22] @ '':'' @ [CHR 0x22] @ alg @ [CHR 0x22] @ '','' @ [CHR 0x22] @ ''sig'' @ [CHR 0x22]
     @ '':'' @ [CHR 0x22] @ sig @ [CHR 0x22] @ ''}''"

text \<open>The signature of the only allowed algorithm.\<close>

definition parseSignatureObject :: "sign_crypto \<Rightarrow> string \<Rightarrow> string option" where
  "parseSignatureObject C json =
     (case sc_parse C json of
        Some (JObj obj) \<Rightarrow>
          (case signAlgFromId (map_of obj ''alg'') of
             None \<Rightarrow> None
           | Some alg \<Rightarrow>
               (case map_of obj ''sig'' of
                  Some (JStr sig) \<Rightarrow>
                    if length obj = 2 \<and> isLowerHex sig (Some 64) \<and> renderSignatureObject alg sig = json then Some sig else None
                | _ \<Rightarrow> None))
      | _ \<Rightarrow> None)"

definition signatureObjectText :: "sign_crypto \<Rightarrow> js option \<Rightarrow> string" where
  "signatureObjectText C v =
     (case v of
        Some (JStr s) \<Rightarrow> s
      | Some (JObj ob) \<Rightarrow> sc_stringify C (JObj ob)
      | Some (JArr xs) \<Rightarrow> sc_stringify C (JArr xs)
      | _ \<Rightarrow> [])"

definition verifySignature :: "sign_crypto \<Rightarrow> string \<Rightarrow> string \<Rightarrow> bytes \<Rightarrow> js option \<Rightarrow> bool" where
  "verifySignature C keyAlg publicKey msg sigJson =
     (case signAlgFromId (Some (JStr keyAlg)) of
        None \<Rightarrow> False
      | Some alg \<Rightarrow>
          (case parseSignatureObject C (signatureObjectText C sigJson) of
             None \<Rightarrow> False
           | Some sig \<Rightarrow>
               if \<not> isLowerHex publicKey (Some 65) \<or> \<not> starts_with ''04'' publicKey then False
               else (case (lowerHexToBytes publicKey None, lowerHexToBytes sig None) of
                       (Inr pub, Inr s) \<Rightarrow> sc_verify C pub s msg = Some True
                     | _ \<Rightarrow> False)))"

section \<open>Canonical statements\<close>

definition STATEMENT_HEADER :: string where "STATEMENT_HEADER = ''heimdall-vault-statement/v2''"

definition STATEMENT_TYPES :: "string list" where
  "STATEMENT_TYPES = [''genesis'', ''approve'', ''revoke'', ''rotate'', ''wrap'', ''register'']"

definition STATEMENT_FIELDS :: "string list" where
  "STATEMENT_FIELDS =
     [''type'', ''user_id'', ''seq'', ''prev_hash'', ''issuer_device_id'', ''issued_at_ms'',
      ''subject_device_id'', ''subject_kind'', ''subject_sign_pub'', ''subject_ecdh_pub'',
      ''subject_sign_alg'', ''subject_wrap_alg'', ''subject_label_b64'', ''epoch'', ''epoch_commit'', ''wrap_sha256'']"

text \<open>A statement is its present fields; \<open>fld\<close> is \<open>st[field] ?? ''''\<close>.\<close>

type_synonym statement = "(string \<times> string) list"

definition fld :: "statement \<Rightarrow> string \<Rightarrow> string" where
  "fld st k = (case map_of st k of Some v \<Rightarrow> v | None \<Rightarrow> [])"

definition newline :: char where "newline = CHR 0x0A"

fun statement_lines :: "statement \<Rightarrow> string list \<Rightarrow> statement_error + string list" where
  "statement_lines st [] = Inr []"
| "statement_lines st (f # fs) =
     (if \<not> ID_VALUE_RE (fld st f) then Inl (InvalidStatementValue f)
      else (case statement_lines st fs of Inl err \<Rightarrow> Inl err | Inr ls \<Rightarrow> Inr ((f @ ''='' @ fld st f) # ls)))"

definition statementCanonical :: "statement \<Rightarrow> statement_error + string" where
  "statementCanonical st =
     (if map_of st ''type'' \<notin> Some ` set STATEMENT_TYPES then Inl UnknownStatementType
      else if fld st ''subject_kind'' \<noteq> [] \<and> deviceKindFromId (fld st ''subject_kind'') = None then Inl UnknownSubjectKind
      else if fld st ''subject_sign_alg'' \<noteq> [] \<and> signAlgFromId (Some (JStr (fld st ''subject_sign_alg''))) = None
      then Inl UnknownSignAlg
      else if fld st ''subject_wrap_alg'' \<noteq> [] \<and> wrapAlgFromId (Some (JStr (fld st ''subject_wrap_alg''))) = None
      then Inl UnknownWrapAlg
      else (case statement_lines st STATEMENT_FIELDS of
              Inl err \<Rightarrow> Inl err
            | Inr ls \<Rightarrow> Inr (js_join [newline] (STATEMENT_HEADER # ls))))"

fun parse_fields :: "string list \<Rightarrow> string list \<Rightarrow> statement option" where
  "parse_fields [] [] = Some []"
| "parse_fields (f # fs) (l # ls) =
     (case index_of (CHR ''='') l of
        None \<Rightarrow> None
      | Some i \<Rightarrow>
          if take i l \<noteq> f then None
          else (case parse_fields fs ls of None \<Rightarrow> None | Some st \<Rightarrow> Some ((f, drop (i + 1) l) # st)))"
| "parse_fields _ _ = None"

definition parseStatement :: "string option \<Rightarrow> statement option" where
  "parseStatement v =
     (case v of
        None \<Rightarrow> None
      | Some txt \<Rightarrow>
          (let lines = js_split newline txt in
           if hd lines \<noteq> STATEMENT_HEADER \<or> length lines \<noteq> length STATEMENT_FIELDS + 1 then None
           else (case parse_fields STATEMENT_FIELDS (tl lines) of
                   None \<Rightarrow> None
                 | Some st \<Rightarrow> if statementCanonical st = Inr txt then Some st else None)))"

definition logEntryHash :: "string \<Rightarrow> string" where
  "logEntryHash statement = toLowerHex (sha256 (utf8_encode statement))"

text \<open>The argument is HMAC-SHA-256 of a key and a message.\<close>

definition epochCommit :: "(bytes \<Rightarrow> bytes \<Rightarrow> bytes) \<Rightarrow> bytes \<Rightarrow> string \<Rightarrow> nat \<Rightarrow> bytes" where
  "epochCommit hmac epochKey userId epoch =
     hmac epochKey (utf8_encode (''heimdall-epoch-commit|'' @ userId @ ''|'' @ show_nat epoch))"

definition BRIDGE_UNSEAL_KEY_HEADER :: string where "BRIDGE_UNSEAL_KEY_HEADER = ''heimdall-bridge-unseal-key/v1''"

definition bridgeUnsealKeyCanonical :: "string \<Rightarrow> string \<Rightarrow> string \<Rightarrow> statement_error + string" where
  "bridgeUnsealKeyCanonical bridgeId ecdhPub bootId =
     (if bridgeId = [] \<or> \<not> ID_VALUE_RE bridgeId then Inl InvalidBridgeKey
      else if \<not> isLowerHex ecdhPub (Some 65) then Inl InvalidBridgeKey
      else if bootId = [] \<or> \<not> isLowerHex bootId None then Inl InvalidBridgeKey
      else Inr (js_join [newline] [BRIDGE_UNSEAL_KEY_HEADER, bridgeId, ecdhPub, bootId]))"

section \<open>Keyring wraps\<close>

definition WRAP_INFO :: string where "WRAP_INFO = ''heimdall-keyring-wrap-v1''"

record keyring_wrap =
  kw_alg :: string
  kw_recipient :: string
  kw_directory_version :: jsnum
  kw_current_epoch :: jsnum
  kw_ephemeral :: string
  kw_iv :: string
  kw_ciphertext :: string
  kw_wrapped_by :: string

definition wrapAad :: "string \<Rightarrow> string \<Rightarrow> jsnum \<Rightarrow> jsnum \<Rightarrow> statement_error + string" where
  "wrapAad userId recipient version epoch =
     (if userId = [] \<or> \<not> ID_VALUE_RE userId \<or> recipient = [] \<or> \<not> ID_VALUE_RE recipient then Inl InvalidWrapAad
      else Inr (js_join ''|'' [WRAP_INFO, userId, recipient, show_number version, show_number epoch]))"

definition json_pair :: "string \<Rightarrow> string \<Rightarrow> string" where
  "json_pair k v = [CHR 0x22] @ k @ [CHR 0x22] @ '':'' @ v"

definition quoted :: "string \<Rightarrow> string" where
  "quoted s = [CHR 0x22] @ s @ [CHR 0x22]"

definition wrapCanonicalJson :: "keyring_wrap \<Rightarrow> statement_error + string" where
  "wrapCanonicalJson w =
     (if wrapAlgFromId (Some (JStr (kw_alg w))) = None then Inl UnknownWrapAlg
      else if \<not> list_all ID_VALUE_RE [kw_recipient w, kw_ephemeral w, kw_iv w, kw_ciphertext w, kw_wrapped_by w]
      then Inl InvalidWrapField
      else if \<not> js_whole (kw_directory_version w) \<or> 9007199254740991 < \<bar>num_int (kw_directory_version w)\<bar>
              \<or> num_int (kw_directory_version w) < 0
      then Inl InvalidDirectoryVersion
      else if \<not> js_whole (kw_current_epoch w) \<or> num_int (kw_current_epoch w) < 1 then Inl InvalidWrapEpoch
      else Inr (''{'' @ js_join '',''
             [json_pair ''v'' ''1'', json_pair ''alg'' (quoted (kw_alg w)),
              json_pair ''recipient_device_id'' (quoted (kw_recipient w)),
              json_pair ''directory_version'' (show_number (kw_directory_version w)),
              json_pair ''current_epoch'' (show_number (kw_current_epoch w)),
              json_pair ''ephemeral_public_key'' (quoted (kw_ephemeral w)), json_pair ''iv'' (quoted (kw_iv w)),
              json_pair ''ciphertext'' (quoted (kw_ciphertext w)),
              json_pair ''wrapped_by_device_id'' (quoted (kw_wrapped_by w))] @ ''}''))"

definition wrapSha256 :: "keyring_wrap \<Rightarrow> statement_error + string" where
  "wrapSha256 w = (case wrapCanonicalJson w of Inl err \<Rightarrow> Inl err | Inr s \<Rightarrow> Inr (toLowerHex (sha256 (utf8_encode s))))"

text \<open>The argument derives the AES key of an ECDH private key, a raw peer key and the HKDF info.\<close>

definition ecdhHkdfAesKey ::
  "('p \<Rightarrow> bytes \<Rightarrow> bytes \<Rightarrow> 'k option) \<Rightarrow> 'p \<Rightarrow> string \<Rightarrow> string \<Rightarrow> statement_error + 'k" where
  "ecdhHkdfAesKey ecdh privateKey peerPublic info =
     (if \<not> isLowerHex peerPublic (Some 65) \<or> \<not> starts_with ''04'' peerPublic then Inl InvalidPeerKey
      else (case lowerHexToBytes peerPublic None of
              Inl err \<Rightarrow> Inl err
            | Inr peer \<Rightarrow> (case ecdh privateKey peer (utf8_encode info) of None \<Rightarrow> Inl InvalidPeerKey | Some k \<Rightarrow> Inr k)))"

definition openKeyringWrap ::
  "('k, 'b) web_crypto \<Rightarrow> ('p \<Rightarrow> bytes \<Rightarrow> bytes \<Rightarrow> 'k option) \<Rightarrow> keyring_wrap \<Rightarrow> string \<Rightarrow> 'p \<Rightarrow> statement_error + parsed_keyring" where
  "openKeyringWrap W ecdh w userId private =
     (if wrapAlgFromId (Some (JStr (kw_alg w))) = None then Inl UnknownWrapAlg
      else
        (case wrapAad userId (kw_recipient w) (kw_directory_version w) (kw_current_epoch w) of
           Inl err \<Rightarrow> Inl err
         | Inr aad \<Rightarrow>
             if \<not> isLowerHex (kw_iv w) (Some 12) then Inl InvalidWrapIv
             else if \<not> isLowerHex (kw_ciphertext w) None \<or> length (kw_ciphertext w) < 32
                  \<or> (KEYRING_MAX_BYTES + 16) * 2 < length (kw_ciphertext w)
             then Inl InvalidWrapCiphertext
             else
               (case (ecdhHkdfAesKey ecdh private (kw_ephemeral w) WRAP_INFO, lowerHexToBytes (kw_iv w) None,
                      lowerHexToBytes (kw_ciphertext w) None) of
                  (Inl err, _, _) \<Rightarrow> Inl err
                | (Inr k, Inr iv, Inr c) \<Rightarrow>
                    (case wc_decrypt W k iv (utf8_encode aad) c of
                       None \<Rightarrow> Inl WrapDoesNotAuthenticate
                     | Some plain \<Rightarrow>
                         (case parseKeyringBytes plain (Some userId) of
                            Inl err \<Rightarrow> Inl (WrapKeyring err)
                          | Inr parsed \<Rightarrow>
                              if pk_currentEpoch parsed \<noteq> kw_current_epoch w then Inl WrapEpochMismatch else Inr parsed))
                | _ \<Rightarrow> Inl NotLowerHex)))"

section \<open>The layout determines the statement\<close>

lemma STATEMENT_FIELDS_facts:
  "distinct STATEMENT_FIELDS" "list_all (\<lambda>f. CHR ''='' \<notin> set f \<and> newline \<notin> set f) STATEMENT_FIELDS"
  "newline \<notin> set STATEMENT_HEADER"
  by code_simp+

lemma ID_VALUE_plain: "ID_VALUE_RE v \<Longrightarrow> newline \<notin> set v"
  by (auto simp: ID_VALUE_RE_def list_all_iff is_id_char_def newline_def Let_def)

lemma fld_Cons: "fld ((f, v) # st) g = (if g = f then v else fld st g)"
  by (simp add: fld_def)

lemma statement_lines_Inr:
  "statement_lines st fs = Inr ls \<longleftrightarrow>
     list_all (\<lambda>f. ID_VALUE_RE (fld st f)) fs \<and> ls = map (\<lambda>f. f @ ''='' @ fld st f) fs"
proof
  show "statement_lines st fs = Inr ls
    \<Longrightarrow> list_all (\<lambda>f. ID_VALUE_RE (fld st f)) fs \<and> ls = map (\<lambda>f. f @ ''='' @ fld st f) fs"
    by (induction fs arbitrary: ls) (auto split: sum.splits if_splits)
  have "list_all (\<lambda>f. ID_VALUE_RE (fld st f)) fs \<Longrightarrow> statement_lines st fs = Inr (map (\<lambda>f. f @ ''='' @ fld st f) fs)"
    by (induction fs) auto
  then show "list_all (\<lambda>f. ID_VALUE_RE (fld st f)) fs \<and> ls = map (\<lambda>f. f @ ''='' @ fld st f) fs
    \<Longrightarrow> statement_lines st fs = Inr ls" by simp
qed

lemma parse_fields_lines:
  "list_all (\<lambda>f. CHR ''='' \<notin> set f) fs
   \<Longrightarrow> parse_fields fs (map (\<lambda>f. f @ CHR ''='' # v f) fs) = Some (map (\<lambda>f. (f, v f)) fs)"
  by (induction fs) (auto simp: index_of_append)

lemma parse_fields_keys: "parse_fields fs ls = Some st \<Longrightarrow> map fst st = fs"
  by (induction fs ls arbitrary: st rule: parse_fields.induct) (auto split: option.splits if_splits)

lemma fields_of_keys:
  "distinct (map fst st) \<Longrightarrow> map (\<lambda>f. (f, fld st f)) (map fst st) = st"
proof (induction st)
  case (Cons p st)
  have same: "map (\<lambda>f. (f, fld (p # st) f)) (map fst st) = map (\<lambda>f. (f, fld st f)) (map fst st)"
    using Cons.prems by (cases p) (auto simp: fld_Cons)
  show ?case unfolding list.map same using Cons by (cases p) (simp add: fld_Cons del: map_map)
qed simp

lemma canonical_Inr:
  "statementCanonical st = Inr t \<Longrightarrow>
     list_all (\<lambda>f. ID_VALUE_RE (fld st f)) STATEMENT_FIELDS
     \<and> t = js_join [newline] (STATEMENT_HEADER # map (\<lambda>f. f @ ''='' @ fld st f) STATEMENT_FIELDS)
     \<and> map_of st ''type'' \<in> Some ` set STATEMENT_TYPES"
  by (auto simp: statementCanonical_def statement_lines_Inr split: if_splits sum.splits)

lemma canonical_split:
  assumes "statementCanonical st = Inr t"
  shows "js_split newline t = STATEMENT_HEADER # map (\<lambda>f. f @ ''='' @ fld st f) STATEMENT_FIELDS"
proof -
  have "newline \<notin> set (f @ ''='' @ fld st f)" if "f \<in> set STATEMENT_FIELDS" for f
    using that canonical_Inr [OF assms] STATEMENT_FIELDS_facts(2) ID_VALUE_plain
    by (fastforce simp: list_all_iff newline_def)
  then show ?thesis
    using canonical_Inr [OF assms] STATEMENT_FIELDS_facts(3) by (auto intro!: js_split_join)
qed

lemma canonical_parse_fields:
  assumes "statementCanonical st = Inr t"
  shows "parse_fields STATEMENT_FIELDS (tl (js_split newline t)) = Some (map (\<lambda>f. (f, fld st f)) STATEMENT_FIELDS)"
  using STATEMENT_FIELDS_facts(2) unfolding canonical_split [OF assms]
  by (simp add: parse_fields_lines list_all_iff)

lemma parseStatement_Some:
  "parseStatement (Some t) = Some st \<longleftrightarrow> map fst st = STATEMENT_FIELDS \<and> statementCanonical st = Inr t"
proof
  assume "parseStatement (Some t) = Some st"
  then show "map fst st = STATEMENT_FIELDS \<and> statementCanonical st = Inr t"
    by (auto simp: parseStatement_def Let_def dest: parse_fields_keys split: if_splits option.splits)
next
  assume right: "map fst st = STATEMENT_FIELDS \<and> statementCanonical st = Inr t"
  then have "map (\<lambda>f. (f, fld st f)) STATEMENT_FIELDS = st"
    using fields_of_keys [of st] STATEMENT_FIELDS_facts(1) by simp
  then show "parseStatement (Some t) = Some st"
    using right canonical_parse_fields [of st t] canonical_split [of st t]
    by (simp add: parseStatement_def Let_def)
qed

lemma canonical_fields_unique:
  assumes "statementCanonical st = Inr t" "statementCanonical st' = Inr t" "f \<in> set STATEMENT_FIELDS"
  shows "fld st f = fld st' f"
proof -
  have "map (\<lambda>f. (f, fld st f)) STATEMENT_FIELDS = map (\<lambda>f. (f, fld st' f)) STATEMENT_FIELDS"
    using canonical_parse_fields [OF assms(1)] canonical_parse_fields [OF assms(2)] by simp
  then show ?thesis using assms(3) by (simp add: map_eq_conv)
qed

text \<open>
  C15. The parser accepts exactly the canonical texts: it reads a text as a statement when the statement has all the
  fields, in order, and its canonical text is that text. So one statement has one text, and one text one statement.
\<close>

theorem statement_parser_exact:
  "parseStatement (Some t) = Some st \<longleftrightarrow> map fst st = STATEMENT_FIELDS \<and> statementCanonical st = Inr t"
  by (rule parseStatement_Some)

end
