(* ===== verification/DeviceIdentity.thy ===== *)
theory DeviceIdentity
  imports VaultStatements
begin

text \<open>
  The identity a browser keeps (\<open>src/ui/utils/deviceIdentity.ts\<close>): fingerprints, the label codec, the per-account
  store of identity, pins and observed reset, and the pins that only move forward. The store is a map from keys to
  values; key generation, the clock and \<open>Date.parse\<close> are arguments.
\<close>

section \<open>Fingerprints\<close>

definition quads :: "string \<Rightarrow> string" where
  "quads h = js_join '' '' [take 4 h, take 4 (drop 4 h), take 4 (drop 8 h), take 4 (drop 12 h)]"

definition fingerprintFor :: "string \<Rightarrow> string \<Rightarrow> statement_error + string" where
  "fingerprintFor signPub ecdhPub =
     (case lowerHexToBytes signPub (Some 65) of
        Inl err \<Rightarrow> Inl err
      | Inr sign \<Rightarrow>
          (case (if ecdhPub = [] then Inr [] else lowerHexToBytes ecdhPub (Some 65)) of
             Inl err \<Rightarrow> Inl err
           | Inr ecdh \<Rightarrow> Inr (quads (take 16 (toLowerHex (sha256 (sign @ ecdh)))))))"

definition accountFingerprint :: "string \<Rightarrow> statement_error + string" where
  "accountFingerprint rootSignPub =
     (case lowerHexToBytes rootSignPub (Some 65) of
        Inl err \<Rightarrow> Inl err | Inr bs \<Rightarrow> Inr (quads (take 16 (toLowerHex (sha256 bs)))))"

section \<open>Labels\<close>

text \<open>\<open>atob\<close>: white space is dropped, up to two closing pads are optional, any other character refuses.\<close>

definition is_ascii_space :: "char \<Rightarrow> bool" where
  "is_ascii_space c = (let n = of_char c :: nat in n = 9 \<or> n = 10 \<or> n = 12 \<or> n = 13 \<or> n = 32)"

definition strip_pad :: "string \<Rightarrow> string" where
  "strip_pad s =
     (if length s mod 4 \<noteq> 0 then s
      else if 2 \<le> length s \<and> drop (length s - 2) s = ''=='' then take (length s - 2) s
      else if s \<noteq> [] \<and> last s = CHR ''='' then butlast s
      else s)"

definition js_atob :: "string \<Rightarrow> bytes option" where
  "js_atob s =
     (let d = strip_pad (filter (\<lambda>c. \<not> is_ascii_space c) s) in
      if length d mod 4 = 1 \<or> \<not> list_all is_b64 d then None else Some (b64_groups (List.map_filter b64_code d)))"

text \<open>
  The fatal decoder: an ill-formed sequence is the only input whose decoding does not encode back to it.
\<close>

definition decode_fatal :: "bytes \<Rightarrow> utext option" where
  "decode_fatal bs =
     (let t = fst (utf8_feed utf8_idle bs) in if encode_text t = bs then Some (fst (strip_bom False t)) else None)"

definition labelB64 :: "utext \<Rightarrow> string" where
  "labelB64 label =
     rev (dropWhile (\<lambda>c. c = CHR ''='')
       (rev (map (\<lambda>c. if c = CHR ''+'' then CHR ''-'' else if c = CHR ''/'' then CHR ''_'' else c)
          (bytesToBase64 (encode_text label)))))"

definition labelFromB64 :: "string \<Rightarrow> utext" where
  "labelFromB64 b64 =
     (let std = map (\<lambda>c. if c = CHR ''-'' then CHR ''+'' else if c = CHR ''_'' then CHR ''/'' else c) b64 in
      case js_atob (std @ replicate ((4 - length std mod 4) mod 4) (CHR ''='')) of
        None \<Rightarrow> []
      | Some bs \<Rightarrow> (case decode_fatal bs of None \<Rightarrow> [] | Some t \<Rightarrow> t))"

section \<open>The identity\<close>

record 'k device_identity =
  di_userId :: string
  di_deviceId :: string
  di_signPrivate :: 'k
  di_ecdhPrivate :: 'k
  di_signPub :: string
  di_ecdhPub :: string
  di_fingerprint :: string
  di_createdAt :: int

record 'k stored_identity =
  si_userId :: string
  si_signPrivate :: 'k
  si_ecdhPrivate :: 'k
  si_signPub :: string
  si_ecdhPub :: string
  si_createdAt :: int

text \<open>What the store holds: a plain value, an identity with its keys, or an archive of the three live entries.\<close>

datatype 'k store_value =
    SPlain js
  | SIdentity "'k stored_identity"
  | SArchive int "'k store_value" "'k store_value" "'k store_value"

type_synonym 'k device_store = "string \<Rightarrow> 'k store_value option"

datatype device_error =
    InvalidUserId | MalformedIdentity | MalformedPins | RootDiffers | HeadRolledBack | HeadForked | EpochRolledBack
  | ExtractableKey | DeviceKey statement_error

definition identityKey :: "string \<Rightarrow> string" where "identityKey u = ''identity:'' @ u"
definition pinsKey :: "string \<Rightarrow> string" where "pinsKey u = ''pins:'' @ u"
definition observedResetKey :: "string \<Rightarrow> string" where "observedResetKey u = ''observed-reset:'' @ u"
definition otherAccountAckKey :: "string \<Rightarrow> string" where "otherAccountAckKey u = ''other-account-ack:'' @ u"
definition PINNED_USERS_KEY :: string where "PINNED_USERS_KEY = ''pinned-users''"

definition show_int :: "int \<Rightarrow> string" where
  "show_int i = (if i < 0 then ''-'' @ show_nat (nat (- i)) else show_nat (nat i))"

definition archivedKey :: "string \<Rightarrow> int \<Rightarrow> string" where
  "archivedKey u t = ''archived:'' @ u @ '':'' @ show_int t"

definition requireUserId :: "string \<Rightarrow> bool" where
  "requireUserId u = (u \<noteq> [] \<and> length u \<le> 64 \<and> ID_VALUE_RE u)"

definition hydrate :: "('k \<Rightarrow> bool) \<Rightarrow> 'k stored_identity \<Rightarrow> device_error + 'k device_identity" where
  "hydrate extractable s =
     (if extractable (si_signPrivate s) \<or> extractable (si_ecdhPrivate s) then Inl ExtractableKey
      else (case (deviceIdFor (si_signPub s), fingerprintFor (si_signPub s) (si_ecdhPub s)) of
              (Inr i, Inr f) \<Rightarrow>
                Inr \<lparr>di_userId = si_userId s, di_deviceId = i, di_signPrivate = si_signPrivate s,
                     di_ecdhPrivate = si_ecdhPrivate s, di_signPub = si_signPub s, di_ecdhPub = si_ecdhPub s,
                     di_fingerprint = f, di_createdAt = si_createdAt s\<rparr>
            | (Inl err, _) \<Rightarrow> Inl (DeviceKey err)
            | (_, Inl err) \<Rightarrow> Inl (DeviceKey err)))"

fun isStoredIdentity :: "'k store_value \<Rightarrow> string \<Rightarrow> 'k stored_identity option" where
  "isStoredIdentity (SIdentity s) u =
     (if si_userId s = u \<and> isLowerHex (si_signPub s) (Some 65) \<and> isLowerHex (si_ecdhPub s) (Some 65) then Some s else None)"
| "isStoredIdentity _ u = None"

definition absent :: "'k store_value option \<Rightarrow> bool" where
  "absent v = (v = None \<or> v = Some (SPlain JNull))"

definition loadDeviceIdentity ::
  "('k \<Rightarrow> bool) \<Rightarrow> 'k device_store \<Rightarrow> string \<Rightarrow> device_error + 'k device_identity option" where
  "loadDeviceIdentity extractable S u =
     (if \<not> requireUserId u then Inl InvalidUserId
      else if absent (S (identityKey u)) then Inr None
      else (case Option.bind (S (identityKey u)) (\<lambda>v. isStoredIdentity v u) of
              None \<Rightarrow> Inl MalformedIdentity
            | Some s \<Rightarrow> (case hydrate extractable s of Inl _ \<Rightarrow> Inl MalformedIdentity | Inr i \<Rightarrow> Inr (Some i))))"

text \<open>The arguments are the two fresh private keys with their public keys, raw.\<close>

definition createDeviceIdentity ::
  "('k \<Rightarrow> bool) \<Rightarrow> 'k device_store \<Rightarrow> string \<Rightarrow> 'k \<times> bytes \<Rightarrow> 'k \<times> bytes \<Rightarrow> int
   \<Rightarrow> (device_error + 'k device_identity) \<times> 'k device_store" where
  "createDeviceIdentity extractable S u sign ecdh now =
     (if \<not> requireUserId u then (Inl InvalidUserId, S)
      else (let s = \<lparr>si_userId = u, si_signPrivate = fst sign, si_ecdhPrivate = fst ecdh,
                     si_signPub = toLowerHex (snd sign), si_ecdhPub = toLowerHex (snd ecdh), si_createdAt = now\<rparr>
            in (hydrate extractable s, S(identityKey u \<mapsto> SIdentity s))))"

definition deviceSubject :: "'k device_identity \<Rightarrow> utext \<Rightarrow> statement" where
  "deviceSubject i label =
     [(''type'', ''register''), (''subject_device_id'', di_deviceId i), (''subject_kind'', ''browser''),
      (''subject_sign_pub'', di_signPub i), (''subject_ecdh_pub'', di_ecdhPub i),
      (''subject_sign_alg'', SIGN_ALG_ECDSA_P256_SHA256), (''subject_wrap_alg'', WRAP_ALG_ECDH_P256_HKDF_AES),
      (''subject_label_b64'', labelB64 label)]"

section \<open>Pins\<close>

record device_pins =
  dp_root_device_id :: string
  dp_root_sign_pub :: string
  dp_head_seq :: int
  dp_head_hash :: string
  dp_max_epoch :: int

text \<open>\<open>Number.isSafeInteger\<close>.\<close>

definition safe_int :: "js option \<Rightarrow> int option" where
  "safe_int v =
     (case v of
        Some (JNum n) \<Rightarrow> if js_whole n \<and> \<bar>num_int n\<bar> \<le> 9007199254740991 then Some (num_int n) else None
      | _ \<Rightarrow> None)"

fun isPins :: "'k store_value \<Rightarrow> device_pins option" where
  "isPins (SPlain v) =
     (case (js_prop (Some v) ''root_device_id'', js_prop (Some v) ''root_sign_pub'', safe_int (js_prop (Some v) ''head_seq''),
            js_prop (Some v) ''head_hash'', safe_int (js_prop (Some v) ''max_epoch'')) of
        (Some (JStr i), Some (JStr k), Some n, Some (JStr h), Some e) \<Rightarrow>
          if isLowerHex k (Some 65) \<and> 1 \<le> n \<and> isLowerHex h (Some 32)
          then Some \<lparr>dp_root_device_id = i, dp_root_sign_pub = k, dp_head_seq = n, dp_head_hash = h, dp_max_epoch = e\<rparr>
          else None
      | _ \<Rightarrow> None)"
| "isPins _ = None"

definition pins_value :: "device_pins \<Rightarrow> js" where
  "pins_value p =
     JObj [(''root_device_id'', JStr (dp_root_device_id p)), (''root_sign_pub'', JStr (dp_root_sign_pub p)),
           (''head_seq'', JNum (Fin (of_int (dp_head_seq p)))), (''head_hash'', JStr (dp_head_hash p)),
           (''max_epoch'', JNum (Fin (of_int (dp_max_epoch p))))]"

definition loadPins :: "'k device_store \<Rightarrow> string \<Rightarrow> device_error + device_pins option" where
  "loadPins S u =
     (if \<not> requireUserId u then Inl InvalidUserId
      else if absent (S (pinsKey u)) then Inr None
      else (case Option.bind (S (pinsKey u)) isPins of None \<Rightarrow> Inl MalformedPins | Some p \<Rightarrow> Inr (Some p)))"

text \<open>\<open>None\<close> when the pins allow the new head.\<close>

fun checkAgainstPins :: "device_pins option \<Rightarrow> device_pins \<Rightarrow> device_error option" where
  "checkAgainstPins None new = None"
| "checkAgainstPins (Some p) new =
     (if dp_root_device_id new \<noteq> dp_root_device_id p \<or> dp_root_sign_pub new \<noteq> dp_root_sign_pub p then Some RootDiffers
      else if dp_head_seq new < dp_head_seq p then Some HeadRolledBack
      else if dp_head_seq new = dp_head_seq p \<and> dp_head_hash new \<noteq> dp_head_hash p then Some HeadForked
      else if dp_max_epoch new < dp_max_epoch p then Some EpochRolledBack
      else None)"

section \<open>Accounts seen on this browser\<close>

definition pinnedUsers :: "'k device_store \<Rightarrow> string list" where
  "pinnedUsers S =
     (case S PINNED_USERS_KEY of
        Some (SPlain (JArr xs)) \<Rightarrow> List.map_filter (\<lambda>x. js_string (Some x)) xs
      | _ \<Rightarrow> [])"

definition rememberPinnedUser :: "string \<Rightarrow> 'k device_store \<Rightarrow> 'k device_store" where
  "rememberPinnedUser u S =
     (if u \<in> set (pinnedUsers S) then S
      else S(PINNED_USERS_KEY \<mapsto> SPlain (JArr (map JStr (pinnedUsers S @ [u])))))"

fun store_truthy :: "'k store_value option \<Rightarrow> bool" where
  "store_truthy None = False"
| "store_truthy (Some (SPlain v)) = js_truthy (Some v)"
| "store_truthy (Some _) = True"

definition otherPinnedAccounts :: "'k device_store \<Rightarrow> string \<Rightarrow> device_error + string list" where
  "otherPinnedAccounts S u =
     (if \<not> requireUserId u then Inl InvalidUserId
      else if store_truthy (S (pinsKey u)) \<or> store_truthy (S (otherAccountAckKey u)) then Inr []
      else Inr (filter (\<lambda>v. v \<noteq> u) (pinnedUsers S)))"

definition acknowledgeOtherAccount :: "string \<Rightarrow> 'k device_store \<Rightarrow> (device_error + unit) \<times> 'k device_store" where
  "acknowledgeOtherAccount u S =
     (if \<not> requireUserId u then (Inl InvalidUserId, S)
      else (Inr (), S(otherAccountAckKey u \<mapsto> SPlain (JBool True))))"

definition advancePins ::
  "string \<Rightarrow> device_pins \<Rightarrow> 'k device_store \<Rightarrow> (device_error + device_pins) \<times> 'k device_store" where
  "advancePins u new S =
     (case loadPins S u of
        Inl err \<Rightarrow> (Inl err, S)
      | Inr current \<Rightarrow>
          (case checkAgainstPins current new of
             Some err \<Rightarrow> (Inl err, S)
           | None \<Rightarrow>
               (let merged = new\<lparr>dp_max_epoch := max (case current of None \<Rightarrow> 0 | Some p \<Rightarrow> dp_max_epoch p) (dp_max_epoch new)\<rparr>
                in (Inr merged, rememberPinnedUser u (S(pinsKey u \<mapsto> SPlain (pins_value merged)))))))"

section \<open>Observed resets\<close>

record observed_reset =
  or_requested_at :: string
  or_due_at :: string
  or_head_seq :: int

definition loadObservedReset :: "'k device_store \<Rightarrow> string \<Rightarrow> device_error + observed_reset option" where
  "loadObservedReset S u =
     (if \<not> requireUserId u then Inl InvalidUserId
      else (case S (observedResetKey u) of
              Some (SPlain v) \<Rightarrow>
                (case (js_prop (Some v) ''requested_at'', js_prop (Some v) ''due_at'', safe_int (js_prop (Some v) ''head_seq'')) of
                   (Some (JStr r), Some (JStr d), Some n) \<Rightarrow>
                     Inr (Some \<lparr>or_requested_at = r, or_due_at = d, or_head_seq = n\<rparr>)
                 | _ \<Rightarrow> Inr None)
            | _ \<Rightarrow> Inr None))"

definition recordObservedReset ::
  "string \<Rightarrow> observed_reset option \<Rightarrow> 'k device_store \<Rightarrow> (device_error + unit) \<times> 'k device_store" where
  "recordObservedReset u r S =
     (if \<not> requireUserId u then (Inl InvalidUserId, S)
      else (Inr (), S(observedResetKey u :=
              (case r of
                 None \<Rightarrow> None
               | Some x \<Rightarrow> Some (SPlain (JObj [(''requested_at'', JStr (or_requested_at x)), (''due_at'', JStr (or_due_at x)),
                                              (''head_seq'', JNum (Fin (of_int (or_head_seq x))))]))))))"

text \<open>The first argument is \<open>Date.parse\<close>: \<open>None\<close> when it gives no finite number.\<close>

definition observedResetElapsed :: "(string \<Rightarrow> int option) \<Rightarrow> observed_reset option \<Rightarrow> int \<Rightarrow> bool" where
  "observedResetElapsed parse r now =
     (case r of None \<Rightarrow> False | Some x \<Rightarrow> (case parse (or_due_at x) of None \<Rightarrow> False | Some due \<Rightarrow> due \<le> now))"

definition or_null :: "'k store_value option \<Rightarrow> 'k store_value" where
  "or_null v = (case v of None \<Rightarrow> SPlain JNull | Some x \<Rightarrow> x)"

definition archiveDeviceState ::
  "string \<Rightarrow> int \<Rightarrow> 'k device_store \<Rightarrow> (device_error + string) \<times> 'k device_store" where
  "archiveDeviceState u now S =
     (if \<not> requireUserId u then (Inl InvalidUserId, S)
      else (let S1 = S(archivedKey u now \<mapsto> SArchive now (or_null (S (identityKey u))) (or_null (S (pinsKey u)))
                        (or_null (S (observedResetKey u))))
            in (Inr (archivedKey u now),
                S1(identityKey u := None, pinsKey u := None, observedResetKey u := None))))"

definition forgetDeviceIdentity :: "string \<Rightarrow> 'k device_store \<Rightarrow> (device_error + unit) \<times> 'k device_store" where
  "forgetDeviceIdentity u S =
     (if \<not> requireUserId u then (Inl InvalidUserId, S) else (Inr (), S(identityKey u := None)))"

section \<open>Every operation on the store\<close>

datatype 'k device_op =
    OpCreate string "'k \<times> bytes" "'k \<times> bytes" int
  | OpAdvance string device_pins
  | OpReset string "observed_reset option"
  | OpArchive string int
  | OpForget string
  | OpAck string

fun device_run :: "('k \<Rightarrow> bool) \<Rightarrow> 'k device_op \<Rightarrow> 'k device_store \<Rightarrow> 'k device_store" where
  "device_run ex (OpCreate u s e t) S = snd (createDeviceIdentity ex S u s e t)"
| "device_run ex (OpAdvance u p) S = snd (advancePins u p S)"
| "device_run ex (OpReset u r) S = snd (recordObservedReset u r S)"
| "device_run ex (OpArchive u t) S = snd (archiveDeviceState u t S)"
| "device_run ex (OpForget u) S = snd (forgetDeviceIdentity u S)"
| "device_run ex (OpAck u) S = snd (acknowledgeOtherAccount u S)"

definition op_user :: "'k device_op \<Rightarrow> string" where
  "op_user op =
     (case op of OpCreate u _ _ _ \<Rightarrow> u | OpAdvance u _ \<Rightarrow> u | OpReset u _ \<Rightarrow> u | OpArchive u _ \<Rightarrow> u | OpForget u \<Rightarrow> u
      | OpAck u \<Rightarrow> u)"

section \<open>Pins only advance\<close>

lemma store_keys [simp]:
  "identityKey u \<noteq> pinsKey v" "observedResetKey u \<noteq> pinsKey v" "otherAccountAckKey u \<noteq> pinsKey v"
  "archivedKey u t \<noteq> pinsKey v" "PINNED_USERS_KEY \<noteq> pinsKey v" "pinsKey u = pinsKey v \<longleftrightarrow> u = v"
  "identityKey u = identityKey v \<longleftrightarrow> u = v" "observedResetKey u \<noteq> identityKey v" "pinsKey u \<noteq> identityKey v"
  "archivedKey u t \<noteq> identityKey v" "PINNED_USERS_KEY \<noteq> identityKey v" "otherAccountAckKey u \<noteq> identityKey v"
  "pinsKey u \<noteq> PINNED_USERS_KEY" "pinsKey u \<noteq> identityKey v" "pinsKey u \<noteq> archivedKey v t" "pinsKey u \<noteq> otherAccountAckKey v"
  "pinsKey u \<noteq> observedResetKey v" "identityKey u \<noteq> PINNED_USERS_KEY" "identityKey u \<noteq> observedResetKey v"
  "identityKey u \<noteq> archivedKey v t" "identityKey u \<noteq> otherAccountAckKey v"
  by (simp_all add: identityKey_def pinsKey_def observedResetKey_def otherAccountAckKey_def archivedKey_def PINNED_USERS_KEY_def)

lemma safe_int_Some: "safe_int (Some (JNum (Fin (of_int n)))) = (if \<bar>n\<bar> \<le> 9007199254740991 then Some n else None)"
  by (simp add: safe_int_def js_whole_def num_int_def)

lemma isPins_value: "isPins (SPlain (pins_value p)) = Some q \<Longrightarrow> q = p"
  by (cases p) (auto simp: pins_value_def safe_int_Some split: if_splits)

lemma pins_value_present [simp]: "pins_value p \<noteq> JNull"
  by (simp add: pins_value_def)

definition pins_ahead :: "device_pins \<Rightarrow> string \<Rightarrow> 'k device_store \<Rightarrow> bool" where
  "pins_ahead p u S =
     (\<exists>v. S (pinsKey u) = Some v \<and> v \<noteq> SPlain JNull
        \<and> (\<forall>q. isPins v = Some q \<longrightarrow>
             dp_root_device_id q = dp_root_device_id p \<and> dp_root_sign_pub q = dp_root_sign_pub p
             \<and> dp_head_seq p \<le> dp_head_seq q \<and> dp_max_epoch p \<le> dp_max_epoch q
             \<and> (dp_head_seq q = dp_head_seq p \<longrightarrow> dp_head_hash q = dp_head_hash p)))"

lemma loadPins_Some:
  "loadPins S u = Inr (Some p) \<longleftrightarrow>
     requireUserId u \<and> (\<exists>v. S (pinsKey u) = Some v \<and> v \<noteq> SPlain JNull \<and> isPins v = Some p)"
  by (auto simp: loadPins_def absent_def bind_eq_Some_conv split: option.splits if_splits)

lemma loadPins_present:
  assumes "S (pinsKey u) = Some v" and "v \<noteq> SPlain JNull" and "loadPins S u = Inr r"
  shows "isPins v = r \<and> r \<noteq> None"
  using assms by (cases "isPins v") (simp_all add: loadPins_def absent_def eq_commute [of _ r] split: if_splits)

lemma remember_other [simp]: "rememberPinnedUser u S (pinsKey v) = S (pinsKey v)"
  by (simp add: rememberPinnedUser_def)

lemma advance_keeps_ahead:
  assumes "pins_ahead p u S"
  shows "pins_ahead p u (snd (advancePins w new S))"
proof (cases "w = u")
  case other: False
  have "snd (advancePins w new S) (pinsKey u) = S (pinsKey u)"
    using other by (auto simp: advancePins_def Let_def split: sum.split option.split)
  with assms show ?thesis by (simp add: pins_ahead_def)
next
  case same: True
  obtain v where v: "S (pinsKey u) = Some v" "v \<noteq> SPlain JNull"
    using assms by (auto simp: pins_ahead_def)
  show ?thesis
  proof (cases "loadPins S u")
    case (Inl e)
    with same assms show ?thesis by (simp add: advancePins_def)
  next
    case (Inr c)
    then obtain q where q: "c = Some q" "isPins v = Some q"
      using loadPins_present [OF v Inr] by auto
    show ?thesis
    proof (cases "checkAgainstPins (Some q) new")
      case (Some e)
      with same Inr q assms show ?thesis by (simp add: advancePins_def)
    next
      case None
      let ?m = "new\<lparr>dp_max_epoch := max (dp_max_epoch q) (dp_max_epoch new)\<rparr>"
      have stored: "snd (advancePins w new S) (pinsKey u) = Some (SPlain (pins_value ?m))"
        using same Inr q None by (simp add: advancePins_def Let_def)
      have "dp_root_device_id q = dp_root_device_id p \<and> dp_root_sign_pub q = dp_root_sign_pub p
          \<and> dp_head_seq p \<le> dp_head_seq q \<and> dp_max_epoch p \<le> dp_max_epoch q
          \<and> (dp_head_seq q = dp_head_seq p \<longrightarrow> dp_head_hash q = dp_head_hash p)"
        using assms v q by (auto simp: pins_ahead_def)
      with None have "dp_root_device_id ?m = dp_root_device_id p \<and> dp_root_sign_pub ?m = dp_root_sign_pub p
          \<and> dp_head_seq p \<le> dp_head_seq ?m \<and> dp_max_epoch p \<le> dp_max_epoch ?m
          \<and> (dp_head_seq ?m = dp_head_seq p \<longrightarrow> dp_head_hash ?m = dp_head_hash p)"
        by (auto split: if_splits)
      then show ?thesis unfolding pins_ahead_def using stored
        by (auto simp del: isPins.simps dest!: isPins_value)
    qed
  qed
qed

lemma run_keeps_ahead:
  assumes "pins_ahead p u S" and "\<And>t. op \<noteq> OpArchive u t"
  shows "pins_ahead p u (device_run ex op S)"
proof (cases op)
  case (OpAdvance w new)
  with advance_keeps_ahead [OF assms(1)] show ?thesis by simp
next
  case (OpArchive w t)
  then have "w \<noteq> u" using assms(2) by auto
  then have "device_run ex op S (pinsKey u) = S (pinsKey u)"
    using OpArchive by (simp add: archiveDeviceState_def Let_def)
  with assms(1) show ?thesis by (simp add: pins_ahead_def)
qed (use assms(1) in \<open>simp_all add: pins_ahead_def createDeviceIdentity_def recordObservedReset_def forgetDeviceIdentity_def
       acknowledgeOtherAccount_def Let_def\<close>)

lemma runs_keep_ahead:
  "pins_ahead p u S \<Longrightarrow> \<forall>t. OpArchive u t \<notin> set ops \<Longrightarrow> pins_ahead p u (fold (device_run ex) ops S)"
proof (induction ops arbitrary: S)
  case (Cons op ops)
  then have "pins_ahead p u (device_run ex op S)" by (intro run_keeps_ahead) auto
  with Cons show ?case by simp
qed simp

lemma loaded_ahead: "loadPins S u = Inr (Some p) \<Longrightarrow> pins_ahead p u S"
  by (auto simp: loadPins_Some pins_ahead_def)

text \<open>
  C16. Whatever sequence of operations on any accounts follows, except starting this account over, the pins of an
  account that were once readable are never gone; when they are readable they name the same root, a head that is not
  behind, the same op if it is the same head, and an epoch that is not behind.
\<close>

theorem pins_only_advance:
  assumes "loadPins S u = Inr (Some p)"
    and "\<forall>t. OpArchive u t \<notin> set ops"
    and "loadPins (fold (device_run ex) ops S) u = Inr r"
  shows "\<exists>q. r = Some q \<and> dp_root_device_id q = dp_root_device_id p \<and> dp_root_sign_pub q = dp_root_sign_pub p
     \<and> dp_head_seq p \<le> dp_head_seq q \<and> dp_max_epoch p \<le> dp_max_epoch q
     \<and> (dp_head_seq q = dp_head_seq p \<longrightarrow> dp_head_hash q = dp_head_hash p)"
proof -
  have "pins_ahead p u (fold (device_run ex) ops S)"
    using runs_keep_ahead [OF loaded_ahead [OF assms(1)] assms(2)] .
  then obtain v where v: "fold (device_run ex) ops S (pinsKey u) = Some v" "v \<noteq> SPlain JNull"
    and ahead: "\<forall>q. isPins v = Some q \<longrightarrow>
             dp_root_device_id q = dp_root_device_id p \<and> dp_root_sign_pub q = dp_root_sign_pub p
             \<and> dp_head_seq p \<le> dp_head_seq q \<and> dp_max_epoch p \<le> dp_max_epoch q
             \<and> (dp_head_seq q = dp_head_seq p \<longrightarrow> dp_head_hash q = dp_head_hash p)"
    unfolding pins_ahead_def by blast
  have "isPins v = r \<and> r \<noteq> None"
    using loadPins_present [OF v assms(3)] .
  with ahead show ?thesis by auto
qed

text \<open>Operations on one account leave the identity and the pins of another alone.\<close>

lemma accounts_separate:
  "op_user op \<noteq> u \<Longrightarrow> device_run ex op S (pinsKey u) = S (pinsKey u) \<and> device_run ex op S (identityKey u) = S (identityKey u)"
  by (cases op)
    (auto simp: op_user_def createDeviceIdentity_def advancePins_def recordObservedReset_def archiveDeviceState_def
       forgetDeviceIdentity_def acknowledgeOtherAccount_def rememberPinnedUser_def Let_def split: sum.split option.split)

definition sample_pins :: "int \<Rightarrow> device_pins" where
  "sample_pins n = \<lparr>dp_root_device_id = ''dev_1'', dp_root_sign_pub = replicate 130 (CHR ''4''), dp_head_seq = n,
                    dp_head_hash = replicate 64 (CHR ''a''), dp_max_epoch = n\<rparr>"

definition sample_store :: "nat device_store" where
  "sample_store = [pinsKey ''u'' \<mapsto> SPlain (pins_value (sample_pins 1))]"

lemma sample_pins_readable:
  assumes "1 \<le> n" "n \<le> 10"
  shows "isPins (SPlain (pins_value (sample_pins n)) :: nat store_value) = Some (sample_pins n)"
proof -
  have "hex_code (CHR ''4'') \<noteq> None" "hex_code (CHR ''a'') \<noteq> None" by code_simp+
  with assms show ?thesis
    by (simp add: pins_value_def sample_pins_def safe_int_Some isLowerHex_def list_all_length)
qed

lemma pins_only_advance_witness:
  "\<exists>q. Some (sample_pins 3) = Some q \<and> dp_root_device_id q = ''dev_1''
     \<and> dp_root_sign_pub q = dp_root_sign_pub (sample_pins 1)
     \<and> 1 \<le> dp_head_seq q \<and> 1 \<le> dp_max_epoch q \<and> (dp_head_seq q = 1 \<longrightarrow> dp_head_hash q = dp_head_hash (sample_pins 1))"
proof -
  let ?ops = "[OpAdvance ''u'' (sample_pins 3), OpAdvance ''u'' (sample_pins 2), OpForget ''u'', OpArchive ''v'' 7]"
  have user: "requireUserId ''u''" by code_simp
  have before: "loadPins sample_store ''u'' = Inr (Some (sample_pins 1))"
    using user by (simp add: loadPins_Some sample_store_def sample_pins_readable pins_value_present del: isPins.simps)
  let ?S = "rememberPinnedUser ''u'' (sample_store(pinsKey ''u'' \<mapsto> SPlain (pins_value (sample_pins 3))))"
  have one: "advancePins ''u'' (sample_pins 3) sample_store = (Inr (sample_pins 3), ?S)"
    unfolding advancePins_def before by (simp add: sample_pins_def Let_def)
  have mid: "loadPins ?S ''u'' = Inr (Some (sample_pins 3))"
    using user by (simp add: loadPins_Some sample_pins_readable pins_value_present del: isPins.simps)
  have two: "advancePins ''u'' (sample_pins 2) ?S = (Inl HeadRolledBack, ?S)"
    unfolding advancePins_def mid by (simp add: sample_pins_def)
  have after: "loadPins (fold (device_run (\<lambda>_. False)) ?ops sample_store) ''u'' = Inr (Some (sample_pins 3))"
    using mid by (simp add: one two loadPins_Some forgetDeviceIdentity_def archiveDeviceState_def Let_def del: isPins.simps)
  have "\<forall>t. OpArchive ''u'' t \<notin> set ?ops" by simp
  from pins_only_advance [OF before this after] show ?thesis by (simp add: sample_pins_def)
qed

section \<open>Labels survive their encoding\<close>

lemma base64_pad:
  "\<exists>w k. bytesToBase64 bs = w @ replicate k (CHR ''='') \<and> list_all is_b64 w \<and> k \<le> 2 \<and> (length w + k) mod 4 = 0"
proof (induction bs rule: bytesToBase64.induct)
  case 1
  show ?case by (rule exI [of _ "[]"], rule exI [of _ 0]) simp
next
  case (2 a)
  let ?w = "take 2 (sextets (unat a * 65536))"
  have "unat a * 65536 < 16777216" using unat_byte [of a] by simp
  from list_all_take [OF sextets_b64 [OF this]] have "list_all is_b64 ?w" .
  moreover have "length ?w = 2" by (simp add: sextets_def)
  moreover have "bytesToBase64 [a] = ?w @ replicate 2 (CHR ''='')" by (simp only: bytesToBase64.simps) (simp add: numeral_2_eq_2)
  ultimately show ?case by (intro exI [of _ ?w] exI [of _ 2]) (simp del: bytesToBase64.simps)
next
  case (3 a b)
  let ?w = "take 3 (sextets (unat a * 65536 + unat b * 256))"
  have "unat a * 65536 + unat b * 256 < 16777216" using unat_byte [of a] unat_byte [of b] by simp
  from list_all_take [OF sextets_b64 [OF this]] have "list_all is_b64 ?w" .
  moreover have "length ?w = 3" by (simp add: sextets_def)
  moreover have "bytesToBase64 [a, b] = ?w @ replicate 1 (CHR ''='')" by simp
  ultimately show ?case by (intro exI [of _ ?w] exI [of _ 1]) (simp del: bytesToBase64.simps)
next
  case (4 a b c r)
  then obtain w k where w: "bytesToBase64 r = w @ replicate k (CHR ''='')" "list_all is_b64 w" "k \<le> 2"
    "(length w + k) mod 4 = 0" by (elim exE conjE)
  let ?s = "sextets (unat a * 65536 + unat b * 256 + unat c)"
  have "list_all is_b64 ?s" "length ?s = 4" using sextets_b64 [OF bytes_24] by (simp_all add: sextets_def)
  moreover have "(length (?s @ w) + k) mod 4 = 0" using w(4) \<open>length ?s = 4\<close> by (metis add.assoc length_append mod_add_self1)
  ultimately show ?case
    using w by (intro exI [of _ "?s @ w"] exI [of _ k]) simp
qed

lemma map_filter_all: "list_all (\<lambda>x. f x \<noteq> None) xs \<Longrightarrow> length (List.map_filter f xs) = length xs"
  by (induction xs) (auto simp: List.map_filter_simps)

lemma is_b64_plain: "is_b64 c \<Longrightarrow> \<not> is_ascii_space c \<and> c \<noteq> CHR ''=''"
  by (auto simp: is_b64_def b64_code_def is_ascii_space_def Let_def split: if_splits)

lemma strip_pad_pads:
  assumes "list_all is_b64 w" "k \<le> 2" "(length w + k) mod 4 = 0"
  shows "strip_pad (w @ replicate k (CHR ''='')) = w"
proof -
  have last: "w \<noteq> [] \<Longrightarrow> last w \<noteq> CHR ''=''"
    using assms(1) is_b64_plain by (auto simp: list_all_iff)
  consider "k = 0" | "k = 1" | "k = 2" using assms(2) by linarith
  then show ?thesis
  proof cases
    case 1
    have "drop (length w - 2) w \<noteq> ''==''"
    proof
      assume a: "drop (length w - 2) w = ''==''"
      then have "last w = CHR ''=''" by (metis last.simps last_drop list.distinct(1) drop_all not_le)
      with a last show False by (cases w) auto
    qed
    with 1 last show ?thesis by (auto simp: strip_pad_def)
  next
    case 2
    then have "drop (length w - 1) (w @ ''='') \<noteq> ''==''"
    proof -
      have "w \<noteq> []" using 2 assms(3) by auto
      then have "drop (length w - 1) (w @ ''='') = [last w, CHR ''='']"
        by (simp add: append_butlast_last_id [symmetric] drop_append)
          (metis One_nat_def append_butlast_last_id append_eq_conv_conj length_butlast)
      with last \<open>w \<noteq> []\<close> show ?thesis by simp
    qed
    with 2 assms(3) show ?thesis by (auto simp: strip_pad_def)
  next
    case 3
    with assms(3) show ?thesis by (simp add: strip_pad_def numeral_2_eq_2)
  qed
qed

lemma atob_base64: "js_atob (bytesToBase64 bs) = Some bs"
proof -
  obtain w k where w: "bytesToBase64 bs = w @ replicate k (CHR ''='')" "list_all is_b64 w" "k \<le> 2"
    "(length w + k) mod 4 = 0" using base64_pad [of bs] by (elim exE conjE)
  have "filter (\<lambda>c. \<not> is_ascii_space c) (w @ replicate k (CHR ''='')) = w @ replicate k (CHR ''='')"
    using w(2) is_b64_plain by (auto simp: list_all_iff is_ascii_space_def intro!: filter_True)
  moreover have "takeWhile (\<lambda>c. c \<noteq> CHR ''='') (w @ replicate k (CHR ''='')) = w"
    using w(2) is_b64_plain by (cases k) (auto simp: list_all_iff takeWhile_append2)
  moreover have "length w mod 4 \<noteq> 1" using w(3, 4) by presburger
  ultimately show ?thesis
    using b64_decode_encode [of bs] w by (simp add: js_atob_def base64ToBytes_def Let_def strip_pad_pads)
qed

lemma dropWhile_replicate: "dropWhile (\<lambda>c. c = x) (replicate k x @ ys) = dropWhile (\<lambda>c. c = x) ys"
  by (induction k) auto

lemma b64_swap:
  "is_b64 c \<Longrightarrow>
     (let d = (if c = CHR ''+'' then CHR ''-'' else if c = CHR ''/'' then CHR ''_'' else c)
      in (if d = CHR ''-'' then CHR ''+'' else if d = CHR ''_'' then CHR ''/'' else d)) = c
     \<and> (if c = CHR ''+'' then CHR ''-'' else if c = CHR ''/'' then CHR ''_'' else c) \<noteq> CHR ''=''"
  by (auto simp: is_b64_def b64_code_def Let_def split: if_splits)

text \<open>
  A label of Unicode scalar values that does not start with a byte order mark is read back from its encoding.
\<close>

theorem label_round_trip:
  assumes "list_all is_scalar t" and "t = [] \<or> hd t \<noteq> 65279"
  shows "labelFromB64 (labelB64 t) = t"
proof -
  define bs where "bs = encode_text t"
  obtain w k where w: "bytesToBase64 bs = w @ replicate k (CHR ''='')" "list_all is_b64 w" "k \<le> 2"
    "(length w + k) mod 4 = 0" using base64_pad [of bs] by (elim exE conjE)
  let ?f = "\<lambda>c. if c = CHR ''+'' then CHR ''-'' else if c = CHR ''/'' then CHR ''_'' else c"
  let ?g = "\<lambda>c. if c = CHR ''-'' then CHR ''+'' else if c = CHR ''_'' then CHR ''/'' else c"
  have plain: "\<forall>c \<in> set w. ?g (?f c) = c \<and> ?f c \<noteq> CHR ''=''"
    using w(2) b64_swap by (fastforce simp: list_all_iff Let_def)
  have "rev (dropWhile (\<lambda>c. c = CHR ''='') (rev (map ?f w))) = map ?f w"
    using plain by (cases w rule: rev_cases) auto
  then have label: "labelB64 t = map ?f w"
    unfolding labelB64_def bs_def [symmetric] w(1) by (simp add: dropWhile_replicate)
  have std: "map ?g (labelB64 t) = w" unfolding label using plain by (simp add: map_idI)
  have pad: "(4 - length w mod 4) mod 4 = k"
  proof -
    have one: "(n + 1) mod 4 = 0 \<Longrightarrow> n mod 4 = 3" and two: "(n + 2) mod 4 = 0 \<Longrightarrow> n mod 4 = 2" for n :: nat
      by presburger+
    consider "k = 0" | "k = 1" | "k = 2" using w(3) by linarith
    then show ?thesis
    proof cases
      case 1
      with w(4) show ?thesis by simp
    next
      case 2
      with one [of "length w"] w(4) show ?thesis by simp
    next
      case 3
      with two [of "length w"] w(4) show ?thesis by simp
    qed
  qed
  have "labelFromB64 (labelB64 t) = (case js_atob (bytesToBase64 bs) of
        None \<Rightarrow> [] | Some bs \<Rightarrow> (case decode_fatal bs of None \<Rightarrow> [] | Some t \<Rightarrow> t))"
    unfolding labelFromB64_def Let_def std pad w(1) ..
  also have "\<dots> = t"
  proof -
    have "map (\<lambda>n. if is_scalar n then n else replacement_char) t = t"
      using assms(1) by (auto simp: list_all_iff intro!: map_idI)
    then show ?thesis
      using assms(2) by (auto simp: atob_base64 decode_fatal_def bs_def feed_text strip_bom_def Let_def)
  qed
  finally show ?thesis .
qed

lemma label_round_trip_witness: "labelFromB64 (labelB64 [75, 233, 128274]) = [75, 233, 128274]"
  by (rule label_round_trip) (simp_all add: is_scalar_def)

end
