(* ===== verification/VaultDirectory.thy ===== *)
theory VaultDirectory
  imports DeviceIdentity
begin

text \<open>
  Verification of the account's device directory (\<open>src/ui/utils/vaultDirectoryVerify.ts\<close>): the walk over the
  signed log, the cross-check of the device rows, and the operations of a verified chain. The directory is the
  untyped value the hub serves; a \<open>Map\<close> is an association list in insertion order.
\<close>

section \<open>Data\<close>

record signed_device =
  sd_device_id :: string
  sd_kind :: device_kind
  sd_sign_alg :: string
  sd_wrap_alg :: string
  sd_sign_pub :: string
  sd_ecdh_pub :: string
  sd_label :: utext
  sd_approved_by :: string
  sd_statement :: string
  sd_signature :: string
  sd_seq :: nat

record verified_device = signed_device +
  vd_row :: js

record epoch_proof =
  ep_epoch :: nat
  ep_seq :: nat
  ep_type :: string
  ep_statement :: string
  ep_signature :: string
  ep_issuer :: string
  ep_commit :: string

record walk_state =
  ws_trusted :: "(string \<times> signed_device) list"
  ws_ever :: "(string \<times> signed_device) list"
  ws_revoked :: "string list"
  ws_commits :: "(nat \<times> string) list"
  ws_epochs :: "(nat \<times> epoch_proof) list"
  ws_hashes :: "string list"
  ws_root :: "signed_device option"
  ws_genesis :: "string \<times> string"
  ws_epoch :: nat
  ws_prev :: string

record verified_chain =
  vc_userId :: string
  vc_rootDeviceId :: string
  vc_rootSignPub :: string
  vc_rootSignAlg :: string
  vc_vaultId :: string
  vc_version :: nat
  vc_headHash :: string
  vc_logHashes :: "string list"
  vc_currentEpoch :: nat
  vc_genesis :: "string \<times> string"
  vc_trusted :: "(string \<times> verified_device) list"
  vc_ever :: "(string \<times> verified_device) list"
  vc_revokedIds :: "string list"
  vc_untrusted :: "js list"
  vc_pending :: "js list"
  vc_revoked :: "js list"
  vc_commits :: "(nat \<times> string) list"
  vc_epochs :: "(nat \<times> epoch_proof) list"
  vc_retiredHints :: "string list"

datatype directory_error =
    MalformedDirectory | MalformedVersion | LogLengthDiffers | OpOutOfOrder nat | OpNotCanonical nat | OpNotLinked nat
  | OpOtherAccount nat | OpNoIssueTime nat | GenesisMalformed | GenesisNotSelfIssued | RootNotApprover | RootIdDiffers
  | PinnedRootDiffers | GenesisSignature | OpIssuerNotTrusted nat | OpSignature nat | ApprovalSubject nat
  | ReApproval nat | ApprovalEpoch nat | ApprovalLabel nat | RevokesUntrusted nat | SelfRevocation nat
  | RotationSubject nat | EpochNotIntroduced nat | UnknownOpType nat | EmptyLog | HeadHashDiffers | CurrentEpochDiffers
  | PinRolledBack | PinForked | MalformedRow | DuplicateRow string | TrustedNotApproved string | PendingInLog string
  | BadKey statement_error | PinViolation device_error | ApprovalCycle | NoChainToRoot string | BridgeNotApproved
  | BridgeRetired | NoEpochOp nat | EpochIssuerNotApprover

section \<open>Subjects\<close>

text \<open>\<open>v ?? ''''\<close>.\<close>

definition or_empty :: "js option \<Rightarrow> js" where
  "or_empty v = (case v of None \<Rightarrow> JStr [] | Some JNull \<Rightarrow> JStr [] | Some x \<Rightarrow> x)"

definition subjectMatchesRow :: "signed_device \<Rightarrow> js \<Rightarrow> bool" where
  "subjectMatchesRow d row =
     (js_prop (Some row) ''device_id'' = Some (JStr (sd_device_id d))
      \<and> js_prop (Some row) ''kind'' = Some (JStr (kind_id (sd_kind d)))
      \<and> js_prop (Some row) ''sign_public_key'' = Some (JStr (sd_sign_pub d))
      \<and> or_empty (js_prop (Some row) ''ecdh_public_key'') = JStr (sd_ecdh_pub d)
      \<and> js_prop (Some row) ''sign_alg'' = Some (JStr (sd_sign_alg d))
      \<and> or_empty (js_prop (Some row) ''wrap_alg'') = JStr (sd_wrap_alg d))"

definition subjectWellFormed :: "statement \<Rightarrow> bool" where
  "subjectWellFormed st =
     (case deviceKindFromId (fld st ''subject_kind'') of
        None \<Rightarrow> False
      | Some kind \<Rightarrow>
          if signAlgFromId (Some (JStr (fld st ''subject_sign_alg''))) = None then False
          else if receivesWrap (kindPolicy (kind_id kind))
          then wrapAlgFromId (Some (JStr (fld st ''subject_wrap_alg''))) \<noteq> None \<and> fld st ''subject_ecdh_pub'' \<noteq> []
          else fld st ''subject_wrap_alg'' = [] \<and> fld st ''subject_ecdh_pub'' = [])"

definition subjectEmpty :: "statement \<Rightarrow> bool" where
  "subjectEmpty st =
     list_all (\<lambda>f. fld st f = [])
       [''subject_device_id'', ''subject_kind'', ''subject_sign_pub'', ''subject_ecdh_pub'', ''subject_sign_alg'',
        ''subject_wrap_alg'', ''subject_label_b64'']"

definition sameSubject :: "statement \<Rightarrow> signed_device \<Rightarrow> bool" where
  "sameSubject st d =
     (fld st ''subject_device_id'' = sd_device_id d \<and> fld st ''subject_kind'' = kind_id (sd_kind d)
      \<and> fld st ''subject_sign_pub'' = sd_sign_pub d \<and> fld st ''subject_ecdh_pub'' = sd_ecdh_pub d
      \<and> fld st ''subject_sign_alg'' = sd_sign_alg d \<and> fld st ''subject_wrap_alg'' = sd_wrap_alg d)"

definition COMMIT_RE :: "string \<Rightarrow> bool" where
  "COMMIT_RE s = (length s = 64 \<and> list_all (\<lambda>c. hex_code c \<noteq> None) s)"

definition DECIMAL_RE :: "string \<Rightarrow> bool" where
  "DECIMAL_RE s = (1 \<le> length s \<and> length s \<le> 16 \<and> list_all is_digit s \<and> hd s \<noteq> CHR ''0'')"

text \<open>The kind is present wherever a device is made: \<open>subjectWellFormed\<close> holds there.\<close>

definition verifiedFrom :: "statement \<Rightarrow> string \<Rightarrow> string \<Rightarrow> nat \<Rightarrow> signed_device" where
  "verifiedFrom st txt sig seq =
     \<lparr>sd_device_id = fld st ''subject_device_id'', sd_kind = the (deviceKindFromId (fld st ''subject_kind'')),
      sd_sign_alg = fld st ''subject_sign_alg'', sd_wrap_alg = fld st ''subject_wrap_alg'',
      sd_sign_pub = fld st ''subject_sign_pub'', sd_ecdh_pub = fld st ''subject_ecdh_pub'',
      sd_label = labelFromB64 (fld st ''subject_label_b64''), sd_approved_by = fld st ''issuer_device_id'',
      sd_statement = txt, sd_signature = sig, sd_seq = seq\<rparr>"

definition PLACEHOLDER_ROW :: "string \<Rightarrow> js" where
  "PLACEHOLDER_ROW i =
     JObj [(''device_id'', JStr i), (''kind'', JStr []), (''status'', JStr ''unknown''), (''sign_alg'', JStr []),
           (''wrap_alg'', JStr []), (''sign_public_key'', JStr []), (''ecdh_public_key'', JStr [])]"

section \<open>One operation of the log\<close>

definition walk_start :: walk_state where
  "walk_start = \<lparr>ws_trusted = [], ws_ever = [], ws_revoked = [], ws_commits = [], ws_epochs = [], ws_hashes = [],
                 ws_root = None, ws_genesis = ([], []), ws_epoch = 0, ws_prev = []\<rparr>"

definition idMatchesKey :: "statement \<Rightarrow> bool" where
  "idMatchesKey st = (deviceIdFor (fld st ''subject_sign_pub'') = Inr (fld st ''subject_device_id''))"

definition may_approve :: "signed_device \<Rightarrow> bool" where
  "may_approve d = canApprove (kindPolicy (kind_id (sd_kind d)))"

text \<open>Checks every operation passes: its number, its layout, its link to the previous one, its account, its time.\<close>

definition read_op :: "string \<Rightarrow> js \<Rightarrow> walk_state \<Rightarrow> nat \<Rightarrow> directory_error + (statement \<times> string)" where
  "read_op userId entry w seq =
     (if \<not> js_truthy (Some entry) \<or> js_prop (Some entry) ''seq'' \<noteq> Some (JNum (Fin (of_nat seq))) then Inl (OpOutOfOrder seq)
      else (case js_prop (Some entry) ''statement'' of
              Some (JStr txt) \<Rightarrow>
                (case parseStatement (Some txt) of
                   None \<Rightarrow> Inl (OpNotCanonical seq)
                 | Some st \<Rightarrow>
                     if fld st ''seq'' \<noteq> show_nat seq \<or> fld st ''prev_hash'' \<noteq> ws_prev w then Inl (OpNotLinked seq)
                     else if fld st ''user_id'' \<noteq> userId then Inl (OpOtherAccount seq)
                     else if \<not> DECIMAL_RE (fld st ''issued_at_ms'') then Inl (OpNoIssueTime seq)
                     else Inr (st, txt))
            | _ \<Rightarrow> Inl (OpNotCanonical seq)))"

definition genesis_op ::
  "sign_crypto \<Rightarrow> js option \<Rightarrow> device_pins option \<Rightarrow> statement \<Rightarrow> string \<Rightarrow> string \<Rightarrow> walk_state
   \<Rightarrow> directory_error + walk_state" where
  "genesis_op C rootId pins st txt sig w =
     (if fld st ''type'' \<noteq> ''genesis'' \<or> fld st ''epoch'' \<noteq> ''1'' \<or> \<not> COMMIT_RE (fld st ''epoch_commit'') then Inl GenesisMalformed
      else if fld st ''issuer_device_id'' \<noteq> fld st ''subject_device_id'' \<or> rootId \<noteq> Some (JStr (fld st ''subject_device_id''))
      then Inl GenesisNotSelfIssued
      else if \<not> subjectWellFormed st \<or> \<not> canApprove (kindPolicy (fld st ''subject_kind'')) then Inl RootNotApprover
      else (case deviceIdFor (fld st ''subject_sign_pub'') of
              Inl err \<Rightarrow> Inl (BadKey err)
            | Inr i \<Rightarrow>
                if fld st ''subject_device_id'' \<noteq> i then Inl RootIdDiffers
                else if (case pins of None \<Rightarrow> False
                         | Some p \<Rightarrow> fld st ''subject_sign_pub'' \<noteq> dp_root_sign_pub p
                                    \<or> fld st ''subject_device_id'' \<noteq> dp_root_device_id p)
                then Inl PinnedRootDiffers
                else if \<not> verifySignature C (fld st ''subject_sign_alg'') (fld st ''subject_sign_pub'') (utf8_encode txt)
                           (Some (JStr sig))
                then Inl GenesisSignature
                else (let d = verifiedFrom st txt sig 1 in
                      Inr (w\<lparr>ws_root := Some d, ws_trusted := map_set (sd_device_id d) d (ws_trusted w),
                             ws_ever := map_set (sd_device_id d) d (ws_ever w), ws_genesis := (txt, sig), ws_epoch := 1,
                             ws_commits := map_set 1 (fld st ''epoch_commit'') (ws_commits w),
                             ws_epochs := map_set 1 \<lparr>ep_epoch = 1, ep_seq = 1, ep_type = ''genesis'', ep_statement = txt,
                               ep_signature = sig, ep_issuer = sd_device_id d, ep_commit = fld st ''epoch_commit''\<rparr>
                               (ws_epochs w)\<rparr>))))"

definition approve_op ::
  "statement \<Rightarrow> string \<Rightarrow> string \<Rightarrow> nat \<Rightarrow> walk_state \<Rightarrow> directory_error + walk_state" where
  "approve_op st txt sig seq w =
     (if \<not> subjectWellFormed st then Inl (ApprovalSubject seq)
      else (case deviceIdFor (fld st ''subject_sign_pub'') of
              Inl err \<Rightarrow> Inl (BadKey err)
            | Inr i \<Rightarrow>
                if fld st ''subject_device_id'' \<noteq> i then Inl (ApprovalSubject seq)
                else if fld st ''subject_device_id'' \<in> fst ` set (ws_ever w) then Inl (ReApproval seq)
                else if fld st ''epoch'' \<noteq> show_nat (ws_epoch w)
                        \<or> map_of (ws_commits w) (ws_epoch w) \<noteq> Some (fld st ''epoch_commit'')
                then Inl (ApprovalEpoch seq)
                else if labelFromB64 (fld st ''subject_label_b64'') = [] then Inl (ApprovalLabel seq)
                else (let d = verifiedFrom st txt sig seq in
                      Inr (w\<lparr>ws_trusted := map_set (sd_device_id d) d (ws_trusted w),
                             ws_ever := map_set (sd_device_id d) d (ws_ever w)\<rparr>))))"

definition set_add :: "'a \<Rightarrow> 'a list \<Rightarrow> 'a list" where
  "set_add x xs = (if x \<in> set xs then xs else xs @ [x])"

definition map_delete :: "'a \<Rightarrow> ('a \<times> 'v) list \<Rightarrow> ('a \<times> 'v) list" where
  "map_delete k m = filter (\<lambda>p. fst p \<noteq> k) m"

definition revoke_subject :: "statement \<Rightarrow> signed_device \<Rightarrow> nat \<Rightarrow> walk_state \<Rightarrow> directory_error + walk_state" where
  "revoke_subject st issuer seq w =
     (case map_of (ws_trusted w) (fld st ''subject_device_id'') of
        None \<Rightarrow> Inl (RevokesUntrusted seq)
      | Some target \<Rightarrow>
          if \<not> sameSubject st target then Inl (RevokesUntrusted seq)
          else if sd_device_id target = sd_device_id issuer then Inl (SelfRevocation seq)
          else Inr (w\<lparr>ws_trusted := map_delete (sd_device_id target) (ws_trusted w),
                      ws_revoked := set_add (sd_device_id target) (ws_revoked w)\<rparr>))"

definition new_epoch ::
  "statement \<Rightarrow> string \<Rightarrow> string \<Rightarrow> signed_device \<Rightarrow> nat \<Rightarrow> walk_state \<Rightarrow> directory_error + walk_state" where
  "new_epoch st txt sig issuer seq w =
     (if fld st ''epoch'' \<noteq> show_nat (ws_epoch w + 1) \<or> \<not> COMMIT_RE (fld st ''epoch_commit'') \<or> fld st ''wrap_sha256'' \<noteq> []
      then Inl (EpochNotIntroduced seq)
      else Inr (w\<lparr>ws_epoch := ws_epoch w + 1,
                  ws_commits := map_set (ws_epoch w + 1) (fld st ''epoch_commit'') (ws_commits w),
                  ws_epochs := map_set (ws_epoch w + 1)
                    \<lparr>ep_epoch = ws_epoch w + 1, ep_seq = seq, ep_type = fld st ''type'', ep_statement = txt,
                     ep_signature = sig, ep_issuer = sd_device_id issuer, ep_commit = fld st ''epoch_commit''\<rparr> (ws_epochs w)\<rparr>))"

definition later_op ::
  "sign_crypto \<Rightarrow> statement \<Rightarrow> string \<Rightarrow> string \<Rightarrow> nat \<Rightarrow> walk_state \<Rightarrow> directory_error + walk_state" where
  "later_op C st txt sig seq w =
     (case map_of (ws_trusted w) (fld st ''issuer_device_id'') of
        None \<Rightarrow> Inl (OpIssuerNotTrusted seq)
      | Some issuer \<Rightarrow>
          if \<not> may_approve issuer then Inl (OpIssuerNotTrusted seq)
          else if \<not> verifySignature C (sd_sign_alg issuer) (sd_sign_pub issuer) (utf8_encode txt) (Some (JStr sig))
          then Inl (OpSignature seq)
          else if fld st ''type'' = ''approve'' then approve_op st txt sig seq w
          else if fld st ''type'' = ''revoke''
          then (case revoke_subject st issuer seq w of
                  Inl err \<Rightarrow> Inl err | Inr w' \<Rightarrow> new_epoch st txt sig issuer seq w')
          else if fld st ''type'' = ''rotate''
          then (if \<not> subjectEmpty st then Inl (RotationSubject seq) else new_epoch st txt sig issuer seq w)
          else Inl (UnknownOpType seq))"

definition walk_op ::
  "sign_crypto \<Rightarrow> js option \<Rightarrow> string \<Rightarrow> device_pins option \<Rightarrow> js \<Rightarrow> walk_state \<Rightarrow> directory_error + walk_state" where
  "walk_op C rootId userId pins entry w =
     (let seq = length (ws_hashes w) + 1; sig = signatureObjectText C (js_prop (Some entry) ''signature'') in
      case read_op userId entry w seq of
        Inl err \<Rightarrow> Inl err
      | Inr (st, txt) \<Rightarrow>
          (case (if seq = 1 then genesis_op C rootId pins st txt sig w else later_op C st txt sig seq w) of
             Inl err \<Rightarrow> Inl err
           | Inr w' \<Rightarrow> Inr (w'\<lparr>ws_prev := logEntryHash txt, ws_hashes := ws_hashes w @ [logEntryHash txt]\<rparr>)))"

fun walk_log ::
  "sign_crypto \<Rightarrow> js option \<Rightarrow> string \<Rightarrow> device_pins option \<Rightarrow> js list \<Rightarrow> walk_state \<Rightarrow> directory_error + walk_state" where
  "walk_log C rootId userId pins [] w = Inr w"
| "walk_log C rootId userId pins (e # es) w =
     (case walk_op C rootId userId pins e w of Inl err \<Rightarrow> Inl err | Inr w' \<Rightarrow> walk_log C rootId userId pins es w')"

section \<open>The whole directory\<close>

definition pinsFromChain :: "verified_chain \<Rightarrow> device_pins" where
  "pinsFromChain ch =
     \<lparr>dp_root_device_id = vc_rootDeviceId ch, dp_root_sign_pub = vc_rootSignPub ch, dp_head_seq = int (vc_version ch),
      dp_head_hash = vc_headHash ch, dp_max_epoch = int (vc_currentEpoch ch)\<rparr>"

text \<open>\<open>logHashes[i]\<close> for an integer index.\<close>

definition hash_at :: "string list \<Rightarrow> int \<Rightarrow> string option" where
  "hash_at hs i = (if i < 0 then None else arr_at hs (nat i))"

definition pin_error :: "device_pins option \<Rightarrow> nat \<Rightarrow> string list \<Rightarrow> directory_error option" where
  "pin_error pins version hashes =
     (case pins of
        None \<Rightarrow> None
      | Some p \<Rightarrow>
          if int version < dp_head_seq p then Some PinRolledBack
          else if hash_at hashes (dp_head_seq p - 1) \<noteq> Some (dp_head_hash p) then Some PinForked
          else None)"

fun read_rows :: "js list \<Rightarrow> (string \<times> js) list \<Rightarrow> directory_error + (string \<times> js) list" where
  "read_rows [] rows = Inr rows"
| "read_rows (d # ds) rows =
     (case js_prop (Some d) ''device_id'' of
        Some (JStr i) \<Rightarrow> if i \<in> fst ` set rows then Inl (DuplicateRow i) else read_rows ds (map_set i d rows)
      | _ \<Rightarrow> Inl MalformedRow)"

definition with_row :: "signed_device \<Rightarrow> js \<Rightarrow> verified_device" where
  "with_row d row = signed_device.extend d \<lparr>vd_row = row\<rparr>"

fun trusted_rows ::
  "(string \<times> js) list \<Rightarrow> (string \<times> signed_device) list \<Rightarrow> directory_error + (string \<times> verified_device) list" where
  "trusted_rows rows [] = Inr []"
| "trusted_rows rows ((i, d) # ds) =
     (case map_of rows i of
        None \<Rightarrow> Inl (TrustedNotApproved i)
      | Some row \<Rightarrow>
          if js_prop (Some row) ''status'' \<noteq> Some (JStr ''approved'') \<or> \<not> subjectMatchesRow d row
          then Inl (TrustedNotApproved i)
          else (case trusted_rows rows ds of Inl err \<Rightarrow> Inl err | Inr out \<Rightarrow> Inr ((i, with_row d row) # out)))"

definition ever_rows ::
  "(string \<times> js) list \<Rightarrow> (string \<times> verified_device) list \<Rightarrow> (string \<times> signed_device) list
   \<Rightarrow> (string \<times> verified_device) list" where
  "ever_rows rows trusted ever =
     map (\<lambda>(i, d). (i, case map_of trusted i of
                        Some v \<Rightarrow> v
                      | None \<Rightarrow> with_row d (case map_of rows i of Some row \<Rightarrow> row | None \<Rightarrow> PLACEHOLDER_ROW i))) ever"

text \<open>The rows sorted into untrusted, pending and revoked ones.\<close>

fun sort_rows ::
  "walk_state \<Rightarrow> js list \<Rightarrow> directory_error + (js list \<times> js list \<times> js list)" where
  "sort_rows w [] = Inr ([], [], [])"
| "sort_rows w (d # ds) =
     (let i = (case js_prop (Some d) ''device_id'' of Some (JStr i) \<Rightarrow> i | _ \<Rightarrow> []) in
      if js_prop (Some d) ''status'' = Some (JStr ''pending'')
      then (if i \<in> fst ` set (ws_ever w) then Inl (PendingInLog i)
            else (case sort_rows w ds of Inl err \<Rightarrow> Inl err | Inr (u, p, r) \<Rightarrow> Inr (u, d # p, r)))
      else (case sort_rows w ds of
              Inl err \<Rightarrow> Inl err
            | Inr (u, p, r) \<Rightarrow>
                if i \<in> set (ws_revoked w) then Inr (u, p, d # r)
                else if i \<notin> fst ` set (ws_trusted w) then Inr (d # u, p, r)
                else Inr (u, p, r)))"

definition retired_hints :: "js option \<Rightarrow> (string \<times> verified_device) list \<Rightarrow> string list" where
  "retired_hints v trusted =
     (let hints = (case v of Some (JArr xs) \<Rightarrow> xs | _ \<Rightarrow> []);
          ids = List.map_filter (\<lambda>h. js_string (Some h)) hints
      in rev (remdups (rev (filter (\<lambda>i. case map_of trusted i of Some d \<Rightarrow> sd_kind d = Bridge | None \<Rightarrow> False) ids))))"

text \<open>What follows the walk: the head, the epoch, the pins, the rows, the chain.\<close>

definition finish_chain ::
  "js option \<Rightarrow> string \<Rightarrow> device_pins option \<Rightarrow> nat \<Rightarrow> js list \<Rightarrow> walk_state \<Rightarrow> directory_error + verified_chain" where
  "finish_chain dir userId pins version devices w =
     (case ws_root w of
        None \<Rightarrow> Inl EmptyLog
      | Some rootd \<Rightarrow>
          if js_prop dir ''head_hash'' \<noteq> Some (JStr (ws_prev w)) then Inl HeadHashDiffers
          else if js_prop dir ''current_epoch'' \<noteq> Some (JNum (Fin (of_nat (ws_epoch w)))) then Inl CurrentEpochDiffers
          else
            (case pin_error pins version (ws_hashes w) of
               Some err \<Rightarrow> Inl err
             | None \<Rightarrow>
                 (case read_rows devices [] of
                    Inl err \<Rightarrow> Inl err
                  | Inr rows \<Rightarrow>
                      (case trusted_rows rows (ws_trusted w) of
                         Inl err \<Rightarrow> Inl err
                       | Inr trusted \<Rightarrow>
                           (case sort_rows w devices of
                              Inl err \<Rightarrow> Inl err
                            | Inr (untrusted, pending, revoked) \<Rightarrow>
                                (case vaultIdFor (sd_sign_pub rootd) of
                                   Inl err \<Rightarrow> Inl (BadKey err)
                                 | Inr vaultId \<Rightarrow>
                                     (let ch =
                                        \<lparr>vc_userId = userId, vc_rootDeviceId = sd_device_id rootd,
                                         vc_rootSignPub = sd_sign_pub rootd, vc_rootSignAlg = sd_sign_alg rootd,
                                         vc_vaultId = vaultId, vc_version = version, vc_headHash = ws_prev w,
                                         vc_logHashes = ws_hashes w, vc_currentEpoch = ws_epoch w,
                                         vc_genesis = ws_genesis w, vc_trusted = trusted,
                                         vc_ever = ever_rows rows trusted (ws_ever w), vc_revokedIds = ws_revoked w,
                                         vc_untrusted = untrusted, vc_pending = pending, vc_revoked = revoked,
                                         vc_commits = ws_commits w, vc_epochs = ws_epochs w,
                                         vc_retiredHints = retired_hints (js_prop dir ''retired_hints'') trusted\<rparr>
                                      in case checkAgainstPins pins (pinsFromChain ch) of
                                           Some err \<Rightarrow> Inl (PinViolation err) | None \<Rightarrow> Inr ch)))))))"

definition verifyDirectory ::
  "sign_crypto \<Rightarrow> js option \<Rightarrow> string \<Rightarrow> device_pins option \<Rightarrow> directory_error + verified_chain" where
  "verifyDirectory C dir userId pins =
     (case (js_prop dir ''devices'', js_prop dir ''log'') of
        (Some (JArr devices), Some (JArr ops)) \<Rightarrow>
          (case safe_int (js_prop dir ''version'') of
             None \<Rightarrow> Inl MalformedVersion
           | Some version \<Rightarrow>
               if version < 1 then Inl MalformedVersion
               else if int (length ops) \<noteq> version then Inl LogLengthDiffers
               else (case walk_log C (js_prop dir ''root_device_id'') userId pins ops walk_start of
                       Inl err \<Rightarrow> Inl err
                     | Inr w \<Rightarrow> finish_chain dir userId pins (length ops) devices w))
      | _ \<Rightarrow> Inl MalformedDirectory)"

section \<open>Operations of a verified chain\<close>

definition nextLogSlot :: "verified_chain \<Rightarrow> string \<times> string" where
  "nextLogSlot ch = (show_nat (vc_version ch + 1), vc_headHash ch)"

definition wrapRecipients :: "verified_chain \<Rightarrow> verified_device list" where
  "wrapRecipients ch = filter (\<lambda>d. receivesWrap (kindPolicy (kind_id (sd_kind d)))) (map snd (vc_trusted ch))"

definition remainingApprovers :: "verified_chain \<Rightarrow> string \<Rightarrow> string \<Rightarrow> verified_device list" where
  "remainingApprovers ch excludeId signerId =
     filter (\<lambda>d. sd_device_id d \<noteq> excludeId \<and> sd_device_id d \<noteq> signerId \<and> countsAsApprover (kindPolicy (kind_id (sd_kind d))))
       (map snd (vc_trusted ch))"

definition trustedRecoveryKeys :: "verified_chain \<Rightarrow> verified_device list" where
  "trustedRecoveryKeys ch = filter (\<lambda>d. sd_kind d = Recovery) (map snd (vc_trusted ch))"

definition trustedBridgeById :: "verified_chain \<Rightarrow> string \<Rightarrow> string \<Rightarrow> verified_device option" where
  "trustedBridgeById ch bridgeId identityPub =
     (let wanted = map lower_char (js_trim identityPub) in
      find (\<lambda>d. sd_kind d = Bridge \<and> js_prop (Some (vd_row d)) ''bridge_id'' = Some (JStr bridgeId)
                \<and> sd_device_id d \<notin> set (vc_retiredHints ch) \<and> (wanted = [] \<or> sd_sign_pub d = wanted))
        (map snd (vc_trusted ch)))"

end
