(* ===== verification/VaultLog.thy ===== *)
theory VaultLog
  imports VaultDirectory
begin

text \<open>
  What the directory log means: a specification over the list of signed operations, without the maps the walk keeps.
  The walk of \<open>VaultDirectory\<close> is shown to compute exactly this specification.
\<close>

section \<open>The specification\<close>

text \<open>A signed operation: its statement, the text of it, and the signature object.\<close>

type_synonym signed_op = "statement \<times> string \<times> string"

definition op_type :: "signed_op \<Rightarrow> string" where "op_type x = fld (fst x) ''type''"
definition op_subject :: "signed_op \<Rightarrow> string" where "op_subject x = fld (fst x) ''subject_device_id''"
definition op_issuer :: "signed_op \<Rightarrow> string" where "op_issuer x = fld (fst x) ''issuer_device_id''"
definition op_text :: "signed_op \<Rightarrow> string" where "op_text x = fst (snd x)"

definition op_device :: "nat \<times> signed_op \<Rightarrow> signed_device" where
  "op_device p = (case p of (k, st, tx, sig) \<Rightarrow> verifiedFrom st tx sig (k + 1))"

text \<open>The devices the operations approved, the ids they revoked, and those approved and not revoked.\<close>

definition approvals :: "signed_op list \<Rightarrow> signed_device list" where
  "approvals xs = map op_device (filter (\<lambda>p. op_type (snd p) \<in> {''genesis'', ''approve''}) (enumerate 0 xs))"

definition revocations :: "signed_op list \<Rightarrow> string list" where
  "revocations xs = map op_subject (filter (\<lambda>x. op_type x = ''revoke'') xs)"

definition trusted_devices :: "signed_op list \<Rightarrow> signed_device list" where
  "trusted_devices xs = filter (\<lambda>d. sd_device_id d \<notin> set (revocations xs)) (approvals xs)"

text \<open>The operations that introduced the epochs, in order, with their positions.\<close>

definition epoch_ops :: "signed_op list \<Rightarrow> (nat \<times> signed_op) list" where
  "epoch_ops xs = filter (\<lambda>p. op_type (snd p) \<in> {''genesis'', ''revoke'', ''rotate''}) (enumerate 0 xs)"

definition op_commit :: "nat \<times> signed_op \<Rightarrow> string" where
  "op_commit p = fld (fst (snd p)) ''epoch_commit''"

definition epoch_proof_of :: "nat \<times> nat \<times> signed_op \<Rightarrow> epoch_proof" where
  "epoch_proof_of q =
     (case q of (e, k, st, tx, sig) \<Rightarrow>
        \<lparr>ep_epoch = e, ep_seq = k + 1, ep_type = fld st ''type'', ep_statement = tx, ep_signature = sig,
         ep_issuer = fld st ''issuer_device_id'', ep_commit = fld st ''epoch_commit''\<rparr>)"

definition log_hashes :: "signed_op list \<Rightarrow> string list" where
  "log_hashes xs = map (\<lambda>x. logEntryHash (op_text x)) xs"

definition head_of :: "signed_op list \<Rightarrow> string" where
  "head_of xs = (if xs = [] then [] else logEntryHash (op_text (last xs)))"

text \<open>Admissible operations. Every one continues the chain of hashes of its account.\<close>

definition op_linked :: "string \<Rightarrow> signed_op list \<Rightarrow> signed_op \<Rightarrow> bool" where
  "op_linked userId xs x =
     (parseStatement (Some (op_text x)) = Some (fst x) \<and> fld (fst x) ''seq'' = show_nat (length xs + 1)
      \<and> fld (fst x) ''prev_hash'' = head_of xs \<and> fld (fst x) ''user_id'' = userId \<and> DECIMAL_RE (fld (fst x) ''issued_at_ms''))"

definition genesis_ok :: "sign_crypto \<Rightarrow> signed_op \<Rightarrow> bool" where
  "genesis_ok C x =
     (let st = fst x in
      fld st ''type'' = ''genesis'' \<and> fld st ''epoch'' = ''1'' \<and> COMMIT_RE (fld st ''epoch_commit'')
      \<and> op_issuer x = op_subject x \<and> subjectWellFormed st \<and> canApprove (kindPolicy (fld st ''subject_kind''))
      \<and> idMatchesKey st
      \<and> verifySignature C (fld st ''subject_sign_alg'') (fld st ''subject_sign_pub'') (utf8_encode (op_text x))
           (Some (JStr (snd (snd x)))))"

definition signed_by :: "sign_crypto \<Rightarrow> signed_device \<Rightarrow> signed_op \<Rightarrow> bool" where
  "signed_by C d x =
     (sd_device_id d = op_issuer x \<and> may_approve d
      \<and> verifySignature C (sd_sign_alg d) (sd_sign_pub d) (utf8_encode (op_text x)) (Some (JStr (snd (snd x)))))"

definition approves_ok :: "signed_op list \<Rightarrow> signed_op \<Rightarrow> bool" where
  "approves_ok xs x =
     (let st = fst x in
      subjectWellFormed st \<and> idMatchesKey st \<and> op_subject x \<notin> set (map sd_device_id (approvals xs))
      \<and> fld st ''epoch'' = show_nat (length (epoch_ops xs)) \<and> epoch_ops xs \<noteq> []
      \<and> fld st ''epoch_commit'' = op_commit (last (epoch_ops xs)) \<and> labelFromB64 (fld st ''subject_label_b64'') \<noteq> [])"

definition revokes_ok :: "signed_op list \<Rightarrow> signed_op \<Rightarrow> bool" where
  "revokes_ok xs x =
     (\<exists>d \<in> set (trusted_devices xs). sameSubject (fst x) d \<and> op_subject x \<noteq> op_issuer x)"

definition epoch_ok :: "signed_op list \<Rightarrow> signed_op \<Rightarrow> bool" where
  "epoch_ok xs x =
     (fld (fst x) ''epoch'' = show_nat (length (epoch_ops xs) + 1) \<and> COMMIT_RE (fld (fst x) ''epoch_commit'')
      \<and> fld (fst x) ''wrap_sha256'' = [])"

definition op_ok :: "sign_crypto \<Rightarrow> string \<Rightarrow> signed_op list \<Rightarrow> signed_op \<Rightarrow> bool" where
  "op_ok C userId xs x =
     (op_linked userId xs x
      \<and> (if xs = [] then genesis_ok C x
         else (\<exists>d \<in> set (trusted_devices xs). signed_by C d x)
              \<and> (op_type x = ''approve'' \<and> approves_ok xs x
                 \<or> op_type x = ''revoke'' \<and> revokes_ok xs x \<and> epoch_ok xs x
                 \<or> op_type x = ''rotate'' \<and> subjectEmpty (fst x) \<and> epoch_ok xs x)))"

text \<open>A log is good when each operation is admissible after the ones before it.\<close>

definition good_log :: "sign_crypto \<Rightarrow> string \<Rightarrow> signed_op list \<Rightarrow> bool" where
  "good_log C userId xs = (\<forall>k < length xs. op_ok C userId (take k xs) (xs ! k))"

section \<open>The state of the walk, from the specification\<close>

definition keyed :: "signed_device list \<Rightarrow> (string \<times> signed_device) list" where
  "keyed ds = map (\<lambda>d. (sd_device_id d, d)) ds"

definition numbered :: "'a list \<Rightarrow> (nat \<times> 'a) list" where
  "numbered xs = enumerate 1 xs"

definition log_state :: "signed_op list \<Rightarrow> walk_state" where
  "log_state xs =
     \<lparr>ws_trusted = keyed (trusted_devices xs), ws_ever = keyed (approvals xs), ws_revoked = revocations xs,
      ws_commits = map (\<lambda>(e, p). (e, op_commit p)) (numbered (epoch_ops xs)),
      ws_epochs = map (\<lambda>(e, p). (e, epoch_proof_of (e, p))) (numbered (epoch_ops xs)),
      ws_hashes = log_hashes xs,
      ws_root = (if xs = [] then None else Some (op_device (0, hd xs))),
      ws_genesis = (if xs = [] then ([], []) else snd (hd xs)),
      ws_epoch = length (epoch_ops xs), ws_prev = head_of xs\<rparr>"

section \<open>Growing the log\<close>

lemma approvals_snoc:
  "approvals (xs @ [x]) = approvals xs @ (if op_type x \<in> {''genesis'', ''approve''} then [op_device (length xs, x)] else [])"
  by (simp add: approvals_def enumerate_append_eq)

lemma revocations_snoc:
  "revocations (xs @ [x]) = revocations xs @ (if op_type x = ''revoke'' then [op_subject x] else [])"
  by (simp add: revocations_def)

lemma epoch_ops_snoc:
  "epoch_ops (xs @ [x]) = epoch_ops xs @ (if op_type x \<in> {''genesis'', ''revoke'', ''rotate''} then [(length xs, x)] else [])"
  by (simp add: epoch_ops_def enumerate_append_eq)

lemma numbered_snoc: "numbered (xs @ [x]) = numbered xs @ [(length xs + 1, x)]"
  by (simp add: numbered_def enumerate_append_eq)

lemma log_hashes_snoc: "log_hashes (xs @ [x]) = log_hashes xs @ [logEntryHash (op_text x)]"
  by (simp add: log_hashes_def)

lemma log_Nil [simp]:
  "approvals [] = []" "revocations [] = []" "epoch_ops [] = []" "trusted_devices [] = []" "numbered [] = []"
  "log_hashes [] = []" "keyed [] = []"
  by (simp_all add: approvals_def revocations_def epoch_ops_def trusted_devices_def numbered_def log_hashes_def keyed_def)

lemma good_log_snoc: "good_log C u (xs @ [x]) \<longleftrightarrow> good_log C u xs \<and> op_ok C u xs x"
  by (auto simp: good_log_def less_Suc_eq nth_append)

lemma good_log_Nil [simp]: "good_log C u []"
  by (simp add: good_log_def)

section \<open>What a good log keeps\<close>

lemma id_op_device [simp]: "sd_device_id (op_device (k, x)) = op_subject x"
  by (cases x) (simp add: op_device_def verifiedFrom_def op_subject_def)

lemma later_type: "op_ok C u xs x \<Longrightarrow> xs \<noteq> [] \<Longrightarrow> op_type x \<in> {''approve'', ''revoke'', ''rotate''}"
  by (auto simp: op_ok_def)

lemma first_type: "op_ok C u [] x \<Longrightarrow> op_type x = ''genesis''"
  by (simp add: op_ok_def genesis_ok_def op_type_def Let_def)

lemma trusted_subset: "d \<in> set (trusted_devices xs) \<longleftrightarrow> d \<in> set (approvals xs) \<and> sd_device_id d \<notin> set (revocations xs)"
  by (auto simp: trusted_devices_def)

lemma good_log_facts:
  "good_log C u xs \<Longrightarrow>
     distinct (map sd_device_id (approvals xs)) \<and> set (revocations xs) \<subseteq> set (map sd_device_id (approvals xs))
     \<and> distinct (revocations xs) \<and> (xs \<noteq> [] \<longrightarrow> epoch_ops xs \<noteq> [])"
proof (induction xs rule: rev_induct)
  case (snoc x xs)
  then have good: "good_log C u xs" and ok: "op_ok C u xs x" by (simp_all add: good_log_snoc)
  note ih = snoc.IH [OF good]
  show ?case
  proof (cases "xs = []")
    case True
    then show ?thesis using first_type [of C u x] ok by (simp add: approvals_def revocations_def epoch_ops_def)
  next
    case False
    note type = later_type [OF ok False]
    have fresh: "op_subject x \<notin> set (map sd_device_id (approvals xs))" if "op_type x = ''approve''"
      using ok False that by (auto simp: op_ok_def approves_ok_def Let_def)
    have live: "op_subject x \<in> set (map sd_device_id (approvals xs)) \<and> op_subject x \<notin> set (revocations xs)"
      if "op_type x = ''revoke''"
      using ok False that by (auto simp: op_ok_def revokes_ok_def sameSubject_def op_subject_def trusted_subset)
    show ?thesis
      using ih type fresh live False by (auto simp: approvals_snoc revocations_snoc epoch_ops_snoc)
  qed
qed simp

lemmas good_distinct = good_log_facts [THEN conjunct1]
lemmas good_revoked = good_log_facts [THEN conjunct2, THEN conjunct1]
lemmas good_revoked_distinct = good_log_facts [THEN conjunct2, THEN conjunct2, THEN conjunct1]
lemmas good_epochs = good_log_facts [THEN conjunct2, THEN conjunct2, THEN conjunct2, THEN mp]

lemma distinct_trusted: "good_log C u xs \<Longrightarrow> distinct (map sd_device_id (trusted_devices xs))"
  unfolding trusted_devices_def by (rule distinct_map_filter) (rule good_distinct)

lemma trusted_unique:
  "good_log C u xs \<Longrightarrow> d \<in> set (trusted_devices xs) \<Longrightarrow> e \<in> set (trusted_devices xs)
   \<Longrightarrow> sd_device_id d = sd_device_id e \<Longrightarrow> d = e"
  using distinct_trusted by (auto simp: distinct_map dest: inj_onD)

lemma approval_unique:
  "good_log C u xs \<Longrightarrow> d \<in> set (approvals xs) \<Longrightarrow> e \<in> set (approvals xs) \<Longrightarrow> sd_device_id d = sd_device_id e \<Longrightarrow> d = e"
  using good_distinct by (auto simp: distinct_map dest: inj_onD)

lemma map_of_keyed:
  "distinct (map sd_device_id ds) \<Longrightarrow> map_of (keyed ds) i = Some d \<longleftrightarrow> d \<in> set ds \<and> sd_device_id d = i"
proof (induction ds)
  case (Cons a ds)
  then have "d \<in> set ds \<Longrightarrow> sd_device_id d \<noteq> sd_device_id a" by (metis distinct.simps(2) image_eqI list.set_map list.simps(9))
  with Cons show ?case by (auto simp: keyed_def)
qed (simp add: keyed_def)

lemma map_of_keyed_None: "map_of (keyed ds) i = None \<longleftrightarrow> i \<notin> set (map sd_device_id ds)"
  by (induction ds) (auto simp: keyed_def)

lemma keys_keyed [simp]: "fst ` set (keyed ds) = set (map sd_device_id ds)"
  by (auto simp: keyed_def image_image)

lemma keyed_snoc: "keyed (ds @ [d]) = keyed ds @ [(sd_device_id d, d)]"
  by (simp add: keyed_def)

lemma delete_keyed: "map_delete i (keyed ds) = keyed (filter (\<lambda>d. sd_device_id d \<noteq> i) ds)"
  by (induction ds) (auto simp: map_delete_def keyed_def)

lemma numbered_fst [simp]: "fst ` set (map (\<lambda>(e, p). (e, f e p)) (numbered xs)) = {1..length xs}"
proof -
  have "map fst (map (\<lambda>(e, p). (e, f e p)) (numbered xs)) = map fst (numbered xs)"
    by (auto simp: split_def comp_def)
  then have "fst ` set (map (\<lambda>(e, p). (e, f e p)) (numbered xs)) = set [1..<Suc (length xs)]"
    by (metis (no_types, lifting) list.set_map map_fst_enumerate numbered_def add.commute plus_1_eq_Suc)
  then show ?thesis by auto
qed

lemma map_of_numbered:
  "map_of (map (\<lambda>(e, p). (e, f e p)) (numbered xs)) k = (if 1 \<le> k \<and> k \<le> length xs then Some (f k (xs ! (k - 1))) else None)"
proof (induction xs rule: rev_induct)
  case (snoc x xs)
  then show ?case by (auto simp: numbered_snoc map_add_def nth_append split: option.splits)
qed simp

section \<open>The walk computes the specification\<close>

text \<open>An entry of the log and the operation it holds.\<close>

definition entry_is :: "sign_crypto \<Rightarrow> nat \<Rightarrow> js \<Rightarrow> signed_op \<Rightarrow> bool" where
  "entry_is C seq e x =
     (js_prop (Some e) ''seq'' = Some (JNum (Fin (of_nat seq))) \<and> js_prop (Some e) ''statement'' = Some (JStr (op_text x))
      \<and> snd (snd x) = signatureObjectText C (js_prop (Some e) ''signature''))"

definition root_ok :: "js option \<Rightarrow> device_pins option \<Rightarrow> signed_op \<Rightarrow> bool" where
  "root_ok rootId pins x =
     (rootId = Some (JStr (op_subject x))
      \<and> (case pins of None \<Rightarrow> True
         | Some p \<Rightarrow> fld (fst x) ''subject_sign_pub'' = dp_root_sign_pub p \<and> op_subject x = dp_root_device_id p))"

lemma read_op_state:
  "read_op u e (log_state xs) (length xs + 1) = Inr (st, tx) \<longleftrightarrow>
     entry_is C (length xs + 1) e (st, tx, signatureObjectText C (js_prop (Some e) ''signature''))
     \<and> op_linked u xs (st, tx, sig)"
proof -
  have truthy: "js_prop (Some e) k = Some v \<Longrightarrow> js_truthy (Some e)" for k v by (cases e) auto
  show ?thesis
  proof (cases "js_prop (Some e) ''statement''")
    case None
    then show ?thesis by (simp add: read_op_def entry_is_def)
  next
    case (Some v)
    show ?thesis
    proof (cases v)
      case (JStr t)
      show ?thesis
      proof (cases "parseStatement (Some t)")
        case None
        with Some JStr show ?thesis by (auto simp: read_op_def entry_is_def op_linked_def op_text_def)
      next
        case parsed: (Some st')
        have "read_op u e (log_state xs) (length xs + 1) = Inr (st, tx) \<longleftrightarrow>
            js_prop (Some e) ''seq'' = Some (JNum (Fin (of_nat (length xs + 1))))
            \<and> fld st' ''seq'' = show_nat (length xs + 1) \<and> fld st' ''prev_hash'' = head_of xs \<and> fld st' ''user_id'' = u
            \<and> DECIMAL_RE (fld st' ''issued_at_ms'') \<and> st = st' \<and> tx = t"
          using Some JStr parsed truthy [of "''statement''"] by (auto simp: read_op_def log_state_def)
        then show ?thesis
          using Some JStr parsed by (auto simp: entry_is_def op_linked_def op_text_def)
      qed
    qed (use Some in \<open>simp_all add: read_op_def entry_is_def\<close>)
  qed
qed

definition core_after :: "signed_op list \<Rightarrow> signed_op \<Rightarrow> walk_state" where
  "core_after xs x = (log_state (xs @ [x]))\<lparr>ws_prev := head_of xs, ws_hashes := log_hashes xs\<rparr>"

lemma core_then_hash:
  "(core_after xs x)\<lparr>ws_prev := logEntryHash (op_text x), ws_hashes := log_hashes xs @ [logEntryHash (op_text x)]\<rparr>
   = log_state (xs @ [x])"
  by (simp add: core_after_def log_state_def log_hashes_snoc head_of_def)

lemma op_parts [simp]:
  "op_type (st, tx, sig) = fld st ''type''" "op_subject (st, tx, sig) = fld st ''subject_device_id''"
  "op_issuer (st, tx, sig) = fld st ''issuer_device_id''" "op_text (st, tx, sig) = tx"
  "op_commit (k, st, tx, sig) = fld st ''epoch_commit''"
  by (simp_all add: op_type_def op_subject_def op_issuer_def op_text_def op_commit_def)

lemma op_device_parts: "op_device (k, st, tx, sig) = verifiedFrom st tx sig (k + 1)"
  by (simp add: op_device_def)

lemma map_set_empty [simp]: "map_set k v [] = [(k, v)]"
  by (simp add: map_set_def)

lemma core_first:
  assumes "fld st ''type'' = ''genesis''"
  shows "core_after [] (st, tx, sig) =
    walk_start\<lparr>ws_root := Some (verifiedFrom st tx sig 1),
      ws_trusted := [(fld st ''subject_device_id'', verifiedFrom st tx sig 1)],
      ws_ever := [(fld st ''subject_device_id'', verifiedFrom st tx sig 1)], ws_genesis := (tx, sig), ws_epoch := 1,
      ws_commits := [(1, fld st ''epoch_commit'')],
      ws_epochs := [(1, \<lparr>ep_epoch = 1, ep_seq = 1, ep_type = ''genesis'', ep_statement = tx, ep_signature = sig,
                         ep_issuer = fld st ''issuer_device_id'', ep_commit = fld st ''epoch_commit''\<rparr>)]\<rparr>"
  using assms
  by (simp add: core_after_def log_state_def walk_start_def approvals_def revocations_def epoch_ops_def trusted_devices_def
      numbered_def keyed_def epoch_proof_of_def op_device_parts head_of_def log_hashes_def verifiedFrom_def)

lemma log_state_Nil: "log_state [] = walk_start"
  by (simp add: log_state_def walk_start_def head_of_def)

lemma id_verifiedFrom [simp]: "sd_device_id (verifiedFrom st tx sig k) = fld st ''subject_device_id''"
  by (simp add: verifiedFrom_def)

lemma genesis_state:
  "genesis_op C rootId pins st tx sig (log_state []) = Inr w \<longleftrightarrow>
     genesis_ok C (st, tx, sig) \<and> root_ok rootId pins (st, tx, sig) \<and> w = core_after [] (st, tx, sig)"
proof (cases "fld st ''type'' = ''genesis'' \<and> fld st ''issuer_device_id'' = fld st ''subject_device_id''")
  case False
  then show ?thesis by (auto simp: genesis_op_def genesis_ok_def Let_def)
next
  case True
  have after: "core_after [] (st, tx, sig) = (let d = verifiedFrom st tx sig 1; w = log_state [] in
      w\<lparr>ws_root := Some d, ws_trusted := map_set (sd_device_id d) d (ws_trusted w),
        ws_ever := map_set (sd_device_id d) d (ws_ever w), ws_genesis := (tx, sig), ws_epoch := 1,
        ws_commits := map_set 1 (fld st ''epoch_commit'') (ws_commits w),
        ws_epochs := map_set 1 \<lparr>ep_epoch = 1, ep_seq = 1, ep_type = ''genesis'', ep_statement = tx, ep_signature = sig,
          ep_issuer = sd_device_id d, ep_commit = fld st ''epoch_commit''\<rparr> (ws_epochs w)\<rparr>)"
    using True by (simp add: core_first log_state_Nil walk_start_def Let_def)
  define w1 where "w1 = core_after [] (st, tx, sig)"
  show ?thesis
    unfolding genesis_op_def w1_def [symmetric] after [unfolded Let_def, folded w1_def, symmetric] Let_def
    using True by (auto simp: genesis_ok_def root_ok_def idMatchesKey_def Let_def split: if_splits sum.splits option.splits)
qed

lemma core_approve:
  assumes "good_log C u xs" and "xs \<noteq> []" and "fld st ''type'' = ''approve''"
    and fresh: "fld st ''subject_device_id'' \<notin> set (map sd_device_id (approvals xs))"
  shows "core_after xs (st, tx, sig) =
    (log_state xs)\<lparr>ws_trusted := ws_trusted (log_state xs) @ [(fld st ''subject_device_id'', verifiedFrom st tx sig (length xs + 1))],
                  ws_ever := ws_ever (log_state xs) @ [(fld st ''subject_device_id'', verifiedFrom st tx sig (length xs + 1))]\<rparr>"
proof -
  have unrevoked: "fld st ''subject_device_id'' \<notin> set (revocations xs)"
    using good_revoked [OF assms(1)] fresh by auto
  have "trusted_devices (xs @ [(st, tx, sig)]) = trusted_devices xs @ [verifiedFrom st tx sig (length xs + 1)]"
    using assms(3) unrevoked by (simp add: trusted_devices_def approvals_snoc revocations_snoc op_device_parts)
  then show ?thesis
    using assms(2, 3) by (simp add: core_after_def log_state_def approvals_snoc revocations_snoc epoch_ops_snoc keyed_snoc op_device_parts)
qed

lemma approve_state:
  assumes good: "good_log C u xs" and "xs \<noteq> []" and "fld st ''type'' = ''approve''"
  shows "approve_op st tx sig (length xs + 1) (log_state xs) = Inr w \<longleftrightarrow>
    approves_ok xs (st, tx, sig) \<and> w = core_after xs (st, tx, sig)"
proof -
  have ops: "epoch_ops xs \<noteq> []" using good_epochs [OF good assms(2)] .
  have commit: "map_of (ws_commits (log_state xs)) (ws_epoch (log_state xs)) = Some (op_commit (last (epoch_ops xs)))"
    using ops by (cases "epoch_ops xs" rule: rev_cases) (simp_all add: log_state_def map_of_numbered)
  show ?thesis
  proof (cases "fld st ''subject_device_id'' \<in> set (map sd_device_id (approvals xs))")
    case True
    then have "fld st ''subject_device_id'' \<in> fst ` set (ws_ever (log_state xs))" by (simp add: log_state_def)
    with True show ?thesis
      by (auto simp: approve_op_def approves_ok_def Let_def split: if_splits sum.splits)
  next
    case False
    then have absent: "fld st ''subject_device_id'' \<notin> fst ` set (ws_ever (log_state xs))"
      "fld st ''subject_device_id'' \<notin> fst ` set (ws_trusted (log_state xs))"
      by (auto simp: log_state_def trusted_subset)
    have e: "ws_epoch (log_state xs) = length (epoch_ops xs)" by (simp add: log_state_def)
    show ?thesis
      unfolding approve_op_def commit core_approve [OF good assms(2, 3) False] Let_def
      using absent False ops
      by (auto simp: e approves_ok_def idMatchesKey_def map_set_new Let_def split: if_splits sum.splits)
  qed
qed

definition revoked_after :: "signed_op list \<Rightarrow> signed_op \<Rightarrow> walk_state" where
  "revoked_after xs x =
     (log_state xs)\<lparr>ws_trusted := keyed (trusted_devices (xs @ [x])), ws_revoked := revocations (xs @ [x])\<rparr>"

lemma not_numbered: "length xs + 1 \<notin> fst ` set (map (\<lambda>(e, p). (e, f e p)) (numbered xs))"
  unfolding numbered_fst by simp

lemma new_epoch_state:
  assumes "xs \<noteq> []" and "fld st ''type'' \<in> {''revoke'', ''rotate''}"
    and issuer: "sd_device_id issuer = fld st ''issuer_device_id''"
  shows "new_epoch st tx sig issuer (length xs + 1) (revoked_after xs (st, tx, sig)) = Inr w \<longleftrightarrow>
    epoch_ok xs (st, tx, sig) \<and> w = core_after xs (st, tx, sig)"
proof -
  let ?x = "(st, tx, sig)" and ?n = "length (epoch_ops xs)"
  have commits: "map_set (?n + 1) (fld st ''epoch_commit'') (ws_commits (log_state xs)) =
      ws_commits (log_state xs) @ [(?n + 1, fld st ''epoch_commit'')]"
    using not_numbered [of "epoch_ops xs" "\<lambda>e p. op_commit p"] by (simp add: log_state_def map_set_new)
  have proofs: "map_set (?n + 1) ep (ws_epochs (log_state xs)) = ws_epochs (log_state xs) @ [(?n + 1, ep)]" for ep
    using not_numbered [of "epoch_ops xs" "\<lambda>e p. epoch_proof_of (e, p)"] by (simp add: log_state_def map_set_new)
  have n: "ws_epoch (log_state xs) = ?n" by (simp add: log_state_def)
  have core: "core_after xs ?x = (revoked_after xs ?x)\<lparr>ws_epoch := ?n + 1,
      ws_commits := ws_commits (log_state xs) @ [(?n + 1, fld st ''epoch_commit'')],
      ws_epochs := ws_epochs (log_state xs) @ [(?n + 1, \<lparr>ep_epoch = ?n + 1, ep_seq = length xs + 1, ep_type = fld st ''type'',
        ep_statement = tx, ep_signature = sig, ep_issuer = fld st ''issuer_device_id'',
        ep_commit = fld st ''epoch_commit''\<rparr>)]\<rparr>"
    using assms(1, 2)
    by (auto simp: core_after_def revoked_after_def log_state_def approvals_snoc epoch_ops_snoc numbered_snoc epoch_proof_of_def)
  show ?thesis
    unfolding new_epoch_def core
    by (auto simp: epoch_ok_def revoked_after_def n commits [simplified] proofs [simplified] issuer split: if_splits)
qed

lemma revoke_subject_state:
  assumes good: "good_log C u xs" and "xs \<noteq> []" and type: "fld st ''type'' = ''revoke''"
    and issuer: "sd_device_id issuer = fld st ''issuer_device_id''"
  shows "revoke_subject st issuer seq (log_state xs) = Inr w \<longleftrightarrow>
    revokes_ok xs (st, tx, sig) \<and> w = revoked_after xs (st, tx, sig)"
proof (cases "map_of (ws_trusted (log_state xs)) (fld st ''subject_device_id'')")
  case None
  then have "fld st ''subject_device_id'' \<notin> set (map sd_device_id (trusted_devices xs))"
    by (simp add: log_state_def map_of_keyed_None)
  with None show ?thesis by (auto simp: revoke_subject_def revokes_ok_def sameSubject_def)
next
  case (Some target)
  have target: "target \<in> set (trusted_devices xs)" "sd_device_id target = fld st ''subject_device_id''"
    using Some by (simp_all add: log_state_def map_of_keyed [OF distinct_trusted [OF good]])
  have only: "d = target" if "d \<in> set (trusted_devices xs)" "sameSubject st d" for d
    using trusted_unique [OF good that(1) target(1)] that(2) target(2) by (simp add: sameSubject_def)
  then have revokes: "revokes_ok xs (st, tx, sig) \<longleftrightarrow>
      sameSubject st target \<and> fld st ''subject_device_id'' \<noteq> fld st ''issuer_device_id''"
    using target by (auto simp: revokes_ok_def)
  have "fld st ''subject_device_id'' \<notin> set (revocations xs)"
    using target by (auto simp: trusted_subset)
  moreover have "map_delete (fld st ''subject_device_id'') (keyed (trusted_devices xs)) = keyed (trusted_devices (xs @ [(st, tx, sig)]))"
    using type by (auto simp: delete_keyed trusted_devices_def approvals_snoc revocations_snoc conj_commute
        intro!: arg_cong [where f = keyed] filter_cong)
  ultimately have "(log_state xs)\<lparr>ws_trusted := map_delete (fld st ''subject_device_id'') (ws_trusted (log_state xs)),
      ws_revoked := set_add (fld st ''subject_device_id'') (ws_revoked (log_state xs))\<rparr> = revoked_after xs (st, tx, sig)"
    using type by (simp add: revoked_after_def log_state_def set_add_def revocations_snoc)
  with Some target issuer revokes show ?thesis by (auto simp: revoke_subject_def split: if_splits)
qed

lemma rotate_unchanged:
  "xs \<noteq> [] \<Longrightarrow> fld st ''type'' = ''rotate'' \<Longrightarrow> revoked_after xs (st, tx, sig) = log_state xs"
  by (simp add: revoked_after_def log_state_def trusted_devices_def approvals_snoc revocations_snoc)

lemma later_op_state:
  assumes good: "good_log C u xs" and "xs \<noteq> []" and linked: "op_linked u xs (st, tx, sig)"
  shows "later_op C st tx sig (length xs + 1) (log_state xs) = Inr w \<longleftrightarrow>
    op_ok C u xs (st, tx, sig) \<and> w = core_after xs (st, tx, sig)"
proof (cases "map_of (ws_trusted (log_state xs)) (fld st ''issuer_device_id'')")
  case None
  then have "fld st ''issuer_device_id'' \<notin> set (map sd_device_id (trusted_devices xs))"
    by (simp add: log_state_def map_of_keyed_None)
  then have "\<not> signed_by C d (st, tx, sig)" if "d \<in> set (trusted_devices xs)" for d
    using that unfolding signed_by_def op_parts by (metis image_eqI list.set_map)
  with None assms(2) show ?thesis by (auto simp: later_op_def op_ok_def)
next
  case (Some issuer)
  have issuer: "issuer \<in> set (trusted_devices xs)" "sd_device_id issuer = fld st ''issuer_device_id''"
    using Some by (simp_all add: log_state_def map_of_keyed [OF distinct_trusted [OF good]])
  have only: "d = issuer" if "d \<in> set (trusted_devices xs)" "sd_device_id d = fld st ''issuer_device_id''" for d
    using trusted_unique [OF good that(1) issuer(1)] that(2) issuer(2) by simp
  then have signed: "(\<exists>d \<in> set (trusted_devices xs). signed_by C d (st, tx, sig)) \<longleftrightarrow> signed_by C issuer (st, tx, sig)"
    using issuer(1) unfolding signed_by_def op_parts by blast
  have intro_epoch: "new_epoch st tx sig issuer (length xs + 1) (revoked_after xs (st, tx, sig)) = Inr v \<longleftrightarrow>
      epoch_ok xs (st, tx, sig) \<and> v = core_after xs (st, tx, sig)" if "fld st ''type'' \<in> {''revoke'', ''rotate''}" for v
    by (rule new_epoch_state [OF assms(2) that issuer(2)])
  have ok: "op_ok C u xs (st, tx, sig) \<longleftrightarrow> signed_by C issuer (st, tx, sig)
      \<and> (fld st ''type'' = ''approve'' \<and> approves_ok xs (st, tx, sig)
         \<or> fld st ''type'' = ''revoke'' \<and> revokes_ok xs (st, tx, sig) \<and> epoch_ok xs (st, tx, sig)
         \<or> fld st ''type'' = ''rotate'' \<and> subjectEmpty st \<and> epoch_ok xs (st, tx, sig))"
    using assms(2) linked signed by (simp add: op_ok_def)
  have run: "later_op C st tx sig (length xs + 1) (log_state xs) =
      (if fld st ''type'' = ''approve'' then approve_op st tx sig (length xs + 1) (log_state xs)
       else if fld st ''type'' = ''revoke''
       then (case revoke_subject st issuer (length xs + 1) (log_state xs) of
               Inl err \<Rightarrow> Inl err | Inr w' \<Rightarrow> new_epoch st tx sig issuer (length xs + 1) w')
       else if fld st ''type'' = ''rotate''
       then (if \<not> subjectEmpty st then Inl (RotationSubject (length xs + 1))
             else new_epoch st tx sig issuer (length xs + 1) (log_state xs))
       else Inl (UnknownOpType (length xs + 1)))" if "signed_by C issuer (st, tx, sig)"
    using that unfolding later_op_def Some signed_by_def op_parts option.case by (simp only: snd_conv simp_thms if_False not_True_eq_False if_True)
  consider "\<not> signed_by C issuer (st, tx, sig)"
    | (approve) "signed_by C issuer (st, tx, sig)" "fld st ''type'' = ''approve''"
    | (revoke) "signed_by C issuer (st, tx, sig)" "fld st ''type'' = ''revoke''"
    | (rotate) "signed_by C issuer (st, tx, sig)" "fld st ''type'' = ''rotate''"
    | (other) "signed_by C issuer (st, tx, sig)" "fld st ''type'' \<notin> {''approve'', ''revoke'', ''rotate''}"
    by (simp only: insert_iff empty_iff) metis
  then show ?thesis
  proof cases
    case 1
    then have "\<not> op_ok C u xs (st, tx, sig)" using signed assms(2) by (simp add: op_ok_def)
    moreover have "later_op C st tx sig (length xs + 1) (log_state xs) \<noteq> Inr w"
      using 1 issuer Some by (auto simp: later_op_def signed_by_def)
    ultimately show ?thesis by simp
  next
    case approve
    then show ?thesis unfolding run [OF approve(1)] ok using approve_state [OF good assms(2) approve(2)] by simp
  next
    case revoke
    have subject: "revoke_subject st issuer (length xs + 1) (log_state xs) = Inr v \<longleftrightarrow>
        revokes_ok xs (st, tx, sig) \<and> v = revoked_after xs (st, tx, sig)" for v
      by (rule revoke_subject_state [OF good assms(2) revoke(2) issuer(2)])
    show ?thesis
    proof (cases "revoke_subject st issuer (length xs + 1) (log_state xs)")
      case (Inl err)
      then have "\<not> revokes_ok xs (st, tx, sig)" using subject [of "revoked_after xs (st, tx, sig)"] by simp
      with Inl revoke show ?thesis unfolding run [OF revoke(1)] ok by simp
    next
      case (Inr v)
      with subject have v: "revokes_ok xs (st, tx, sig)" "v = revoked_after xs (st, tx, sig)" by blast+
      with Inr revoke intro_epoch [of w] show ?thesis unfolding run [OF revoke(1)] ok by simp
    qed
  next
    case rotate
    show ?thesis
      unfolding run [OF rotate(1)] ok
      using rotate intro_epoch [of w] rotate_unchanged [OF assms(2) rotate(2)]
      by simp
  next
    case other
    then show ?thesis unfolding run [OF other(1)] ok by simp
  qed
qed

lemma sum_map_Inr: "(case m of Inl e \<Rightarrow> Inl e | Inr v \<Rightarrow> Inr (f v)) = Inr w \<longleftrightarrow> (\<exists>v. m = Inr v \<and> w = f v)"
  by (auto split: sum.splits)

lemma walk_op_state:
  assumes good: "good_log C u xs"
  shows "walk_op C rootId u pins e (log_state xs) = Inr w \<longleftrightarrow>
    (\<exists>x. entry_is C (length xs + 1) e x \<and> op_ok C u xs x \<and> (xs = [] \<longrightarrow> root_ok rootId pins x) \<and> w = log_state (xs @ [x]))"
proof -
  define sig where "sig = signatureObjectText C (js_prop (Some e) ''signature'')"
  have hashes: "ws_hashes (log_state xs) = log_hashes xs" "length (log_hashes xs) = length xs"
    by (simp_all add: log_state_def log_hashes_def)
  let ?run = "\<lambda>st tx. if length xs + 1 = 1 then genesis_op C rootId pins st tx sig (log_state xs)
      else later_op C st tx sig (length xs + 1) (log_state xs)"
  have op: "?run st tx = Inr v \<longleftrightarrow>
      op_ok C u xs (st, tx, sig) \<and> (xs = [] \<longrightarrow> root_ok rootId pins (st, tx, sig)) \<and> v = core_after xs (st, tx, sig)"
    if "op_linked u xs (st, tx, sig)" for st tx v
  proof (cases "xs = []")
    case True
    then show ?thesis using that genesis_state [of C rootId pins st tx sig v] by (auto simp: op_ok_def)
  next
    case False
    then show ?thesis using later_op_state [OF good False that, of v] by simp
  qed
  have entry: "entry_is C (length xs + 1) e x \<Longrightarrow> snd (snd x) = sig" for x by (simp add: entry_is_def sig_def)
  have read: "read_op u e (log_state xs) (length xs + 1) = Inr (st, tx) \<longleftrightarrow>
      entry_is C (length xs + 1) e (st, tx, sig) \<and> op_linked u xs (st, tx, sig)" for st tx
    unfolding sig_def by (rule read_op_state)
  show ?thesis
  proof
    assume "walk_op C rootId u pins e (log_state xs) = Inr w"
    then have run: "(case read_op u e (log_state xs) (length xs + 1) of Inl err \<Rightarrow> Inl err
        | Inr (st, tx) \<Rightarrow> (case ?run st tx of Inl err \<Rightarrow> Inl err
            | Inr v \<Rightarrow> Inr (v\<lparr>ws_prev := logEntryHash tx, ws_hashes := log_hashes xs @ [logEntryHash tx]\<rparr>))) = Inr w"
      unfolding walk_op_def Let_def hashes sig_def .
    then obtain q where q: "read_op u e (log_state xs) (length xs + 1) = Inr q"
      by (cases "read_op u e (log_state xs) (length xs + 1)") (simp_all only: sum.case, blast)
    obtain st tx where parts: "q = (st, tx)" by (cases q)
    note readq = q [unfolded parts]
    from run obtain v where "?run st tx = Inr v"
      and w: "w = v\<lparr>ws_prev := logEntryHash tx, ws_hashes := log_hashes xs @ [logEntryHash tx]\<rparr>"
      unfolding q parts sum.case prod.case sum_map_Inr by blast
    with readq read op have "entry_is C (length xs + 1) e (st, tx, sig)"
      "op_ok C u xs (st, tx, sig) \<and> (xs = [] \<longrightarrow> root_ok rootId pins (st, tx, sig))" "v = core_after xs (st, tx, sig)"
      by blast+
    moreover from this(3) w have "w = log_state (xs @ [(st, tx, sig)])"
      using core_then_hash [of xs "(st, tx, sig)"] by simp
    ultimately show "\<exists>x. entry_is C (length xs + 1) e x \<and> op_ok C u xs x \<and> (xs = [] \<longrightarrow> root_ok rootId pins x)
        \<and> w = log_state (xs @ [x])" by blast
  next
    assume "\<exists>x. entry_is C (length xs + 1) e x \<and> op_ok C u xs x \<and> (xs = [] \<longrightarrow> root_ok rootId pins x)
        \<and> w = log_state (xs @ [x])"
    then obtain st tx s where x: "entry_is C (length xs + 1) e (st, tx, s)" "op_ok C u xs (st, tx, s)"
      "xs = [] \<longrightarrow> root_ok rootId pins (st, tx, s)" "w = log_state (xs @ [(st, tx, s)])" by auto
    have s: "s = sig" using entry [OF x(1)] by simp
    have linked: "op_linked u xs (st, tx, sig)" using x(2) s by (simp add: op_ok_def)
    have "read_op u e (log_state xs) (length xs + 1) = Inr (st, tx)" using read x(1) linked s by simp
    moreover have "?run st tx = Inr (core_after xs (st, tx, sig))" using op [OF linked] x(2, 3) s by simp
    ultimately have "walk_op C rootId u pins e (log_state xs) =
        Inr ((core_after xs (st, tx, sig))\<lparr>ws_prev := logEntryHash tx, ws_hashes := log_hashes xs @ [logEntryHash tx]\<rparr>)"
      unfolding walk_op_def hashes Let_def sig_def [symmetric] by simp
    then show "walk_op C rootId u pins e (log_state xs) = Inr w"
      using core_then_hash [of xs "(st, tx, sig)"] x(4) s by simp
  qed
qed

text \<open>The entries of the log, in order, hold the operations.\<close>

definition entries_are :: "sign_crypto \<Rightarrow> js list \<Rightarrow> signed_op list \<Rightarrow> bool" where
  "entries_are C es xs = (length es = length xs \<and> (\<forall>k < length xs. entry_is C (k + 1) (es ! k) (xs ! k)))"

lemma entries_are_snoc:
  "entries_are C (es @ [e]) ys \<longleftrightarrow> (\<exists>xs x. ys = xs @ [x] \<and> entries_are C es xs \<and> entry_is C (length xs + 1) e x)"
proof (cases ys rule: rev_cases)
  case (snoc xs x)
  then show ?thesis by (auto simp: entries_are_def less_Suc_eq nth_append)
qed (simp add: entries_are_def)

lemma walk_log_snoc:
  "walk_log C r u p (es @ [e]) w = (case walk_log C r u p es w of Inl err \<Rightarrow> Inl err | Inr w' \<Rightarrow> walk_op C r u p e w')"
  by (induction es arbitrary: w) (auto split: sum.splits)

lemma walk_log_state:
  "walk_log C rootId u pins es walk_start = Inr w \<longleftrightarrow>
     (\<exists>xs. entries_are C es xs \<and> good_log C u xs \<and> (xs \<noteq> [] \<longrightarrow> root_ok rootId pins (hd xs)) \<and> w = log_state xs)"
proof (induction es arbitrary: w rule: rev_induct)
  case Nil
  show ?case by (auto simp: entries_are_def log_state_Nil)
next
  case (snoc e es)
  have "walk_log C rootId u pins (es @ [e]) walk_start = Inr w \<longleftrightarrow>
      (\<exists>v. walk_log C rootId u pins es walk_start = Inr v \<and> walk_op C rootId u pins e v = Inr w)"
    by (auto simp: walk_log_snoc split: sum.splits)
  also have "\<dots> \<longleftrightarrow> (\<exists>xs. entries_are C es xs \<and> good_log C u xs \<and> (xs \<noteq> [] \<longrightarrow> root_ok rootId pins (hd xs))
      \<and> walk_op C rootId u pins e (log_state xs) = Inr w)"
    unfolding snoc.IH by blast
  also have "\<dots> \<longleftrightarrow> (\<exists>xs x. entries_are C es xs \<and> good_log C u xs \<and> (xs \<noteq> [] \<longrightarrow> root_ok rootId pins (hd xs))
      \<and> entry_is C (length xs + 1) e x \<and> op_ok C u xs x \<and> (xs = [] \<longrightarrow> root_ok rootId pins x) \<and> w = log_state (xs @ [x]))"
    using walk_op_state by blast
  also have "\<dots> \<longleftrightarrow> (\<exists>ys. entries_are C (es @ [e]) ys \<and> good_log C u ys \<and> (ys \<noteq> [] \<longrightarrow> root_ok rootId pins (hd ys))
      \<and> w = log_state ys)"
  proof -
    have hd: "root_ok rootId pins (hd (xs @ [x])) \<longleftrightarrow>
        (xs \<noteq> [] \<longrightarrow> root_ok rootId pins (hd xs)) \<and> (xs = [] \<longrightarrow> root_ok rootId pins x)" for xs x
      by (cases xs) auto
    show ?thesis unfolding entries_are_snoc
    proof (intro iffI; elim exE conjE)
      fix xs x
      assume "entries_are C es xs" "good_log C u xs" "xs \<noteq> [] \<longrightarrow> root_ok rootId pins (hd xs)"
        "entry_is C (length xs + 1) e x" "op_ok C u xs x" "xs = [] \<longrightarrow> root_ok rootId pins x" "w = log_state (xs @ [x])"
      then show "\<exists>ys. (\<exists>xs x. ys = xs @ [x] \<and> entries_are C es xs \<and> entry_is C (length xs + 1) e x) \<and> good_log C u ys
          \<and> (ys \<noteq> [] \<longrightarrow> root_ok rootId pins (hd ys)) \<and> w = log_state ys"
        by (intro exI [of _ "xs @ [x]"]) (simp only: hd good_log_snoc, blast)
    next
      fix ys xs x
      assume "good_log C u ys" "ys \<noteq> [] \<longrightarrow> root_ok rootId pins (hd ys)" "w = log_state ys" "ys = xs @ [x]"
        "entries_are C es xs" "entry_is C (length xs + 1) e x"
      then show "\<exists>xs x. entries_are C es xs \<and> good_log C u xs \<and> (xs \<noteq> [] \<longrightarrow> root_ok rootId pins (hd xs))
          \<and> entry_is C (length xs + 1) e x \<and> op_ok C u xs x \<and> (xs = [] \<longrightarrow> root_ok rootId pins x) \<and> w = log_state (xs @ [x])"
        using hd [of xs x] by (intro exI [of _ xs] exI [of _ x]) (simp add: good_log_snoc)
    qed
  qed
  finally show ?case .
qed

text \<open>
  C8. The loop over the log implements the specification: it accepts exactly the entries that spell a good log whose
  first operation is the announced and pinned root, and the state it ends with is the one the specification reads off
  that log (trusted devices, approvals, revocations, commitments, epochs, hashes).
\<close>

theorem walk_accepts_good_logs:
  "walk_log C rootId u pins es walk_start = Inr w \<longleftrightarrow>
     (\<exists>xs. entries_are C es xs \<and> good_log C u xs \<and> (xs = [] \<or> root_ok rootId pins (hd xs)) \<and> w = log_state xs)"
  unfolding walk_log_state by blast

end
