(* ===== verification/VaultLogProps.thy ===== *)
theory VaultLogProps
  imports VaultLog
begin

text \<open>
  What a verified directory guarantees: it is a good log, and a directory verified against the pins of an earlier one
  extends the log of that one, so that a revocation is for ever.
\<close>

section \<open>A verified chain and its log\<close>

definition unrowed :: "(string \<times> verified_device) list \<Rightarrow> (string \<times> signed_device) list" where
  "unrowed vs = map (\<lambda>(i, v). (i, signed_device.truncate v)) vs"

definition chain_of :: "sign_crypto \<Rightarrow> string \<Rightarrow> verified_chain \<Rightarrow> signed_op list \<Rightarrow> bool" where
  "chain_of C userId ch xs =
     (xs \<noteq> [] \<and> good_log C userId xs \<and> vc_userId ch = userId \<and> vc_version ch = length xs
      \<and> vc_logHashes ch = log_hashes xs \<and> vc_headHash ch = head_of xs
      \<and> vc_currentEpoch ch = length (epoch_ops xs)
      \<and> vc_commits ch = map (\<lambda>(e, p). (e, op_commit p)) (numbered (epoch_ops xs))
      \<and> vc_epochs ch = map (\<lambda>(e, p). (e, epoch_proof_of (e, p))) (numbered (epoch_ops xs))
      \<and> unrowed (vc_trusted ch) = keyed (trusted_devices xs) \<and> unrowed (vc_ever ch) = keyed (approvals xs)
      \<and> vc_revokedIds ch = revocations xs \<and> vc_genesis ch = snd (hd xs)
      \<and> vc_rootDeviceId ch = op_subject (hd xs) \<and> vc_rootSignPub ch = fld (fst (hd xs)) ''subject_sign_pub''
      \<and> vc_rootSignAlg ch = fld (fst (hd xs)) ''subject_sign_alg'' \<and> vaultIdFor (vc_rootSignPub ch) = Inr (vc_vaultId ch))"

lemma truncate_with_row [simp]: "signed_device.truncate (with_row d row) = d"
  by (cases d) (simp add: with_row_def signed_device.defs)

lemma trusted_rows_unrowed: "trusted_rows rows ds = Inr out \<Longrightarrow> unrowed out = ds"
  by (induction rows ds arbitrary: out rule: trusted_rows.induct)
    (auto simp: unrowed_def split: option.splits if_splits sum.splits)

lemma map_of_unrowed: "map_of (unrowed vs) i = map_option signed_device.truncate (map_of vs i)"
  by (induction vs) (auto simp: unrowed_def)

lemma ever_rows_unrowed:
  assumes "\<forall>(i, d) \<in> set ever. \<forall>v. map_of trusted i = Some v \<longrightarrow> signed_device.truncate v = d"
  shows "unrowed (ever_rows rows trusted ever) = ever"
  using assms by (induction ever) (auto simp: unrowed_def ever_rows_def split: option.splits)

lemma finish_chain_of:
  assumes good: "good_log C u xs" and fin: "finish_chain dir u pins (length xs) devices (log_state xs) = Inr ch"
  shows "chain_of C u ch xs \<and> pin_error pins (length xs) (log_hashes xs) = None \<and> checkAgainstPins pins (pinsFromChain ch) = None"
proof -
  have ne: "xs \<noteq> []" using fin by (auto simp: finish_chain_def log_state_def)
  obtain rows trusted un pe re vid where r: "read_rows devices [] = Inr rows"
    and t: "trusted_rows rows (keyed (trusted_devices xs)) = Inr trusted"
    and v: "vaultIdFor (sd_sign_pub (op_device (0, hd xs))) = Inr vid"
    and p: "pin_error pins (length xs) (log_hashes xs) = None" "checkAgainstPins pins (pinsFromChain ch) = None"
    and ch: "ch = \<lparr>vc_userId = u, vc_rootDeviceId = sd_device_id (op_device (0, hd xs)),
          vc_rootSignPub = sd_sign_pub (op_device (0, hd xs)), vc_rootSignAlg = sd_sign_alg (op_device (0, hd xs)),
          vc_vaultId = vid, vc_version = length xs, vc_headHash = head_of xs, vc_logHashes = log_hashes xs,
          vc_currentEpoch = length (epoch_ops xs), vc_genesis = snd (hd xs), vc_trusted = trusted,
          vc_ever = ever_rows rows trusted (keyed (approvals xs)), vc_revokedIds = revocations xs,
          vc_untrusted = un, vc_pending = pe, vc_revoked = re,
          vc_commits = map (\<lambda>(e, p). (e, op_commit p)) (numbered (epoch_ops xs)),
          vc_epochs = map (\<lambda>(e, p). (e, epoch_proof_of (e, p))) (numbered (epoch_ops xs)),
          vc_retiredHints = retired_hints (js_prop dir ''retired_hints'') trusted\<rparr>"
    using fin ne by (auto simp: finish_chain_def log_state_def Let_def split: if_splits option.splits sum.splits prod.splits)
  have un: "unrowed trusted = keyed (trusted_devices xs)" using trusted_rows_unrowed [OF t] .
  have "unrowed (vc_ever ch) = keyed (approvals xs)"
  proof -
    have "signed_device.truncate v = d" if "d \<in> set (approvals xs)" "map_of trusted (sd_device_id d) = Some v" for d v
    proof -
      have "map_of (keyed (trusted_devices xs)) (sd_device_id d) = Some (signed_device.truncate v)"
        using that(2) by (simp add: un [symmetric] map_of_unrowed)
      then have "signed_device.truncate v \<in> set (approvals xs)" "sd_device_id (signed_device.truncate v) = sd_device_id d"
        by (simp_all add: map_of_keyed [OF distinct_trusted [OF good]] trusted_subset)
      then show ?thesis using approval_unique [OF good _ that(1)] by blast
    qed
    then have "\<forall>(i, d) \<in> set (keyed (approvals xs)). \<forall>v. map_of trusted i = Some v \<longrightarrow> signed_device.truncate v = d"
      by (auto simp: keyed_def)
    from ever_rows_unrowed [OF this] show ?thesis by (simp add: ch)
  qed
  moreover obtain st tx sig where "hd xs = (st, tx, sig)" by (cases "hd xs")
  ultimately show ?thesis
    using ne good un v p unfolding ch by (simp add: chain_of_def op_device_parts verifiedFrom_def)
qed

lemma verified_chain_of:
  assumes "verifyDirectory C dir u pins = Inr ch"
  shows "\<exists>ops xs. js_prop dir ''log'' = Some (JArr ops) \<and> entries_are C ops xs \<and> chain_of C u ch xs
    \<and> root_ok (js_prop dir ''root_device_id'') pins (hd xs) \<and> pin_error pins (length xs) (log_hashes xs) = None"
proof -
  obtain devices ops w where log: "js_prop dir ''log'' = Some (JArr ops)"
    and walk: "walk_log C (js_prop dir ''root_device_id'') u pins ops walk_start = Inr w"
    and fin: "finish_chain dir u pins (length ops) devices w = Inr ch"
    using assms by (auto simp: verifyDirectory_def split: option.splits js.splits if_splits sum.splits)
  obtain xs where xs: "entries_are C ops xs" "good_log C u xs" "w = log_state xs"
    "xs \<noteq> [] \<longrightarrow> root_ok (js_prop dir ''root_device_id'') pins (hd xs)"
    using walk unfolding walk_log_state by blast
  have "length ops = length xs" using xs(1) by (simp add: entries_are_def)
  with finish_chain_of [OF xs(2)] fin xs(3) have "chain_of C u ch xs" "pin_error pins (length xs) (log_hashes xs) = None"
    by auto
  moreover from this(1) have "xs \<noteq> []" by (simp add: chain_of_def)
  ultimately show ?thesis using log xs(1, 4) by blast
qed

section \<open>What the statements alone decide\<close>

definition is_type :: "string list \<Rightarrow> statement \<Rightarrow> bool" where
  "is_type ts st = (fld st ''type'' \<in> set ts)"

lemma revocations_statements:
  "revocations xs = map (\<lambda>st. fld st ''subject_device_id'') (filter (is_type [''revoke'']) (map fst xs))"
  by (induction xs rule: rev_induct) (simp_all add: revocations_snoc is_type_def op_type_def op_subject_def)

lemma approval_statements:
  "map sd_device_id (approvals xs) =
     map (\<lambda>st. fld st ''subject_device_id'') (filter (is_type [''genesis'', ''approve'']) (map fst xs))"
  by (induction xs rule: rev_induct) (simp_all add: approvals_snoc is_type_def op_type_def op_subject_def)

lemma commit_statements:
  "map op_commit (epoch_ops xs) =
     map (\<lambda>st. fld st ''epoch_commit'') (filter (is_type [''genesis'', ''revoke'', ''rotate'']) (map fst xs))"
  by (induction xs rule: rev_induct) (simp_all add: epoch_ops_snoc is_type_def op_type_def op_commit_def)

lemma good_log_op: "good_log C u xs \<Longrightarrow> k < length xs \<Longrightarrow> op_ok C u (take k xs) (xs ! k)"
  by (simp add: good_log_def)

lemma good_log_take: "good_log C u xs \<Longrightarrow> good_log C u (take n xs)"
  by (auto simp: good_log_def min_def)

lemma op_linked_at: "good_log C u xs \<Longrightarrow> k < length xs \<Longrightarrow> op_linked u (take k xs) (xs ! k)"
  using good_log_op by (auto simp: op_ok_def)

lemma head_of_take: "0 < k \<Longrightarrow> k \<le> length xs \<Longrightarrow> head_of (take k xs) = logEntryHash (op_text (xs ! (k - 1)))"
  by (auto simp: head_of_def last_conv_nth min_def)

lemma same_text_same_statement:
  assumes "good_log C u xs" "good_log C u ys" "k < length xs" "k < length ys" "op_text (xs ! k) = op_text (ys ! k)"
  shows "fst (xs ! k) = fst (ys ! k)"
  using op_linked_at [OF assms(1, 3)] op_linked_at [OF assms(2, 4)] assms(5) by (simp add: op_linked_def)

lemma same_head_same_log:
  assumes xs: "good_log C u xs" and ys: "good_log C u ys" and n: "0 < n" "n \<le> length xs" "n \<le> length ys"
    and inj: "inj_on logEntryHash (op_text ` set xs \<union> op_text ` set ys)"
    and head: "op_text (xs ! (n - 1)) = op_text (ys ! (n - 1))"
  shows "map fst (take n xs) = map fst (take n ys)"
proof -
  have same_text: "d < n \<Longrightarrow> op_text (xs ! (n - 1 - d)) = op_text (ys ! (n - 1 - d))" for d
  proof (induction d)
    case (Suc d)
    let ?k = "n - 1 - d"
    have k: "0 < ?k" "?k < length xs" "?k < length ys" using Suc.prems n by auto
    have "fst (xs ! ?k) = fst (ys ! ?k)"
      using same_text_same_statement [OF xs ys k(2, 3)] Suc by simp
    then have "head_of (take ?k xs) = head_of (take ?k ys)"
      using op_linked_at [OF xs k(2)] op_linked_at [OF ys k(3)] by (simp add: op_linked_def)
    then have "logEntryHash (op_text (xs ! (?k - 1))) = logEntryHash (op_text (ys ! (?k - 1)))"
      using k by (simp add: head_of_take)
    then have "op_text (xs ! (?k - 1)) = op_text (ys ! (?k - 1))"
      by (rule inj_onD [OF inj]) (use k in auto)
    then show ?case by (simp add: diff_diff_eq add.commute)
  qed (use head in simp)
  have "fst (xs ! k) = fst (ys ! k)" if "k < n" for k
    using same_text_same_statement [OF xs ys, of k] same_text [of "n - 1 - k"] that n by auto
  then show ?thesis using n by (auto intro!: nth_equalityI)
qed

section \<open>Rollback\<close>

definition log_statements :: "js option \<Rightarrow> string set" where
  "log_statements dir =
     (case js_prop dir ''log'' of
        Some (JArr ops) \<Rightarrow> {t. \<exists>e \<in> set ops. js_prop (Some e) ''statement'' = Some (JStr t)}
      | _ \<Rightarrow> {})"

lemma texts_of_entries:
  "js_prop dir ''log'' = Some (JArr ops) \<Longrightarrow> entries_are C ops xs \<Longrightarrow> op_text ` set xs \<subseteq> log_statements dir"
  by (fastforce simp: log_statements_def entries_are_def entry_is_def in_set_conv_nth)

lemma keys_unrowed: "fst ` set (unrowed vs) = fst ` set vs"
  by (force simp: unrowed_def)

lemma chain_ids:
  assumes "chain_of C u ch xs"
  shows "fst ` set (vc_trusted ch) = set (map sd_device_id (trusted_devices xs))"
    and "fst ` set (vc_ever ch) = set (map sd_device_id (approvals xs))"
  using assms keys_keyed keys_unrowed unfolding chain_of_def by metis+

lemma chain_commits:
  "chain_of C u ch xs \<Longrightarrow> map_of (vc_commits ch) e =
     (if 1 \<le> e \<and> e \<le> length (epoch_ops xs) then Some (map op_commit (epoch_ops xs) ! (e - 1)) else None)"
  by (auto simp: chain_of_def map_of_numbered)

text \<open>
  C9. Let a directory be verified, and a second one verified against the pins of the first, and let no two different
  statements of the two logs have the same hash. Then the second log extends the first: it has the same root and
  starts with the same hashes; every approval, revocation and epoch commitment of the first holds in the second; and
  no device the first log revoked is trusted in the second.
\<close>

theorem pinned_directory_extends:
  assumes first: "verifyDirectory C dir u pins = Inr ch"
    and second: "verifyDirectory C dir' u (Some (pinsFromChain ch)) = Inr ch'"
    and inj: "inj_on logEntryHash (log_statements dir \<union> log_statements dir')"
  shows "vc_rootSignPub ch' = vc_rootSignPub ch \<and> take (vc_version ch) (vc_logHashes ch') = vc_logHashes ch
    \<and> fst ` set (vc_ever ch) \<subseteq> fst ` set (vc_ever ch') \<and> set (vc_revokedIds ch) \<subseteq> set (vc_revokedIds ch')
    \<and> fst ` set (vc_trusted ch') \<inter> set (vc_revokedIds ch) = {}
    \<and> map_of (vc_commits ch) \<subseteq>\<^sub>m map_of (vc_commits ch')"
proof -
  obtain ops xs where ops: "js_prop dir ''log'' = Some (JArr ops)" "entries_are C ops xs" and ch: "chain_of C u ch xs"
    using verified_chain_of [OF first] by blast
  obtain ops' ys where ops': "js_prop dir' ''log'' = Some (JArr ops')" "entries_are C ops' ys" and ch': "chain_of C u ch' ys"
    and root: "root_ok (js_prop dir' ''root_device_id'') (Some (pinsFromChain ch)) (hd ys)"
    and pin: "pin_error (Some (pinsFromChain ch)) (length ys) (log_hashes ys) = None"
    using verified_chain_of [OF second] by blast
  let ?n = "length xs"
  have n: "0 < ?n" using ch by (simp add: chain_of_def)
  have index: "nat (int ?n - 1) = ?n - 1" by simp
  have len: "?n \<le> length ys" and at: "logEntryHash (op_text (ys ! (?n - 1))) = head_of xs"
    using pin ch n
    by (auto simp: pin_error_def pinsFromChain_def chain_of_def hash_at_def arr_at_def log_hashes_def index split: if_splits)
  have good: "good_log C u xs" "good_log C u ys" using ch ch' by (simp_all add: chain_of_def)
  have inj': "inj_on logEntryHash (op_text ` set xs \<union> op_text ` set ys)"
    by (rule inj_on_subset [OF inj]) (use texts_of_entries ops ops' in blast)
  have "op_text (xs ! (?n - 1)) = op_text (ys ! (?n - 1))"
  proof (rule inj_onD [OF inj'])
    show "logEntryHash (op_text (xs ! (?n - 1))) = logEntryHash (op_text (ys ! (?n - 1)))"
      using at n head_of_take [of ?n xs] by simp
    show "op_text (xs ! (?n - 1)) \<in> op_text ` set xs \<union> op_text ` set ys" using n by auto
    show "op_text (ys ! (?n - 1)) \<in> op_text ` set xs \<union> op_text ` set ys" using n len by (intro UnI2 imageI nth_mem) linarith
  qed
  from same_head_same_log [OF good n order_refl len inj' this]
  have same: "map fst xs = map fst (take ?n ys)" by simp
  have split: "map fst ys = map fst xs @ map fst (drop ?n ys)"
    unfolding same by (simp only: map_append [symmetric] append_take_drop_id)
  have revs: "set (revocations xs) \<subseteq> set (revocations ys)"
    unfolding revocations_statements split by auto
  have ever: "set (map sd_device_id (approvals xs)) \<subseteq> set (map sd_device_id (approvals ys))"
    unfolding approval_statements split by auto
  obtain more where commits: "map op_commit (epoch_ops ys) = map op_commit (epoch_ops xs) @ more"
    unfolding commit_statements split by simp
  have "map_of (vc_commits ch) \<subseteq>\<^sub>m map_of (vc_commits ch')"
    unfolding map_le_def
  proof
    fix e
    assume "e \<in> dom (map_of (vc_commits ch))"
    then have e: "1 \<le> e" "e \<le> length (epoch_ops xs)"
      by (auto simp: chain_commits [OF ch] split: if_splits)
    have "length (epoch_ops ys) = length (epoch_ops xs) + length more" using arg_cong [OF commits, of length] by simp
    with e show "map_of (vc_commits ch) e = map_of (vc_commits ch') e"
      by (auto simp: chain_commits [OF ch] chain_commits [OF ch'] commits nth_append simp del: nth_map)
  qed
  moreover have "take ?n (log_hashes ys) = log_hashes xs"
  proof (rule nth_equalityI)
    fix k
    assume "k < length (take ?n (log_hashes ys))"
    then have k: "k < length xs" "k < length ys" by (auto simp: log_hashes_def)
    have "fst (xs ! k) = fst (ys ! k)" using arg_cong [OF same, of "\<lambda>l. l ! k"] k by simp
    then have "op_text (xs ! k) = op_text (ys ! k)"
      using op_linked_at [OF good(1) k(1)] op_linked_at [OF good(2) k(2)]
      by (auto simp: op_linked_def parseStatement_Some)
    with k show "take ?n (log_hashes ys) ! k = log_hashes xs ! k" by (simp add: log_hashes_def)
  qed (use len in \<open>simp add: log_hashes_def\<close>)
  moreover have "set (map sd_device_id (trusted_devices ys)) \<inter> set (revocations xs) = {}"
    using revs by (auto simp: trusted_subset)
  moreover have "vc_rootSignPub ch' = vc_rootSignPub ch"
    using root ch ch' by (simp add: root_ok_def pinsFromChain_def chain_of_def)
  ultimately show ?thesis
    using revs ever ch ch' unfolding chain_ids [OF ch] chain_ids [OF ch'] by (simp add: chain_of_def)
qed

end
