(* ===== verification/VaultHonest.thy ===== *)
theory VaultHonest
  imports VaultLogProps
begin

text \<open>
  A hub that serves a good log honestly is believed: the directory it renders verifies, without pins and against the
  pins of any earlier verified state.
\<close>

section \<open>The rendering of a log\<close>

definition row_of :: "signed_device \<Rightarrow> js" where
  "row_of d =
     JObj [(''device_id'', JStr (sd_device_id d)), (''kind'', JStr (kind_id (sd_kind d))), (''status'', JStr ''approved''),
           (''sign_alg'', JStr (sd_sign_alg d)), (''wrap_alg'', JStr (sd_wrap_alg d)),
           (''sign_public_key'', JStr (sd_sign_pub d)), (''ecdh_public_key'', JStr (sd_ecdh_pub d)),
           (''bridge_id'', JStr (sd_device_id d))]"

definition entry_of :: "nat \<times> signed_op \<Rightarrow> js" where
  "entry_of p =
     JObj [(''seq'', JNum (Fin (of_nat (fst p)))), (''statement'', JStr (op_text (snd p))),
           (''signature'', JStr (snd (snd (snd p))))]"

definition dir_of :: "signed_op list \<Rightarrow> js" where
  "dir_of xs =
     JObj [(''version'', JNum (Fin (of_nat (length xs)))), (''current_epoch'', JNum (Fin (of_nat (length (epoch_ops xs))))),
           (''root_device_id'', JStr (op_subject (hd xs))), (''head_hash'', JStr (head_of xs)),
           (''log'', JArr (map entry_of (numbered xs))), (''devices'', JArr (map row_of (trusted_devices xs)))]"

definition log_pins :: "signed_op list \<Rightarrow> device_pins" where
  "log_pins xs =
     \<lparr>dp_root_device_id = op_subject (hd xs), dp_root_sign_pub = fld (fst (hd xs)) ''subject_sign_pub'',
      dp_head_seq = int (length xs), dp_head_hash = head_of xs, dp_max_epoch = int (length (epoch_ops xs))\<rparr>"

section \<open>It verifies\<close>

lemma entries_of_log: "entries_are C (map entry_of (numbered xs)) xs"
  by (auto simp: entries_are_def numbered_def entry_is_def entry_of_def nth_enumerate_eq signatureObjectText_def)

lemma read_honest_rows:
  "distinct (map fst acc @ map sd_device_id ds) \<Longrightarrow>
   read_rows (map row_of ds) acc = Inr (acc @ map (\<lambda>d. (sd_device_id d, row_of d)) ds)"
proof (induction ds arbitrary: acc)
  case (Cons d ds)
  have fresh: "sd_device_id d \<notin> fst ` set acc" using Cons.prems by auto
  moreover have "read_rows (map row_of ds) (acc @ [(sd_device_id d, row_of d)]) =
      Inr ((acc @ [(sd_device_id d, row_of d)]) @ map (\<lambda>d. (sd_device_id d, row_of d)) ds)"
    by (rule Cons.IH) (use Cons.prems in auto)
  ultimately show ?case by (simp add: row_of_def [of d] map_set_new)
qed simp

lemma row_matches: "subjectMatchesRow d (row_of d)" "js_prop (Some (row_of d)) ''status'' = Some (JStr ''approved'')"
  "js_prop (Some (row_of d)) ''device_id'' = Some (JStr (sd_device_id d))"
  by (simp_all add: subjectMatchesRow_def row_of_def or_empty_def)

lemma trusted_honest_rows:
  "(\<forall>d \<in> set ds. map_of rows (sd_device_id d) = Some (row_of d)) \<Longrightarrow>
   trusted_rows rows (keyed ds) = Inr (map (\<lambda>d. (sd_device_id d, with_row d (row_of d))) ds)"
  by (induction ds) (simp_all add: keyed_def row_matches)

lemma sort_honest_rows:
  "(\<forall>d \<in> set ds. sd_device_id d \<in> fst ` set (ws_trusted w) \<and> sd_device_id d \<notin> set (ws_revoked w)) \<Longrightarrow>
   sort_rows w (map row_of ds) = Inr ([], [], [])"
  by (induction ds) (auto simp: row_matches Let_def)

lemma genesis_hd: "good_log C u xs \<Longrightarrow> xs \<noteq> [] \<Longrightarrow> genesis_ok C (hd xs)"
  using good_log_op [of C u xs 0] by (cases xs) (auto simp: op_ok_def)

lemma verified_key: "verifySignature C alg pub m sig \<Longrightarrow> isLowerHex pub (Some 65) \<and> starts_with ''04'' pub"
  by (auto simp: verifySignature_def split: option.splits if_splits)

lemma hex_pairs_Some:
  "list_all (\<lambda>c. hex_code c \<noteq> None) s \<Longrightarrow> length s mod 2 = 0 \<Longrightarrow> hex_pairs s \<noteq> None"
  by (induction s rule: hex_pairs.induct) auto

lemma vaultIdFor_key:
  assumes "isLowerHex pub (Some 65)" "starts_with ''04'' pub"
  shows "\<exists>v. vaultIdFor pub = Inr v"
proof -
  have "hex_pairs pub \<noteq> None" using assms(1) hex_pairs_Some [of pub] by (simp add: isLowerHex_def)
  with assms show ?thesis by (auto simp: vaultIdFor_def isLowerHex_def)
qed

lemma epoch_ops_append: "length (epoch_ops xs) \<le> length (epoch_ops (xs @ ys))"
  by (simp add: epoch_ops_def enumerate_append_eq)

lemma honest_pins:
  assumes "1 \<le> n" "n \<le> length xs"
  shows "pin_error (Some (log_pins (take n xs))) (length xs) (log_hashes xs) = None"
    and "checkAgainstPins (Some (log_pins (take n xs))) (log_pins xs) = None"
proof -
  have hd: "hd (take n xs) = hd xs" using assms by (cases xs) (auto simp: take_Cons')
  have len: "length (take n xs) = n" using assms by simp
  have index: "nat (int n - 1) = n - 1" using assms by simp
  show "pin_error (Some (log_pins (take n xs))) (length xs) (log_hashes xs) = None"
    using assms head_of_take [of n xs]
    by (simp add: pin_error_def log_pins_def len hash_at_def arr_at_def index log_hashes_def)
  have "length (epoch_ops (take n xs)) \<le> length (epoch_ops xs)"
    using epoch_ops_append [of "take n xs" "drop n xs"] by simp
  moreover have "n = length xs \<Longrightarrow> take n xs = xs" by simp
  ultimately show "checkAgainstPins (Some (log_pins (take n xs))) (log_pins xs) = None"
    using assms by (auto simp: log_pins_def hd len)
qed

lemma chain_pins: "chain_of C u ch xs \<Longrightarrow> pinsFromChain ch = log_pins xs"
  by (simp add: chain_of_def pinsFromChain_def log_pins_def)

text \<open>
  A directory rendered from a good log is accepted by a device that has no pins or pinned any prefix of that log,
  and the verified chain is the one of the log.
\<close>

lemma honest_directory_accepted:
  assumes good: "good_log C u xs" and ne: "xs \<noteq> []" and len: "length xs \<le> 9007199254740991"
    and pins: "pins = None \<or> (\<exists>n. 1 \<le> n \<and> n \<le> length xs \<and> pins = Some (log_pins (take n xs)))"
  shows "\<exists>ch. verifyDirectory C (Some (dir_of xs)) u pins = Inr ch \<and> chain_of C u ch xs
    \<and> map snd (vc_trusted ch) = map (\<lambda>d. with_row d (row_of d)) (trusted_devices xs) \<and> vc_retiredHints ch = []"
proof -
  let ?ds = "trusted_devices xs" and ?dir = "Some (dir_of xs)"
  have props: "js_prop ?dir ''devices'' = Some (JArr (map row_of ?ds))" "js_prop ?dir ''log'' = Some (JArr (map entry_of (numbered xs)))"
    "js_prop ?dir ''version'' = Some (JNum (Fin (of_nat (length xs))))" "js_prop ?dir ''head_hash'' = Some (JStr (head_of xs))"
    "js_prop ?dir ''current_epoch'' = Some (JNum (Fin (of_nat (length (epoch_ops xs)))))"
    "js_prop ?dir ''root_device_id'' = Some (JStr (op_subject (hd xs)))" "js_prop ?dir ''retired_hints'' = None"
    by (simp_all add: dir_of_def)
  have version: "safe_int (Some (JNum (Fin (of_nat (length xs))))) = Some (int (length xs))"
    using len by (simp add: safe_int_Some [of "int (length xs)", simplified])
  have root: "root_ok (js_prop ?dir ''root_device_id'') pins (hd xs)"
    using pins ne by (auto simp: root_ok_def props log_pins_def hd_conv_nth)
  have walk: "walk_log C (js_prop ?dir ''root_device_id'') u pins (map entry_of (numbered xs)) walk_start = Inr (log_state xs)"
    unfolding walk_log_state using entries_of_log good root by blast
  have ids: "distinct (map sd_device_id ?ds)" using distinct_trusted [OF good] .
  define rows where "rows = map (\<lambda>d. (sd_device_id d, row_of d)) ?ds"
  have rows: "read_rows (map row_of ?ds) [] = Inr rows" using read_honest_rows [of "[]" ?ds] ids by (simp add: rows_def)
  have "map_of rows (sd_device_id d) = Some (row_of d)" if "d \<in> set ?ds" for d
    using that ids by (auto simp: rows_def map_of_eq_Some_iff comp_def)
  then have trusted: "trusted_rows rows (keyed ?ds) = Inr (map (\<lambda>d. (sd_device_id d, with_row d (row_of d))) ?ds)"
    by (intro trusted_honest_rows) simp
  have sort: "sort_rows (log_state xs) (map row_of ?ds) = Inr ([], [], [])"
    by (rule sort_honest_rows) (auto simp: log_state_def trusted_subset)
  obtain st tx sig where x: "hd xs = (st, tx, sig)" by (cases "hd xs")
  obtain v where v: "vaultIdFor (fld st ''subject_sign_pub'') = Inr v"
    using genesis_hd [OF good ne] x vaultIdFor_key verified_key by (fastforce simp: genesis_ok_def Let_def)
  have pin: "pin_error pins (length xs) (log_hashes xs) = None"
    using pins honest_pins(1) by (auto simp: pin_error_def)
  have check: "checkAgainstPins pins (log_pins xs) = None"
    using pins honest_pins(2) by auto
  define ch where "ch = \<lparr>vc_userId = u, vc_rootDeviceId = fld st ''subject_device_id'',
          vc_rootSignPub = fld st ''subject_sign_pub'', vc_rootSignAlg = fld st ''subject_sign_alg'',
          vc_vaultId = v, vc_version = length xs, vc_headHash = head_of xs, vc_logHashes = log_hashes xs,
          vc_currentEpoch = length (epoch_ops xs), vc_genesis = (tx, sig),
          vc_trusted = map (\<lambda>d. (sd_device_id d, with_row d (row_of d))) ?ds,
          vc_ever = ever_rows rows (map (\<lambda>d. (sd_device_id d, with_row d (row_of d))) ?ds) (keyed (approvals xs)),
          vc_revokedIds = revocations xs, vc_untrusted = [], vc_pending = [], vc_revoked = [],
          vc_commits = map (\<lambda>(e, p). (e, op_commit p)) (numbered (epoch_ops xs)),
          vc_epochs = map (\<lambda>(e, p). (e, epoch_proof_of (e, p))) (numbered (epoch_ops xs)), vc_retiredHints = []\<rparr>"
  have pins_ch: "pinsFromChain ch = log_pins xs"
    by (simp add: ch_def pinsFromChain_def log_pins_def x)
  have "finish_chain ?dir u pins (length xs) (map row_of ?ds) (log_state xs) = Inr ch"
  proof -
    have sel: "ws_trusted (log_state xs) = keyed ?ds" "ws_ever (log_state xs) = keyed (approvals xs)"
      "ws_revoked (log_state xs) = revocations xs" "ws_hashes (log_state xs) = log_hashes xs" "ws_prev (log_state xs) = head_of xs"
      "ws_commits (log_state xs) = map (\<lambda>(e, p). (e, op_commit p)) (numbered (epoch_ops xs))"
      "ws_epochs (log_state xs) = map (\<lambda>(e, p). (e, epoch_proof_of (e, p))) (numbered (epoch_ops xs))"
      "ws_epoch (log_state xs) = length (epoch_ops xs)" "ws_genesis (log_state xs) = (tx, sig)"
      "ws_root (log_state xs) = Some (verifiedFrom st tx sig 1)"
      using ne x by (simp_all add: log_state_def op_device_parts)
    have parts: "sd_sign_pub (verifiedFrom st tx sig 1) = fld st ''subject_sign_pub''"
      "sd_sign_alg (verifiedFrom st tx sig 1) = fld st ''subject_sign_alg''" by (simp_all add: verifiedFrom_def)
    have hints: "retired_hints None t = []" for t by (simp add: retired_hints_def map_filter_simps)
    show ?thesis
      unfolding finish_chain_def sel option.case props simp_thms if_False pin rows trusted sum.case sort prod.case parts v
        id_verifiedFrom Let_def hints ch_def [symmetric] pins_ch check by simp
  qed
  then have "verifyDirectory C ?dir u pins = Inr ch"
    unfolding verifyDirectory_def props using walk ne version by (simp add: numbered_def props(6)) 
  moreover from finish_chain_of [OF good \<open>finish_chain _ _ _ _ _ _ = _\<close>] have "chain_of C u ch xs" by simp
  ultimately show ?thesis by (auto simp: ch_def)
qed

text \<open>
  C10. Honest growth is accepted: a device that verified a prefix of a good log and keeps the pins of that chain accepts
  the directory of the longer log, and its verified chain is the one of the longer log.
\<close>

theorem honest_growth_accepted:
  assumes good: "good_log C u xs" and n: "1 \<le> n" "n \<le> length xs" and len: "length xs \<le> 9007199254740991"
  shows "\<exists>ch ch'. verifyDirectory C (Some (dir_of (take n xs))) u None = Inr ch \<and> chain_of C u ch (take n xs)
    \<and> verifyDirectory C (Some (dir_of xs)) u (Some (pinsFromChain ch)) = Inr ch' \<and> chain_of C u ch' xs
    \<and> map snd (vc_trusted ch') = map (\<lambda>d. with_row d (row_of d)) (trusted_devices xs) \<and> vc_retiredHints ch' = []"
proof -
  have ne: "take n xs \<noteq> []" "xs \<noteq> []" using n by auto
  have short: "length (take n xs) \<le> 9007199254740991" using len by simp
  obtain ch where ch: "verifyDirectory C (Some (dir_of (take n xs))) u None = Inr ch" "chain_of C u ch (take n xs)"
    using honest_directory_accepted [OF good_log_take [OF good] ne(1) short] by blast
  have "\<exists>k. 1 \<le> k \<and> k \<le> length xs \<and> Some (pinsFromChain ch) = Some (log_pins (take k xs))"
    using n chain_pins [OF ch(2)] by blast
  with ch honest_directory_accepted [OF good ne(2) len, of "Some (pinsFromChain ch)"] show ?thesis by blast
qed

end
