(* ===== verification/VaultSample.thy ===== *)
theory VaultSample
  imports VaultHonest
begin

text \<open>
  A concrete vault: a browser that signs the genesis and approves one bridge. It shows that the guarantees of the
  directory apply. No hash is evaluated: ids and links are the values of the definitions.
\<close>

section \<open>Keys and signatures\<close>

definition sample_pub :: "char \<Rightarrow> string" where
  "sample_pub c = ''04'' @ replicate 128 c"

definition sample_sig :: string where
  "sample_sig = renderSignatureObject SIGN_ALG_ECDSA_P256_SHA256 (replicate 128 (CHR ''0''))"

text \<open>A crypto that accepts every signature and reads one signature object.\<close>

definition sample_sign :: sign_crypto where
  "sample_sign =
     \<lparr>sc_verify = (\<lambda>pub s m. Some True),
      sc_parse = (\<lambda>t. if t = sample_sig
        then Some (JObj [(''alg'', JStr SIGN_ALG_ECDSA_P256_SHA256), (''sig'', JStr (replicate 128 (CHR ''0'')))]) else None),
      sc_stringify = (\<lambda>v. [])\<rparr>"

definition dev_id :: "string \<Rightarrow> string" where
  "dev_id p = ''dev_'' @ take 32 (toLowerHex (sha256 (case hex_pairs p of Some bs \<Rightarrow> bs | None \<Rightarrow> [])))"

lemma lowerHexToBytes_None: "isLowerHex p n \<Longrightarrow> \<exists>bs. hex_pairs p = Some bs \<and> lowerHexToBytes p None = Inr bs"
  using hex_pairs_Some [of p] by (auto simp: isLowerHex_def lowerHexToBytes_def)

lemma deviceIdFor_dev: "isLowerHex p (Some 65) \<Longrightarrow> deviceIdFor p = Inr (dev_id p)"
  using lowerHexToBytes_None [of p "Some 65"] by (auto simp: deviceIdFor_def dev_id_def)

lemma hex_ids: "ID_VALUE_RE (bytesToHex bs)"
  by (auto simp: ID_VALUE_RE_def list_all_iff is_id_char_def of_hex_char Let_def dest!: hex_units split: if_splits)

lemma ID_VALUE_append [simp]: "ID_VALUE_RE (s @ t) \<longleftrightarrow> ID_VALUE_RE s \<and> ID_VALUE_RE t"
  by (simp add: ID_VALUE_RE_def)

lemma ID_VALUE_Cons [simp]: "ID_VALUE_RE (c # s) \<longleftrightarrow> is_id_char c \<and> ID_VALUE_RE s" "ID_VALUE_RE []"
  by (simp_all add: ID_VALUE_RE_def)

lemma list_all_replicate [simp]: "list_all P (replicate n c) \<longleftrightarrow> n = 0 \<or> P c"
  by (induction n) auto

lemma ID_VALUE_take: "ID_VALUE_RE s \<Longrightarrow> ID_VALUE_RE (take n s)"
  by (auto simp: ID_VALUE_RE_def list_all_iff dest: in_set_takeD)

lemma dev_id_value: "ID_VALUE_RE (dev_id p)"
proof -
  have "is_id_char (CHR ''d'')" "is_id_char (CHR ''e'')" "is_id_char (CHR ''v'')" "is_id_char (CHR ''_'')" by code_simp+
  then show ?thesis unfolding dev_id_def toLowerHex_def using hex_ids ID_VALUE_take by simp
qed

lemma hash_value: "ID_VALUE_RE (logEntryHash t)"
  by (simp add: logEntryHash_def toLowerHex_def hex_ids)

lemma ID_VALUE_replicate: "is_id_char c \<Longrightarrow> ID_VALUE_RE (replicate n c)"
  by (simp add: ID_VALUE_RE_def)

lemma sample_pub_hex: "c \<in> {CHR ''0'', CHR ''1''} \<Longrightarrow> isLowerHex (sample_pub c) (Some 65)"
proof -
  assume "c \<in> {CHR ''0'', CHR ''1''}"
  moreover have "hex_code (CHR ''0'') \<noteq> None" "hex_code (CHR ''1'') \<noteq> None" "hex_code (CHR ''4'') \<noteq> None" by code_simp+
  ultimately show ?thesis by (auto simp: sample_pub_def isLowerHex_def)
qed

lemma sample_verifies:
  assumes "c \<in> {CHR ''0'', CHR ''1''}"
  shows "verifySignature sample_sign SIGN_ALG_ECDSA_P256_SHA256 (sample_pub c) m (Some (JStr sample_sig))"
proof -
  have zero: "hex_code (CHR ''0'') \<noteq> None" by code_simp
  then have hex: "isLowerHex (replicate 128 (CHR ''0'')) (Some 64)" by (simp add: isLowerHex_def)
  have parsed: "parseSignatureObject sample_sign sample_sig = Some (replicate 128 (CHR ''0''))"
    using hex by (simp add: parseSignatureObject_def sample_sign_def signAlgFromId_def sample_sig_def [symmetric])
  obtain p where "lowerHexToBytes (sample_pub c) None = Inr p" using lowerHexToBytes_None [OF sample_pub_hex [OF assms]] by auto
  moreover obtain s where "lowerHexToBytes (replicate 128 (CHR ''0'')) None = Inr s" using lowerHexToBytes_None [OF hex] by auto
  ultimately show ?thesis
    using sample_pub_hex [OF assms] parsed
    by (simp add: verifySignature_def signAlgFromId_def signatureObjectText_def starts_with_def sample_pub_def)
      (simp add: sample_sign_def)
qed

section \<open>The two operations\<close>

definition sample_commit :: string where "sample_commit = replicate 64 (CHR ''a'')"

definition genesis_statement :: statement where
  "genesis_statement = zip STATEMENT_FIELDS
     [''genesis'', ''u'', ''1'', [], dev_id (sample_pub (CHR ''0'')), ''1'', dev_id (sample_pub (CHR ''0'')), ''browser'',
      sample_pub (CHR ''0''), sample_pub (CHR ''0''), SIGN_ALG_ECDSA_P256_SHA256, WRAP_ALG_ECDH_P256_HKDF_AES, ''Um9vdA'',
      ''1'', sample_commit, []]"

definition statement_text :: "statement \<Rightarrow> string" where
  "statement_text st = js_join [newline] (STATEMENT_HEADER # map (\<lambda>f. f @ ''='' @ fld st f) STATEMENT_FIELDS)"

definition bridge_statement :: statement where
  "bridge_statement = zip STATEMENT_FIELDS
     [''approve'', ''u'', ''2'', logEntryHash (statement_text genesis_statement), dev_id (sample_pub (CHR ''0'')), ''2'',
      dev_id (sample_pub (CHR ''1'')), ''bridge'', sample_pub (CHR ''1''), [], SIGN_ALG_ECDSA_P256_SHA256, [], ''Um9vdA'',
      ''1'', sample_commit, []]"

definition sample_ops :: "signed_op list" where
  "sample_ops = [(genesis_statement, statement_text genesis_statement, sample_sig), (bridge_statement, statement_text bridge_statement, sample_sig)]"

lemma fields_zip:
  "fld (zip STATEMENT_FIELDS [a, b, c, d, e, f, g, h, i, j, k, l, m, n, q, r]) ''type'' = a"
  "fld (zip STATEMENT_FIELDS [a, b, c, d, e, f, g, h, i, j, k, l, m, n, q, r]) ''user_id'' = b"
  "fld (zip STATEMENT_FIELDS [a, b, c, d, e, f, g, h, i, j, k, l, m, n, q, r]) ''seq'' = c"
  "fld (zip STATEMENT_FIELDS [a, b, c, d, e, f, g, h, i, j, k, l, m, n, q, r]) ''prev_hash'' = d"
  "fld (zip STATEMENT_FIELDS [a, b, c, d, e, f, g, h, i, j, k, l, m, n, q, r]) ''issuer_device_id'' = e"
  "fld (zip STATEMENT_FIELDS [a, b, c, d, e, f, g, h, i, j, k, l, m, n, q, r]) ''issued_at_ms'' = f"
  "fld (zip STATEMENT_FIELDS [a, b, c, d, e, f, g, h, i, j, k, l, m, n, q, r]) ''subject_device_id'' = g"
  "fld (zip STATEMENT_FIELDS [a, b, c, d, e, f, g, h, i, j, k, l, m, n, q, r]) ''subject_kind'' = h"
  "fld (zip STATEMENT_FIELDS [a, b, c, d, e, f, g, h, i, j, k, l, m, n, q, r]) ''subject_sign_pub'' = i"
  "fld (zip STATEMENT_FIELDS [a, b, c, d, e, f, g, h, i, j, k, l, m, n, q, r]) ''subject_ecdh_pub'' = j"
  "fld (zip STATEMENT_FIELDS [a, b, c, d, e, f, g, h, i, j, k, l, m, n, q, r]) ''subject_sign_alg'' = k"
  "fld (zip STATEMENT_FIELDS [a, b, c, d, e, f, g, h, i, j, k, l, m, n, q, r]) ''subject_wrap_alg'' = l"
  "fld (zip STATEMENT_FIELDS [a, b, c, d, e, f, g, h, i, j, k, l, m, n, q, r]) ''subject_label_b64'' = m"
  "fld (zip STATEMENT_FIELDS [a, b, c, d, e, f, g, h, i, j, k, l, m, n, q, r]) ''epoch'' = n"
  "fld (zip STATEMENT_FIELDS [a, b, c, d, e, f, g, h, i, j, k, l, m, n, q, r]) ''epoch_commit'' = q"
  "fld (zip STATEMENT_FIELDS [a, b, c, d, e, f, g, h, i, j, k, l, m, n, q, r]) ''wrap_sha256'' = r"
  by (simp_all add: fld_def STATEMENT_FIELDS_def)

lemma map_of_type:
  "map_of (zip STATEMENT_FIELDS [a, b, c, d, e, f, g, h, i, j, k, l, m, n, q, r]) ''type'' = Some a"
  by (simp add: STATEMENT_FIELDS_def)

lemma canonical_text:
  assumes "map_of st ''type'' \<in> Some ` set STATEMENT_TYPES"
    and "fld st ''subject_kind'' = [] \<or> deviceKindFromId (fld st ''subject_kind'') \<noteq> None"
    and "fld st ''subject_sign_alg'' = [] \<or> signAlgFromId (Some (JStr (fld st ''subject_sign_alg''))) \<noteq> None"
    and "fld st ''subject_wrap_alg'' = [] \<or> wrapAlgFromId (Some (JStr (fld st ''subject_wrap_alg''))) \<noteq> None"
    and "list_all (\<lambda>f. ID_VALUE_RE (fld st f)) STATEMENT_FIELDS"
  shows "statementCanonical st = Inr (statement_text st)"
proof -
  have "statement_lines st STATEMENT_FIELDS = Inr (map (\<lambda>f. f @ ''='' @ fld st f) STATEMENT_FIELDS)"
    using assms(5) statement_lines_Inr by blast
  with assms(1-4) show ?thesis by (auto simp: statementCanonical_def statement_text_def)
qed

lemma sample_values:
  "ID_VALUE_RE ''genesis''" "ID_VALUE_RE ''approve''" "ID_VALUE_RE ''u''" "ID_VALUE_RE ''1''" "ID_VALUE_RE ''2''" "ID_VALUE_RE []"
  "ID_VALUE_RE ''browser''" "ID_VALUE_RE ''bridge''" "ID_VALUE_RE SIGN_ALG_ECDSA_P256_SHA256"
  "ID_VALUE_RE WRAP_ALG_ECDH_P256_HKDF_AES" "ID_VALUE_RE ''Um9vdA''" "ID_VALUE_RE ''04''" "is_id_char (CHR ''0'')"
  "is_id_char (CHR ''1'')" "is_id_char (CHR ''a'')"
  by code_simp+

lemma fields_all:
  "list_all (\<lambda>s. P (fld (zip STATEMENT_FIELDS [a, b, c, d, e, f, g, h, i, j, k, l, m, n, q, r]) s)) STATEMENT_FIELDS \<longleftrightarrow>
     list_all P [a, b, c, d, e, f, g, h, i, j, k, l, m, n, q, r]"
  by (simp add: fld_def STATEMENT_FIELDS_def)

lemma sample_canonical:
  "statementCanonical genesis_statement = Inr (statement_text genesis_statement)"
  "statementCanonical bridge_statement = Inr (statement_text bridge_statement)"
proof -
  have four: "is_id_char (CHR ''4'')" by code_simp
  note facts = fields_all fields_zip map_of_type STATEMENT_TYPES_def deviceKindFromId_def signAlgFromId_def wrapAlgFromId_def
    dev_id_value hash_value sample_pub_def sample_commit_def ID_VALUE_replicate four
  show "statementCanonical genesis_statement = Inr (statement_text genesis_statement)"
    unfolding genesis_statement_def by (rule canonical_text) (simp_all add: facts sample_values [simplified])
  show "statementCanonical bridge_statement = Inr (statement_text bridge_statement)"
    unfolding bridge_statement_def by (rule canonical_text) (simp_all add: facts sample_values [simplified])
qed

lemma sample_parse:
  "parseStatement (Some (statement_text genesis_statement)) = Some genesis_statement"
  "parseStatement (Some (statement_text bridge_statement)) = Some bridge_statement"
  unfolding parseStatement_Some using sample_canonical
  by (simp_all add: genesis_statement_def bridge_statement_def STATEMENT_FIELDS_def)

section \<open>The log is good\<close>

lemma label_Um9vdA: "labelFromB64 ''Um9vdA'' = [82, 111, 111, 116]"
proof -
  have "js_atob (''Um9vdA'' @ ''=='') = Some [82, 111, 111, 116]"
    by (simp add: js_atob_def strip_pad_def is_ascii_space_def is_b64_def b64_code_def Let_def List.map_filter_simps byte_of_def)
  moreover have "decode_fatal [82, 111, 111, 116] = Some [82, 111, 111, 116]"
    by (simp add: decode_fatal_def utf8_defs encode_text_def encode_scalar_def is_scalar_def byte_of_def strip_bom_def)
  ultimately show ?thesis by (simp add: labelFromB64_def numeral_2_eq_2)
qed

lemma sample_commit_ok: "COMMIT_RE sample_commit"
proof -
  have "hex_code (CHR ''a'') \<noteq> None" by code_simp
  then show ?thesis by (simp add: COMMIT_RE_def sample_commit_def)
qed

lemma ids_differ: "sample_pub (CHR ''0'') \<noteq> sample_pub (CHR ''1'')"
proof
  assume "sample_pub (CHR ''0'') = sample_pub (CHR ''1'')"
  then have "last (sample_pub (CHR ''0'')) = last (sample_pub (CHR ''1''))" by simp
  then show False by (simp add: sample_pub_def)
qed

lemma sample_genesis_good: "good_log sample_sign ''u'' (take 1 sample_ops)"
proof -
  have "DECIMAL_RE ''1''" "show_nat (Suc 0) = ''1''" by code_simp+
  then show ?thesis
    using sample_parse(1) sample_commit_ok deviceIdFor_dev [OF sample_pub_hex] sample_verifies [of "CHR ''0''"]
    by (simp add: sample_ops_def good_log_def op_ok_def op_linked_def genesis_ok_def Let_def head_of_def idMatchesKey_def
        subjectWellFormed_def deviceKindFromId_def signAlgFromId_def wrapAlgFromId_def kindPolicy_def fields_zip
        genesis_statement_def [THEN arg_cong [where f = "\<lambda>s. fld s k" for k]] sample_pub_def)
qed

end
