(* ===== verification/VaultBridgeProof.thy ===== *)
theory VaultBridgeProof
  imports VaultHonest
begin

text \<open>
  Proofs for bridges (\<open>src/ui/utils/vaultDirectoryVerify.ts\<close>, from \<open>issuerChain\<close> on): the approval chain of an
  issuer, the proof a browser sends when it unseals a bridge, and its verification on the side of the bridge.
\<close>

unbundle bit_operations_syntax

section \<open>The chain of an issuer\<close>

record chain_link =
  cl_device_id :: string
  cl_kind :: string
  cl_sign_alg :: string
  cl_sign_pub :: string
  cl_statement :: string
  cl_signature :: string

record proof_epoch =
  pe_epoch :: nat
  pe_statement :: string
  pe_signature :: string
  pe_chain :: "chain_link list"

record bridge_proof =
  bp_v :: nat
  bp_user_id :: string
  bp_root_device_id :: string
  bp_root_sign_alg :: string
  bp_root_sign_pub :: string
  bp_genesis :: "string \<times> string"
  bp_epochs :: "proof_epoch list"
  bp_subject :: "string \<times> string \<times> chain_link list"

definition link_of :: "'a signed_device_scheme \<Rightarrow> chain_link" where
  "link_of d =
     \<lparr>cl_device_id = sd_device_id d, cl_kind = kind_id (sd_kind d), cl_sign_alg = sd_sign_alg d,
      cl_sign_pub = sd_sign_pub d, cl_statement = sd_statement d, cl_signature = sd_signature d\<rparr>"

text \<open>The loop from the device up to the root; the ids it has passed are the second argument.\<close>

function issuer_walk :: "verified_chain \<Rightarrow> string \<Rightarrow> string list \<Rightarrow> directory_error + chain_link list" where
  "issuer_walk ch key seen =
     (case map_of (vc_ever ch) key of
        None \<Rightarrow> Inl (NoChainToRoot key)
      | Some d \<Rightarrow>
          if sd_device_id d = vc_rootDeviceId ch then Inr []
          else if sd_device_id d \<in> set seen then Inl ApprovalCycle
          else (case issuer_walk ch (sd_approved_by d) (sd_device_id d # seen) of
                  Inl err \<Rightarrow> Inl err | Inr ls \<Rightarrow> Inr (link_of d # ls)))"
  by auto
termination
proof (relation "measure (\<lambda>(ch, key, seen). card (sd_device_id ` snd ` set (vc_ever ch) - set seen))")
  fix ch key seen d
  assume "map_of (vc_ever ch) key = Some d" and new: "sd_device_id d \<notin> set seen"
  then have "sd_device_id d \<in> sd_device_id ` snd ` set (vc_ever ch)"
    by (metis imageI map_of_SomeD snd_conv)
  with new have "sd_device_id ` snd ` set (vc_ever ch) - set (sd_device_id d # seen) \<subset> sd_device_id ` snd ` set (vc_ever ch) - set seen"
    by auto
  then show "((ch, sd_approved_by d, sd_device_id d # seen), (ch, key, seen))
      \<in> measure (\<lambda>(ch, key, seen). card (sd_device_id ` snd ` set (vc_ever ch) - set seen))"
    by (simp add: psubset_card_mono)
qed simp

declare issuer_walk.simps [simp del]

definition issuerChain :: "verified_chain \<Rightarrow> string \<Rightarrow> directory_error + chain_link list" where
  "issuerChain ch deviceId =
     (case issuer_walk ch deviceId [] of
        Inl ApprovalCycle \<Rightarrow> Inl ApprovalCycle
      | Inl _ \<Rightarrow> Inl (NoChainToRoot deviceId)
      | Inr ls \<Rightarrow> Inr (rev ls))"

section \<open>The proof for a bridge\<close>

fun epoch_carriers :: "verified_chain \<Rightarrow> nat list \<Rightarrow> directory_error + proof_epoch list" where
  "epoch_carriers ch [] = Inr []"
| "epoch_carriers ch (e # es) =
     (case map_of (vc_epochs ch) e of
        None \<Rightarrow> Inl (NoEpochOp e)
      | Some ep \<Rightarrow>
          (case map_of (vc_ever ch) (ep_issuer ep) of
             None \<Rightarrow> Inl EpochIssuerNotApprover
           | Some issuer \<Rightarrow>
               if \<not> canApprove (kindPolicy (kind_id (sd_kind issuer))) then Inl EpochIssuerNotApprover
               else (case issuerChain ch (ep_issuer ep) of
                       Inl err \<Rightarrow> Inl err
                     | Inr links \<Rightarrow>
                         (case epoch_carriers ch es of
                            Inl err \<Rightarrow> Inl err
                          | Inr rest \<Rightarrow> Inr (\<lparr>pe_epoch = e, pe_statement = ep_statement ep, pe_signature = ep_signature ep,
                                            pe_chain = links\<rparr> # rest)))))"

definition buildBridgeChainProof :: "verified_chain \<Rightarrow> string \<Rightarrow> directory_error + bridge_proof" where
  "buildBridgeChainProof ch bridgeId =
     (case map_of (vc_trusted ch) bridgeId of
        None \<Rightarrow> Inl BridgeNotApproved
      | Some bridge \<Rightarrow>
          if sd_kind bridge \<noteq> Bridge then Inl BridgeNotApproved
          else if bridgeId \<in> set (vc_retiredHints ch) then Inl BridgeRetired
          else (case epoch_carriers ch [1..<vc_currentEpoch ch + 1] of
                  Inl err \<Rightarrow> Inl err
                | Inr carriers \<Rightarrow>
                    (case issuerChain ch (sd_approved_by bridge) of
                       Inl err \<Rightarrow> Inl err
                     | Inr links \<Rightarrow>
                         Inr \<lparr>bp_v = 2, bp_user_id = vc_userId ch, bp_root_device_id = vc_rootDeviceId ch,
                              bp_root_sign_alg = vc_rootSignAlg ch, bp_root_sign_pub = vc_rootSignPub ch,
                              bp_genesis = vc_genesis ch, bp_epochs = carriers,
                              bp_subject = (sd_statement bridge, sd_signature bridge, links)\<rparr>)))"

section \<open>The verifier of the bridge\<close>

record signer =
  sg_id :: string
  sg_alg :: string
  sg_pub :: string
  sg_seq :: nat

record bridge_context =
  bc_owner :: string
  bc_identity_pub :: string
  bc_pinned_root :: "string option"
  bc_vault_id :: string

datatype proof_error =
    LinkMalformed | LinkStatement | LinkOrder | LinkSubject | LinkNotApprover | LinkId | LinkSignature
  | ProofUser | ProofRootNotPinned | ProofRoot | ProofOtherVault | ProofGenesis | ProofGenesisSignature
  | ProofEpochCount | ProofEpochOrder | ProofEpochStatement | ProofEpochGenesis | ProofEpochIssuer | ProofEpochSeq
  | ProofEpochSignature | ProofCommit | ProofApproval | ProofApprovalOrder | ProofApprovalSignature
  | ProofKey statement_error

definition verify_link ::
  "sign_crypto \<Rightarrow> string \<Rightarrow> signer \<Rightarrow> chain_link \<Rightarrow> proof_error + signer" where
  "verify_link C userId prev l =
     (case parseStatement (Some (cl_statement l)) of
        None \<Rightarrow> Inl LinkStatement
      | Some st \<Rightarrow>
          if fld st ''type'' \<noteq> ''approve'' \<or> fld st ''user_id'' \<noteq> userId \<or> fld st ''issuer_device_id'' \<noteq> sg_id prev
          then Inl LinkStatement
          else if \<not> DECIMAL_RE (fld st ''seq'') \<or> parse_nat (fld st ''seq'') \<le> sg_seq prev then Inl LinkOrder
          else if fld st ''subject_device_id'' \<noteq> cl_device_id l \<or> fld st ''subject_sign_pub'' \<noteq> cl_sign_pub l
                  \<or> fld st ''subject_kind'' \<noteq> cl_kind l \<or> fld st ''subject_sign_alg'' \<noteq> cl_sign_alg l
          then Inl LinkSubject
          else if \<not> canApprove (kindPolicy (cl_kind l)) then Inl LinkNotApprover
          else (case deviceIdFor (cl_sign_pub l) of
                  Inl err \<Rightarrow> Inl (ProofKey err)
                | Inr i \<Rightarrow>
                    if cl_device_id l \<noteq> i then Inl LinkId
                    else if \<not> verifySignature C (sg_alg prev) (sg_pub prev) (utf8_encode (cl_statement l))
                               (Some (JStr (cl_signature l)))
                    then Inl LinkSignature
                    else Inr \<lparr>sg_id = cl_device_id l, sg_alg = cl_sign_alg l, sg_pub = cl_sign_pub l,
                              sg_seq = parse_nat (fld st ''seq'')\<rparr>))"

fun check_links :: "sign_crypto \<Rightarrow> string \<Rightarrow> chain_link list \<Rightarrow> signer \<Rightarrow> proof_error + signer" where
  "check_links C userId [] prev = Inr prev"
| "check_links C userId (l # ls) prev =
     (case verify_link C userId prev l of Inl err \<Rightarrow> Inl err | Inr s \<Rightarrow> check_links C userId ls s)"

definition verifyLinks :: "sign_crypto \<Rightarrow> chain_link list \<Rightarrow> signer \<Rightarrow> string \<Rightarrow> proof_error + signer" where
  "verifyLinks C links rt userId =
     (if 16 < length links then Inl LinkMalformed else check_links C userId links rt)"

definition hexEqual :: "string \<Rightarrow> string \<Rightarrow> bool" where
  "hexEqual a b =
     (if length a \<noteq> length b then False
      else fold (\<lambda>(x, y) diff. diff OR (of_char x XOR of_char y)) (zip a b) (0 :: nat) = 0)"

fun verify_epochs ::
  "sign_crypto \<Rightarrow> string \<Rightarrow> signer \<Rightarrow> nat \<Rightarrow> (nat \<times> string) list \<Rightarrow> proof_epoch list \<Rightarrow> proof_error + unit" where
  "verify_epochs C userId rt lastSeq [] cs = Inr ()"
| "verify_epochs C userId rt lastSeq (want # ws) [] = Inl ProofEpochOrder"
| "verify_epochs C userId rt lastSeq (want # ws) (c # cs) =
     (if pe_epoch c \<noteq> fst want then Inl ProofEpochOrder
      else (case parseStatement (Some (pe_statement c)) of
              None \<Rightarrow> Inl ProofEpochStatement
            | Some e \<Rightarrow>
                if fld e ''type'' \<notin> {''genesis'', ''revoke'', ''rotate''} \<or> fld e ''user_id'' \<noteq> userId
                   \<or> fld e ''epoch'' \<noteq> show_nat (fst want)
                then Inl ProofEpochStatement
                else if (fld e ''type'' = ''genesis'') \<noteq> (fst want = 1) then Inl ProofEpochGenesis
                else (case verifyLinks C (pe_chain c) rt userId of
                        Inl err \<Rightarrow> Inl err
                      | Inr issuer \<Rightarrow>
                          if fld e ''issuer_device_id'' \<noteq> sg_id issuer then Inl ProofEpochIssuer
                          else if \<not> DECIMAL_RE (fld e ''seq'') then Inl ProofEpochSeq
                          else (let seq = parse_nat (fld e ''seq'') in
                                if (if fld e ''type'' = ''genesis''
                                    then seq \<noteq> 1 \<or> fld e ''prev_hash'' \<noteq> [] \<or> sg_id issuer \<noteq> sg_id rt
                                    else seq \<le> sg_seq issuer)
                                then Inl ProofEpochOrder
                                else if seq \<le> lastSeq then Inl ProofEpochOrder
                                else if \<not> verifySignature C (sg_alg issuer) (sg_pub issuer) (utf8_encode (pe_statement c))
                                           (Some (JStr (pe_signature c)))
                                then Inl ProofEpochSignature
                                else if \<not> COMMIT_RE (snd want) \<or> \<not> hexEqual (fld e ''epoch_commit'') (snd want)
                                then Inl ProofCommit
                                else verify_epochs C userId rt seq ws cs))))"

definition verify_approval ::
  "sign_crypto \<Rightarrow> bridge_context \<Rightarrow> string \<Rightarrow> signer \<Rightarrow> string \<times> string \<times> chain_link list \<Rightarrow> proof_error + unit" where
  "verify_approval C ctx userId rt sa =
     (case sa of (approval, sig, links) \<Rightarrow>
        (case verifyLinks C links rt userId of
           Inl err \<Rightarrow> Inl err
         | Inr approver \<Rightarrow>
             (case parseStatement (Some approval) of
                None \<Rightarrow> Inl ProofApproval
              | Some s \<Rightarrow>
                  if fld s ''type'' \<noteq> ''approve'' \<or> fld s ''user_id'' \<noteq> userId \<or> fld s ''issuer_device_id'' \<noteq> sg_id approver
                     \<or> fld s ''subject_kind'' \<noteq> ''bridge'' \<or> fld s ''subject_sign_pub'' \<noteq> bc_identity_pub ctx
                  then Inl ProofApproval
                  else (case deviceIdFor (bc_identity_pub ctx) of
                          Inl err \<Rightarrow> Inl (ProofKey err)
                        | Inr i \<Rightarrow>
                            if fld s ''subject_device_id'' \<noteq> i then Inl ProofApproval
                            else if \<not> DECIMAL_RE (fld s ''seq'') \<or> parse_nat (fld s ''seq'') \<le> sg_seq approver
                            then Inl ProofApprovalOrder
                            else if \<not> verifySignature C (sg_alg approver) (sg_pub approver) (utf8_encode approval) (Some (JStr sig))
                            then Inl ProofApprovalSignature
                            else Inr ()))))"

definition verifyBridgeChainProof ::
  "sign_crypto \<Rightarrow> bridge_proof \<Rightarrow> (nat \<times> string) list \<Rightarrow> bridge_context \<Rightarrow> proof_error + string" where
  "verifyBridgeChainProof C p commits ctx =
     (if bp_v p \<noteq> 2 \<or> bp_user_id p \<noteq> bc_owner ctx then Inl ProofUser
      else if bc_pinned_root ctx \<noteq> None \<and> bc_pinned_root ctx \<noteq> Some (bp_root_sign_pub p) then Inl ProofRootNotPinned
      else if signAlgFromId (Some (JStr (bp_root_sign_alg p))) = None then Inl ProofRoot
      else
        (case deviceIdFor (bp_root_sign_pub p) of
           Inl err \<Rightarrow> Inl (ProofKey err)
         | Inr i \<Rightarrow>
             if bp_root_device_id p \<noteq> i then Inl ProofRoot
             else
               (case vaultIdFor (bp_root_sign_pub p) of
                  Inl err \<Rightarrow> Inl (ProofKey err)
                | Inr v \<Rightarrow>
                    if bc_vault_id ctx \<noteq> v then Inl ProofOtherVault
                    else
                      (case parseStatement (Some (fst (bp_genesis p))) of
                         None \<Rightarrow> Inl ProofGenesis
                       | Some g \<Rightarrow>
                           if fld g ''type'' \<noteq> ''genesis'' \<or> fld g ''seq'' \<noteq> ''1'' \<or> fld g ''prev_hash'' \<noteq> []
                              \<or> fld g ''user_id'' \<noteq> bp_user_id p \<or> fld g ''issuer_device_id'' \<noteq> bp_root_device_id p
                              \<or> fld g ''subject_device_id'' \<noteq> bp_root_device_id p
                              \<or> fld g ''subject_sign_pub'' \<noteq> bp_root_sign_pub p
                              \<or> fld g ''subject_sign_alg'' \<noteq> bp_root_sign_alg p
                           then Inl ProofGenesis
                           else if \<not> verifySignature C (bp_root_sign_alg p) (bp_root_sign_pub p)
                                      (utf8_encode (fst (bp_genesis p))) (Some (JStr (snd (bp_genesis p))))
                           then Inl ProofGenesisSignature
                           else
                             (let rt = \<lparr>sg_id = bp_root_device_id p, sg_alg = bp_root_sign_alg p,
                                        sg_pub = bp_root_sign_pub p, sg_seq = 1\<rparr> in
                              if length (bp_epochs p) \<noteq> length commits \<or> commits = [] then Inl ProofEpochCount
                              else
                                (case verify_epochs C (bp_user_id p) rt 0 commits (bp_epochs p) of
                                   Inl err \<Rightarrow> Inl err
                                 | Inr _ \<Rightarrow>
                                     (case verify_approval C ctx (bp_user_id p) rt (bp_subject p) of
                                        Inl err \<Rightarrow> Inl err
                                      | Inr _ \<Rightarrow> Inr (bp_root_sign_pub p))))))))"

section \<open>Every approver of a good log has its chain\<close>

definition signer_of :: "'a signed_device_scheme \<Rightarrow> signer" where
  "signer_of d = \<lparr>sg_id = sd_device_id d, sg_alg = sd_sign_alg d, sg_pub = sd_sign_pub d, sg_seq = sd_seq d\<rparr>"

lemma approvals_at:
  "d \<in> set (approvals xs) \<longleftrightarrow> (\<exists>k < length xs. d = op_device (k, xs ! k) \<and> op_type (xs ! k) \<in> {''genesis'', ''approve''})"
  by (auto simp: approvals_def in_set_enumerate_eq image_iff)

lemma seq_op_device [simp]: "sd_seq (op_device (k, x)) = k + 1"
  by (cases x) (simp add: op_device_def verifiedFrom_def)

lemma statement_op_device [simp]: "sd_statement (op_device (k, x)) = op_text x" "sd_signature (op_device (k, x)) = snd (snd x)"
  "sd_approved_by (op_device (k, x)) = op_issuer x" "sd_sign_pub (op_device (k, x)) = fld (fst x) ''subject_sign_pub''"
  "sd_sign_alg (op_device (k, x)) = fld (fst x) ''subject_sign_alg''"
  "sd_kind (op_device (k, x)) = the (deviceKindFromId (fld (fst x) ''subject_kind''))"
  by (cases x; simp add: op_device_def verifiedFrom_def op_issuer_def)+

lemma well_formed_kind: "subjectWellFormed st \<Longrightarrow> kind_id (the (deviceKindFromId (fld st ''subject_kind''))) = fld st ''subject_kind''"
  by (auto simp: subjectWellFormed_def deviceKindFromId_Some split: option.splits)

lemma approval_cases:
  assumes "good_log C u xs" and "d \<in> set (approvals xs)"
  obtains (root) "xs \<noteq> []" "d = op_device (0, hd xs)" "genesis_ok C (hd xs)"
    | (approved) k i where "0 < k" "k < length xs" "d = op_device (k, xs ! k)" "op_type (xs ! k) = ''approve''"
        "i \<in> set (approvals xs)" "sd_seq i \<le> k" "signed_by C i (xs ! k)" "approves_ok (take k xs) (xs ! k)"
        "op_linked u (take k xs) (xs ! k)"
proof -
  obtain k where k: "k < length xs" "d = op_device (k, xs ! k)" "op_type (xs ! k) \<in> {''genesis'', ''approve''}"
    using assms(2) unfolding approvals_at by blast
  note ok = good_log_op [OF assms(1) k(1)]
  show thesis
  proof (cases "k = 0")
    case True
    then show thesis using k ok root by (auto simp: op_ok_def hd_conv_nth)
  next
    case False
    then have ne: "take k xs \<noteq> []" using k by auto
    have type: "op_type (xs ! k) = ''approve''" using later_type [OF ok ne] k(3) by auto
    obtain i where i: "i \<in> set (trusted_devices (take k xs))" "signed_by C i (xs ! k)"
      using ok ne by (auto simp: op_ok_def)
    then obtain j where j: "j < k" "j < length xs" "i = op_device (j, xs ! j)" "op_type (xs ! j) \<in> {''genesis'', ''approve''}"
      by (auto simp: trusted_subset approvals_at)
    have "i \<in> set (approvals xs)" "sd_seq i \<le> k" using j by (auto simp: approvals_at)
    moreover have "approves_ok (take k xs) (xs ! k)" "op_linked u (take k xs) (xs ! k)"
      using ok ne type by (auto simp: op_ok_def)
    ultimately show thesis using approved [of k i] False k type i(2) by blast
  qed
qed

lemma decimal_show: "1 \<le> n \<Longrightarrow> n < 10 ^ 16 \<Longrightarrow> DECIMAL_RE (show_nat n)"
  using all_digits_show_nat [of n] hd_show_nat [of n] length_show_nat [of n 16]
  by (auto simp: DECIMAL_RE_def all_digits_def Suc_le_eq)

lemma link_verifies:
  assumes "op_linked u (take k xs) (xs ! k)" "approves_ok (take k xs) (xs ! k)" "signed_by C i (xs ! k)" "sd_seq i \<le> k"
    and "op_type (xs ! k) = ''approve''" "may_approve (op_device (k, xs ! k))" "k < length xs" "length xs < 10 ^ 16"
  shows "verify_link C u (signer_of i) (link_of (op_device (k, xs ! k))) = Inr (signer_of (op_device (k, xs ! k)))"
proof -
  obtain st tx sig where x: "xs ! k = (st, tx, sig)" by (cases "xs ! k")
  have wf: "subjectWellFormed st" and key: "deviceIdFor (fld st ''subject_sign_pub'') = Inr (fld st ''subject_device_id'')"
    using assms(2) by (simp_all add: x approves_ok_def idMatchesKey_def Let_def)
  have seq: "fld st ''seq'' = show_nat (k + 1)" "parseStatement (Some tx) = Some st" "fld st ''user_id'' = u"
    using assms(1, 7) by (simp_all add: x op_linked_def)
  have "DECIMAL_RE (show_nat (k + 1))" by (rule decimal_show) (use assms(7, 8) in auto)
  then show ?thesis
    using assms wf key seq well_formed_kind [OF wf]
    by (simp add: verify_link_def link_of_def signer_of_def x signed_by_def may_approve_def Let_def)
qed

lemma check_links_snoc:
  "check_links C u (ls @ [l]) s = (case check_links C u ls s of Inl err \<Rightarrow> Inl err | Inr t \<Rightarrow> verify_link C u t l)"
  by (induction ls arbitrary: s) (auto split: sum.splits)

lemma chain_ever:
  assumes "chain_of C u ch xs" and "d \<in> set (approvals xs)"
  obtains v where "map_of (vc_ever ch) (sd_device_id d) = Some v" "signed_device.truncate v = d"
proof -
  have "map_of (keyed (approvals xs)) (sd_device_id d) = Some d"
    using assms(2) map_of_keyed [OF good_distinct [of C u xs]] assms(1) unfolding chain_of_def by blast
  then have "map_option signed_device.truncate (map_of (vc_ever ch) (sd_device_id d)) = Some d"
    using assms(1) by (simp add: map_of_unrowed [symmetric] chain_of_def)
  then show thesis using that by auto
qed

lemma truncate_fields:
  assumes "signed_device.truncate v = d"
  shows "sd_device_id v = sd_device_id d" "sd_approved_by v = sd_approved_by d" "link_of v = link_of d" "sd_kind v = sd_kind d"
    "sd_statement v = sd_statement d" "sd_signature v = sd_signature d" "sd_sign_pub v = sd_sign_pub d"
  using assms by (cases v; auto simp: signed_device.defs link_of_def)+

lemma issuer_walk_signs:
  assumes ch: "chain_of C u ch xs" and len: "length xs < 10 ^ 16"
  shows "d \<in> set (approvals xs) \<Longrightarrow> (\<forall>e \<in> set (approvals xs). sd_device_id e \<in> set seen \<longrightarrow> sd_seq d < sd_seq e) \<Longrightarrow>
    \<exists>ls. issuer_walk ch (sd_device_id d) seen = Inr ls
      \<and> (may_approve d \<longrightarrow> check_links C u (rev ls) (signer_of (op_device (0, hd xs))) = Inr (signer_of d))"
proof (induction "sd_seq d" arbitrary: d seen rule: less_induct)
  case less
  have good: "good_log C u xs" using ch by (simp add: chain_of_def)
  obtain v where v: "map_of (vc_ever ch) (sd_device_id d) = Some v" "signed_device.truncate v = d"
    using chain_ever [OF ch less.prems(1)] by blast
  note f = truncate_fields [OF v(2)]
  have ne: "xs \<noteq> []" using ch by (simp add: chain_of_def)
  have rootid: "vc_rootDeviceId ch = sd_device_id (op_device (0, hd xs))" using ch by (simp add: chain_of_def)
  have root_in: "op_device (0, hd xs) \<in> set (approvals xs)"
    using genesis_ok_def ne good_log_op [OF good, of 0]
    by (auto simp: approvals_at op_ok_def hd_conv_nth Let_def op_type_def intro!: exI [of _ 0])
  from good less.prems(1) show ?case
  proof (cases rule: approval_cases)
    case root
    then show ?thesis using v f rootid by (auto simp: issuer_walk.simps [of ch])
  next
    case (approved k i)
    have other: "sd_device_id d \<noteq> vc_rootDeviceId ch"
    proof
      assume "sd_device_id d = vc_rootDeviceId ch"
      then have "d = op_device (0, hd xs)" using approval_unique [OF good less.prems(1) root_in] rootid by simp
      then have "sd_seq d = 1" by simp
      with approved show False by simp
    qed
    have fresh: "sd_device_id d \<notin> set seen" using less.prems by blast
    have seq: "sd_seq i < sd_seq d" using approved by simp
    have seen: "sd_seq i < sd_seq e"
      if "e \<in> set (approvals xs)" "sd_device_id e \<in> set (sd_device_id d # seen)" for e
    proof (cases "sd_device_id e = sd_device_id d")
      case True
      with approval_unique [OF good that(1) less.prems(1)] seq show ?thesis by simp
    next
      case False
      with that less.prems(2) seq show ?thesis by fastforce
    qed
    obtain ls where ls: "issuer_walk ch (sd_device_id i) (sd_device_id d # seen) = Inr ls"
      "may_approve i \<longrightarrow> check_links C u (rev ls) (signer_of (op_device (0, hd xs))) = Inr (signer_of i)"
      using less.hyps [OF seq approved(5)] seen by blast
    have by_i: "sd_approved_by v = sd_device_id i" using approved f by (simp add: signed_by_def)
    have walk: "issuer_walk ch (sd_device_id d) seen = Inr (link_of d # ls)"
      using v f other fresh ls(1) by (simp add: issuer_walk.simps [of ch "sd_device_id d"] by_i)
    have "check_links C u (rev (link_of d # ls)) (signer_of (op_device (0, hd xs))) = Inr (signer_of d)" if "may_approve d"
    proof -
      have "may_approve i" using approved(7) by (simp add: signed_by_def)
      then show ?thesis
        using ls(2) link_verifies [OF approved(9, 8, 7, 6, 4) _ approved(2) len] approved(3) that
        by (simp add: check_links_snoc)
    qed
    with walk show ?thesis by blast
  qed
qed

lemma chain_root:
  "chain_of C u ch xs \<Longrightarrow> signer_of (op_device (0, hd xs)) =
     \<lparr>sg_id = vc_rootDeviceId ch, sg_alg = vc_rootSignAlg ch, sg_pub = vc_rootSignPub ch, sg_seq = 1\<rparr>"
  by (simp add: signer_of_def chain_of_def)

lemma issuer_chain_signs:
  assumes ch: "chain_of C u ch xs" and len: "length xs < 10 ^ 16" and d: "d \<in> set (approvals xs)"
  shows "\<exists>links. issuerChain ch (sd_device_id d) = Inr links
    \<and> (may_approve d \<and> length links \<le> 16 \<longrightarrow> verifyLinks C links (signer_of (op_device (0, hd xs))) u = Inr (signer_of d))"
proof -
  obtain ls where "issuer_walk ch (sd_device_id d) [] = Inr ls"
    "may_approve d \<longrightarrow> check_links C u (rev ls) (signer_of (op_device (0, hd xs))) = Inr (signer_of d)"
    using issuer_walk_signs [OF ch len d, of "[]"] by auto
  then show ?thesis by (auto simp: issuerChain_def verifyLinks_def)
qed

lemma verified_version:
  assumes "verifyDirectory C dir u pins = Inr ch"
  shows "vc_version ch < 10 ^ 16"
proof -
  obtain devices ops w where "js_prop dir ''log'' = Some (JArr ops)" and v: "safe_int (js_prop dir ''version'') = Some (int (length ops))"
    and fin: "finish_chain dir u pins (length ops) devices w = Inr ch"
    using assms by (auto simp: verifyDirectory_def split: option.splits js.splits if_splits sum.splits)
  from fin have "vc_version ch = length ops"
    by (auto simp: finish_chain_def Let_def split: option.splits if_splits sum.splits prod.splits)
  moreover have "int (length ops) \<le> 9007199254740991"
    using v by (auto simp: safe_int_def split: option.splits js.splits if_splits)
  ultimately show ?thesis by simp
qed

lemma verified_log:
  assumes "verifyDirectory C dir u pins = Inr ch"
  obtains xs where "chain_of C u ch xs" "length xs < 10 ^ 16"
  using verified_chain_of [OF assms] verified_version [OF assms] by (metis chain_of_def)

lemma ever_approved:
  assumes "chain_of C u ch xs" and "map_of (vc_ever ch) i = Some v"
  shows "signed_device.truncate v \<in> set (approvals xs) \<and> sd_device_id v = i"
proof -
  have "map_of (keyed (approvals xs)) i = Some (signed_device.truncate v)"
    using assms by (simp add: chain_of_def map_of_unrowed [symmetric, of "vc_ever ch"]) (metis map_of_unrowed option.simps(9))
  then have "signed_device.truncate v \<in> set (approvals xs) \<and> sd_device_id (signed_device.truncate v) = i"
    using map_of_keyed [OF good_distinct [of C u xs]] assms(1) unfolding chain_of_def by blast
  then show ?thesis using truncate_fields(1) by metis
qed

lemma signer_truncate: "signer_of (signed_device.truncate v) = signer_of v"
  by (cases v) (simp add: signer_of_def signed_device.defs)

text \<open>
  C12. In the chain of a verified directory the walk up the approvals ends at the root for every device ever approved,
  without meeting a cycle. When the device may approve and the walk has at most sixteen links, they verify one after the
  other from the root's signing key to the device's own; a longer walk, which \<open>issuerChain\<close> builds all the same, is
  refused by \<open>verifyLinks\<close> as malformed.
\<close>

theorem issuer_chain_reaches_root:
  assumes "verifyDirectory C dir u pins = Inr ch" and d: "map_of (vc_ever ch) i = Some d"
  shows "\<exists>links. issuerChain ch i = Inr links
    \<and> (canApprove (kindPolicy (kind_id (sd_kind d))) \<longrightarrow>
       verifyLinks C links \<lparr>sg_id = vc_rootDeviceId ch, sg_alg = vc_rootSignAlg ch, sg_pub = vc_rootSignPub ch, sg_seq = 1\<rparr> u
       = (if 16 < length links then Inl LinkMalformed
          else Inr \<lparr>sg_id = i, sg_alg = sd_sign_alg d, sg_pub = sd_sign_pub d, sg_seq = sd_seq d\<rparr>))"
proof -
  obtain xs where ch: "chain_of C u ch xs" "length xs < 10 ^ 16" using verified_log [OF assms(1)] .
  note e = ever_approved [OF ch(1) d]
  have "signer_of (signed_device.truncate d) = \<lparr>sg_id = i, sg_alg = sd_sign_alg d, sg_pub = sd_sign_pub d, sg_seq = sd_seq d\<rparr>"
    unfolding signer_truncate using e by (simp add: signer_of_def)
  moreover have "may_approve (signed_device.truncate d) = canApprove (kindPolicy (kind_id (sd_kind d)))"
    by (simp add: may_approve_def truncate_fields(4) [OF refl, symmetric])
  moreover have "sd_device_id (signed_device.truncate d) = i" using e truncate_fields(1) [OF refl, of d] by metis
  moreover from issuer_chain_signs [OF ch conjunct1 [OF e]] obtain links
    where "issuerChain ch (sd_device_id (signed_device.truncate d)) = Inr links"
      "may_approve (signed_device.truncate d) \<and> length links \<le> 16 \<longrightarrow>
       verifyLinks C links (signer_of (op_device (0, hd xs))) u = Inr (signer_of (signed_device.truncate d))"
    by (elim exE conjE)
  moreover have "16 < length links \<longrightarrow> verifyLinks C links rt u = Inl LinkMalformed" for rt
    by (simp add: verifyLinks_def)
  ultimately show ?thesis unfolding chain_root [OF ch(1)] by (intro exI [of _ links]) auto
qed

section \<open>A built proof is accepted\<close>

lemma hexEqual_refl [simp]: "hexEqual a a"
proof -
  have "fold (\<lambda>(x, y) diff. diff OR (of_char x XOR of_char y)) (zip a a) (0 :: nat) = 0"
    by (induction a) auto
  then show ?thesis by (simp add: hexEqual_def)
qed

lemma epoch_at:
  "e < length (epoch_ops xs) \<Longrightarrow> \<exists>k < length xs. epoch_ops xs ! e = (k, xs ! k) \<and> length (epoch_ops (take k xs)) = e
     \<and> op_type (xs ! k) \<in> {''genesis'', ''revoke'', ''rotate''}"
proof (induction xs rule: rev_induct)
  case (snoc x xs)
  show ?case
  proof (cases "e < length (epoch_ops xs)")
    case True
    with snoc.IH obtain k where k: "k < length xs" "epoch_ops xs ! e = (k, xs ! k)" "length (epoch_ops (take k xs)) = e"
      "op_type (xs ! k) \<in> {''genesis'', ''revoke'', ''rotate''}" by blast
    with True show ?thesis
      by (intro exI [of _ k]) (auto simp: epoch_ops_snoc nth_append)
  next
    case False
    with snoc.prems have "op_type x \<in> {''genesis'', ''revoke'', ''rotate''}" "e = length (epoch_ops xs)"
      by (auto simp: epoch_ops_snoc split: if_splits)
    then show ?thesis by (intro exI [of _ "length xs"]) (auto simp: epoch_ops_snoc nth_append)
  qed
qed simp

lemma epoch_positions: "sorted_wrt (<) (map fst (epoch_ops xs))"
proof -
  have "sorted_wrt (<) (map fst (filter P (enumerate n xs)))" for P n
    by (induction xs arbitrary: n) (auto simp: less_Suc_eq_le in_set_enumerate_eq Suc_le_eq)
  then show ?thesis by (simp add: epoch_ops_def)
qed

lemma epoch_issuer:
  assumes good: "good_log C u xs" and e: "e < length (epoch_ops xs)"
  obtains k i where "k < length xs" "epoch_ops xs ! e = (k, xs ! k)" "op_linked u (take k xs) (xs ! k)"
    "op_type (xs ! k) \<in> {''genesis'', ''revoke'', ''rotate''}" "(op_type (xs ! k) = ''genesis'') = (k = 0)" "(k = 0) = (e = 0)"
    "fld (fst (xs ! k)) ''epoch'' = show_nat (e + 1)" "COMMIT_RE (fld (fst (xs ! k)) ''epoch_commit'')"
    "i \<in> set (approvals xs)" "signed_by C i (xs ! k)" "sd_seq i \<le> max k 1" "k = 0 \<Longrightarrow> i = op_device (0, hd xs)"
proof -
  obtain k where k: "k < length xs" "epoch_ops xs ! e = (k, xs ! k)" "length (epoch_ops (take k xs)) = e"
    "op_type (xs ! k) \<in> {''genesis'', ''revoke'', ''rotate''}" using epoch_at [OF e] by blast
  note ok = good_log_op [OF good k(1)]
  show thesis
  proof (cases "k = 0")
    case True
    have ne: "xs \<noteq> []" using k by auto
    then have first: "xs ! k = hd xs" using True by (simp add: hd_conv_nth)
    note g = genesis_ok_def [of C "hd xs"] 
    have gen: "genesis_ok C (hd xs)" using ok True first by (simp add: op_ok_def)
    have type: "op_type (hd xs) = ''genesis''" using gen by (simp add: g op_type_def Let_def)
    have may: "may_approve (op_device (0, hd xs))"
      using gen well_formed_kind by (simp add: g may_approve_def Let_def)
    have "signed_by C (op_device (0, hd xs)) (hd xs)" using gen may by (simp add: g signed_by_def Let_def)
    moreover have "op_device (0, hd xs) \<in> set (approvals xs)" using ne type first True by (auto simp: approvals_at intro!: exI [of _ 0])
    moreover have "show_nat (Suc 0) = ''1''" by code_simp
    ultimately show thesis
      using that [of k "op_device (0, hd xs)"] k ok True first type gen by (auto simp: g op_ok_def Let_def)
  next
    case False
    then have ne: "take k xs \<noteq> []" using k by auto
    have "epoch_ops (take k xs) \<noteq> []" using good_epochs [OF good_log_take [OF good] ne] .
    then have e0: "e \<noteq> 0" using k(3) by auto
    have type: "op_type (xs ! k) \<in> {''revoke'', ''rotate''}" using later_type [OF ok ne] k(4) by auto
    then have ep: "epoch_ok (take k xs) (xs ! k)" "op_linked u (take k xs) (xs ! k)" using ok ne by (auto simp: op_ok_def)
    obtain i where i: "i \<in> set (trusted_devices (take k xs))" "signed_by C i (xs ! k)"
      using ok ne by (auto simp: op_ok_def)
    then obtain j where j: "j < k" "j < length xs" "i = op_device (j, xs ! j)" "op_type (xs ! j) \<in> {''genesis'', ''approve''}"
      by (auto simp: trusted_subset approvals_at)
    have "i \<in> set (approvals xs)" "sd_seq i \<le> k" using j by (auto simp: approvals_at)
    then show thesis using that [of k i] k False e0 type ep i(2) by (auto simp: epoch_ok_def)
  qed
qed

lemma epoch_carriers_verify:
  assumes ch: "chain_of C u ch xs" and len: "length xs < 10 ^ 16"
  shows "epoch_carriers ch [Suc e..<Suc n] = Inr cs \<Longrightarrow> n = length (epoch_ops xs) \<Longrightarrow>
    \<forall>c \<in> set cs. length (pe_chain c) \<le> 16 \<Longrightarrow> (\<forall>e' k. e \<le> e' \<and> e' < n \<and> fst (epoch_ops xs ! e') = k \<longrightarrow> before < k + 1) \<Longrightarrow>
    verify_epochs C u (signer_of (op_device (0, hd xs))) before (map (\<lambda>e. (Suc e, op_commit (epoch_ops xs ! e))) [e..<n]) cs = Inr ()"
proof (induction "n - e" arbitrary: e cs before)
  case 0
  then show ?case by simp
next
  case (Suc m)
  have good: "good_log C u xs" using ch by (simp add: chain_of_def)
  have e: "e < n" using Suc.hyps(2) by simp
  then have elen: "e < length (epoch_ops xs)" using Suc.prems(2) by simp
  obtain k i where k: "k < length xs" "epoch_ops xs ! e = (k, xs ! k)" "op_linked u (take k xs) (xs ! k)"
    "op_type (xs ! k) \<in> {''genesis'', ''revoke'', ''rotate''}" "(op_type (xs ! k) = ''genesis'') = (k = 0)" "(k = 0) = (e = 0)"
    "fld (fst (xs ! k)) ''epoch'' = show_nat (e + 1)" "COMMIT_RE (fld (fst (xs ! k)) ''epoch_commit'')"
    and i: "i \<in> set (approvals xs)" "signed_by C i (xs ! k)" "sd_seq i \<le> max k 1" "k = 0 \<Longrightarrow> i = op_device (0, hd xs)"
    using epoch_issuer [OF good elen] by blast
  obtain st tx sig where x: "xs ! k = (st, tx, sig)" by (cases "xs ! k")
  have ep: "map_of (vc_epochs ch) (Suc e) = Some (epoch_proof_of (Suc e, k, xs ! k))"
    using ch elen k(2) by (simp add: chain_of_def map_of_numbered)
  have range: "[Suc e..<Suc n] = Suc e # [Suc (Suc e)..<Suc n]" "[e..<n] = e # [Suc e..<n]"
    using e by (simp_all add: upt_conv_Cons)
  obtain v where v: "map_of (vc_ever ch) (sd_device_id i) = Some v" "signed_device.truncate v = i"
    using chain_ever [OF ch i(1)] by blast
  have issuer: "fld st ''issuer_device_id'' = sd_device_id i" using i(2) by (simp add: x signed_by_def)
  obtain links where links: "issuerChain ch (sd_device_id i) = Inr links"
    "length links \<le> 16 \<longrightarrow> verifyLinks C links (signer_of (op_device (0, hd xs))) u = Inr (signer_of i)"
    using issuer_chain_signs [OF ch len i(1)] i(2) by (auto simp: signed_by_def)
  obtain rest where rest: "epoch_carriers ch [Suc (Suc e)..<Suc n] = Inr rest"
    "cs = \<lparr>pe_epoch = Suc e, pe_statement = tx, pe_signature = sig, pe_chain = links\<rparr> # rest"
    using Suc.prems(1) unfolding range
    by (auto simp: ep epoch_proof_of_def x issuer v(1) links(1) split: if_splits sum.splits)
  have verified: "verifyLinks C links (signer_of (op_device (0, hd xs))) u = Inr (signer_of i)"
    using links(2) Suc.prems(3) rest(2) by simp
  have seq: "DECIMAL_RE (show_nat (k + 1))" by (rule decimal_show) (use k(1) len in auto)
  have "verify_epochs C u (signer_of (op_device (0, hd xs))) (k + 1)
      (map (\<lambda>e. (Suc e, op_commit (epoch_ops xs ! e))) [Suc e..<n]) rest = Inr ()"
  proof (rule Suc.hyps(1))
    show "m = n - Suc e" using Suc.hyps(2) by simp
    show "\<forall>e' k'. Suc e \<le> e' \<and> e' < n \<and> fst (epoch_ops xs ! e') = k' \<longrightarrow> k + 1 < k' + 1"
      using sorted_wrt_nth_less [OF epoch_positions [of xs], of e] Suc.prems(2) k(2) by (auto simp: Suc_le_eq)
  qed (use rest Suc.prems in auto)
  moreover have "before < k + 1" using Suc.prems(4) e k(2) by (metis fst_conv order_refl)
  moreover have "(k + 1 \<le> sd_seq i) = False" if "k \<noteq> 0" using i(3) that by auto
  moreover have "fld st ''prev_hash'' = (if k = 0 then [] else head_of (take k xs))" "fld st ''user_id'' = u"
    "fld st ''seq'' = show_nat (k + 1)" "parseStatement (Some tx) = Some st"
    using k(1, 3) by (auto simp: x op_linked_def head_of_def)
  moreover have "verifySignature C (sd_sign_alg i) (sd_sign_pub i) (utf8_encode tx) (Some (JStr sig))"
    using i(2) by (simp add: x signed_by_def)
  ultimately show ?case
    unfolding range rest(2) list.map verify_epochs.simps
    using k seq issuer verified i(4)
    by (auto simp: x Let_def signer_of_def)
qed

lemma numbered_map: "numbered ys = map (\<lambda>e. (Suc e, ys ! e)) [0..<length ys]"
  by (rule nth_equalityI) (simp_all add: numbered_def nth_enumerate_eq)

text \<open>
  The proof a browser builds from a verified directory for a bridge it trusts is accepted by that bridge: with the
  commitments of the epochs of the directory, for the bridge's own key, its owner and its vault, whether or not the
  bridge has pinned the root, as long as no approval chain is longer than the sixteen links a bridge reads.
\<close>

lemma built_proof_is_accepted:
  assumes dir: "verifyDirectory C dir u pins = Inr ch" and built: "buildBridgeChainProof ch b = Inr p"
    and short: "\<forall>c \<in> set (bp_epochs p). length (pe_chain c) \<le> 16" "length (snd (snd (bp_subject p))) \<le> 16"
    and ctx: "bc_owner ctx = u" "bc_vault_id ctx = vc_vaultId ch" "bc_pinned_root ctx \<in> {None, Some (vc_rootSignPub ch)}"
      "map_option sd_sign_pub (map_of (vc_trusted ch) b) = Some (bc_identity_pub ctx)"
  shows "verifyBridgeChainProof C p (vc_commits ch) ctx = Inr (vc_rootSignPub ch)"
proof -
  obtain xs where ch: "chain_of C u ch xs" and len: "length xs < 10 ^ 16" using verified_log [OF dir] .
  have good: "good_log C u xs" and ne: "xs \<noteq> []" using ch by (simp_all add: chain_of_def)
  obtain bridge carriers links where bridge: "map_of (vc_trusted ch) b = Some bridge" "sd_kind bridge = Bridge"
    and carriers: "epoch_carriers ch [1..<vc_currentEpoch ch + 1] = Inr carriers"
    and links: "issuerChain ch (sd_approved_by bridge) = Inr links"
    and p: "p = \<lparr>bp_v = 2, bp_user_id = u, bp_root_device_id = vc_rootDeviceId ch, bp_root_sign_alg = vc_rootSignAlg ch,
      bp_root_sign_pub = vc_rootSignPub ch, bp_genesis = vc_genesis ch, bp_epochs = carriers,
      bp_subject = (sd_statement bridge, sd_signature bridge, links)\<rparr>"
    using built ch by (auto simp: buildBridgeChainProof_def chain_of_def split: option.splits if_splits sum.splits)
  let ?rt = "signer_of (op_device (0, hd xs))" and ?n = "length (epoch_ops xs)"
  define d where "d = signed_device.truncate bridge"
  have d: "d \<in> set (trusted_devices xs)"
  proof -
    have "map_of (keyed (trusted_devices xs)) b = Some d"
      using ch bridge(1) unfolding chain_of_def d_def by (metis map_of_unrowed option.simps(9))
    then show ?thesis by (simp add: map_of_keyed [OF distinct_trusted [OF good]])
  qed
  note df = truncate_fields [of bridge d, OF d_def [symmetric]]
  have n: "vc_currentEpoch ch = ?n" using ch by (simp add: chain_of_def)
  have commits: "vc_commits ch = map (\<lambda>e. (Suc e, op_commit (epoch_ops xs ! e))) [0..<?n]"
    using ch by (simp add: chain_of_def numbered_map comp_def)
  have some: "?n \<noteq> 0" using good_epochs [OF good ne] by simp
  have count: "length carriers = ?n"
  proof -
    have "epoch_carriers ch es = Inr cs \<Longrightarrow> length cs = length es" for es cs
      by (induction ch es arbitrary: cs rule: epoch_carriers.induct) (auto split: option.splits if_splits sum.splits)
    from this [OF carriers] show ?thesis by (simp only: n length_upt)
  qed
  have epochs: "verify_epochs C u ?rt 0 (vc_commits ch) carriers = Inr ()"
    unfolding commits by (rule epoch_carriers_verify [OF ch len]) (use carriers short p n in auto)
  have gen: "genesis_ok C (hd xs)" using genesis_hd [OF good ne] .
  obtain gst gtx gsig where g: "hd xs = (gst, gtx, gsig)" by (cases "hd xs")
  have glink: "op_linked u [] (hd xs)" using op_linked_at [OF good, of 0] ne by (simp add: hd_conv_nth)
  have one: "show_nat (Suc 0) = ''1''" by code_simp
  have approval: "verify_approval C ctx u ?rt (sd_statement bridge, sd_signature bridge, links) = Inr ()"
  proof -
    have bridge_kind: "sd_kind d = Bridge" using bridge(2) df by simp
    have din: "d \<in> set (approvals xs)" using d by (simp add: trusted_subset)
    from good din show ?thesis
    proof (cases rule: approval_cases)
      case root
      have "subjectWellFormed gst" and may: "canApprove (kindPolicy (fld gst ''subject_kind''))"
        using gen by (simp_all add: g genesis_ok_def Let_def)
      from well_formed_kind [OF this(1)] have "kind_id Bridge = fld gst ''subject_kind''"
        using root(2) bridge_kind by (simp add: g)
      with may have "canApprove (kindPolicy (kind_id Bridge))" by (simp only:)
      then show ?thesis by (simp only: canApprove_kind simp_thms)
    next
      case (approved k i)
      obtain st tx sig where x: "xs ! k = (st, tx, sig)" by (cases "xs ! k")
      obtain ls where "issuerChain ch (sd_device_id i) = Inr ls"
        "may_approve i \<and> length ls \<le> 16 \<longrightarrow> verifyLinks C ls ?rt u = Inr (signer_of i)"
        using issuer_chain_signs [OF ch len approved(5)] by blast
      moreover have by_i: "sd_approved_by bridge = sd_device_id i" using approved df by (simp add: signed_by_def)
      moreover have "length links \<le> 16" using short(2) p by simp
      ultimately have verified: "verifyLinks C links ?rt u = Inr (signer_of i)"
        using links approved(7) by (simp add: signed_by_def)
      have wf: "subjectWellFormed st" "deviceIdFor (fld st ''subject_sign_pub'') = Inr (fld st ''subject_device_id'')"
        using approved(8) by (simp_all add: x approves_ok_def idMatchesKey_def Let_def)
      have seq: "fld st ''seq'' = show_nat (k + 1)" "parseStatement (Some tx) = Some st" "fld st ''user_id'' = u"
        using approved(2, 9) by (simp_all add: x op_linked_def)
      have dec: "DECIMAL_RE (show_nat (k + 1))" by (rule decimal_show) (use approved(2) len in auto)
      have kind: "fld st ''subject_kind'' = ''bridge''"
        using well_formed_kind [OF wf(1)] bridge_kind approved(3) by (simp add: x)
      have pub: "bc_identity_pub ctx = fld st ''subject_sign_pub''"
        using ctx(4) bridge(1) df approved(3) by (simp add: x)
      show ?thesis
        using verified wf seq dec kind pub approved df
        by (simp add: verify_approval_def x signer_of_def signed_by_def)
    qed
  qed
  have rootp: "vc_rootSignPub ch = fld gst ''subject_sign_pub''" "vc_rootSignAlg ch = fld gst ''subject_sign_alg''"
    "vc_rootDeviceId ch = fld gst ''subject_device_id''" "vc_genesis ch = (gtx, gsig)"
    and vault: "vaultIdFor (vc_rootSignPub ch) = Inr (vc_vaultId ch)"
    using ch unfolding chain_of_def g op_parts fst_conv snd_conv by blast+
  have alg: "signAlgFromId (Some (JStr (fld gst ''subject_sign_alg''))) \<noteq> None"
  proof -
    have "subjectWellFormed gst" using gen by (simp add: g genesis_ok_def Let_def)
    then show ?thesis by (auto simp: subjectWellFormed_def split: option.splits if_splits)
  qed
  show ?thesis
    using gen glink alg rootp vault [unfolded rootp(1)] epochs approval commits some count ctx chain_root [OF ch] one
    by (auto simp: verifyBridgeChainProof_def p g genesis_ok_def op_linked_def head_of_def idMatchesKey_def Let_def)
qed

section \<open>An accepted proof vouches for the keyring\<close>

text \<open>
  The signers a root vouches for: the root itself, and every key that an approval statement, signed by a key already
  vouched for, gives to an approver.
\<close>

definition approval_by :: "sign_crypto \<Rightarrow> string \<Rightarrow> signer \<Rightarrow> string \<Rightarrow> statement \<Rightarrow> bool" where
  "approval_by C userId s t st =
     (parseStatement (Some t) = Some st \<and> fld st ''type'' = ''approve'' \<and> fld st ''user_id'' = userId
      \<and> fld st ''issuer_device_id'' = sg_id s \<and> sg_seq s < parse_nat (fld st ''seq'')
      \<and> deviceIdFor (fld st ''subject_sign_pub'') = Inr (fld st ''subject_device_id'')
      \<and> (\<exists>sig. verifySignature C (sg_alg s) (sg_pub s) (utf8_encode t) (Some (JStr sig))))"

inductive vouched :: "sign_crypto \<Rightarrow> string \<Rightarrow> signer \<Rightarrow> signer \<Rightarrow> bool" for C userId rt where
  root: "vouched C userId rt rt"
| approved: "vouched C userId rt s \<Longrightarrow> approval_by C userId s t st
    \<Longrightarrow> canApprove (kindPolicy (fld st ''subject_kind''))
    \<Longrightarrow> vouched C userId rt \<lparr>sg_id = fld st ''subject_device_id'', sg_alg = fld st ''subject_sign_alg'',
          sg_pub = fld st ''subject_sign_pub'', sg_seq = parse_nat (fld st ''seq'')\<rparr>"

lemma verify_link_vouched:
  assumes "vouched C u rt s" and "verify_link C u s l = Inr s'"
  shows "vouched C u rt s'"
proof -
  obtain st where st: "parseStatement (Some (cl_statement l)) = Some st" using assms(2)
    by (auto simp: verify_link_def split: option.splits)
  have ok: "approval_by C u s (cl_statement l) st" "canApprove (kindPolicy (fld st ''subject_kind''))"
    and s': "s' = \<lparr>sg_id = fld st ''subject_device_id'', sg_alg = fld st ''subject_sign_alg'',
          sg_pub = fld st ''subject_sign_pub'', sg_seq = parse_nat (fld st ''seq'')\<rparr>"
    using assms(2) st by (auto simp: verify_link_def approval_by_def split: if_splits sum.splits)
  from vouched.approved [OF assms(1) ok] show ?thesis unfolding s' .
qed

lemma check_links_vouched: "vouched C u rt s \<Longrightarrow> check_links C u ls s = Inr s' \<Longrightarrow> vouched C u rt s'"
  by (induction ls arbitrary: s) (auto split: sum.splits intro: verify_link_vouched)

lemma verifyLinks_vouched: "verifyLinks C ls rt u = Inr s \<Longrightarrow> vouched C u rt s"
  by (auto simp: verifyLinks_def intro: check_links_vouched vouched.root split: if_splits)

lemma xor_eq_0: "(m :: nat) XOR n = 0 \<longleftrightarrow> m = n"
  by (metis xor.left_neutral xor.assoc xor_self_eq)

lemma or_eq_0: "(m :: nat) OR n = 0 \<longleftrightarrow> m = 0 \<and> n = 0"
  by (auto simp: bit_eq_iff bit_or_iff)

lemma hexEqual_iff: "hexEqual a b \<longleftrightarrow> a = b"
proof -
  have "fold (\<lambda>(x, y) diff. diff OR (of_char x XOR of_char y)) zs d = (0 :: nat) \<longleftrightarrow> d = 0 \<and> (\<forall>(x, y) \<in> set zs. x = y)"
    for zs :: "(char \<times> char) list" and d
    by (induction zs arbitrary: d) (auto simp: or_eq_0 xor_eq_0)
  moreover have "length a = length b \<Longrightarrow> (\<forall>(x, y) \<in> set (zip a b). x = y) \<longleftrightarrow> a = b"
    by (induction a b rule: list_induct2) auto
  ultimately show ?thesis by (auto simp: hexEqual_def)
qed

text \<open>The statement that introduced an epoch, signed by a key the root vouches for.\<close>

definition epoch_signed :: "sign_crypto \<Rightarrow> string \<Rightarrow> signer \<Rightarrow> nat \<Rightarrow> string \<Rightarrow> bool" where
  "epoch_signed C userId rt epoch commit =
     (\<exists>s t st sig. vouched C userId rt s \<and> parseStatement (Some t) = Some st
        \<and> fld st ''type'' \<in> {''genesis'', ''revoke'', ''rotate''} \<and> fld st ''user_id'' = userId
        \<and> fld st ''issuer_device_id'' = sg_id s \<and> fld st ''epoch'' = show_nat epoch \<and> fld st ''epoch_commit'' = commit
        \<and> verifySignature C (sg_alg s) (sg_pub s) (utf8_encode t) (Some (JStr sig)))"

lemma verify_epochs_signed:
  "verify_epochs C u rt before ws cs = Inr () \<Longrightarrow> \<forall>w \<in> set ws. epoch_signed C u rt (fst w) (snd w)"
proof (induction C u rt before ws cs rule: verify_epochs.induct)
  case (3 C u rt before want ws c cs)
  obtain e where e: "parseStatement (Some (pe_statement c)) = Some e"
    using 3(2) by (auto split: if_splits option.splits)
  obtain s where s: "verifyLinks C (pe_chain c) rt u = Inr s" using 3(2) e by (auto split: if_splits sum.splits)
  have facts: "fld e ''type'' \<in> {''genesis'', ''revoke'', ''rotate''}" "fld e ''user_id'' = u"
    "fld e ''issuer_device_id'' = sg_id s" "fld e ''epoch'' = show_nat (fst want)" "fld e ''epoch_commit'' = snd want"
    "verifySignature C (sg_alg s) (sg_pub s) (utf8_encode (pe_statement c)) (Some (JStr (pe_signature c)))"
    and rest: "verify_epochs C u rt (parse_nat (fld e ''seq'')) ws cs = Inr ()"
    using 3(2) e s by (auto simp: hexEqual_iff Let_def split: if_splits)
  have "epoch_signed C u rt (fst want) (snd want)"
    unfolding epoch_signed_def using verifyLinks_vouched [OF s] e facts by blast
  moreover have "\<forall>w \<in> set ws. epoch_signed C u rt (fst w) (snd w)"
    using 3(1) 3(2) e s rest by (auto simp: hexEqual_iff Let_def split: if_splits)
  ultimately show ?case by simp
qed simp_all

text \<open>
  C11. When a bridge accepts a proof, the root it answers is the one it pinned (if it has one) and names the vault of
  its keyring; every epoch key of the keyring has the commitment that a statement of this account gives to that epoch,
  signed by a key the root vouches for; and such a key approved this bridge's own identity key.
\<close>

theorem accepted_proof_vouches:
  assumes "verifyBridgeChainProof C p commits ctx = Inr r"
  shows "(bc_pinned_root ctx = None \<or> bc_pinned_root ctx = Some r) \<and> vaultIdFor r = Inr (bc_vault_id ctx)
    \<and> (\<exists>rt. sg_pub rt = r \<and> deviceIdFor r = Inr (sg_id rt)
       \<and> (\<forall>(e, c) \<in> set commits. epoch_signed C (bc_owner ctx) rt e c)
       \<and> (\<exists>s t st. vouched C (bc_owner ctx) rt s \<and> approval_by C (bc_owner ctx) s t st
            \<and> fld st ''subject_kind'' = ''bridge'' \<and> fld st ''subject_sign_pub'' = bc_identity_pub ctx))"
proof -
  let ?rt = "\<lparr>sg_id = bp_root_device_id p, sg_alg = bp_root_sign_alg p, sg_pub = bp_root_sign_pub p, sg_seq = 1\<rparr>"
  have r: "r = bp_root_sign_pub p" and root: "bc_pinned_root ctx \<noteq> None \<longrightarrow> bc_pinned_root ctx = Some r"
    "deviceIdFor r = Inr (bp_root_device_id p)" "vaultIdFor r = Inr (bc_vault_id ctx)" "bp_user_id p = bc_owner ctx"
    and epochs: "verify_epochs C (bp_user_id p) ?rt 0 commits (bp_epochs p) = Inr ()"
    and approval: "verify_approval C ctx (bp_user_id p) ?rt (bp_subject p) = Inr ()"
    using assms by (auto simp: verifyBridgeChainProof_def Let_def split: if_splits sum.splits option.splits)
  obtain t sig links where sa: "bp_subject p = (t, sig, links)" by (cases "bp_subject p")
  obtain s where s: "verifyLinks C links ?rt (bp_user_id p) = Inr s"
    using approval sa by (auto simp: verify_approval_def split: sum.splits)
  obtain st where st: "parseStatement (Some t) = Some st"
    using approval sa s by (auto simp: verify_approval_def split: option.splits)
  have "approval_by C (bc_owner ctx) s t st \<and> fld st ''subject_kind'' = ''bridge'' \<and> fld st ''subject_sign_pub'' = bc_identity_pub ctx"
    using approval sa s st root(4)
    by (auto simp: verify_approval_def approval_by_def split: if_splits sum.splits)
  moreover have "vouched C (bc_owner ctx) ?rt s" using verifyLinks_vouched [OF s] root(4) by simp
  ultimately have approved: "\<exists>s t st. vouched C (bc_owner ctx) ?rt s \<and> approval_by C (bc_owner ctx) s t st
      \<and> fld st ''subject_kind'' = ''bridge'' \<and> fld st ''subject_sign_pub'' = bc_identity_pub ctx" by blast
  have signed: "\<forall>(e, c) \<in> set commits. epoch_signed C (bc_owner ctx) ?rt e c"
    using verify_epochs_signed [OF epochs] root(4) by auto
  have "sg_pub ?rt = r" "deviceIdFor r = Inr (sg_id ?rt)" using r root(2) by simp_all
  then show ?thesis using root(1, 3) approved signed by blast
qed

end
