(* ===== verification/VaultWitness.thy ===== *)
theory VaultWitness
  imports VaultSample VaultBridgeProof
begin

text \<open>
  The guarantees of the device directory on a concrete vault: the log of a browser that signs the genesis and rotates
  the keyring once, and a proof that this browser sends to a bridge.
\<close>

section \<open>A log of two operations\<close>

definition rotate_statement :: statement where
  "rotate_statement = zip STATEMENT_FIELDS
     [''rotate'', ''u'', ''2'', logEntryHash (statement_text genesis_statement), dev_id (sample_pub (CHR ''0'')), ''2'', [], [],
      [], [], [], [], [], ''2'', sample_commit, []]"

definition rotated_ops :: "signed_op list" where
  "rotated_ops = [(genesis_statement, statement_text genesis_statement, sample_sig), (rotate_statement, statement_text rotate_statement, sample_sig)]"

lemma rotate_canonical: "statementCanonical rotate_statement = Inr (statement_text rotate_statement)"
  unfolding rotate_statement_def
  by (rule canonical_text)
    (simp_all add: fields_all fields_zip map_of_type STATEMENT_TYPES_def dev_id_value hash_value sample_commit_def
      ID_VALUE_replicate sample_values [simplified], code_simp)

lemma rotate_parse: "parseStatement (Some (statement_text rotate_statement)) = Some rotate_statement"
  unfolding parseStatement_Some using rotate_canonical by (simp add: rotate_statement_def STATEMENT_FIELDS_def)

lemma rotate_fields:
  "fld rotate_statement ''type'' = ''rotate''" "fld rotate_statement ''seq'' = ''2''" "fld rotate_statement ''user_id'' = ''u''"
  "fld rotate_statement ''prev_hash'' = logEntryHash (statement_text genesis_statement)"
  "fld rotate_statement ''issuer_device_id'' = dev_id (sample_pub (CHR ''0''))" "fld rotate_statement ''issued_at_ms'' = ''2''"
  "fld rotate_statement ''epoch'' = ''2''" "fld rotate_statement ''epoch_commit'' = sample_commit"
  "fld rotate_statement ''wrap_sha256'' = []" "subjectEmpty rotate_statement"
  by (simp_all add: rotate_statement_def fields_zip subjectEmpty_def)

lemma genesis_fields:
  "fld genesis_statement ''type'' = ''genesis''" "fld genesis_statement ''subject_kind'' = ''browser''"
  "fld genesis_statement ''subject_device_id'' = dev_id (sample_pub (CHR ''0''))"
  "fld genesis_statement ''issuer_device_id'' = dev_id (sample_pub (CHR ''0''))"
  "fld genesis_statement ''subject_sign_pub'' = sample_pub (CHR ''0'')"
  "fld genesis_statement ''subject_sign_alg'' = SIGN_ALG_ECDSA_P256_SHA256"
  "fld genesis_statement ''user_id'' = ''u''" "fld genesis_statement ''seq'' = ''1''" "fld genesis_statement ''prev_hash'' = []"
  "fld genesis_statement ''epoch'' = ''1''" "fld genesis_statement ''epoch_commit'' = sample_commit"
  by (simp_all add: genesis_statement_def fields_zip)

lemma rotated_good: "good_log sample_sign ''u'' rotated_ops"
proof -
  let ?g = "(genesis_statement, statement_text genesis_statement, sample_sig)"
  have dec: "DECIMAL_RE ''2''" "show_nat (Suc (Suc 0)) = ''2''" by code_simp+
  have first: "good_log sample_sign ''u'' [?g]" using sample_genesis_good by (simp add: sample_ops_def)
  have dev: "trusted_devices [?g] = [verifiedFrom genesis_statement (statement_text genesis_statement) sample_sig 1]"
    by (simp add: trusted_devices_def approvals_def revocations_def op_device_def op_type_def genesis_fields)
  have "op_ok sample_sign ''u'' [?g] (rotate_statement, statement_text rotate_statement, sample_sig)"
    using dec rotate_parse sample_commit_ok sample_verifies [of "CHR ''0''"]
    by (simp add: dev op_ok_def op_linked_def rotate_fields head_of_def signed_by_def verifiedFrom_def
        genesis_fields may_approve_def deviceKindFromId_def kindPolicy_def epoch_ok_def epoch_ops_def op_type_def op_issuer_def)
  with first show ?thesis unfolding rotated_ops_def using good_log_snoc [of sample_sign "''u''" "[?g]"] by simp
qed

lemma rotated_growth: "take 1 rotated_ops = take 1 sample_ops"
  by (simp add: rotated_ops_def sample_ops_def)

section \<open>Growth, pins and approval chains\<close>

theorem honest_growth_accepted_witness:
  "\<exists>ch ch'. verifyDirectory sample_sign (Some (dir_of (take 1 rotated_ops))) ''u'' None = Inr ch
     \<and> verifyDirectory sample_sign (Some (dir_of rotated_ops)) ''u'' (Some (pinsFromChain ch)) = Inr ch'
     \<and> chain_of sample_sign ''u'' ch' rotated_ops"
proof -
  have "(1 :: nat) \<le> 1" "1 \<le> length rotated_ops" "length rotated_ops \<le> 9007199254740991" by (simp_all add: rotated_ops_def)
  from honest_growth_accepted [OF rotated_good this] show ?thesis by blast
qed

lemma sample_directory:
  "\<exists>ch ch'. verifyDirectory sample_sign (Some (dir_of (take 1 sample_ops))) ''u'' None = Inr ch
     \<and> chain_of sample_sign ''u'' ch (take 1 sample_ops)
     \<and> verifyDirectory sample_sign (Some (dir_of (take 1 sample_ops))) ''u'' (Some (pinsFromChain ch)) = Inr ch'"
proof -
  have one: "take 1 sample_ops \<noteq> []" "length (take 1 sample_ops) \<le> 9007199254740991" by (simp_all add: sample_ops_def)
  obtain ch where ch: "verifyDirectory sample_sign (Some (dir_of (take 1 sample_ops))) ''u'' None = Inr ch"
    "chain_of sample_sign ''u'' ch (take 1 sample_ops)"
    using honest_directory_accepted [OF sample_genesis_good one] by blast
  have "\<exists>k. 1 \<le> k \<and> k \<le> length (take 1 sample_ops)
      \<and> Some (pinsFromChain ch) = Some (log_pins (take k (take 1 sample_ops)))"
    using chain_pins [OF ch(2)] by (intro exI [of _ 1]) (simp add: sample_ops_def)
  with ch honest_directory_accepted [OF sample_genesis_good one, of "Some (pinsFromChain ch)"] show ?thesis by blast
qed

theorem pinned_directory_extends_witness:
  "\<exists>ch ch'. verifyDirectory sample_sign (Some (dir_of (take 1 sample_ops))) ''u'' None = Inr ch
     \<and> verifyDirectory sample_sign (Some (dir_of (take 1 sample_ops))) ''u'' (Some (pinsFromChain ch)) = Inr ch'
     \<and> vc_rootSignPub ch' = vc_rootSignPub ch \<and> take (vc_version ch) (vc_logHashes ch') = vc_logHashes ch
     \<and> set (vc_revokedIds ch) \<subseteq> set (vc_revokedIds ch') \<and> map_of (vc_commits ch) \<subseteq>\<^sub>m map_of (vc_commits ch')"
proof -
  obtain ch ch' where
    ch: "verifyDirectory sample_sign (Some (dir_of (take 1 sample_ops))) ''u'' None = Inr ch"
      "verifyDirectory sample_sign (Some (dir_of (take 1 sample_ops))) ''u'' (Some (pinsFromChain ch)) = Inr ch'"
    using sample_directory by blast
  have "log_statements (Some (dir_of (take 1 sample_ops))) \<subseteq> {statement_text genesis_statement}"
    by (auto simp: log_statements_def dir_of_def sample_ops_def numbered_def entry_of_def)
  then have "inj_on logEntryHash (log_statements (Some (dir_of (take 1 sample_ops))) \<union> log_statements (Some (dir_of (take 1 sample_ops))))"
    by (auto simp: inj_on_def)
  from pinned_directory_extends [OF ch this] ch show ?thesis by blast
qed

section \<open>A proof for a bridge\<close>

definition sample_proof :: bridge_proof where
  "sample_proof =
     \<lparr>bp_v = 2, bp_user_id = ''u'', bp_root_device_id = dev_id (sample_pub (CHR ''0'')),
      bp_root_sign_alg = SIGN_ALG_ECDSA_P256_SHA256, bp_root_sign_pub = sample_pub (CHR ''0''),
      bp_genesis = (statement_text genesis_statement, sample_sig),
      bp_epochs = [\<lparr>pe_epoch = 1, pe_statement = statement_text genesis_statement, pe_signature = sample_sig, pe_chain = []\<rparr>],
      bp_subject = (statement_text bridge_statement, sample_sig, [])\<rparr>"

definition sample_context :: "string \<Rightarrow> bridge_context" where
  "sample_context v =
     \<lparr>bc_owner = ''u'', bc_identity_pub = sample_pub (CHR ''1''), bc_pinned_root = Some (sample_pub (CHR ''0'')), bc_vault_id = v\<rparr>"

lemma bridge_fields:
  "fld bridge_statement ''type'' = ''approve''" "fld bridge_statement ''user_id'' = ''u''"
  "fld bridge_statement ''issuer_device_id'' = dev_id (sample_pub (CHR ''0''))" "fld bridge_statement ''subject_kind'' = ''bridge''"
  "fld bridge_statement ''subject_sign_pub'' = sample_pub (CHR ''1'')" "fld bridge_statement ''seq'' = ''2''"
  "fld bridge_statement ''subject_device_id'' = dev_id (sample_pub (CHR ''1''))"
  by (simp_all add: bridge_statement_def fields_zip)

lemma sample_proof_accepted:
  "\<exists>v. verifyBridgeChainProof sample_sign sample_proof [(1, sample_commit)] (sample_context v) = Inr (sample_pub (CHR ''0''))"
proof -
  have seqs: "DECIMAL_RE ''1''" "DECIMAL_RE ''2''" "show_nat (Suc 0) = ''1''" "parse_nat ''1'' = 1" "parse_nat ''2'' = 2" by code_simp+
  have key: "isLowerHex (sample_pub (CHR ''0'')) (Some 65)" by (rule sample_pub_hex) simp
  moreover have "starts_with ''04'' (sample_pub (CHR ''0''))" by (simp add: starts_with_def sample_pub_def)
  ultimately obtain v where v: "vaultIdFor (sample_pub (CHR ''0'')) = Inr v" using vaultIdFor_key by blast
  have sigs: "verifySignature sample_sign SIGN_ALG_ECDSA_P256_SHA256 (sample_pub (CHR ''0'')) m (Some (JStr sample_sig))" for m
    by (rule sample_verifies) simp
  have ids: "deviceIdFor (sample_pub (CHR ''0'')) = Inr (dev_id (sample_pub (CHR ''0'')))"
    "deviceIdFor (sample_pub (CHR ''1'')) = Inr (dev_id (sample_pub (CHR ''1'')))"
    by (intro deviceIdFor_dev sample_pub_hex; simp)+
  have epochs: "verify_epochs sample_sign ''u'' rt 0 [(1, sample_commit)] (bp_epochs sample_proof) = Inr ()"
    and approval: "verify_approval sample_sign (sample_context v) ''u'' rt (bp_subject sample_proof) = Inr ()"
    if "rt = \<lparr>sg_id = dev_id (sample_pub (CHR ''0'')), sg_alg = SIGN_ALG_ECDSA_P256_SHA256, sg_pub = sample_pub (CHR ''0''), sg_seq = 1\<rparr>"
    for rt
    using that seqs sample_parse sample_commit_ok sigs ids
    by (simp_all add: sample_proof_def sample_context_def verify_approval_def verifyLinks_def genesis_fields bridge_fields Let_def)
  have "verifyBridgeChainProof sample_sign sample_proof [(1, sample_commit)] (sample_context v) = Inr (sample_pub (CHR ''0''))"
    using v sigs ids epochs [OF refl] approval [OF refl] sample_parse(1)
    by (simp add: verifyBridgeChainProof_def sample_proof_def sample_context_def signAlgFromId_def genesis_fields Let_def)
  then show ?thesis by blast
qed

theorem accepted_proof_vouches_witness:
  "\<exists>v rt. verifyBridgeChainProof sample_sign sample_proof [(1, sample_commit)] (sample_context v) = Inr (sample_pub (CHR ''0''))
     \<and> vaultIdFor (sample_pub (CHR ''0'')) = Inr v \<and> sg_pub rt = sample_pub (CHR ''0'')
     \<and> epoch_signed sample_sign ''u'' rt 1 sample_commit
     \<and> (\<exists>s t st. vouched sample_sign ''u'' rt s \<and> approval_by sample_sign ''u'' s t st
          \<and> fld st ''subject_kind'' = ''bridge'' \<and> fld st ''subject_sign_pub'' = sample_pub (CHR ''1''))"
proof -
  obtain v where v: "verifyBridgeChainProof sample_sign sample_proof [(1, sample_commit)] (sample_context v) = Inr (sample_pub (CHR ''0''))"
    using sample_proof_accepted by blast
  have ctx: "bc_owner (sample_context v) = ''u''" "bc_identity_pub (sample_context v) = sample_pub (CHR ''1'')"
    "bc_vault_id (sample_context v) = v" by (simp_all add: sample_context_def)
  from accepted_proof_vouches [OF v, unfolded ctx] v show ?thesis by auto
qed

end
