(* ===== verification/ShaEval.thy ===== *)
theory ShaEval
  imports Sha256
begin

text \<open>
  Evaluation of SHA-256 in the kernel, for concrete keys: the compression as a loop over the constants with the
  sixteen words of the schedule that are still needed (\<open>rnd\<close>), and the same loop on naturals (\<open>nat_rnd\<close>), whose
  arguments the simplifier reduces to numerals before it enters the next round. The digests of two keys of 65
  bytes are computed as far as the witnesses need them, to tell the keys apart.
\<close>

section \<open>Rounds with a window of the schedule\<close>

fun rnd :: "word32 list \<Rightarrow> word32 \<Rightarrow> word32 \<Rightarrow> word32 \<Rightarrow> word32 \<Rightarrow> word32 \<Rightarrow> word32 \<Rightarrow> 
    word32 \<Rightarrow> word32 \<Rightarrow> word32 \<Rightarrow> word32 \<Rightarrow> word32 \<Rightarrow> word32 \<Rightarrow> word32 \<Rightarrow> word32 \<Rightarrow> word32 \<Rightarrow> word32 \<Rightarrow> sha_state \<Rightarrow> sha_state" where
  "rnd [] w0 w1 w2 w3 w4 w5 w6 w7 w8 w9 w10 w11 w12 w13 w14 w15 s = s"
| "rnd (k # ks) w0 w1 w2 w3 w4 w5 w6 w7 w8 w9 w10 w11 w12 w13 w14 w15 (a, b, c, d, e, f, g, h) =
     (let T1 = h + Sigma1 e + Ch e f g + k + w0; T2 = Sigma0 a + Maj a b c
      in rnd ks w1 w2 w3 w4 w5 w6 w7 w8 w9 w10 w11 w12 w13 w14 w15
           (sigma1 w14 + w9 + sigma0 w1 + w0) (T1 + T2, a, b, c, d + T1, e, f, g))"

lemma rnd_schedule:
  assumes "t \<le> 64"
  shows "fold (sha_step block) [t..<64] s =
    rnd (drop t sha_K) (schedule block t) (schedule block (t + 1)) (schedule block (t + 2)) (schedule block (t + 3))
      (schedule block (t + 4)) (schedule block (t + 5)) (schedule block (t + 6)) (schedule block (t + 7))
      (schedule block (t + 8)) (schedule block (t + 9)) (schedule block (t + 10)) (schedule block (t + 11))
      (schedule block (t + 12)) (schedule block (t + 13)) (schedule block (t + 14)) (schedule block (t + 15)) s"
  using assms
proof (induction t arbitrary: s rule: inc_induct)
  case base
  have "length sha_K = 64" by (simp add: sha_K_def)
  then show ?case by simp
next
  case (step t)
  obtain a b c d e f g h where s: "s = (a, b, c, d, e, f, g, h)"
    by (metis surj_pair)
  have "length sha_K = 64" by (simp add: sha_K_def)
  then have k: "drop t sha_K = sha_K ! t # drop (Suc t) sha_K" using step.hyps by (simp add: Cons_nth_drop_Suc)
  have w: "schedule block (16 + t) = sigma1 (schedule block (14 + t)) + schedule block (9 + t)
      + sigma0 (schedule block (Suc t)) + schedule block t"
    by (subst schedule.simps) (simp add: add.commute)
  have r: "[t..<64] = t # [Suc t..<64]" using step.hyps by (simp add: upt_conv_Cons)
  show ?case
    unfolding r fold.simps comp_apply step.IH k s rnd.simps Let_def
    by (simp add: sha_step_def Let_def w add.commute [of t])
      (simp add: numeral_nat)
qed

lemma sha_compress_rnd:
  assumes "list_all (\<lambda>(i, w). get_u32 (4 * i) block = w) (zip [0..<16]
    [w0, w1, w2, w3, w4, w5, w6, w7, w8, w9, w10, w11, w12, w13, w14, w15])"
  shows "sha_compress H block = add_state H (rnd sha_K w0 w1 w2 w3 w4 w5 w6 w7 w8 w9 w10 w11 w12 w13 w14 w15 (state_of H))"
  using assms rnd_schedule [of 0 block "state_of H"]
  by (simp add: sha_compress_def schedule.simps upt_conv_Cons)

lemma sha256_two_blocks:
  assumes "length b = 64" and "length m < 56"
  shows "sha256 (b @ m) = concat (map (\<lambda>h. be_bytes 4 (unat h))
    (sha_compress (sha_compress sha_H0 b) (m @ 0x80 # replicate (55 - length m) 0 @ be_bytes 8 (8 * (64 + length m)))))"
proof -
  have "(64 + length m) mod 64 = length m" using assms(2) by simp
  then have "sha_padding (b @ m) = b @ m @ 0x80 # replicate (55 - length m) 0 @ be_bytes 8 (8 * (64 + length m))"
    using assms by (simp add: sha_padding_def mod_if)
  then show ?thesis using assms
    by (simp add: sha256_def sha_blocks.simps [of "_ @ _"] sha_blocks.simps [of "_ # _"] sha_blocks.simps [of "[]"])
qed

section \<open>The rounds on naturals\<close>

definition nat_wrap :: "nat \<Rightarrow> nat" where
  "nat_wrap n = take_bit 32 n"

definition nat_rotr :: "nat \<Rightarrow> nat \<Rightarrow> nat" where
  "nat_rotr n x = drop_bit n x OR push_bit (32 - n) (take_bit n x)"

lemma take_unat: "take_bit 32 (unat (x :: word32)) = unat x"
  by (rule take_bit_nat_eq_self) (use unsigned_less [of x] in simp)

lemma unat_add: "unat (x + y) = nat_wrap (unat x + unat (y :: word32))"
  by (simp add: nat_wrap_def unat_word_ariths take_bit_eq_mod)

lemma wrap_add: "nat_wrap (nat_wrap x + y) = nat_wrap (x + y)" "nat_wrap (x + nat_wrap y) = nat_wrap (x + y)"
  by (simp_all add: nat_wrap_def take_bit_eq_mod mod_simps)

lemma unat_rotr:
  assumes "n \<le> 32"
  shows "unat (word_rotr n (x :: word32)) = nat_rotr n (unat x)"
  unfolding rotr_word_rotr [OF assms, symmetric] rotr_def nat_rotr_def
  using assms by (simp add: unsigned_or_eq unsigned_drop_bit_eq unsigned_push_bit_eq take_bit_push_bit take_unat)

lemma Ch_select: "Ch x y z = (x AND (y XOR z)) XOR z"
  unfolding Ch_def by (rule bit_word_eqI) (auto simp: bit_and_iff bit_xor_iff bit_not_iff)

definition nat_sigma :: "nat \<Rightarrow> nat \<Rightarrow> nat \<Rightarrow> nat" where
  "nat_sigma u v x = nat_rotr u x XOR nat_rotr v x"

definition nat_Ch :: "nat \<Rightarrow> nat \<Rightarrow> nat \<Rightarrow> nat" where
  "nat_Ch x y z = (x AND (y XOR z)) XOR z"

definition nat_Maj :: "nat \<Rightarrow> nat \<Rightarrow> nat \<Rightarrow> nat" where
  "nat_Maj x y z = (x AND y) XOR (x AND z) XOR (y AND z)"

lemma unat_sigmas:
  "unat (sigma0 x) = nat_sigma 7 18 (unat x) XOR drop_bit 3 (unat x)"
  "unat (sigma1 x) = nat_sigma 17 19 (unat x) XOR drop_bit 10 (unat x)"
  "unat (Sigma0 x) = nat_sigma 2 13 (unat x) XOR nat_rotr 22 (unat x)"
  "unat (Sigma1 x) = nat_sigma 6 11 (unat x) XOR nat_rotr 25 (unat x)"
  "unat (Ch x y z) = nat_Ch (unat x) (unat y) (unat z)"
  "unat (Maj x y z) = nat_Maj (unat x) (unat y) (unat z)"
  unfolding sigma0_def sigma1_def Sigma0_def Sigma1_def Ch_select Maj_def nat_Maj_def nat_sigma_def nat_Ch_def
  by (simp_all add: unsigned_xor_eq unsigned_and_eq unat_rotr unsigned_drop_bit_eq take_unat xor.assoc)

type_synonym nat_state = "nat \<times> nat \<times> nat \<times> nat \<times> nat \<times> nat \<times> nat \<times> nat"

fun nat_rnd :: "nat list \<Rightarrow> nat \<Rightarrow> nat \<Rightarrow> nat \<Rightarrow> nat \<Rightarrow> nat \<Rightarrow> nat \<Rightarrow> nat \<Rightarrow> nat \<Rightarrow> nat \<Rightarrow> nat \<Rightarrow> nat \<Rightarrow> nat \<Rightarrow> nat \<Rightarrow> nat \<Rightarrow> nat \<Rightarrow> nat \<Rightarrow> 
    nat_state \<Rightarrow> nat_state" where
  "nat_rnd [] w0 w1 w2 w3 w4 w5 w6 w7 w8 w9 w10 w11 w12 w13 w14 w15 s = s"
| "nat_rnd (k # ks) w0 w1 w2 w3 w4 w5 w6 w7 w8 w9 w10 w11 w12 w13 w14 w15 (a, b, c, d, e, f, g, h) =
     (let T1 = nat_wrap (h + (nat_sigma 6 11 e XOR nat_rotr 25 e) + nat_Ch e f g + k + w0);
          T2 = (nat_sigma 2 13 a XOR nat_rotr 22 a) + nat_Maj a b c
      in nat_rnd ks w1 w2 w3 w4 w5 w6 w7 w8 w9 w10 w11 w12 w13 w14 w15
           (nat_wrap ((nat_sigma 17 19 w14 XOR drop_bit 10 w14) + w9 + (nat_sigma 7 18 w1 XOR drop_bit 3 w1) + w0))
           (nat_wrap (T1 + T2), a, b, c, nat_wrap (d + T1), e, f, g))"

fun unat_state :: "sha_state \<Rightarrow> nat_state" where
  "unat_state (a, b, c, d, e, f, g, h) = (unat a, unat b, unat c, unat d, unat e, unat f, unat g, unat h)"

lemma nat_rnd_unat:
  "unat_state (rnd ks w0 w1 w2 w3 w4 w5 w6 w7 w8 w9 w10 w11 w12 w13 w14 w15 s)
   = nat_rnd (map unat ks) (unat w0) (unat w1) (unat w2) (unat w3) (unat w4) (unat w5) (unat w6) (unat w7)
       (unat w8) (unat w9) (unat w10) (unat w11) (unat w12) (unat w13) (unat w14) (unat w15) (unat_state s)"
proof (induction ks arbitrary: w0 w1 w2 w3 w4 w5 w6 w7 w8 w9 w10 w11 w12 w13 w14 w15 s)
  case (Cons k ks)
  obtain a b c d e f g h where s: "s = (a, b, c, d, e, f, g, h)"
    by (metis surj_pair)
  show ?case unfolding s rnd.simps Let_def Cons
    by (simp add: unat_add unat_sigmas wrap_add Let_def del: of_nat_add)
qed simp

text \<open>A round whose arguments are all numerals; what is a numeral already is not looked at again.\<close>

definition nat_enter :: "nat list \<Rightarrow> nat \<Rightarrow> nat \<Rightarrow> nat \<Rightarrow> nat \<Rightarrow> nat \<Rightarrow> nat \<Rightarrow> nat \<Rightarrow> nat \<Rightarrow> nat \<Rightarrow> nat \<Rightarrow> nat \<Rightarrow> nat \<Rightarrow> nat \<Rightarrow> nat \<Rightarrow> nat \<Rightarrow> nat \<Rightarrow> 
    nat \<Rightarrow> nat \<Rightarrow> nat \<Rightarrow> nat \<Rightarrow> nat \<Rightarrow> nat \<Rightarrow> nat \<Rightarrow> nat \<Rightarrow> nat \<Rightarrow> nat_state" where
  "nat_enter ks w1 w2 w3 w4 w5 w6 w7 w8 w9 w10 w11 w12 w13 w14 w15 w T1 T2 a b c d e f g =
     nat_rnd ks w1 w2 w3 w4 w5 w6 w7 w8 w9 w10 w11 w12 w13 w14 w15 w (nat_wrap (T1 + T2), a, b, c, nat_wrap (d + T1), e, f, g)"

lemma nat_rnd_Cons:
  "nat_rnd (k # ks) w0 w1 w2 w3 w4 w5 w6 w7 w8 w9 w10 w11 w12 w13 w14 w15 (a, b, c, d, e, f, g, h) =
   nat_enter ks w1 w2 w3 w4 w5 w6 w7 w8 w9 w10 w11 w12 w13 w14 w15
     (nat_wrap ((nat_sigma 17 19 w14 XOR drop_bit 10 w14) + w9 + (nat_sigma 7 18 w1 XOR drop_bit 3 w1) + w0))
     (nat_wrap (h + (nat_sigma 6 11 e XOR nat_rotr 25 e) + nat_Ch e f g + k + w0))
     ((nat_sigma 2 13 a XOR nat_rotr 22 a) + nat_Maj a b c) a b c d e f g"
  by (simp add: nat_enter_def Let_def)

lemma nat_rnd_cong: "s = s' \<Longrightarrow> nat_rnd ks w0 w1 w2 w3 w4 w5 w6 w7 w8 w9 w10 w11 w12 w13 w14 w15 s = nat_rnd ks w0 w1 w2 w3 w4 w5 w6 w7 w8 w9 w10 w11 w12 w13 w14 w15 s'"
  by simp

lemma nat_enter_cong:
  "w = w' \<Longrightarrow> T1 = T1' \<Longrightarrow> T2 = T2' \<Longrightarrow>
   nat_enter ks w1 w2 w3 w4 w5 w6 w7 w8 w9 w10 w11 w12 w13 w14 w15 w T1 T2 a b c d e f g
   = nat_enter ks w1 w2 w3 w4 w5 w6 w7 w8 w9 w10 w11 w12 w13 w14 w15 w' T1' T2' a b c d e f g"
  by simp

lemmas sha_eval = nat_rnd_Cons nat_enter_def nat_sigma_def nat_rotr_def nat_Ch_def nat_Maj_def nat_wrap_def

lemma replicate_words: "replicate 2 x = [x, x]" "replicate 3 x = [x, x, x]" "replicate 4 x = [x, x, x, x]"
  by (simp_all add: eval_nat_numeral)

lemma unat_state_inj:
  assumes "unat_state s = unat_state r"
  shows "s = r"
proof -
  obtain a b c d e f g h where s: "s = (a, b, c, d, e, f, g, h)"
    by (metis surj_pair)
  obtain a' b' c' d' e' f' g' h' where r: "r = (a', b', c', d', e', f', g', h')"
    by (metis surj_pair)
  show ?thesis using assms by (simp add: s r word_unat_eq_iff)
qed

section \<open>Two keys of 65 bytes\<close>

definition mid_hash :: "word32 list" where
  "mid_hash = [46897837, 1894333300, 2871297829, 2377295312, 2243157043, 1472584941, 941574023, 1454355457]"

lemma first_block:
  "sha_compress sha_H0 (4 # replicate 63 0) =
     mid_hash"
proof -
  have "unat_state (rnd sha_K 67108864 0 0 0 0 0 0 0 0 0 0 0 0 0 0 0 (state_of sha_H0)) =
      unat_state (2562831430, 3045166319, 1857393587, 3898781846, 883263924, 3166729313, 412839388, 4207863528)"
    unfolding nat_rnd_unat sha_K_def sha_H0_def state_of.simps list.map unat_state.simps
    by (simp del: nat_rnd.simps) (simp add: sha_eval del: nat_rnd.simps(2) cong: nat_rnd_cong nat_enter_cong)
  then have "rnd sha_K 67108864 0 0 0 0 0 0 0 0 0 0 0 0 0 0 0 (state_of sha_H0) =
      (2562831430, 3045166319, 1857393587, 3898781846, 883263924, 3166729313, 412839388, 4207863528)"
    by (rule unat_state_inj)
  moreover have "sha_compress sha_H0 (4 # replicate 63 0) =
      add_state sha_H0 (rnd sha_K 67108864 0 0 0 0 0 0 0 0 0 0 0 0 0 0 0 (state_of sha_H0))"
    by (rule sha_compress_rnd) (simp add: upt_conv_Cons get_u32_def sub_bytes_def be_value_def replicate_words)
  ultimately show ?thesis by (simp add: sha_H0_def mid_hash_def)
qed

lemma second_block_0:
  "sha_compress mid_hash (0 # 128 # replicate 54 0 @ [0, 0, 0, 0, 0, 0, 2, 8]) =
     [1508842074, 15948570, 1915594092, 2802537127, 569588120, 1666011044, 630391281, 1895282365]"
proof -
  have "unat_state (rnd sha_K 8388608 0 0 0 0 0 0 0 0 0 0 0 0 0 0 520 (state_of mid_hash)) =
      unat_state (1461944237, 2416582566, 3339263559, 425241815, 2621398373, 193426103, 3983784554, 440926908)"
    unfolding nat_rnd_unat sha_K_def mid_hash_def state_of.simps list.map unat_state.simps
    by (simp del: nat_rnd.simps) (simp add: sha_eval del: nat_rnd.simps(2) cong: nat_rnd_cong nat_enter_cong)
  then have "rnd sha_K 8388608 0 0 0 0 0 0 0 0 0 0 0 0 0 0 520 (state_of mid_hash) =
      (1461944237, 2416582566, 3339263559, 425241815, 2621398373, 193426103, 3983784554, 440926908)"
    by (rule unat_state_inj)
  moreover have "sha_compress mid_hash (0 # 128 # replicate 54 0 @ [0, 0, 0, 0, 0, 0, 2, 8]) =
      add_state mid_hash (rnd sha_K 8388608 0 0 0 0 0 0 0 0 0 0 0 0 0 0 520 (state_of mid_hash))"
    by (rule sha_compress_rnd) (simp add: upt_conv_Cons get_u32_def sub_bytes_def be_value_def replicate_words)
  ultimately show ?thesis by (simp add: sha_H0_def mid_hash_def)
qed

lemma second_block_1:
  "sha_compress mid_hash (1 # 128 # replicate 54 0 @ [0, 0, 0, 0, 0, 0, 2, 8]) =
     [1163053688, 2184908940, 503394108, 3198734491, 2450073707, 931274852, 3454603619, 3465187494]"
proof -
  have "unat_state (rnd sha_K 25165824 0 0 0 0 0 0 0 0 0 0 0 0 0 0 520 (state_of mid_hash)) =
      unat_state (1116155851, 290575640, 1927063575, 821439179, 206916664, 3753657207, 2513029596, 2010832037)"
    unfolding nat_rnd_unat sha_K_def mid_hash_def state_of.simps list.map unat_state.simps
    by (simp del: nat_rnd.simps) (simp add: sha_eval del: nat_rnd.simps(2) cong: nat_rnd_cong nat_enter_cong)
  then have "rnd sha_K 25165824 0 0 0 0 0 0 0 0 0 0 0 0 0 0 520 (state_of mid_hash) =
      (1116155851, 290575640, 1927063575, 821439179, 206916664, 3753657207, 2513029596, 2010832037)"
    by (rule unat_state_inj)
  moreover have "sha_compress mid_hash (1 # 128 # replicate 54 0 @ [0, 0, 0, 0, 0, 0, 2, 8]) =
      add_state mid_hash (rnd sha_K 25165824 0 0 0 0 0 0 0 0 0 0 0 0 0 0 520 (state_of mid_hash))"
    by (rule sha_compress_rnd) (simp add: upt_conv_Cons get_u32_def sub_bytes_def be_value_def replicate_words)
  ultimately show ?thesis by (simp add: sha_H0_def mid_hash_def)
qed

lemma be_bytes_4: "be_bytes 4 n =
    [word_of_nat (n div 256 div 256 div 256), word_of_nat (n div 256 div 256), word_of_nat (n div 256), word_of_nat n]"
proof -
  have four: "(4 :: nat) = Suc (Suc (Suc (Suc 0)))" by simp
  show ?thesis unfolding four be_bytes.simps append.simps ..
qed

lemma pad_520: "be_bytes 8 520 = [0, 0, 0, 0, 0, 0, 2, 8]"
proof -
  have "be_bytes (4 + 4) 520 = be_bytes 4 0 @ be_bytes 4 520"
    unfolding be_bytes_split by simp
  then show ?thesis by (simp add: be_bytes_4)
qed

text \<open>The digests of two messages of 65 bytes that differ in the last one: their first bytes.\<close>

lemma digest_heads:
  "\<exists>r. sha256 (4 # replicate 64 0) = 89 # r"
  "\<exists>r. sha256 (4 # replicate 63 0 @ [1]) = 69 # r"
proof -
  have m: "4 # replicate 64 0 = (4 # replicate 63 0) @ [0 :: byte]"
    using replicate_Suc [of 63 "0 :: byte"] by (simp add: replicate_append_same)
  have d: "sha256 ((4 # replicate 63 0) @ [x]) = concat (map (\<lambda>h. be_bytes 4 (unat h))
      (sha_compress (sha_compress sha_H0 (4 # replicate 63 0)) (x # 128 # replicate 54 0 @ [0, 0, 0, 0, 0, 0, 2, 8])))" for x
    using sha256_two_blocks [of "4 # replicate 63 0" "[x]"] by (simp add: pad_520)
  show "\<exists>r. sha256 (4 # replicate 64 0) = 89 # r"
    unfolding m d first_block second_block_0 by (simp add: be_bytes_4)
  show "\<exists>r. sha256 (4 # replicate 63 0 @ [1]) = 69 # r"
    using d [of 1] unfolding first_block second_block_1 by (simp add: be_bytes_4)
qed

end
