(* ===== verification/VaultChain.thy ===== *)
theory VaultChain
  imports VaultWitness ShaEval
begin

text \<open>
  A directory whose root approves a second browser: the approval chain of that browser has a link. The ids of the two
  devices differ because the digests of their keys do, which is computed here.
\<close>

section \<open>Two browsers\<close>

definition second_pub :: string where
  "second_pub = bytesToHex (4 # replicate 63 0 @ [1])"

lemma root_key_bytes: "hex_pairs (sample_pub (CHR ''0'')) = Some (4 # replicate 64 0)"
proof -
  have "hex_byte 0 = ''00''" "hex_byte 4 = ''04''" by code_simp+
  then have "bytesToHex (4 # replicate n 0) = ''04'' @ replicate (2 * n) (CHR ''0'')" for n
    by (induction n) (simp_all add: bytesToHex_def)
  from this [of 64] have "bytesToHex (4 # replicate 64 0) = sample_pub (CHR ''0'')"
    by (simp add: sample_pub_def)
  then show ?thesis using hex_pairs_hex [of "4 # replicate 64 0"] by simp
qed

lemma ids_apart: "dev_id second_pub \<noteq> dev_id (sample_pub (CHR ''0''))"
proof -
  obtain r r' where r: "sha256 (4 # replicate 64 0) = 89 # r" "sha256 (4 # replicate 63 0 @ [1]) = 69 # r'"
    using digest_heads by metis
  have h: "hex_char 4 = CHR ''4''" "hex_char 5 = CHR ''5''" "hex_char 9 = CHR ''9''" by code_simp+
  have "hex_pairs second_pub = Some (4 # replicate 63 0 @ [1])" unfolding second_pub_def by (rule hex_pairs_hex)
  then have "dev_id second_pub = ''dev_4'' @ ''5'' @ take 30 (bytesToHex r')"
    by (simp add: dev_id_def toLowerHex_def r(2) bytesToHex_def hex_byte_def h)
  moreover have "dev_id (sample_pub (CHR ''0'')) = ''dev_5'' @ ''9'' @ take 30 (bytesToHex r)"
    by (simp add: root_key_bytes dev_id_def toLowerHex_def r(1) bytesToHex_def hex_byte_def h)
  ultimately show ?thesis by simp
qed

lemma second_pub_hex: "isLowerHex second_pub (Some 65)"
  by (auto simp: second_pub_def isLowerHex_def list_all_iff hex_code_char dest!: hex_units)

definition second_statement :: statement where
  "second_statement = zip STATEMENT_FIELDS
     [''approve'', ''u'', ''2'', logEntryHash (statement_text genesis_statement), dev_id (sample_pub (CHR ''0'')), ''2'',
      dev_id second_pub, ''browser'', second_pub, second_pub, SIGN_ALG_ECDSA_P256_SHA256, WRAP_ALG_ECDH_P256_HKDF_AES,
      ''Um9vdA'', ''1'', sample_commit, []]"

definition second_op :: signed_op where
  "second_op = (second_statement, statement_text second_statement, sample_sig)"

definition two_browsers :: "signed_op list" where
  "two_browsers = take 1 sample_ops @ [second_op]"

lemma second_parse: "parseStatement (Some (statement_text second_statement)) = Some second_statement"
proof -
  have "statementCanonical second_statement = Inr (statement_text second_statement)"
    unfolding second_statement_def
    by (rule canonical_text)
      (simp_all add: fields_all fields_zip map_of_type STATEMENT_TYPES_def deviceKindFromId_def signAlgFromId_def
        wrapAlgFromId_def dev_id_value hash_value second_pub_def hex_ids sample_commit_def ID_VALUE_replicate
        sample_values [simplified])
  then show ?thesis
    unfolding parseStatement_Some by (simp add: second_statement_def STATEMENT_FIELDS_def)
qed

lemma second_fields:
  "fld second_statement ''type'' = ''approve''" "fld second_statement ''user_id'' = ''u''"
  "fld second_statement ''seq'' = ''2''" "fld second_statement ''prev_hash'' = logEntryHash (statement_text genesis_statement)"
  "fld second_statement ''issuer_device_id'' = dev_id (sample_pub (CHR ''0''))" "fld second_statement ''issued_at_ms'' = ''2''"
  "fld second_statement ''subject_device_id'' = dev_id second_pub" "fld second_statement ''subject_kind'' = ''browser''"
  "fld second_statement ''subject_sign_pub'' = second_pub" "fld second_statement ''subject_ecdh_pub'' = second_pub"
  "fld second_statement ''subject_sign_alg'' = SIGN_ALG_ECDSA_P256_SHA256"
  "fld second_statement ''subject_wrap_alg'' = WRAP_ALG_ECDH_P256_HKDF_AES"
  "fld second_statement ''subject_label_b64'' = ''Um9vdA''" "fld second_statement ''epoch'' = ''1''"
  "fld second_statement ''epoch_commit'' = sample_commit"
  by (simp_all add: second_statement_def fields_zip)

lemma two_browsers_good: "good_log sample_sign ''u'' two_browsers"
proof -
  let ?g = "(genesis_statement, statement_text genesis_statement, sample_sig)"
  have dec: "DECIMAL_RE ''2''" "show_nat (Suc (Suc 0)) = ''2''" "show_nat (Suc 0) = ''1''" by code_simp+
  have first: "good_log sample_sign ''u'' [?g]" using sample_genesis_good by (simp add: sample_ops_def)
  have dev: "trusted_devices [?g] = [verifiedFrom genesis_statement (statement_text genesis_statement) sample_sig 1]"
    "approvals [?g] = [verifiedFrom genesis_statement (statement_text genesis_statement) sample_sig 1]"
    by (simp_all add: trusted_devices_def approvals_def revocations_def op_device_def op_type_def genesis_fields)
  have ep: "epoch_ops [?g] = [(0, ?g)]" by (simp add: epoch_ops_def op_type_def genesis_fields)
  have ne: "second_pub \<noteq> []" using second_pub_hex by (auto simp: isLowerHex_def)
  have "approves_ok [?g] second_op"
    using ids_apart deviceIdFor_dev [OF second_pub_hex] ne dec
    by (simp add: approves_ok_def dev ep second_op_def second_fields verifiedFrom_def genesis_fields op_subject_def
        subjectWellFormed_def idMatchesKey_def deviceKindFromId_def signAlgFromId_def wrapAlgFromId_def kindPolicy_def
        op_commit_def label_Um9vdA Let_def)
  moreover have "signed_by sample_sign (verifiedFrom genesis_statement (statement_text genesis_statement) sample_sig 1) second_op"
    using sample_verifies [of "CHR ''0''"]
    by (simp add: signed_by_def second_op_def second_fields verifiedFrom_def genesis_fields may_approve_def
        deviceKindFromId_def kindPolicy_def op_issuer_def)
  ultimately have "op_ok sample_sign ''u'' [?g] second_op"
    using dec second_parse
    by (simp add: dev op_ok_def op_linked_def second_op_def second_fields head_of_def op_type_def)
  with first show ?thesis
    unfolding two_browsers_def using good_log_snoc [of sample_sign "''u''" "[?g]"] by (simp add: sample_ops_def)
qed

section \<open>The approval chain of the second browser\<close>

text \<open>The device the log approved second, in the directory that accepts the log, and the one link of its chain.\<close>

lemma second_device:
  obtains ch d where "verifyDirectory sample_sign (Some (dir_of two_browsers)) ''u'' None = Inr ch"
    "map_of (vc_ever ch) (dev_id second_pub) = Some d" "sd_kind d = Browser" "sd_sign_pub d = second_pub"
    "issuerChain ch (dev_id second_pub) = Inr [link_of d]"
proof -
  let ?root = "op_device (0, hd two_browsers)" and ?second = "op_device (1, second_op)"
  have len: "two_browsers \<noteq> []" "length two_browsers \<le> 9007199254740991" by (simp_all add: two_browsers_def sample_ops_def)
  obtain ch where ch: "verifyDirectory sample_sign (Some (dir_of two_browsers)) ''u'' None = Inr ch"
    "chain_of sample_sign ''u'' ch two_browsers"
    using honest_directory_accepted [OF two_browsers_good len] by blast
  have ops: "two_browsers = [hd two_browsers, second_op]"
    "hd two_browsers = (genesis_statement, statement_text genesis_statement, sample_sig)"
    by (simp_all add: two_browsers_def sample_ops_def)
  have app: "approvals two_browsers = [?root, ?second]"
    by (subst ops(1)) (simp add: approvals_def op_type_def ops(2) genesis_fields second_op_def second_fields)
  have fields: "sd_device_id ?root = dev_id (sample_pub (CHR ''0''))" "sd_device_id ?second = dev_id second_pub"
    "sd_approved_by ?second = dev_id (sample_pub (CHR ''0''))" "sd_kind ?second = Browser" "sd_sign_pub ?second = second_pub"
    by (simp_all add: ops(2) second_op_def op_device_def verifiedFrom_def genesis_fields second_fields deviceKindFromId_def)
  obtain v where v: "map_of (vc_ever ch) (dev_id (sample_pub (CHR ''0''))) = Some v" "signed_device.truncate v = ?root"
    using chain_ever [OF ch(2), of ?root] app fields(1) by auto
  obtain d where d: "map_of (vc_ever ch) (dev_id second_pub) = Some d" "signed_device.truncate d = ?second"
    using chain_ever [OF ch(2), of ?second] app fields(2) by auto
  note tv = truncate_fields [OF v(2), unfolded fields] and td = truncate_fields [OF d(2), unfolded fields]
  have rootid: "vc_rootDeviceId ch = dev_id (sample_pub (CHR ''0''))"
    using ch(2) ops(2) by (simp add: chain_of_def op_subject_def genesis_fields)
  have "issuerChain ch (dev_id second_pub) = Inr [link_of d]"
    using ids_apart by (simp add: issuerChain_def issuer_walk.simps [of ch] v d tv(1) td(1,2) rootid)
  then show thesis using that ch(1) d(1) td(4,7) by blast
qed

theorem issuer_chain_reaches_root_witness:
  "\<exists>ch d l. verifyDirectory sample_sign (Some (dir_of two_browsers)) ''u'' None = Inr ch
     \<and> map_of (vc_ever ch) (dev_id second_pub) = Some d
     \<and> issuerChain ch (dev_id second_pub) = Inr [l]
     \<and> verifyLinks sample_sign [l]
          \<lparr>sg_id = vc_rootDeviceId ch, sg_alg = vc_rootSignAlg ch, sg_pub = vc_rootSignPub ch, sg_seq = 1\<rparr> ''u''
        = Inr \<lparr>sg_id = dev_id second_pub, sg_alg = sd_sign_alg d, sg_pub = second_pub, sg_seq = sd_seq d\<rparr>"
proof -
  obtain ch d where d: "verifyDirectory sample_sign (Some (dir_of two_browsers)) ''u'' None = Inr ch"
    "map_of (vc_ever ch) (dev_id second_pub) = Some d" "sd_kind d = Browser" "sd_sign_pub d = second_pub"
    "issuerChain ch (dev_id second_pub) = Inr [link_of d]" by (rule second_device)
  have "canApprove (kindPolicy (kind_id (sd_kind d)))" by (simp add: d(3) kindPolicy_def deviceKindFromId_def)
  with issuer_chain_reaches_root [OF d(1,2)] d show ?thesis by fastforce
qed

end
