(* ===== verification/VaultWrap.thy ===== *)
theory VaultWrap
  imports VaultBridgeProof VaultSample
begin

text \<open>
  Keyring wraps (\<open>src/ui/utils/vaultKeyringWrap.ts\<close>): sealing a copy of the keyring to a device, and opening one
  against a verified directory. The ephemeral key pair, the nonce and the signing function are arguments; \<open>ecdh\<close> is
  ECDH with HKDF, \<open>hmac\<close> is HMAC-SHA256. An error thrown is a value.
\<close>

section \<open>The wrap object\<close>

datatype wrap_error =
    MissingWrap | UnknownWrapVersion | OtherRecipient | NotCurrentEpoch | OutsideEpochSegment | MakerNotApprover
  | MalformedWrap | WrapSignature | CannotOpenWrap statement_error | OtherVaultKeyring | CommitDiffers
  | OlderCommitDiffers jsnum | NoSuchEpoch | RecipientAlg | KeyringRefused keyring_error | SealRefused statement_error
  | StatementRefused statement_error | UnreadableSignature

record wrap_recipient =
  wr_device_id :: string
  wr_ecdh_pub :: string
  wr_wrap_alg :: "string option"

record 'p wrap_expectation =
  we_userId :: string
  we_recipient :: string
  we_private :: 'p
  we_chain :: verified_chain

definition exportPublicHex :: "bytes \<Rightarrow> string" where
  "exportPublicHex raw = toLowerHex raw"

definition str_field :: "(string \<times> js) list \<Rightarrow> string \<Rightarrow> string option" where
  "str_field ob k = (case map_of ob k of Some (JStr s) \<Rightarrow> Some s | _ \<Rightarrow> None)"

definition num_field :: "(string \<times> js) list \<Rightarrow> string \<Rightarrow> jsnum option" where
  "num_field ob k = (case map_of ob k of Some (JNum n) \<Rightarrow> Some n | _ \<Rightarrow> None)"

text \<open>The object as a wrap; \<open>None\<close> where a field has a type \<open>wrapCanonicalJson\<close> refuses.\<close>

definition wrap_of_js :: "(string \<times> js) list \<Rightarrow> keyring_wrap option" where
  "wrap_of_js ob =
     (if list_all (\<lambda>k. str_field ob k \<noteq> None)
           [''alg'', ''recipient_device_id'', ''ephemeral_public_key'', ''iv'', ''ciphertext'', ''wrapped_by_device_id'']
         \<and> list_all (\<lambda>k. num_field ob k \<noteq> None) [''directory_version'', ''current_epoch'']
      then Some \<lparr>kw_alg = the (str_field ob ''alg''), kw_recipient = the (str_field ob ''recipient_device_id''),
                 kw_directory_version = the (num_field ob ''directory_version''),
                 kw_current_epoch = the (num_field ob ''current_epoch''),
                 kw_ephemeral = the (str_field ob ''ephemeral_public_key''), kw_iv = the (str_field ob ''iv''),
                 kw_ciphertext = the (str_field ob ''ciphertext''),
                 kw_wrapped_by = the (str_field ob ''wrapped_by_device_id'')\<rparr>
      else None)"

text \<open>\<open>{ v: 1, ...w, signature }\<close>.\<close>

definition wrap_object :: "keyring_wrap \<Rightarrow> js \<Rightarrow> js" where
  "wrap_object w sig =
     JObj [(''v'', JNum (Fin 1)), (''alg'', JStr (kw_alg w)), (''recipient_device_id'', JStr (kw_recipient w)),
           (''directory_version'', JNum (kw_directory_version w)), (''current_epoch'', JNum (kw_current_epoch w)),
           (''ephemeral_public_key'', JStr (kw_ephemeral w)), (''iv'', JStr (kw_iv w)),
           (''ciphertext'', JStr (kw_ciphertext w)), (''wrapped_by_device_id'', JStr (kw_wrapped_by w)),
           (''signature'', sig)]"

section \<open>Commitments\<close>

definition entry_commit :: "(bytes \<Rightarrow> bytes \<Rightarrow> bytes) \<Rightarrow> string \<Rightarrow> keyring_entry \<Rightarrow> string" where
  "entry_commit hmac userId e = toLowerHex (epochCommit hmac (ke_key e) userId (nat (num_int (ke_epoch e))))"

definition epochCommitHex ::
  "(bytes \<Rightarrow> bytes \<Rightarrow> bytes) \<Rightarrow> bytes \<Rightarrow> string \<Rightarrow> jsnum \<Rightarrow> wrap_error + string" where
  "epochCommitHex hmac bs userId epoch =
     (case parseKeyringBytes bs None of
        Inl err \<Rightarrow> Inl (KeyringRefused err)
      | Inr parsed \<Rightarrow>
          (case find (\<lambda>e. ke_epoch e = epoch) (pk_entries parsed) of
             None \<Rightarrow> Inl NoSuchEpoch | Some e \<Rightarrow> Inr (entry_commit hmac userId e)))"

definition hexEqualConstantTime :: "string \<Rightarrow> string \<Rightarrow> bool" where
  "hexEqualConstantTime a b =
     (if length a \<noteq> length b then False
      else fold (\<lambda>i diff. diff OR (of_char (a ! i) XOR of_char (b ! i))) [0..<length a] (0 :: nat) = 0)"

definition signed_commit :: "verified_chain \<Rightarrow> jsnum \<Rightarrow> string option" where
  "signed_commit ch e = map_of (vc_commits ch) (nat (num_int e))"

fun check_commits ::
  "(bytes \<Rightarrow> bytes \<Rightarrow> bytes) \<Rightarrow> string \<Rightarrow> verified_chain \<Rightarrow> keyring_entry list \<Rightarrow> wrap_error option" where
  "check_commits hmac userId ch [] = None"
| "check_commits hmac userId ch (e # es) =
     (if truthy (signed_commit ch (ke_epoch e))
         \<and> \<not> hexEqualConstantTime (entry_commit hmac userId e) (the (signed_commit ch (ke_epoch e)))
      then Some (OlderCommitDiffers (ke_epoch e)) else check_commits hmac userId ch es)"

section \<open>Sealing and opening\<close>

definition wrapStatement :: "string \<Rightarrow> keyring_wrap \<Rightarrow> string \<Rightarrow> statement_error + string" where
  "wrapStatement userId w sha =
     statementCanonical
       [(''type'', ''wrap''), (''user_id'', userId), (''seq'', show_number (kw_directory_version w)),
        (''issuer_device_id'', kw_wrapped_by w), (''subject_device_id'', kw_recipient w),
        (''epoch'', show_number (kw_current_epoch w)), (''wrap_sha256'', sha)]"

definition sealKeyringWrap ::
  "('k, 'b) web_crypto \<Rightarrow> ('p \<Rightarrow> bytes \<Rightarrow> bytes \<Rightarrow> 'k option) \<Rightarrow> sign_crypto \<Rightarrow> (bytes \<Rightarrow> string)
   \<Rightarrow> string \<Rightarrow> string \<Rightarrow> wrap_recipient \<Rightarrow> jsnum \<Rightarrow> bytes \<Rightarrow> 'p \<Rightarrow> bytes \<Rightarrow> bytes \<Rightarrow> wrap_error + string \<times> js" where
  "sealKeyringWrap W ecdh C sign signerId userId r version keyringBytes ephPrivate ephPublic iv =
     (if wr_wrap_alg r \<noteq> None \<and> wr_wrap_alg r \<noteq> Some [] \<and> wrapAlgFromId (map_option JStr (wr_wrap_alg r)) = None
      then Inl RecipientAlg
      else
        (case parseKeyringBytes keyringBytes (Some userId) of
           Inl err \<Rightarrow> Inl (KeyringRefused err)
         | Inr parsed \<Rightarrow>
             (case ecdhHkdfAesKey ecdh ephPrivate (wr_ecdh_pub r) WRAP_INFO of
                Inl err \<Rightarrow> Inl (SealRefused err)
              | Inr k \<Rightarrow>
                  (case wrapAad userId (wr_device_id r) version (pk_currentEpoch parsed) of
                     Inl err \<Rightarrow> Inl (SealRefused err)
                   | Inr aad \<Rightarrow>
                       (let w = \<lparr>kw_alg = WRAP_ALG_ECDH_P256_HKDF_AES, kw_recipient = wr_device_id r,
                                 kw_directory_version = version, kw_current_epoch = pk_currentEpoch parsed,
                                 kw_ephemeral = exportPublicHex ephPublic, kw_iv = toLowerHex iv,
                                 kw_ciphertext = toLowerHex (wc_encrypt W k iv (utf8_encode aad) keyringBytes),
                                 kw_wrapped_by = signerId\<rparr>
                        in case wrapSha256 w of
                             Inl err \<Rightarrow> Inl (SealRefused err)
                           | Inr sha \<Rightarrow>
                               (case wrapStatement userId w sha of
                                  Inl err \<Rightarrow> Inl (StatementRefused err)
                                | Inr stmt \<Rightarrow>
                                    (case sc_parse C (sign (utf8_encode stmt)) of
                                       None \<Rightarrow> Inl UnreadableSignature
                                     | Some sig \<Rightarrow> Inr (sha, wrap_object w sig))))))))"

text \<open>The directory version of a wrap lies in the current epoch's segment of the verified log.\<close>

definition in_segment :: "verified_chain \<Rightarrow> js option \<Rightarrow> bool" where
  "in_segment ch v =
     (case (safe_int v, map_of (vc_epochs ch) (vc_currentEpoch ch)) of
        (Some n, Some ep) \<Rightarrow> int (ep_seq ep) \<le> n \<and> n \<le> int (vc_version ch)
      | _ \<Rightarrow> False)"

text \<open>What is checked of the keyring inside.\<close>

definition check_opened ::
  "(bytes \<Rightarrow> bytes \<Rightarrow> bytes) \<Rightarrow> string \<Rightarrow> verified_chain \<Rightarrow> parsed_keyring \<Rightarrow> wrap_error + parsed_keyring" where
  "check_opened hmac userId ch parsed =
     (if pk_vaultId parsed \<noteq> vc_vaultId ch then Inl OtherVaultKeyring
      else
        (case find (\<lambda>e. ke_epoch e = pk_currentEpoch parsed) (pk_entries parsed) of
           None \<Rightarrow> Inl NoSuchEpoch
         | Some cur \<Rightarrow>
             if \<not> hexEqualConstantTime
                   (toLowerHex (epochCommit hmac (ke_key cur) userId (nat (num_int (pk_currentEpoch parsed)))))
                   (case signed_commit ch (pk_currentEpoch parsed) of None \<Rightarrow> [] | Some s \<Rightarrow> s)
             then Inl CommitDiffers
             else (case check_commits hmac userId ch (pk_entries parsed) of Some err \<Rightarrow> Inl err | None \<Rightarrow> Inr parsed)))"

definition openVerifiedWrap ::
  "('k, 'b) web_crypto \<Rightarrow> ('p \<Rightarrow> bytes \<Rightarrow> bytes \<Rightarrow> 'k option) \<Rightarrow> sign_crypto \<Rightarrow> (bytes \<Rightarrow> bytes \<Rightarrow> bytes)
   \<Rightarrow> 'p wrap_expectation \<Rightarrow> js option \<Rightarrow> wrap_error + parsed_keyring" where
  "openVerifiedWrap W ecdh C hmac x wrapJson =
     (case wrapJson of
        Some (JArr _) \<Rightarrow> Inl UnknownWrapVersion
      | Some (JObj ob) \<Rightarrow>
          (let ch = we_chain x in
           if map_of ob ''v'' \<noteq> Some (JNum (Fin 1)) then Inl UnknownWrapVersion
           else if map_of ob ''recipient_device_id'' \<noteq> Some (JStr (we_recipient x)) then Inl OtherRecipient
           else if map_of ob ''current_epoch'' \<noteq> Some (JNum (js_nat (vc_currentEpoch ch))) then Inl NotCurrentEpoch
           else if \<not> in_segment ch (map_of ob ''directory_version'') then Inl OutsideEpochSegment
           else
             (case Option.bind (str_field ob ''wrapped_by_device_id'') (map_of (vc_trusted ch)) of
                None \<Rightarrow> Inl MakerNotApprover
              | Some maker \<Rightarrow>
                  if \<not> canApprove (kindPolicy (kind_id (sd_kind maker))) then Inl MakerNotApprover
                  else
                    (case wrap_of_js ob of
                       None \<Rightarrow> Inl MalformedWrap
                     | Some w \<Rightarrow>
                         (case wrapSha256 w of
                            Inl err \<Rightarrow> Inl MalformedWrap
                          | Inr sha \<Rightarrow>
                              (case wrapStatement (we_userId x) w sha of
                                 Inl err \<Rightarrow> Inl (StatementRefused err)
                               | Inr stmt \<Rightarrow>
                                   if \<not> verifySignature C (sd_sign_alg maker) (sd_sign_pub maker) (utf8_encode stmt)
                                          (Some (JStr (signatureObjectText C (map_of ob ''signature''))))
                                   then Inl WrapSignature
                                   else
                                     (case openKeyringWrap W ecdh w (we_userId x) (we_private x) of
                                        Inl err \<Rightarrow> Inl (CannotOpenWrap err)
                                      | Inr parsed \<Rightarrow> check_opened hmac (we_userId x) ch parsed))))))
      | _ \<Rightarrow> Inl MissingWrap)"

section \<open>What an accepted wrap says\<close>

lemma hexEqualConstantTime_iff: "hexEqualConstantTime a b \<longleftrightarrow> a = b"
proof -
  have "fold (\<lambda>i diff. diff OR (of_char (a ! i) XOR of_char (b ! i))) js d = (0 :: nat) \<longleftrightarrow> d = 0 \<and> (\<forall>i \<in> set js. a ! i = b ! i)"
    for js d
    by (induction js arbitrary: d) (auto simp: or_eq_0 xor_eq_0)
  then show ?thesis by (auto simp: hexEqualConstantTime_def intro: nth_equalityI)
qed

lemma check_commits_None:
  "check_commits hmac u ch es = None \<longleftrightarrow>
     (\<forall>e \<in> set es. \<forall>c. signed_commit ch (ke_epoch e) = Some c \<longrightarrow> c = [] \<or> entry_commit hmac u e = c)"
  by (induction es) (auto simp: hexEqualConstantTime_iff elim: truthy.elims)

text \<open>The keyring belongs to the verified vault and its keys are those the directory committed to.\<close>

definition keys_committed :: "(bytes \<Rightarrow> bytes \<Rightarrow> bytes) \<Rightarrow> string \<Rightarrow> verified_chain \<Rightarrow> parsed_keyring \<Rightarrow> bool" where
  "keys_committed hmac u ch p =
     (pk_vaultId p = vc_vaultId ch
      \<and> (\<exists>e \<in> set (pk_entries p). ke_epoch e = pk_currentEpoch p \<and> signed_commit ch (ke_epoch e) = Some (entry_commit hmac u e))
      \<and> (\<forall>e \<in> set (pk_entries p). \<forall>c. signed_commit ch (ke_epoch e) = Some c \<longrightarrow> c = [] \<or> entry_commit hmac u e = c))"

lemma hex_Nil: "toLowerHex bs = [] \<longleftrightarrow> bs = []"
  by (cases bs) (auto simp: toLowerHex_def bytesToHex_def hex_byte_def)

lemma entry_commit_nonempty: "(\<And>k m. hmac k m \<noteq> []) \<Longrightarrow> entry_commit hmac u e \<noteq> []"
  by (simp add: entry_commit_def epochCommit_def hex_Nil)

lemma find_epoch:
  "find (\<lambda>e. ke_epoch e = c) es = Some e \<Longrightarrow> e \<in> set es \<and> ke_epoch e = c"
  by (auto simp: find_Some_iff)

lemma check_opened_iff:
  assumes "\<And>k m. hmac k m \<noteq> []"
  shows "check_opened hmac u ch p = Inr q \<longleftrightarrow> q = p \<and> keys_committed hmac u ch p"
proof (cases "find (\<lambda>e. ke_epoch e = pk_currentEpoch p) (pk_entries p)")
  case None
  then have "\<not> keys_committed hmac u ch p" by (auto simp: keys_committed_def find_None_iff)
  then show ?thesis using None by (simp add: check_opened_def)
next
  case (Some e)
  note in_p = find_epoch [OF Some] and full = entry_commit_nonempty [of hmac, OF assms]
  have cur: "(\<exists>e \<in> set (pk_entries p). ke_epoch e = pk_currentEpoch p \<and> signed_commit ch (ke_epoch e) = Some (entry_commit hmac u e))
      \<longleftrightarrow> signed_commit ch (pk_currentEpoch p) = Some (entry_commit hmac u e)"
    if "check_commits hmac u ch (pk_entries p) = None"
  proof
    assume "\<exists>e \<in> set (pk_entries p). ke_epoch e = pk_currentEpoch p \<and> signed_commit ch (ke_epoch e) = Some (entry_commit hmac u e)"
    then obtain d where "signed_commit ch (pk_currentEpoch p) = Some (entry_commit hmac u d)" by fastforce
    moreover from this have "entry_commit hmac u e = entry_commit hmac u d"
      using that in_p full [of u d] unfolding check_commits_None by auto
    ultimately show "signed_commit ch (pk_currentEpoch p) = Some (entry_commit hmac u e)" by simp
  qed (use in_p in auto)
  have "toLowerHex (epochCommit hmac (ke_key e) u (nat (num_int (pk_currentEpoch p)))) = entry_commit hmac u e"
    using in_p by (simp add: entry_commit_def)
  then have "check_opened hmac u ch p = Inr q \<longleftrightarrow>
      q = p \<and> pk_vaultId p = vc_vaultId ch \<and> check_commits hmac u ch (pk_entries p) = None
      \<and> signed_commit ch (pk_currentEpoch p) = Some (entry_commit hmac u e)"
    using Some full [of u e]
    by (auto simp: check_opened_def hexEqualConstantTime_iff split: option.splits)
  then show ?thesis using cur unfolding keys_committed_def check_commits_None by blast
qed

lemma str_field_Some: "str_field ob k = Some s \<longleftrightarrow> map_of ob k = Some (JStr s)"
  by (auto simp: str_field_def split: option.splits js.splits)

lemma num_field_Some: "num_field ob k = Some n \<longleftrightarrow> map_of ob k = Some (JNum n)"
  by (auto simp: num_field_def split: option.splits js.splits)

lemma wrap_of_js_Some:
  assumes "wrap_of_js ob = Some w"
  shows "map_of ob ''recipient_device_id'' = Some (JStr (kw_recipient w))"
    and "map_of ob ''current_epoch'' = Some (JNum (kw_current_epoch w))"
    and "map_of ob ''directory_version'' = Some (JNum (kw_directory_version w))"
    and "map_of ob ''wrapped_by_device_id'' = Some (JStr (kw_wrapped_by w))"
  using assms by (auto simp: wrap_of_js_def str_field_Some num_field_Some split: if_splits) (simp_all add: str_field_def num_field_def)

lemma wrap_of_wrap_object:
  assumes "wrap_object w sig = JObj ob"
  shows "wrap_of_js ob = Some w" "map_of ob ''signature'' = Some sig" "map_of ob ''v'' = Some (JNum (Fin 1))"
  using assms by (auto simp: wrap_object_def wrap_of_js_def str_field_def num_field_def)

lemma statement_lines_cong:
  "(\<And>f. f \<in> set fs \<Longrightarrow> fld st f = fld st' f) \<Longrightarrow> statement_lines st fs = statement_lines st' fs"
proof (induction fs)
  case (Cons f fs)
  have "fld st f = fld st' f" by (rule Cons.prems) simp
  moreover have "statement_lines st fs = statement_lines st' fs" by (rule Cons.IH) (simp add: Cons.prems)
  ultimately show ?case by (simp split: sum.split)
qed simp

lemma fld_fields: "f \<in> set fs \<Longrightarrow> fld (map (\<lambda>f. (f, v f)) fs) f = v f"
  by (simp add: fld_def map_of_map_restrict)

text \<open>A canonical text is read as the statement with every field written out.\<close>

lemma canonical_parses:
  assumes "statementCanonical st = Inr t"
  shows "parseStatement (Some t) = Some (map (\<lambda>f. (f, fld st f)) STATEMENT_FIELDS)"
proof -
  let ?full = "map (\<lambda>f. (f, fld st f)) STATEMENT_FIELDS"
  note same = fld_fields [where fs = STATEMENT_FIELDS and v = "fld st"]
  have "''type'' \<in> set STATEMENT_FIELDS" by (simp add: STATEMENT_FIELDS_def)
  then have "map_of ?full ''type'' = Some (fld st ''type'')" by (simp add: map_of_map_restrict)
  also have "\<dots> = map_of st ''type''" using canonical_Inr [OF assms] by (auto simp: fld_def split: option.splits)
  finally have "map_of ?full ''type'' = map_of st ''type''" .
  moreover have "statement_lines ?full STATEMENT_FIELDS = statement_lines st STATEMENT_FIELDS"
    by (rule statement_lines_cong) (rule same)
  moreover have "fld ?full ''subject_kind'' = fld st ''subject_kind''" "fld ?full ''subject_sign_alg'' = fld st ''subject_sign_alg''"
    "fld ?full ''subject_wrap_alg'' = fld st ''subject_wrap_alg''"
    by (rule same, simp add: STATEMENT_FIELDS_def)+
  ultimately have "statementCanonical ?full = Inr t" using assms unfolding statementCanonical_def by (simp only:)
  then show ?thesis unfolding parseStatement_Some by (simp add: comp_def)
qed

text \<open>The statement a wrap is signed with names the user, the recipient, the versions and the hash of the wrap.\<close>

definition wrap_signed_for :: "string \<Rightarrow> keyring_wrap \<Rightarrow> string \<Rightarrow> bool" where
  "wrap_signed_for u w stmt =
     (\<exists>st sha. parseStatement (Some stmt) = Some st \<and> wrapSha256 w = Inr sha \<and> fld st ''type'' = ''wrap'' \<and> fld st ''user_id'' = u
        \<and> fld st ''subject_device_id'' = kw_recipient w \<and> fld st ''issuer_device_id'' = kw_wrapped_by w
        \<and> fld st ''seq'' = show_number (kw_directory_version w) \<and> fld st ''epoch'' = show_number (kw_current_epoch w)
        \<and> fld st ''wrap_sha256'' = sha)"

lemma wrapStatement_fields:
  assumes "wrapStatement u w sha = Inr stmt" "wrapSha256 w = Inr sha"
  shows "wrap_signed_for u w stmt"
proof -
  note same = fld_fields [where fs = STATEMENT_FIELDS]
  show ?thesis unfolding wrap_signed_for_def
    by (intro exI conjI, rule canonical_parses [OF assms(1) [unfolded wrapStatement_def]], rule assms(2))
      (subst same; simp add: STATEMENT_FIELDS_def fld_def)+
qed

section \<open>Opening\<close>

lemma openKeyringWrap_Inr:
  assumes "openKeyringWrap W ecdh w u private = Inr p"
  shows "pk_currentEpoch p = kw_current_epoch w" "pk_userId p = u"
proof -
  obtain plain where p: "parseKeyringBytes plain (Some u) = Inr p" "pk_currentEpoch p = kw_current_epoch w"
    and u: "wrapAad u (kw_recipient w) (kw_directory_version w) (kw_current_epoch w) \<noteq> Inl InvalidWrapAad"
    using assms unfolding openKeyringWrap_def by (auto split: if_splits sum.splits option.splits)
  then show "pk_currentEpoch p = kw_current_epoch w" by simp
  have "u \<noteq> []" using u by (auto simp: wrapAad_def)
  then have "truthy (Some u)" by simp
  from parse_then_print(2) [OF p(1) this] show "pk_userId p = u" by simp
qed

lemma in_segment_iff:
  "in_segment ch (Some (JNum v)) \<longleftrightarrow>
     (\<exists>n ep. v = Fin (of_int n) \<and> \<bar>n\<bar> \<le> 9007199254740991 \<and> map_of (vc_epochs ch) (vc_currentEpoch ch) = Some ep
        \<and> int (ep_seq ep) \<le> n \<and> n \<le> int (vc_version ch))"
  by (cases v) (auto simp: in_segment_def safe_int_def js_whole_def num_int_def split: option.splits)

lemma Inr_steps:
  "(if b then Inl err else r) = Inr p \<longleftrightarrow> \<not> b \<and> r = Inr p"
  "(case o1 of None \<Rightarrow> Inl err | Some a \<Rightarrow> f a) = Inr p \<longleftrightarrow> (\<exists>a. o1 = Some a \<and> f a = Inr p)"
  "(case s1 of Inl e1 \<Rightarrow> Inl (g e1) | Inr b1 \<Rightarrow> h b1) = Inr p \<longleftrightarrow> (\<exists>b1. s1 = Inr b1 \<and> h b1 = Inr p)"
  by (auto split: option.splits sum.splits)

text \<open>The checks an accepted wrap has passed; every other outcome is one of the errors.\<close>

lemma openVerifiedWrap_iff:
  "openVerifiedWrap W ecdh C hmac x v = Inr p \<longleftrightarrow>
     (\<exists>ob m maker w sha stmt q. v = Some (JObj ob) \<and> map_of ob ''v'' = Some (JNum (Fin 1))
        \<and> map_of ob ''recipient_device_id'' = Some (JStr (we_recipient x))
        \<and> map_of ob ''current_epoch'' = Some (JNum (js_nat (vc_currentEpoch (we_chain x))))
        \<and> in_segment (we_chain x) (map_of ob ''directory_version'')
        \<and> str_field ob ''wrapped_by_device_id'' = Some m \<and> map_of (vc_trusted (we_chain x)) m = Some maker
        \<and> canApprove (kindPolicy (kind_id (sd_kind maker))) \<and> wrap_of_js ob = Some w \<and> wrapSha256 w = Inr sha
        \<and> wrapStatement (we_userId x) w sha = Inr stmt
        \<and> verifySignature C (sd_sign_alg maker) (sd_sign_pub maker) (utf8_encode stmt)
             (Some (JStr (signatureObjectText C (map_of ob ''signature''))))
        \<and> openKeyringWrap W ecdh w (we_userId x) (we_private x) = Inr q
        \<and> check_opened hmac (we_userId x) (we_chain x) q = Inr p)"
proof (cases "\<exists>ob. v = Some (JObj ob)")
  case True
  then obtain ob where v: "v = Some (JObj ob)" ..
  show ?thesis
    unfolding v openVerifiedWrap_def Let_def option.case js.case Inr_steps Option.bind_eq_Some_conv by blast
next
  case False
  then show ?thesis by (auto simp: openVerifiedWrap_def split: option.splits js.splits)
qed

text \<open>
  C13. An accepted keyring wrap names this device and the signed current epoch, was made inside the current epoch's
  segment of the verified log by a device the directory trusts as an approver, and carries that device's signature on a
  statement that names the user, the recipient, the versions and the hash of the wrap. The keyring inside is this user's,
  belongs to the verified vault, and its keys are the ones the directory committed to.
\<close>

theorem accepted_wrap_vouched:
  assumes "openVerifiedWrap W ecdh C hmac x v = Inr p" and "\<And>k m. hmac k m \<noteq> []"
  shows "\<exists>ob w maker stmt n ep. v = Some (JObj ob) \<and> wrap_of_js ob = Some w
    \<and> kw_recipient w = we_recipient x \<and> kw_current_epoch w = js_nat (vc_currentEpoch (we_chain x))
    \<and> map_of (vc_epochs (we_chain x)) (vc_currentEpoch (we_chain x)) = Some ep
    \<and> kw_directory_version w = js_nat n \<and> ep_seq ep \<le> n \<and> n \<le> vc_version (we_chain x)
    \<and> map_of (vc_trusted (we_chain x)) (kw_wrapped_by w) = Some maker \<and> sd_kind maker \<noteq> Bridge
    \<and> verifySignature C (sd_sign_alg maker) (sd_sign_pub maker) (utf8_encode stmt)
         (Some (JStr (signatureObjectText C (map_of ob ''signature''))))
    \<and> wrap_signed_for (we_userId x) w stmt
    \<and> pk_userId p = we_userId x \<and> pk_currentEpoch p = js_nat (vc_currentEpoch (we_chain x))
    \<and> keys_committed hmac (we_userId x) (we_chain x) p"
proof -
  from assms(1) obtain ob m maker w sha stmt q where o: "v = Some (JObj ob)"
      "map_of ob ''recipient_device_id'' = Some (JStr (we_recipient x))"
      "map_of ob ''current_epoch'' = Some (JNum (js_nat (vc_currentEpoch (we_chain x))))"
      "in_segment (we_chain x) (map_of ob ''directory_version'')"
      "str_field ob ''wrapped_by_device_id'' = Some m" "map_of (vc_trusted (we_chain x)) m = Some maker"
      "canApprove (kindPolicy (kind_id (sd_kind maker)))" "wrap_of_js ob = Some w" "wrapSha256 w = Inr sha"
      "wrapStatement (we_userId x) w sha = Inr stmt"
      "verifySignature C (sd_sign_alg maker) (sd_sign_pub maker) (utf8_encode stmt)
         (Some (JStr (signatureObjectText C (map_of ob ''signature''))))"
      "openKeyringWrap W ecdh w (we_userId x) (we_private x) = Inr q" "check_opened hmac (we_userId x) (we_chain x) q = Inr p"
    unfolding openVerifiedWrap_iff by blast
  note f = wrap_of_js_Some [OF o(8)]
  from o(4) obtain n ep where seg: "kw_directory_version w = Fin (of_int n)"
      "map_of (vc_epochs (we_chain x)) (vc_currentEpoch (we_chain x)) = Some ep"
      "int (ep_seq ep) \<le> n" "n \<le> int (vc_version (we_chain x))"
    unfolding f(3) in_segment_iff by blast
  have "kw_directory_version w = js_nat (nat n)" using seg(1,3) by (simp add: js_nat_def)
  moreover have "ep_seq ep \<le> nat n" "nat n \<le> vc_version (we_chain x)" using seg(3,4) by simp_all
  moreover have "kw_recipient w = we_recipient x" "kw_current_epoch w = js_nat (vc_currentEpoch (we_chain x))" "m = kw_wrapped_by w"
    using f o(2,3,5) by (simp_all add: str_field_Some)
  moreover have "sd_kind maker \<noteq> Bridge" using o(7) by (simp add: canApprove_kind)
  moreover have "q = p" "keys_committed hmac (we_userId x) (we_chain x) p"
    using o(13) unfolding check_opened_iff [of hmac, OF assms(2)] by auto
  ultimately show ?thesis
    using o(1,6,8,11) seg(2) openKeyringWrap_Inr [OF o(12)] wrapStatement_fields [OF o(10,9)] by metis
qed

section \<open>A sealed wrap opens\<close>

lemma isLowerHex_hex: "isLowerHex (toLowerHex bs) n \<longleftrightarrow> (case n of None \<Rightarrow> True | Some k \<Rightarrow> length bs = k)"
proof -
  have "list_all (\<lambda>c. hex_code c \<noteq> None) (bytesToHex bs)"
    using hex_units hex_code_char by (fastforce simp: list_all_iff)
  then show ?thesis by (auto simp: isLowerHex_def toLowerHex_def split: option.splits)
qed

lemma lowerHexToBytes_hex: "lowerHexToBytes (toLowerHex bs) None = Inr bs"
  using isLowerHex_hex [of bs None] by (simp add: lowerHexToBytes_def toLowerHex_def hex_pairs_hex)

lemma opens_sealed:
  assumes W: "aead_laws W" and p: "parseKeyringBytes kb (Some u) = Inr p"
    and aad: "wrapAad u (kw_recipient w) (kw_directory_version w) (kw_current_epoch w) = Inr aad"
    and w: "kw_alg w = WRAP_ALG_ECDH_P256_HKDF_AES" "kw_current_epoch w = pk_currentEpoch p" "kw_iv w = toLowerHex iv"
      "length iv = 12" "kw_ciphertext w = toLowerHex (wc_encrypt W k iv (utf8_encode aad) kb)"
    and key: "ecdhHkdfAesKey ecdh private (kw_ephemeral w) WRAP_INFO = Inr k"
  shows "openKeyringWrap W ecdh w u private = Inr p"
proof -
  let ?c = "wc_encrypt W k iv (utf8_encode aad) kb"
  have c: "length ?c = length kb + 16" "wc_decrypt W k iv (utf8_encode aad) ?c = Some kb"
    using W by (simp_all add: aead_laws_def)
  have "length kb \<le> KEYRING_MAX_BYTES" by (rule print_then_parse(2)) (rule parse_then_print(1) [OF p])
  then have "\<not> length (toLowerHex ?c) < 32" "\<not> (KEYRING_MAX_BYTES + 16) * 2 < length (toLowerHex ?c)"
    using c(1) by (simp_all add: toLowerHex_def)
  moreover have "wrapAlgFromId (Some (JStr (kw_alg w))) \<noteq> None" by (simp add: w(1) wrapAlgFromId_def)
  ultimately show ?thesis
    using c(2) p aad w key
    by (simp add: openKeyringWrap_def isLowerHex_hex lowerHexToBytes_hex)
qed

lemma public_key_hex:
  assumes "length ephPublic = 65" "hd ephPublic = 4"
  shows "isLowerHex (exportPublicHex ephPublic) (Some 65)" "starts_with ''04'' (exportPublicHex ephPublic)"
proof -
  obtain bs where "ephPublic = 4 # bs" using assms by (cases ephPublic) auto
  moreover have "hex_byte 4 = ''04''" by code_simp
  ultimately show "starts_with ''04'' (exportPublicHex ephPublic)"
    by (simp add: exportPublicHex_def toLowerHex_def bytesToHex_def starts_with_def)
qed (use assms(1) in \<open>simp add: exportPublicHex_def isLowerHex_hex\<close>)

text \<open>Both ends of the key agreement compute one key.\<close>

lemma agreed_key:
  assumes "ecdhHkdfAesKey ecdh ephPrivate peerHex info = Inr k"
    and "length ephPublic = 65" "hd ephPublic = 4"
    and "\<And>peer i. hex_pairs peerHex = Some peer \<Longrightarrow> ecdh private ephPublic i = ecdh ephPrivate peer i"
  shows "ecdhHkdfAesKey ecdh private (exportPublicHex ephPublic) info = Inr k"
proof -
  obtain peer where "lowerHexToBytes peerHex None = Inr peer" "ecdh ephPrivate peer (utf8_encode info) = Some k"
    using assms(1) unfolding ecdhHkdfAesKey_def Inr_steps by (auto split: option.splits)
  moreover from this have "hex_pairs peerHex = Some peer" by (auto simp: lowerHexToBytes_def split: if_splits option.splits)
  ultimately show ?thesis
    using assms(4) public_key_hex [OF assms(2,3)] lowerHexToBytes_hex [of ephPublic]
    by (simp add: ecdhHkdfAesKey_def) (simp add: exportPublicHex_def)
qed

text \<open>What sealing builds.\<close>

lemma sealKeyringWrap_Inr:
  assumes "sealKeyringWrap W ecdh C sign i u r version kb ephPrivate ephPublic iv = Inr (sha, v)"
  shows "\<exists>p k aad w stmt sig. parseKeyringBytes kb (Some u) = Inr p
    \<and> ecdhHkdfAesKey ecdh ephPrivate (wr_ecdh_pub r) WRAP_INFO = Inr k
    \<and> wrapAad u (wr_device_id r) version (pk_currentEpoch p) = Inr aad
    \<and> w = \<lparr>kw_alg = WRAP_ALG_ECDH_P256_HKDF_AES, kw_recipient = wr_device_id r, kw_directory_version = version,
            kw_current_epoch = pk_currentEpoch p, kw_ephemeral = exportPublicHex ephPublic, kw_iv = toLowerHex iv,
            kw_ciphertext = toLowerHex (wc_encrypt W k iv (utf8_encode aad) kb), kw_wrapped_by = i\<rparr>
    \<and> wrapSha256 w = Inr sha \<and> wrapStatement u w sha = Inr stmt
    \<and> sc_parse C (sign (utf8_encode stmt)) = Some sig \<and> v = wrap_object w sig"
  using assms unfolding sealKeyringWrap_def Let_def Inr_steps by (auto split: option.splits)

lemma seal_then_open:
  assumes W: "aead_laws W"
    and seal: "sealKeyringWrap W ecdh C sign i u r version kb ephPrivate ephPublic iv = Inr (sha, v)"
    and keys: "length iv = 12" "length ephPublic = 65" "hd ephPublic = 4"
    and dh: "\<And>peer info. hex_pairs (wr_ecdh_pub r) = Some peer \<Longrightarrow> ecdh private ephPublic info = ecdh ephPrivate peer info"
    and sig: "\<And>m s. sc_parse C (sign m) = Some s
      \<Longrightarrow> verifySignature C (sd_sign_alg maker) (sd_sign_pub maker) m (Some (JStr (signatureObjectText C (Some s))))"
    and maker: "map_of (vc_trusted ch) i = Some maker" "sd_kind maker \<noteq> Bridge"
    and segment: "map_of (vc_epochs ch) (vc_currentEpoch ch) = Some ep" "version = js_nat n" "ep_seq ep \<le> n"
      "n \<le> vc_version ch" "n \<le> 9007199254740991"
    and keyring: "parseKeyringBytes kb (Some u) = Inr p" "pk_currentEpoch p = js_nat (vc_currentEpoch ch)"
      "keys_committed hmac u ch p" "\<And>k m. hmac k m \<noteq> []"
  shows "openVerifiedWrap W ecdh C hmac
      \<lparr>we_userId = u, we_recipient = wr_device_id r, we_private = private, we_chain = ch\<rparr> (Some v) = Inr p"
proof -
  obtain k aad w stmt s where k: "ecdhHkdfAesKey ecdh ephPrivate (wr_ecdh_pub r) WRAP_INFO = Inr k"
    and aad: "wrapAad u (wr_device_id r) version (pk_currentEpoch p) = Inr aad"
    and w: "w = \<lparr>kw_alg = WRAP_ALG_ECDH_P256_HKDF_AES, kw_recipient = wr_device_id r, kw_directory_version = version,
            kw_current_epoch = pk_currentEpoch p, kw_ephemeral = exportPublicHex ephPublic, kw_iv = toLowerHex iv,
            kw_ciphertext = toLowerHex (wc_encrypt W k iv (utf8_encode aad) kb), kw_wrapped_by = i\<rparr>"
    and st: "wrapSha256 w = Inr sha" "wrapStatement u w sha = Inr stmt" "sc_parse C (sign (utf8_encode stmt)) = Some s"
    and v: "v = wrap_object w s"
    using sealKeyringWrap_Inr [OF seal] keyring(1) by auto
  obtain ob where ob: "wrap_object w s = JObj ob" by (simp add: wrap_object_def)
  note f = wrap_of_wrap_object [OF ob]
  note fs = wrap_of_js_Some [OF f(1)]
  have "openKeyringWrap W ecdh w u private = Inr p"
    by (rule opens_sealed [OF W keyring(1), where aad = aad and iv = iv and k = k])
      (use aad keys(1) agreed_key [where ecdh = ecdh, OF k keys(2,3) dh] in \<open>simp_all add: w\<close>)
  moreover have "check_opened hmac u ch p = Inr p" using keyring(3) check_opened_iff [of hmac, OF keyring(4)] by blast
  moreover have "in_segment ch (map_of ob ''directory_version'')"
    unfolding fs(3) in_segment_iff using segment
    by (intro exI [of _ "int n"] exI [of _ ep]) (simp add: w js_nat_def)
  moreover have "str_field ob ''wrapped_by_device_id'' = Some i" using fs(4) by (simp add: str_field_Some w)
  moreover have "map_of ob ''recipient_device_id'' = Some (JStr (wr_device_id r))"
    "map_of ob ''current_epoch'' = Some (JNum (js_nat (vc_currentEpoch ch)))"
    using fs(1,2) keyring(2) by (simp_all add: w)
  moreover have "canApprove (kindPolicy (kind_id (sd_kind maker)))" using maker(2) by (simp add: canApprove_kind)
  ultimately show ?thesis
    unfolding openVerifiedWrap_iff using v ob f st maker(1) sig [OF st(3)]
    by (intro exI [of _ ob] exI [of _ i] exI [of _ maker] exI [of _ w] exI [of _ sha] exI [of _ stmt] exI [of _ p]) simp
qed

section \<open>Sealing succeeds\<close>

lemma show_nat_id: "ID_VALUE_RE (show_nat n)"
proof -
  have "is_digit c \<Longrightarrow> is_id_char c" for c by (simp add: is_id_char_def is_digit_def Let_def)
  then show ?thesis using show_nat_digits by (auto simp: ID_VALUE_RE_def list_all_iff)
qed

lemma show_js_nat: "show_number (js_nat n) = show_nat n"
  by (simp add: js_nat_def del: show_number.simps)

lemma parsed_keyring_ids:
  assumes "parseKeyringBytes kb (Some u) = Inr p" "u \<noteq> []"
  shows "ID_VALUE_RE u" "\<exists>e. pk_currentEpoch p = js_nat e \<and> 1 \<le> e"
proof -
  note v = parsed_valid(1) [OF assms(1), unfolded validateParsed_None validate_epochs_None]
  have "u = pk_userId p" using parse_then_print(2) [OF assms(1)] assms(2) by simp
  then show "ID_VALUE_RE u" using v by simp
  have "pk_currentEpoch p \<in> set (map ke_epoch (pk_entries p))" using v by (metis last_in_set list.size(3) not_one_le_zero)
  then have "valid_epoch (pk_currentEpoch p)" using v by (auto simp: list_all_iff)
  then show "\<exists>e. pk_currentEpoch p = js_nat e \<and> 1 \<le> e"
    using epoch_num(1) [of "pk_currentEpoch p"] by (intro exI [of _ "nat (num_int (pk_currentEpoch p))"]) auto
qed

lemma seal_succeeds:
  assumes "parseKeyringBytes kb (Some u) = Inr p" "u \<noteq> []"
    and "wr_wrap_alg r \<in> {None, Some [], Some WRAP_ALG_ECDH_P256_HKDF_AES}" "wr_device_id r \<noteq> []" "ID_VALUE_RE (wr_device_id r)"
    and "ID_VALUE_RE i" "version = js_nat n" "n \<le> 9007199254740991"
    and "ecdhHkdfAesKey ecdh ephPrivate (wr_ecdh_pub r) WRAP_INFO = Inr k" "\<And>m. sc_parse C (sign m) \<noteq> None"
  shows "\<exists>sha v. sealKeyringWrap W ecdh C sign i u r version kb ephPrivate ephPublic iv = Inr (sha, v)"
proof -
  note ids = parsed_keyring_ids [OF assms(1,2)]
  obtain e where e: "pk_currentEpoch p = js_nat e" "1 \<le> e" using ids(2) by blast
  have alg: "wrapAlgFromId (Some (JStr WRAP_ALG_ECDH_P256_HKDF_AES)) = Some WRAP_ALG_ECDH_P256_HKDF_AES"
    by (simp add: wrapAlgFromId_def)
  obtain aad where aad: "wrapAad u (wr_device_id r) version (pk_currentEpoch p) = Inr aad"
    using ids(1) assms(2,4,5) by (simp add: wrapAad_def)
  define w where "w = \<lparr>kw_alg = WRAP_ALG_ECDH_P256_HKDF_AES, kw_recipient = wr_device_id r, kw_directory_version = version,
      kw_current_epoch = pk_currentEpoch p, kw_ephemeral = exportPublicHex ephPublic, kw_iv = toLowerHex iv,
      kw_ciphertext = toLowerHex (wc_encrypt W k iv (utf8_encode aad) kb), kw_wrapped_by = i\<rparr>"
  have whole: "js_whole (js_nat j)" for j by (simp add: js_whole_def js_nat_def)
  have hex: "ID_VALUE_RE (toLowerHex bs)" for bs by (simp add: toLowerHex_def hex_ids)
  have "\<exists>t. wrapCanonicalJson w = Inr t"
    using alg assms(5-8) e hex whole by (simp add: wrapCanonicalJson_def w_def exportPublicHex_def)
  then obtain sha where sha: "wrapSha256 w = Inr sha" "ID_VALUE_RE sha" using hex by (auto simp: wrapSha256_def)
  let ?st = "[(''type'', ''wrap''), (''user_id'', u), (''seq'', show_nat n), (''issuer_device_id'', i),
        (''subject_device_id'', wr_device_id r), (''epoch'', show_nat e), (''wrap_sha256'', sha)]"
  have "ID_VALUE_RE (fld ?st f)" for f
    using ids(1) assms(5,6) sha(2) show_nat_id by (simp add: fld_def) (simp add: ID_VALUE_RE_def is_id_char_def)
  then have "statementCanonical ?st = Inr (statement_text ?st)"
    by (intro canonical_text) (simp_all add: STATEMENT_TYPES_def fld_def list_all_iff)
  then have st: "wrapStatement u w sha = Inr (statement_text ?st)"
    by (simp add: wrapStatement_def w_def assms(7) e show_js_nat del: show_number.simps)
  obtain s where "sc_parse C (sign (utf8_encode (statement_text ?st))) = Some s" using assms(10) by blast
  then show ?thesis
    using assms(1,3,9) aad sha(1) st alg unfolding w_def by (auto simp: sealKeyringWrap_def)
qed

text \<open>
  C14. A trusted approver can seal its keyring to any device with a usable key, and the device opens the wrap to exactly
  that keyring: sealing succeeds, and every check of the receiver passes, whenever the keyring is the vault's, at the
  signed current epoch and with the committed keys, and the version lies in the current epoch's segment of the log.
\<close>

theorem sealed_wrap_opens:
  assumes "aead_laws W" "\<And>k m. hmac k m \<noteq> []"
    and "ecdhHkdfAesKey ecdh ephPrivate (wr_ecdh_pub r) WRAP_INFO = Inr k"
      "\<And>peer info. hex_pairs (wr_ecdh_pub r) = Some peer \<Longrightarrow> ecdh private ephPublic info = ecdh ephPrivate peer info"
      "length iv = 12" "length ephPublic = 65" "hd ephPublic = 4"
    and "\<And>m. \<exists>s. sc_parse C (sign m) = Some s
      \<and> verifySignature C (sd_sign_alg maker) (sd_sign_pub maker) m (Some (JStr (signatureObjectText C (Some s))))"
    and "map_of (vc_trusted ch) i = Some maker" "sd_kind maker \<noteq> Bridge" "ID_VALUE_RE i"
    and "wr_wrap_alg r \<in> {None, Some [], Some WRAP_ALG_ECDH_P256_HKDF_AES}" "wr_device_id r \<noteq> []" "ID_VALUE_RE (wr_device_id r)"
    and "map_of (vc_epochs ch) (vc_currentEpoch ch) = Some ep" "version = js_nat n" "ep_seq ep \<le> n" "n \<le> vc_version ch"
      "n \<le> 9007199254740991"
    and "parseKeyringBytes kb (Some u) = Inr p" "u \<noteq> []" "pk_currentEpoch p = js_nat (vc_currentEpoch ch)"
      "keys_committed hmac u ch p"
  shows "\<exists>sha v. sealKeyringWrap W ecdh C sign i u r version kb ephPrivate ephPublic iv = Inr (sha, v)
    \<and> openVerifiedWrap W ecdh C hmac
        \<lparr>we_userId = u, we_recipient = wr_device_id r, we_private = private, we_chain = ch\<rparr> (Some v) = Inr p"
proof -
  have parses: "sc_parse C (sign m) \<noteq> None" for m using assms(8) [of m] by auto
  have sig: "verifySignature C (sd_sign_alg maker) (sd_sign_pub maker) m (Some (JStr (signatureObjectText C (Some s))))"
    if "sc_parse C (sign m) = Some s" for m s
    using assms(8) [of m] that by auto
  obtain sha v where seal: "sealKeyringWrap W ecdh C sign i u r version kb ephPrivate ephPublic iv = Inr (sha, v)"
    using seal_succeeds [where sign = sign and C = C, OF assms(20,21,12-14,11,16,19,3) parses] by blast
  from seal_then_open [where sign = sign and C = C and ecdh = ecdh, OF assms(1) seal assms(5-7,4) sig assms(9,10,15-20,22,23,2)] seal show ?thesis by blast
qed

section \<open>A wrap for a second device\<close>

definition sample_hmac :: "bytes \<Rightarrow> bytes \<Rightarrow> bytes" where
  "sample_hmac k m = 0 # k"

definition sample_ecdh :: "unit \<Rightarrow> bytes \<Rightarrow> bytes \<Rightarrow> byte option" where
  "sample_ecdh private peer info = Some 7"

definition wrap_sign :: sign_crypto where
  "wrap_sign = sample_sign\<lparr>sc_stringify := \<lambda>v. sample_sig\<rparr>"

definition sample_maker :: verified_device where
  "sample_maker =
     \<lparr>sd_device_id = ''dev_a'', sd_kind = Browser, sd_sign_alg = SIGN_ALG_ECDSA_P256_SHA256,
      sd_wrap_alg = WRAP_ALG_ECDH_P256_HKDF_AES, sd_sign_pub = sample_pub (CHR ''0''), sd_ecdh_pub = sample_pub (CHR ''0''),
      sd_label = [], sd_approved_by = ''dev_a'', sd_statement = [], sd_signature = [], sd_seq = 1, vd_row = JNull\<rparr>"

definition sample_chain :: verified_chain where
  "sample_chain =
     \<lparr>vc_userId = ''u_1'', vc_rootDeviceId = ''dev_a'', vc_rootSignPub = sample_pub (CHR ''0''),
      vc_rootSignAlg = SIGN_ALG_ECDSA_P256_SHA256, vc_vaultId = replicate 16 (CHR ''a''), vc_version = 5, vc_headHash = [],
      vc_logHashes = [], vc_currentEpoch = 7, vc_genesis = ([], []), vc_trusted = [(''dev_a'', sample_maker)],
      vc_ever = [(''dev_a'', sample_maker)], vc_revokedIds = [], vc_untrusted = [], vc_pending = [], vc_revoked = [],
      vc_commits = [(7, entry_commit sample_hmac ''u_1'' \<lparr>ke_epoch = js_nat 7, ke_key = replicate 32 5\<rparr>)],
      vc_epochs = [(7, \<lparr>ep_epoch = 7, ep_seq = 3, ep_type = ''rotate'', ep_statement = [], ep_signature = [],
                        ep_issuer = ''dev_a'', ep_commit = []\<rparr>)],
      vc_retiredHints = []\<rparr>"

definition sample_recipient :: wrap_recipient where
  "sample_recipient = \<lparr>wr_device_id = ''dev_b'', wr_ecdh_pub = sample_pub (CHR ''1''), wr_wrap_alg = None\<rparr>"

definition sample_expectation :: "unit wrap_expectation" where
  "sample_expectation = \<lparr>we_userId = ''u_1'', we_recipient = wr_device_id sample_recipient, we_private = (), we_chain = sample_chain\<rparr>"

lemma sample_facts:
  "\<And>k m. sample_hmac k m \<noteq> []"
  "ecdhHkdfAesKey sample_ecdh () (wr_ecdh_pub sample_recipient) WRAP_INFO = Inr 7"
  "length (replicate 12 (1 :: byte)) = 12" "length (4 # replicate 64 (2 :: byte)) = 65" "hd (4 # replicate 64 (2 :: byte)) = 4"
  "map_of (vc_trusted sample_chain) ''dev_a'' = Some sample_maker" "sd_kind sample_maker \<noteq> Bridge" "ID_VALUE_RE ''dev_a''"
  "wr_wrap_alg sample_recipient \<in> {None, Some [], Some WRAP_ALG_ECDH_P256_HKDF_AES}" "wr_device_id sample_recipient \<noteq> []"
  "ID_VALUE_RE (wr_device_id sample_recipient)"
  "\<exists>ep. map_of (vc_epochs sample_chain) (vc_currentEpoch sample_chain) = Some ep \<and> ep_seq ep \<le> 4"
  "4 \<le> vc_version sample_chain" "pk_currentEpoch sample_keyring = js_nat (vc_currentEpoch sample_chain)"
  "keys_committed sample_hmac ''u_1'' sample_chain sample_keyring" "4 \<le> (9007199254740991 :: nat)" "''u_1'' \<noteq> []"
proof -
  have "isLowerHex (sample_pub (CHR ''1'')) (Some 65)" by (rule sample_pub_hex) simp
  then show "ecdhHkdfAesKey sample_ecdh () (wr_ecdh_pub sample_recipient) WRAP_INFO = Inr 7"
    using lowerHexToBytes_None [of "sample_pub (CHR ''1'')" "Some 65"]
    by (auto simp: ecdhHkdfAesKey_def sample_recipient_def sample_ecdh_def sample_pub_def starts_with_def)
  show "ID_VALUE_RE ''dev_a''" by code_simp
  have "ID_VALUE_RE ''dev_b''" by code_simp
  then show "ID_VALUE_RE (wr_device_id sample_recipient)" by (simp add: sample_recipient_def)
  show "keys_committed sample_hmac ''u_1'' sample_chain sample_keyring"
    by (auto simp: keys_committed_def sample_chain_def sample_keyring_def signed_commit_def js_nat_def num_int_def)
qed (simp_all add: sample_hmac_def sample_chain_def sample_maker_def sample_recipient_def sample_keyring_def)

lemma sample_agreement:
  "hex_pairs (wr_ecdh_pub sample_recipient) = Some peer \<Longrightarrow> sample_ecdh () (4 # replicate 64 2) info = sample_ecdh () peer info"
  by (simp add: sample_ecdh_def)

lemma sample_wrap_signature:
  "\<exists>s. sc_parse wrap_sign sample_sig = Some s
     \<and> verifySignature wrap_sign (sd_sign_alg sample_maker) (sd_sign_pub sample_maker) m (Some (JStr (signatureObjectText wrap_sign (Some s))))"
proof -
  have same: "parseSignatureObject wrap_sign t = parseSignatureObject sample_sign t" "sc_verify wrap_sign = sc_verify sample_sign"
    "signatureObjectText wrap_sign (Some (JStr t)) = t" "signatureObjectText sample_sign (Some (JStr t)) = t" for t
    by (simp_all add: wrap_sign_def parseSignatureObject_def signatureObjectText_def)
  have "verifySignature wrap_sign a b m (Some (JStr t)) = verifySignature sample_sign a b m (Some (JStr t))" for a b t
    unfolding verifySignature_def same ..
  moreover have "verifySignature sample_sign SIGN_ALG_ECDSA_P256_SHA256 (sample_pub (CHR ''0'')) m (Some (JStr sample_sig))"
    by (rule sample_verifies) simp
  ultimately have v: "verifySignature wrap_sign (sd_sign_alg sample_maker) (sd_sign_pub sample_maker) m (Some (JStr sample_sig))"
    by (simp add: sample_maker_def)
  obtain ob where "sc_parse wrap_sign sample_sig = Some (JObj ob)" by (simp add: wrap_sign_def sample_sign_def)
  moreover have "signatureObjectText wrap_sign (Some (JObj ob)) = sample_sig" by (simp add: signatureObjectText_def wrap_sign_def)
  ultimately show ?thesis using v by auto
qed

lemma sample_parsed: "\<exists>kb. parseKeyringBytes kb (Some ''u_1'') = Inr sample_keyring"
proof -
  obtain kb where "serializeKeyringBytes sample_keyring = Inr kb" using sample_keyring_printed by blast
  then have "parseKeyringBytes kb None = Inr sample_keyring" by (rule print_then_parse)
  moreover from this have "parseKeyringBytes kb (Some ''u_1'') = parseKeyringBytes kb None"
    by (auto simp: parseKeyringBytes_def sample_keyring_def Let_def split: if_splits option.splits)
  ultimately show ?thesis by auto
qed

theorem sealed_wrap_opens_witness:
  "\<exists>kb sha v. sealKeyringWrap sample_crypto sample_ecdh wrap_sign (\<lambda>m. sample_sig) ''dev_a'' ''u_1'' sample_recipient (js_nat 4)
        kb () (4 # replicate 64 2) (replicate 12 1) = Inr (sha, v)
     \<and> openVerifiedWrap sample_crypto sample_ecdh wrap_sign sample_hmac sample_expectation (Some v) = Inr sample_keyring"
proof -
  obtain kb where kb: "parseKeyringBytes kb (Some ''u_1'') = Inr sample_keyring" using sample_parsed by blast
  obtain ep where ep: "map_of (vc_epochs sample_chain) (vc_currentEpoch sample_chain) = Some ep" "ep_seq ep \<le> 4"
    using sample_facts(12) by blast
  from sealed_wrap_opens [OF sample_crypto_laws sample_facts(1,2) sample_agreement sample_facts(3-5) sample_wrap_signature
      sample_facts(6-11) ep(1) refl ep(2) sample_facts(13,16) kb sample_facts(17,14,15)]
  show ?thesis unfolding sample_expectation_def by blast
qed

lemma sample_wrap_accepted:
  "\<exists>v. openVerifiedWrap sample_crypto sample_ecdh wrap_sign sample_hmac sample_expectation (Some v) = Inr sample_keyring"
proof -
  obtain kb where kb: "parseKeyringBytes kb (Some ''u_1'') = Inr sample_keyring" using sample_parsed by blast
  obtain ep where ep: "map_of (vc_epochs sample_chain) (vc_currentEpoch sample_chain) = Some ep" "ep_seq ep \<le> 4"
    using sample_facts(12) by blast
  have parses: "sc_parse wrap_sign sample_sig \<noteq> None" using sample_wrap_signature by auto
  have sig: "verifySignature wrap_sign (sd_sign_alg sample_maker) (sd_sign_pub sample_maker) m (Some (JStr (signatureObjectText wrap_sign (Some s))))"
    if "sc_parse wrap_sign sample_sig = Some s" for m s using sample_wrap_signature [of m] that by auto
  obtain sha v where seal: "sealKeyringWrap sample_crypto sample_ecdh wrap_sign (\<lambda>m. sample_sig) ''dev_a'' ''u_1'' sample_recipient
      (js_nat 4) kb () (4 # replicate 64 2) (replicate 12 1) = Inr (sha, v)"
    using seal_succeeds [where sign = "\<lambda>m. sample_sig" and C = wrap_sign, OF kb sample_facts(17,9-11,8) refl sample_facts(16,2) parses] by blast
  from seal_then_open [where sign = "\<lambda>m. sample_sig" and C = wrap_sign and ecdh = sample_ecdh, OF sample_crypto_laws seal
      sample_facts(3-5) sample_agreement sig sample_facts(6,7) ep(1) refl ep(2) sample_facts(13,16) kb sample_facts(14,15,1)]
  show ?thesis unfolding sample_expectation_def by blast
qed

theorem accepted_wrap_vouched_witness:
  "\<exists>v ob w. v = JObj ob \<and> wrap_of_js ob = Some w
     \<and> openVerifiedWrap sample_crypto sample_ecdh wrap_sign sample_hmac sample_expectation (Some v) = Inr sample_keyring
     \<and> kw_recipient w = ''dev_b'' \<and> map_of (vc_trusted sample_chain) (kw_wrapped_by w) \<noteq> None"
proof -
  obtain v where v: "openVerifiedWrap sample_crypto sample_ecdh wrap_sign sample_hmac sample_expectation (Some v) = Inr sample_keyring"
    using sample_wrap_accepted by blast
  from accepted_wrap_vouched [OF this sample_facts(1)] v show ?thesis
    by (fastforce simp: sample_expectation_def sample_recipient_def)
qed

end
