(* ===== verification/PaneText.thy ===== *)
theory PaneText
  imports JsPrelude
begin

text \<open>
  Text helpers of terminal panes (\<open>src/ui/components/shells/paneDeliveryQueue.ts\<close>): the colour preamble of a
  captured screen, repaints and snapshots, and the cutting of pasted input. A text is its UTF-16 code units.
\<close>

type_synonym units = "nat list"

definition ascii :: "string \<Rightarrow> units" where
  "ascii s = map of_char s"

definition ESC :: nat where "ESC = 27"
definition BEL :: nat where "BEL = 7"

definition has_prefix :: "units \<Rightarrow> units \<Rightarrow> bool" where
  "has_prefix p t = (take (length p) t = p)"

section \<open>The colour preamble\<close>

text \<open>The position of the first \<open>a\<close> directly followed by \<open>b\<close>.\<close>

fun find_pair :: "nat \<Rightarrow> nat \<Rightarrow> units \<Rightarrow> nat option" where
  "find_pair a b (x # y # t) = (if x = a \<and> y = b then Some 0 else map_option Suc (find_pair a b (y # t)))"
| "find_pair a b _ = None"

definition colour_body :: "units \<Rightarrow> bool" where
  "colour_body body = list_ex (\<lambda>p. has_prefix (ascii p) body) [''4;'', ''10;'', ''11;'', ''12;'']"

text \<open>The length of the colour sequence a text starts with; \<open>None\<close> where the loop breaks.\<close>

definition colour_osc :: "units \<Rightarrow> nat option" where
  "colour_osc t =
     (if \<not> has_prefix (ESC # ascii '']'') t then None
      else
        (let body = drop 2 t in
         if \<not> colour_body body then None
         else
           (let bel = index_of BEL body; st = find_pair ESC 92 body; nextEsc = index_of ESC body in
            if bel \<noteq> None \<and> (nextEsc = None \<or> the bel < the nextEsc) then Some (the bel + 3)
            else if st \<noteq> None \<and> st = nextEsc then Some (the st + 4)
            else None)))"

lemma colour_osc_pos: "colour_osc t = Some n \<Longrightarrow> 0 < n \<and> t \<noteq> []"
  by (auto simp: colour_osc_def has_prefix_def Let_def split: if_splits)

function preamble_length :: "units \<Rightarrow> nat" where
  "preamble_length t = (case colour_osc t of None \<Rightarrow> 0 | Some n \<Rightarrow> n + preamble_length (drop n t))"
  by auto
termination
  by (relation "measure length") (auto dest: colour_osc_pos)

declare preamble_length.simps [simp del]

definition splitPtyColorPreamble :: "units \<Rightarrow> units \<times> units" where
  "splitPtyColorPreamble t = (take (preamble_length t) t, drop (preamble_length t) t)"

section \<open>Repaints\<close>

definition PTY_COLOR_RESET :: units where
  "PTY_COLOR_RESET =
     concat (map (\<lambda>s. ESC # ascii s @ [BEL]) ['']110'', '']111'', '']112'', '']104''])"

definition isPaneRepaintStart :: "units \<Rightarrow> bool" where
  "isPaneRepaintStart data =
     (let t = (if has_prefix PTY_COLOR_RESET data then drop (length PTY_COLOR_RESET) data else data);
          r = snd (splitPtyColorPreamble t)
      in has_prefix (ESC # ascii ''[2J'') r \<or> has_prefix (ESC # ascii ''[?1'') r)"

definition isPaneRepaintStartBytes :: "nat list \<Rightarrow> bool" where
  "isPaneRepaintStartBytes d =
     (4 \<le> length d \<and> d ! 0 = 27 \<and> d ! 1 = 91 \<and> (d ! 2 = 50 \<and> d ! 3 = 74 \<or> d ! 2 = 63 \<and> d ! 3 = 49))"

definition ALT_HIDDEN_PREFIX :: units where "ALT_HIDDEN_PREFIX = ESC # ascii ''[?1049h'' @ ESC # ascii ''[?25l''"
definition ALT_PREFIX :: units where "ALT_PREFIX = ESC # ascii ''[?1049h''"
definition REPAINT_PREFIX :: units where "REPAINT_PREFIX = ESC # ascii ''[2J'' @ ESC # ascii ''[H''"

text \<open>\<open>split(/\r?\n/)\<close>, and the white space of \<open>trim\<close>.\<close>

fun split_lines :: "units \<Rightarrow> units list" where
  "split_lines [] = [[]]"
| "split_lines (c # t) =
     (if c = 10 then [] # split_lines t
      else if c = 13 \<and> t \<noteq> [] \<and> hd t = 10 then [] # split_lines (tl t)
      else (case split_lines t of [] \<Rightarrow> [[c]] | l # ls \<Rightarrow> (c # l) # ls))"

definition is_unit_space :: "nat \<Rightarrow> bool" where
  "is_unit_space c =
     (9 \<le> c \<and> c \<le> 13 \<or> 8192 \<le> c \<and> c \<le> 8202 \<or> c \<in> {32, 160, 5760, 8232, 8233, 8239, 8287, 12288, 65279})"

definition captured_lines :: "units \<Rightarrow> units list" where
  "captured_lines t = rev (dropWhile (list_all is_unit_space) (rev (split_lines t)))"

fun join_lines :: "units list \<Rightarrow> units" where
  "join_lines [] = []"
| "join_lines [l] = l"
| "join_lines (l # ls) = l @ [13, 10] @ join_lines ls"

definition cursor_move :: "int \<Rightarrow> int \<Rightarrow> units" where
  "cursor_move row col =
     (if 0 \<le> row \<and> 0 \<le> col
      then ESC # ascii (''['' @ show_nat (nat row + 1) @ '';'' @ show_nat (nat col + 1) @ ''H'') else [])"

definition repaintCapturedRows :: "units \<Rightarrow> int \<Rightarrow> int \<Rightarrow> units" where
  "repaintCapturedRows t row col =
     (let body = join_lines (captured_lines t); cursor = cursor_move row col in
      if has_prefix ALT_HIDDEN_PREFIX body
      then ALT_HIDDEN_PREFIX @ REPAINT_PREFIX @ drop (length ALT_HIDDEN_PREFIX) body @ cursor
      else if has_prefix ALT_PREFIX body
      then ALT_PREFIX @ REPAINT_PREFIX @ drop (length ALT_PREFIX) body @ cursor
      else REPAINT_PREFIX @ body @ cursor)"

definition repaintCapturedScreenText :: "units \<Rightarrow> int \<Rightarrow> int \<Rightarrow> units" where
  "repaintCapturedScreenText input row col =
     (case splitPtyColorPreamble input of (preamble, rest) \<Rightarrow> preamble @ repaintCapturedRows rest row col)"

definition normalizeSnapshotRows :: "units \<Rightarrow> units" where
  "normalizeSnapshotRows d =
     (if has_prefix REPAINT_PREFIX d \<or> has_prefix (ALT_PREFIX @ REPAINT_PREFIX) d
         \<or> has_prefix (ALT_HIDDEN_PREFIX @ REPAINT_PREFIX) d
      then d
      else if has_prefix ALT_HIDDEN_PREFIX d then ALT_HIDDEN_PREFIX @ REPAINT_PREFIX @ drop (length ALT_HIDDEN_PREFIX) d
      else if has_prefix ALT_PREFIX d then ALT_PREFIX @ REPAINT_PREFIX @ drop (length ALT_PREFIX) d
      else REPAINT_PREFIX @ d)"

definition normalizeSnapshotText :: "units \<Rightarrow> units" where
  "normalizeSnapshotText input =
     (case splitPtyColorPreamble input of (preamble, rest) \<Rightarrow> preamble @ normalizeSnapshotRows rest)"

section \<open>Cutting input\<close>

definition is_high :: "nat \<Rightarrow> bool" where "is_high c = (55296 \<le> c \<and> c \<le> 56319)"
definition is_low :: "nat \<Rightarrow> bool" where "is_low c = (56320 \<le> c \<and> c \<le> 57343)"

text \<open>The value of a number that is a safe integer.\<close>

fun safe_integer :: "jsnum \<Rightarrow> int option" where
  "safe_integer (Fin r) = (if r = of_int \<lfloor>r\<rfloor> \<and> \<bar>\<lfloor>r\<rfloor>\<bar> \<le> 9007199254740991 then Some \<lfloor>r\<rfloor> else None)"
| "safe_integer _ = None"

definition chunk_end :: "nat \<Rightarrow> units \<Rightarrow> nat" where
  "chunk_end m d =
     (let e = min m (length d)
      in if e < length d \<and> is_high (d ! (e - 1)) \<and> is_low (d ! e) then e - 1 else e)"

text \<open>The loop; a maximum below two never reaches it.\<close>

function pane_chunks :: "nat \<Rightarrow> units \<Rightarrow> units list" where
  "pane_chunks m d =
     (if d = [] \<or> m < 2 then []
      else (let e = chunk_end m d in take e d # pane_chunks m (drop e d)))"
  by auto
termination
  by (relation "measure (\<lambda>(m, d). length d)") (auto simp: chunk_end_def Let_def)

declare pane_chunks.simps [simp del]

definition splitPaneInput :: "units \<Rightarrow> jsnum \<Rightarrow> units list option" where
  "splitPaneInput data maxCodeUnits =
     (case safe_integer maxCodeUnits of
        None \<Rightarrow> None
      | Some m \<Rightarrow> if m < 2 then None else Some (pane_chunks (nat m) data))"

section \<open>What a preamble is\<close>

text \<open>A complete colour sequence: the introducer, a body with a colour code, and the first BEL or string terminator.\<close>

definition colour_seq :: "units \<Rightarrow> bool" where
  "colour_seq u =
     (\<exists>mid fin. u = ESC # 93 # mid @ fin \<and> ESC \<notin> set mid \<and> BEL \<notin> set mid \<and> fin \<in> {[BEL], [ESC, 92]} \<and> colour_body mid)"

lemma has_prefix_iff: "has_prefix p t \<longleftrightarrow> (\<exists>r. t = p @ r)"
  by (metis append_eq_conv_conj append_take_drop_id has_prefix_def)

lemma has_prefix_append [simp]: "has_prefix p (p @ t)"
  by (auto simp: has_prefix_iff)

lemma has_prefix_Cons: "has_prefix (x # p) (y # t) \<longleftrightarrow> x = y \<and> has_prefix p t" "has_prefix [] t" "\<not> has_prefix (x # p) []"
  by (auto simp: has_prefix_def)

lemma has_prefix_before: "x \<notin> set p \<Longrightarrow> has_prefix p (a @ x # b) \<longleftrightarrow> has_prefix p a"
proof (induction p arbitrary: a)
  case (Cons y p)
  then show ?case by (cases a) (auto simp: has_prefix_Cons)
qed (simp add: has_prefix_Cons)

lemma colour_codes_plain: "x \<in> {ESC, BEL} \<Longrightarrow> p \<in> {''4;'', ''10;'', ''11;'', ''12;''} \<Longrightarrow> x \<notin> set (ascii p)"
  by (auto simp: ascii_def ESC_def BEL_def)

lemma colour_body_before: "x \<in> {ESC, BEL} \<Longrightarrow> colour_body (a @ x # b) \<longleftrightarrow> colour_body a"
  using colour_codes_plain [of x] by (simp add: colour_body_def has_prefix_before)

lemma find_pair_append: "a \<notin> set xs \<Longrightarrow> find_pair a b (xs @ a # b # ys) = Some (length xs)"
proof (induction xs)
  case (Cons x xs)
  then show ?case by (cases xs) auto
qed simp

lemma find_pair_Some:
  "find_pair a b t = Some n \<Longrightarrow> \<exists>xs ys. t = xs @ a # b # ys \<and> length xs = n"
proof (induction a b t arbitrary: n rule: find_pair.induct)
  case (1 a b x y t)
  show ?case
  proof (cases "x = a \<and> y = b")
    case True
    then show ?thesis using 1(2) by (intro exI [of _ "[]"] exI [of _ t]) simp
  next
    case False
    then obtain m where m: "find_pair a b (y # t) = Some m" "n = Suc m" using 1(2) by auto
    from 1(1) [OF False m(1)] obtain xs ys where "y # t = xs @ a # b # ys" "length xs = m" by blast
    then show ?thesis using m(2) by (intro exI [of _ "x # xs"] exI [of _ ys]) simp
  qed
qed auto

lemma index_of_after: "c \<notin> set xs \<Longrightarrow> index_of c (xs @ ys) = map_option (\<lambda>k. length xs + k) (index_of c ys)"
  by (cases "index_of c ys"; induction xs) auto

lemma index_of_within: "c \<in> set xs \<Longrightarrow> \<exists>j < length xs. index_of c (xs @ ys) = Some j"
  by (induction xs) auto

lemma index_of_split: "index_of c b = Some k \<Longrightarrow> \<exists>mid r. b = mid @ c # r \<and> c \<notin> set mid \<and> length mid = k"
  using index_of_Some [of c b k] by (intro exI [of _ "take k b"] exI [of _ "drop (Suc k) b"]) (auto simp: id_take_nth_drop)

lemma colour_osc_seq:
  assumes "colour_seq u"
  shows "colour_osc (u @ r) = Some (length u)"
proof -
  obtain mid fin where u: "u = ESC # 93 # mid @ fin" "ESC \<notin> set mid" "BEL \<notin> set mid" "fin \<in> {[BEL], [ESC, 92]}" "colour_body mid"
    using assms unfolding colour_seq_def by blast
  have pre: "has_prefix (ESC # ascii '']'') (u @ r)" by (simp add: u(1) ascii_def has_prefix_Cons)
  have ne: "ESC \<noteq> BEL" by (simp add: ESC_def BEL_def)
  show ?thesis
  proof (cases "fin = [BEL]")
    case True
    have "colour_body (mid @ BEL # r)" using u(5) by (simp add: colour_body_before)
    moreover have "index_of BEL (mid @ BEL # r) = Some (length mid)" using u(3) by (simp add: index_of_append)
    moreover have "index_of ESC (mid @ BEL # r) = None \<or> length mid < the (index_of ESC (mid @ BEL # r))"
      using u(2) ne by (cases "index_of ESC r") (simp_all add: index_of_after)
    ultimately show ?thesis using pre u(1) True by (auto simp: colour_osc_def)
  next
    case False
    then have fin: "fin = [ESC, 92]" using u(4) by simp
    have "colour_body (mid @ ESC # 92 # r)" using u(5) by (simp add: colour_body_before)
    moreover have "index_of ESC (mid @ ESC # 92 # r) = Some (length mid)" using u(2) by (simp add: index_of_append)
    moreover have "find_pair ESC 92 (mid @ ESC # 92 # r) = Some (length mid)" by (rule find_pair_append [OF u(2)])
    moreover have "index_of BEL (mid @ ESC # 92 # r) = None \<or> length mid < the (index_of BEL (mid @ ESC # 92 # r))"
      using u(3) ne by (cases "index_of BEL (92 # r)") (simp_all add: index_of_after)
    ultimately show ?thesis using pre u(1) fin by (auto simp: colour_osc_def)
  qed
qed

lemma if_Some: "(if P then Some a else None) = Some n \<Longrightarrow> P \<and> a = n"
  by (simp split: if_splits)

lemma colour_osc_Some:
  assumes "colour_osc t = Some n"
  shows "\<exists>u r. t = u @ r \<and> colour_seq u \<and> length u = n"
proof -
  obtain b where t: "t = ESC # 93 # b" using assms
    by (auto simp: colour_osc_def has_prefix_iff ascii_def split: if_splits)
  have body: "colour_body b" using assms by (simp add: t colour_osc_def Let_def split: if_splits)
  let ?bel = "index_of BEL b" and ?esc = "index_of ESC b" and ?st = "find_pair ESC 92 b"
  have step: "colour_osc t =
      (if ?bel \<noteq> None \<and> (?esc = None \<or> the ?bel < the ?esc) then Some (the ?bel + 3)
       else if ?st \<noteq> None \<and> ?st = ?esc then Some (the ?st + 4) else None)"
    using body by (simp add: t colour_osc_def has_prefix_def ascii_def Let_def)
  consider k where "index_of BEL b = Some k" "index_of ESC b = None \<or> k < the (index_of ESC b)" "n = k + 3"
    | k where "find_pair ESC 92 b = Some k" "index_of ESC b = Some k"
        "\<forall>m. index_of BEL b = Some m \<longrightarrow> k \<le> m" "n = k + 4"
  proof (cases "index_of BEL b \<noteq> None \<and> (index_of ESC b = None \<or> the (index_of BEL b) < the (index_of ESC b))")
    case True
    then show ?thesis using step assms that(1) [of "the ?bel"] by auto
  next
    case False
    have "(if ?st \<noteq> None \<and> ?st = ?esc then Some (the ?st + 4) else None) = Some n"
      using step [unfolded if_not_P [OF False]] assms by (simp only:)
    note both = if_Some [OF this]
    note found = conjunct1 [OF conjunct1 [OF both]] conjunct2 [OF conjunct1 [OF both]] conjunct2 [OF both]
    obtain k where k: "?st = Some k" using found(1) by blast
    have esc: "?esc = Some k" using found(2) k by (rule trans [OF sym])
    have "n = k + 4" using found(3) unfolding k by simp
    moreover have "\<forall>m. ?bel = Some m \<longrightarrow> k \<le> m" using False unfolding esc by auto
    ultimately show ?thesis using that(2) [OF k esc] by blast
  qed
  then show ?thesis
  proof cases
    case 1
    obtain mid r where b: "b = mid @ BEL # r" "BEL \<notin> set mid" "length mid = k"
      using index_of_split [OF 1(1)] by blast
    have "ESC \<notin> set mid"
    proof
      assume "ESC \<in> set mid"
      then obtain j where "j < length mid" "index_of ESC (mid @ BEL # r) = Some j" using index_of_within by metis
      then show False using 1(2) b by simp
    qed
    moreover have "colour_body mid" using body by (simp add: b colour_body_before)
    ultimately have "colour_seq (ESC # 93 # mid @ [BEL])" using b(2) by (auto simp: colour_seq_def)
    then show ?thesis using t b 1(3) by (intro exI [of _ "ESC # 93 # mid @ [BEL]"] exI [of _ r]) simp
  next
    case 2
    obtain mid r where b: "b = mid @ ESC # r" "ESC \<notin> set mid" "length mid = k"
      using index_of_split [OF 2(2)] by blast
    obtain xs ys where "b = xs @ ESC # 92 # ys" "length xs = k" using find_pair_Some [OF 2(1)] by blast
    then obtain ys where r: "r = 92 # ys" using b by auto
    have "BEL \<notin> set mid"
    proof
      assume "BEL \<in> set mid"
      then obtain j where "j < length mid" "index_of BEL (mid @ ESC # r) = Some j" using index_of_within by metis
      then show False using 2(3) b by auto
    qed
    moreover have "colour_body mid" using body by (simp add: b colour_body_before)
    ultimately have "colour_seq (ESC # 93 # mid @ [ESC, 92])" using b(2) by (auto simp: colour_seq_def)
    then show ?thesis using t b r 2(4) by (intro exI [of _ "ESC # 93 # mid @ [ESC, 92]"] exI [of _ ys]) simp
  qed
qed

lemma colour_osc_None: "colour_osc t = None \<longleftrightarrow> \<not> (\<exists>u r. t = u @ r \<and> colour_seq u)"
  using colour_osc_seq colour_osc_Some by (metis not_Some_eq)

lemma preamble_of_seqs:
  "list_all colour_seq us \<Longrightarrow> colour_osc r = None \<Longrightarrow> preamble_length (concat us @ r) = length (concat us)"
proof (induction us)
  case Nil
  then show ?case by (simp add: preamble_length.simps [of r])
next
  case (Cons u us)
  have "colour_osc (u @ concat us @ r) = Some (length u)" using Cons.prems by (intro colour_osc_seq) simp
  then show ?case using Cons by (simp add: preamble_length.simps [of "u @ concat us @ r"])
qed

lemma preamble_seqs:
  "\<exists>us r. t = concat us @ r \<and> list_all colour_seq us \<and> colour_osc r = None \<and> preamble_length t = length (concat us)"
proof (induction t rule: preamble_length.induct)
  case (1 t)
  show ?case
  proof (cases "colour_osc t")
    case None
    then show ?thesis by (intro exI [of _ "[]"] exI [of _ t]) (simp add: preamble_length.simps)
  next
    case (Some n)
    obtain u r where u: "t = u @ r" "colour_seq u" "length u = n" using colour_osc_Some [OF Some] by blast
    obtain us s where "r = concat us @ s" "list_all colour_seq us" "colour_osc s = None" "preamble_length r = length (concat us)"
      using 1 [OF Some] u by auto
    then show ?thesis using u Some
      by (intro exI [of _ "u # us"] exI [of _ s]) (simp add: preamble_length.simps [of "u @ concat us @ s"])
  qed
qed

text \<open>
  The preamble of a captured screen is exactly its leading complete colour sequences: it is a sequence of them, what
  follows starts with none, and text and preamble are unchanged by the split.
\<close>

theorem preamble_spec:
  "splitPtyColorPreamble t = (p, r) \<longleftrightarrow>
     t = p @ r \<and> (\<exists>us. p = concat us \<and> list_all colour_seq us) \<and> \<not> (\<exists>u s. r = u @ s \<and> colour_seq u)"
proof
  obtain us s where us: "t = concat us @ s" "list_all colour_seq us" "colour_osc s = None" "preamble_length t = length (concat us)"
    using preamble_seqs by blast
  assume "splitPtyColorPreamble t = (p, r)"
  then have "p = concat us" "r = s" using us by (auto simp: splitPtyColorPreamble_def)
  then show "t = p @ r \<and> (\<exists>us. p = concat us \<and> list_all colour_seq us) \<and> \<not> (\<exists>u s. r = u @ s \<and> colour_seq u)"
    using us colour_osc_None by blast
next
  assume "t = p @ r \<and> (\<exists>us. p = concat us \<and> list_all colour_seq us) \<and> \<not> (\<exists>u s. r = u @ s \<and> colour_seq u)"
  then show "splitPtyColorPreamble t = (p, r)"
    using preamble_of_seqs colour_osc_None by (auto simp: splitPtyColorPreamble_def)
qed

section \<open>Repaints are recognised\<close>

text \<open>A text that starts with ESC and \<open>[\<close> has no preamble, and what is put after a preamble keeps it.\<close>

definition csi :: "units \<Rightarrow> bool" where
  "csi r = has_prefix (ESC # ascii ''['') r"

lemma no_colour_csi: "csi r \<Longrightarrow> colour_osc r = None"
  by (auto simp: csi_def colour_osc_def has_prefix_iff ascii_def)

lemma split_rest:
  assumes "splitPtyColorPreamble t = (p, r)" and "csi r'"
  shows "splitPtyColorPreamble (p @ r') = (p, r')"
  using assms no_colour_csi colour_osc_None unfolding preamble_spec by blast

lemma csi_prefixes:
  "csi (REPAINT_PREFIX @ t)" "csi (ALT_PREFIX @ t)" "csi (ALT_HIDDEN_PREFIX @ t)"
  by (simp_all add: csi_def REPAINT_PREFIX_def ALT_PREFIX_def ALT_HIDDEN_PREFIX_def ascii_def has_prefix_Cons)

definition repaint_rows :: "units \<Rightarrow> bool" where
  "repaint_rows r =
     (has_prefix REPAINT_PREFIX r \<or> has_prefix (ALT_PREFIX @ REPAINT_PREFIX) r \<or> has_prefix (ALT_HIDDEN_PREFIX @ REPAINT_PREFIX) r)"

lemma repaint_rows_csi: "repaint_rows r \<Longrightarrow> csi r"
  unfolding repaint_rows_def has_prefix_iff using csi_prefixes by (metis append_assoc)

lemma repaint_rows_start:
  assumes "repaint_rows r"
  shows "has_prefix (ESC # ascii ''[2J'') r \<or> has_prefix (ESC # ascii ''[?1'') r"
  using assms unfolding repaint_rows_def
  by (auto simp: has_prefix_iff REPAINT_PREFIX_def ALT_PREFIX_def ALT_HIDDEN_PREFIX_def ascii_def)

lemma normalize_rows: "repaint_rows (normalizeSnapshotRows d)"
  by (auto simp: normalizeSnapshotRows_def repaint_rows_def) (simp_all add: has_prefix_iff)

lemma repaint_captured_rows: "repaint_rows (repaintCapturedRows t row col)"
  by (auto simp: repaintCapturedRows_def repaint_rows_def Let_def) (simp_all add: has_prefix_iff)

lemma reset_not_colour: "list_all colour_seq us \<Longrightarrow> csi r \<Longrightarrow> \<not> has_prefix PTY_COLOR_RESET (concat us @ r)"
proof
  assume us: "list_all colour_seq us" "csi r" and "has_prefix PTY_COLOR_RESET (concat us @ r)"
  then have reset: "has_prefix (ESC # ascii '']110'') (concat us @ r)"
    by (auto simp: has_prefix_iff PTY_COLOR_RESET_def)
  show False
  proof (cases us)
    case Nil
    then show ?thesis using reset us(2) by (auto simp: csi_def has_prefix_iff ascii_def)
  next
    case (Cons u vs)
    then obtain mid fin where u: "u = ESC # 93 # mid @ fin" "colour_body mid" using us(1) by (auto simp: colour_seq_def)
    then have "has_prefix (ascii ''110'') (mid @ fin @ concat vs @ r)"
      using reset Cons by (simp add: has_prefix_Cons ascii_def)
    moreover obtain q where "q \<in> {''4;'', ''10;'', ''11;'', ''12;''}" "has_prefix (ascii q) mid"
      using u(2) by (auto simp: colour_body_def)
    ultimately show ?thesis by (auto simp: has_prefix_iff ascii_def)
  qed
qed

lemma repaint_start:
  assumes "splitPtyColorPreamble t = (p, r)" and rows: "repaint_rows r'"
  shows "isPaneRepaintStart (p @ r')" and "isPaneRepaintStart (PTY_COLOR_RESET @ p @ r')"
proof -
  obtain us where us: "p = concat us" "list_all colour_seq us" using assms(1) preamble_spec by blast
  have "splitPtyColorPreamble (p @ r') = (p, r')" by (rule split_rest [OF assms(1) repaint_rows_csi [OF rows]])
  then show "isPaneRepaintStart (p @ r')" "isPaneRepaintStart (PTY_COLOR_RESET @ p @ r')"
    using repaint_rows_start [OF rows] reset_not_colour [OF us(2) repaint_rows_csi [OF rows]] us(1)
    by (simp_all add: isPaneRepaintStart_def)
qed

text \<open>
  C40. A normalized snapshot and a repainted capture are both recognised as the start of a repaint, also after the
  colour reset; both keep the colour preamble; and normalizing changes neither of them again.
\<close>

theorem repaints_recognised:
  "isPaneRepaintStart (normalizeSnapshotText t) \<and> isPaneRepaintStart (PTY_COLOR_RESET @ normalizeSnapshotText t)
   \<and> isPaneRepaintStart (repaintCapturedScreenText t row col)
   \<and> isPaneRepaintStart (PTY_COLOR_RESET @ repaintCapturedScreenText t row col)
   \<and> fst (splitPtyColorPreamble (normalizeSnapshotText t)) = fst (splitPtyColorPreamble t)
   \<and> normalizeSnapshotText (normalizeSnapshotText t) = normalizeSnapshotText t
   \<and> normalizeSnapshotText (repaintCapturedScreenText t row col) = repaintCapturedScreenText t row col"
proof -
  obtain p r where split: "splitPtyColorPreamble t = (p, r)" by fastforce
  have again: "splitPtyColorPreamble (p @ r') = (p, r') \<and> normalizeSnapshotRows r' = r'" if "repaint_rows r'" for r'
    using split_rest [OF split repaint_rows_csi [OF that]] that by (simp add: normalizeSnapshotRows_def repaint_rows_def)
  show ?thesis
    using again [OF normalize_rows] again [OF repaint_captured_rows] repaint_start [OF split normalize_rows]
      repaint_start [OF split repaint_captured_rows]
    by (simp add: normalizeSnapshotText_def repaintCapturedScreenText_def split)
qed

section \<open>Cutting keeps the input\<close>

lemma chunk_end_bounds:
  assumes "2 \<le> m" "d \<noteq> []"
  shows "1 \<le> chunk_end m d \<and> chunk_end m d \<le> m \<and> chunk_end m d \<le> length d"
proof -
  have "1 \<le> length d" using assms(2) by (cases d) simp_all
  then show ?thesis using assms(1) unfolding chunk_end_def Let_def by (simp split: if_splits) linarith
qed

lemma chunk_end_whole:
  assumes "chunk_end m d < length d"
  shows "\<not> (is_high (d ! (chunk_end m d - 1)) \<and> is_low (d ! chunk_end m d))"
proof (cases "min m (length d) < length d \<and> is_high (d ! (min m (length d) - 1)) \<and> is_low (d ! min m (length d))")
  case True
  then have "chunk_end m d = min m (length d) - 1" by (simp add: chunk_end_def Let_def)
  moreover have "\<not> is_low (d ! (min m (length d) - 1))" using True by (simp add: is_high_def is_low_def)
  ultimately show ?thesis by simp
next
  case False
  then have "chunk_end m d = min m (length d)" unfolding chunk_end_def Let_def by (rule if_not_P)
  then show ?thesis using False assms by simp
qed

lemma pane_chunks_ok:
  "2 \<le> m \<Longrightarrow> concat (pane_chunks m d) = d \<and> (\<forall>p \<in> set (pane_chunks m d). p \<noteq> [] \<and> length p \<le> m)
     \<and> successively (\<lambda>p q. \<not> (is_high (last p) \<and> is_low (hd q))) (pane_chunks m d)"
proof (induction m d rule: pane_chunks.induct)
  case (1 m d)
  show ?case
  proof (cases "d = []")
    case True
    then show ?thesis by (simp add: pane_chunks.simps)
  next
    case False
    let ?e = "chunk_end m d"
    have e: "1 \<le> ?e" "?e \<le> m" "?e \<le> length d" using chunk_end_bounds [OF 1(2) False] by auto
    have IH: "concat (pane_chunks m (drop ?e d)) = drop ?e d"
      "\<forall>p \<in> set (pane_chunks m (drop ?e d)). p \<noteq> [] \<and> length p \<le> m"
      "successively (\<lambda>p q. \<not> (is_high (last p) \<and> is_low (hd q))) (pane_chunks m (drop ?e d))"
      using 1 False by auto
    have unfold: "pane_chunks m d = take ?e d # pane_chunks m (drop ?e d)"
      using False 1(2) by (simp add: pane_chunks.simps [of m d] Let_def)
    have "\<not> (is_high (last (take ?e d)) \<and> is_low (hd (hd (pane_chunks m (drop ?e d)))))" if ne: "drop ?e d \<noteq> []"
    proof -
      have "pane_chunks m (drop ?e d) = take (chunk_end m (drop ?e d)) (drop ?e d) # pane_chunks m (drop (chunk_end m (drop ?e d)) (drop ?e d))"
        using ne 1(2) by (simp add: pane_chunks.simps [of m "drop ?e d"] Let_def)
      moreover have "1 \<le> chunk_end m (drop ?e d)" using chunk_end_bounds [OF 1(2) ne] by blast
      ultimately have "hd (hd (pane_chunks m (drop ?e d))) = d ! ?e" using ne by (simp add: hd_drop_conv_nth)
      moreover have "last (take ?e d) = d ! (?e - 1)" using e False by (simp add: last_conv_nth)
      ultimately show ?thesis using chunk_end_whole [of m d] ne by simp
    qed
    then have "successively (\<lambda>p q. \<not> (is_high (last p) \<and> is_low (hd q))) (take ?e d # pane_chunks m (drop ?e d))"
      using IH(3) by (cases "drop ?e d = []") (simp_all add: pane_chunks.simps [of m "[]"] successively_Cons)
    moreover have "take ?e d \<noteq> []" "length (take ?e d) \<le> m" using e False by auto
    ultimately show ?thesis unfolding unfold using IH(1, 2) by (simp del: take_eq_Nil)
  qed
qed

text \<open>
  Pasted input is cut exactly when the limit is a safe integer of at least two; the pieces put together are the
  input, none is empty or longer than the limit, and no cut separates the two halves of a surrogate pair.
\<close>

theorem input_cut:
  "(case splitPaneInput d mx of
      None \<Rightarrow> \<not> (\<exists>m. safe_integer mx = Some m \<and> 2 \<le> m)
    | Some parts \<Rightarrow>
        (\<exists>m. safe_integer mx = Some m \<and> 2 \<le> m \<and> list_all (\<lambda>p. p \<noteq> [] \<and> int (length p) \<le> m) parts)
        \<and> concat parts = d \<and> successively (\<lambda>p q. \<not> (is_high (last p) \<and> is_low (hd q))) parts)"
proof (cases "\<exists>m. safe_integer mx = Some m \<and> 2 \<le> m")
  case True
  then obtain m where m: "safe_integer mx = Some m" "2 \<le> m" by blast
  have "2 \<le> nat m" using m(2) by simp
  note ok = pane_chunks_ok [OF this, of d]
  have "list_all (\<lambda>p. p \<noteq> [] \<and> int (length p) \<le> m) (pane_chunks (nat m) d)"
    unfolding list_all_iff using ok m(2) by (metis int_nat_eq nat_le_iff of_nat_le_iff order_trans zero_le_numeral)
  then show ?thesis using m ok by (simp add: splitPaneInput_def)
qed (auto simp: splitPaneInput_def split: option.splits)

end
