(* ===== verification/PaneDelivery.thy ===== *)
theory PaneDelivery
  imports PaneText
begin

text \<open>
  The bounded queue that delivers frames to a terminal pane (\<open>src/ui/components/shells/paneDeliveryQueue.ts\<close>,
  \<open>PaneDeliveryQueue\<close>). The callbacks the queue calls are its events; the promise of a frame settles later, as an
  operation of its own, so every interleaving is a list of operations.
\<close>

section \<open>The queue\<close>

definition PANE_DELIVERY_MAX_BYTES :: int where "PANE_DELIVERY_MAX_BYTES = 4 * 1024 * 1024"
definition PANE_DELIVERY_MAX_FRAMES :: nat where "PANE_DELIVERY_MAX_FRAMES = 256"

text \<open>\<open>dq_item\<close> is the item whose \<open>run\<close> the loop awaits.\<close>

record 'a delivery_queue =
  dq_pending :: "(int \<times> 'a) list"
  dq_bytes :: int
  dq_running :: bool
  dq_stopped :: bool
  dq_idle :: "nat list"
  dq_max :: int
  dq_item :: "(int \<times> 'a) option"

definition newDeliveryQueue :: "int \<Rightarrow> 'a delivery_queue" where
  "newDeliveryQueue maxBytes =
     \<lparr>dq_pending = [], dq_bytes = 0, dq_running = False, dq_stopped = False, dq_idle = [], dq_max = maxBytes, dq_item = None\<rparr>"

datatype 'a delivery_event = Accepted 'a | Refused | Started 'a | Finished 'a | Failed | Idle nat

definition cancelQueue :: "'a delivery_queue \<Rightarrow> 'a delivery_queue" where
  "cancelQueue q = q\<lparr>dq_stopped := True, dq_bytes := dq_bytes q - sum_list (map fst (dq_pending q)), dq_pending := []\<rparr>"

text \<open>The loop of \<open>drain\<close>, from its test to the next \<open>await\<close> or its end.\<close>

definition drain_next :: "'a delivery_queue \<Rightarrow> 'a delivery_event list \<times> 'a delivery_queue" where
  "drain_next q =
     (if \<not> dq_stopped q \<and> dq_pending q \<noteq> []
      then ([Started (snd (hd (dq_pending q)))],
            q\<lparr>dq_running := True, dq_item := Some (hd (dq_pending q)), dq_pending := tl (dq_pending q)\<rparr>)
      else (map Idle (dq_idle q), q\<lparr>dq_running := False, dq_item := None, dq_idle := []\<rparr>))"

definition enqueue :: "jsnum \<Rightarrow> 'a \<Rightarrow> 'a delivery_queue \<Rightarrow> 'a delivery_event list \<times> 'a delivery_queue" where
  "enqueue bytes a q =
     (if dq_stopped q then ([Refused], q)
      else
        (let fail = ([Failed, Refused], cancelQueue q) in
         case safe_integer bytes of
           None \<Rightarrow> fail
         | Some b \<Rightarrow>
             if b < 0 \<or> dq_max q - dq_bytes q < b \<or> PANE_DELIVERY_MAX_FRAMES \<le> length (dq_pending q) then fail
             else
               (let q1 = q\<lparr>dq_bytes := dq_bytes q + b, dq_pending := dq_pending q @ [(b, a)]\<rparr> in
                if dq_running q then ([Accepted a], q1)
                else (let (ev, q2) = drain_next q1 in (Accepted a # ev, q2)))))"

text \<open>The awaited \<open>run\<close> settles; its promise was fulfilled or rejected.\<close>

definition settle :: "bool \<Rightarrow> 'a delivery_queue \<Rightarrow> 'a delivery_event list \<times> 'a delivery_queue" where
  "settle ok q =
     (case dq_item q of
        None \<Rightarrow> ([], q)
      | Some (b, a) \<Rightarrow>
          (let (ev1, q1) = (if ok then ([], q) else ([Failed], cancelQueue q));
               (ev2, q2) = drain_next (q1\<lparr>dq_bytes := dq_bytes q1 - b\<rparr>)
           in (Finished a # ev1 @ ev2, q2)))"

definition whenIdle :: "nat \<Rightarrow> 'a delivery_queue \<Rightarrow> 'a delivery_event list \<times> 'a delivery_queue" where
  "whenIdle w q = (if dq_running q then ([], q\<lparr>dq_idle := dq_idle q @ [w]\<rparr>) else ([Idle w], q))"

datatype 'a delivery_op = Enqueue jsnum 'a | Cancel | Settle bool | WhenIdle nat

fun delivery_step :: "'a delivery_op \<Rightarrow> 'a delivery_queue \<Rightarrow> 'a delivery_event list \<times> 'a delivery_queue" where
  "delivery_step (Enqueue n a) q = enqueue n a q"
| "delivery_step Cancel q = ([], cancelQueue q)"
| "delivery_step (Settle ok) q = settle ok q"
| "delivery_step (WhenIdle w) q = whenIdle w q"

fun delivery_run :: "'a delivery_op list \<Rightarrow> 'a delivery_queue \<Rightarrow> 'a delivery_event list \<times> 'a delivery_queue" where
  "delivery_run [] q = ([], q)"
| "delivery_run (x # xs) q =
     (let (ev, q1) = delivery_step x q; (evs, q2) = delivery_run xs q1 in (ev @ evs, q2))"

section \<open>Frames are delivered one by one, in order\<close>

definition accepted :: "'a delivery_event list \<Rightarrow> 'a list" where
  "accepted ev = List.map_filter (\<lambda>e. case e of Accepted a \<Rightarrow> Some a | _ \<Rightarrow> None) ev"

definition started :: "'a delivery_event list \<Rightarrow> 'a list" where
  "started ev = List.map_filter (\<lambda>e. case e of Started a \<Rightarrow> Some a | _ \<Rightarrow> None) ev"

definition finished :: "'a delivery_event list \<Rightarrow> 'a list" where
  "finished ev = List.map_filter (\<lambda>e. case e of Finished a \<Rightarrow> Some a | _ \<Rightarrow> None) ev"

lemma trace_simps [simp]:
  "accepted [] = []" "accepted (Accepted a # ev) = a # accepted ev" "accepted (Refused # ev) = accepted ev"
  "accepted (Started a # ev) = accepted ev" "accepted (Finished a # ev) = accepted ev" "accepted (Failed # ev) = accepted ev"
  "accepted (Idle w # ev) = accepted ev" "accepted (ev @ ev') = accepted ev @ accepted ev'" "accepted (map Idle ws) = []"
  "started [] = []" "started (Accepted a # ev) = started ev" "started (Refused # ev) = started ev"
  "started (Started a # ev) = a # started ev" "started (Finished a # ev) = started ev" "started (Failed # ev) = started ev"
  "started (Idle w # ev) = started ev" "started (ev @ ev') = started ev @ started ev'" "started (map Idle ws) = []"
  "finished [] = []" "finished (Accepted a # ev) = finished ev" "finished (Refused # ev) = finished ev"
  "finished (Started a # ev) = finished ev" "finished (Finished a # ev) = a # finished ev" "finished (Failed # ev) = finished ev"
  "finished (Idle w # ev) = finished ev" "finished (ev @ ev') = finished ev @ finished ev'" "finished (map Idle ws) = []"
  by (simp_all add: accepted_def started_def finished_def map_filter_simps map_filter_def comp_def)

definition in_hand :: "'a delivery_queue \<Rightarrow> 'a list" where
  "in_hand q = (case dq_item q of None \<Rightarrow> [] | Some (b, a) \<Rightarrow> [a])"

definition queue_ok :: "'a delivery_queue \<Rightarrow> bool" where
  "queue_ok q =
     (dq_bytes q = sum_list (map fst (dq_pending q)) + (case dq_item q of None \<Rightarrow> 0 | Some (b, a) \<Rightarrow> b)
      \<and> dq_bytes q \<le> dq_max q \<and> list_all (\<lambda>p. 0 \<le> fst p) (dq_pending q)
      \<and> (case dq_item q of None \<Rightarrow> True | Some (b, a) \<Rightarrow> 0 \<le> b)
      \<and> length (dq_pending q) \<le> PANE_DELIVERY_MAX_FRAMES \<and> dq_running q = (dq_item q \<noteq> None)
      \<and> (dq_pending q \<noteq> [] \<longrightarrow> dq_running q \<and> \<not> dq_stopped q) \<and> (dq_running q \<or> dq_idle q = []))"

text \<open>The trace so far and the queue: what is started was accepted in that order, one item at a time.\<close>

definition in_order :: "'a delivery_event list \<Rightarrow> 'a delivery_queue \<Rightarrow> bool" where
  "in_order ev q =
     (started ev = finished ev @ in_hand q
      \<and> (\<exists>dropped. accepted ev = started ev @ map snd (dq_pending q) @ dropped \<and> (dq_stopped q \<or> dropped = [])))"

lemma in_order_quiet [simp]:
  "in_order (ev @ [Refused]) q = in_order ev q" "in_order (ev @ [Failed, Refused]) q = in_order ev q"
  by (simp_all add: in_order_def)

lemma sum_list_nonneg: "list_all (\<lambda>p. 0 \<le> fst p) ps \<Longrightarrow> 0 \<le> sum_list (map fst (ps :: (int \<times> 'a) list))"
  by (induction ps) auto

lemma cancel_ok:
  assumes "queue_ok q" "in_order ev q"
  shows "queue_ok (cancelQueue q)" "in_order ev (cancelQueue q)"
  using assms sum_list_nonneg [of "dq_pending q"]
  by (auto simp: queue_ok_def in_order_def cancelQueue_def in_hand_def split: option.splits)

text \<open>The state in which \<open>drain\<close> tests its loop: nothing is awaited.\<close>

lemma drain_ok:
  assumes "drain_next q = (ev', q')" and "dq_bytes q = sum_list (map fst (dq_pending q))"
    and "dq_bytes q \<le> dq_max q" "list_all (\<lambda>p. 0 \<le> fst p) (dq_pending q)" "length (dq_pending q) \<le> PANE_DELIVERY_MAX_FRAMES"
    and "dq_stopped q \<Longrightarrow> dq_pending q = []" and "started ev = finished ev"
    and "accepted ev = started ev @ map snd (dq_pending q) @ dropped" "dq_stopped q \<or> dropped = []"
  shows "queue_ok q' \<and> in_order (ev @ ev') q'"
proof (cases "dq_pending q")
  case Nil
  then have "ev' = map Idle (dq_idle q)" "q' = q\<lparr>dq_running := False, dq_item := None, dq_idle := []\<rparr>"
    using assms(1) by (simp_all add: drain_next_def)
  then show ?thesis using assms Nil by (auto simp: queue_ok_def in_order_def in_hand_def)
next
  case (Cons p ps)
  obtain b a where p: "p = (b, a)" by fastforce
  have live: "\<not> dq_stopped q" using assms(6) Cons by auto
  then have "ev' = [Started a]" "q' = q\<lparr>dq_running := True, dq_item := Some (b, a), dq_pending := ps\<rparr>"
    using assms(1) Cons p by (simp_all add: drain_next_def)
  then show ?thesis using assms Cons p by (auto simp: queue_ok_def in_order_def in_hand_def)
qed

lemma enqueue_ok:
  assumes "queue_ok q" "in_order ev q" "enqueue n a q = (ev', q')"
  shows "queue_ok q' \<and> in_order (ev @ ev') q'"
proof -
  let ?full = "\<lambda>b. b < 0 \<or> dq_max q - dq_bytes q < b \<or> PANE_DELIVERY_MAX_FRAMES \<le> length (dq_pending q)"
  consider "dq_stopped q" | "\<not> dq_stopped q" "enqueue n a q = ([Failed, Refused], cancelQueue q)"
    | b where "\<not> dq_stopped q" "safe_integer n = Some b" "\<not> ?full b"
  proof (cases "dq_stopped q")
    case live: False
    show ?thesis
    proof (cases "safe_integer n")
      case None
      then show ?thesis using live by (intro that(2)) (simp_all add: enqueue_def)
    next
      case (Some b)
      show ?thesis
      proof (cases "?full b")
        case True
        then show ?thesis using live Some by (intro that(2)) (simp_all add: enqueue_def)
      qed (use live Some that(3) in blast)
    qed
  qed (use that(1) in blast)
  then show ?thesis
  proof cases
    case 1
    then have "ev' = [Refused]" "q' = q" using assms(3) by (simp_all add: enqueue_def)
    then show ?thesis using assms(1,2) by simp
  next
    case 2
    then show ?thesis using cancel_ok [OF assms(1,2)] assms(3) by simp
  next
    case (3 b)
    let ?q1 = "q\<lparr>dq_bytes := dq_bytes q + b, dq_pending := dq_pending q @ [(b, a)]\<rparr>"
    show ?thesis
    proof (cases "dq_running q")
      case True
      then have "ev' = [Accepted a]" "q' = ?q1" using assms(3) 3 by (simp_all add: enqueue_def)
      then show ?thesis using assms(1,2) 3 True by (auto simp: queue_ok_def in_order_def in_hand_def split: option.splits)
    next
      case False
      then have item: "dq_item q = None" "dq_pending q = []" using assms(1) unfolding queue_ok_def by blast+
      obtain ev2 where d: "drain_next ?q1 = (ev2, q')" "ev' = Accepted a # ev2"
        using assms(3) 3 False by (auto simp: enqueue_def split: prod.splits)
      have "queue_ok q' \<and> in_order ((ev @ [Accepted a]) @ ev2) q'"
        by (rule drain_ok [OF d(1), where dropped = "[]"])
          (use assms(1,2) 3 item in \<open>auto simp: queue_ok_def in_order_def in_hand_def PANE_DELIVERY_MAX_FRAMES_def\<close>)
      then show ?thesis using d(2) by simp
    qed
  qed
qed

lemma settle_ok:
  fixes q :: "'a delivery_queue"
  assumes "queue_ok q" "in_order ev q" "settle ok q = (ev', q')"
  shows "queue_ok q' \<and> in_order (ev @ ev') q'"
proof (cases "dq_item q")
  case None
  then show ?thesis using assms by (simp add: settle_def)
next
  case (Some p)
  obtain b a where p: "p = (b, a)" by fastforce
  obtain ev1 q1 where q1: "(if ok then ([], q) else ([Failed], cancelQueue q)) = (ev1 :: 'a delivery_event list, q1)" by fastforce
  obtain ev2 where d: "drain_next (q1\<lparr>dq_bytes := dq_bytes q1 - b\<rparr>) = (ev2, q')" "ev' = Finished a # ev1 @ ev2"
    using assms(3) Some p q1 by (auto simp: settle_def Let_def split: prod.splits)
  have ok1: "queue_ok q1" "in_order ev q1" "dq_item q1 = Some (b, a)" "started ev1 = []" "accepted ev1 = []" "finished ev1 = []"
    using q1 assms(1,2) cancel_ok [OF assms(1,2)] Some p by (auto simp: cancelQueue_def split: if_splits)
  obtain dropped where drop: "accepted ev = started ev @ map snd (dq_pending q1) @ dropped" "dq_stopped q1 \<or> dropped = []"
    using ok1(2) unfolding in_order_def by blast
  have "queue_ok q' \<and> in_order ((ev @ Finished a # ev1) @ ev2) q'"
    by (rule drain_ok [OF d(1), where dropped = dropped])
      (use ok1 drop in \<open>auto simp: queue_ok_def in_order_def in_hand_def\<close>)
  then show ?thesis using d(2) by simp
qed

lemma delivery_step_ok:
  assumes "queue_ok q" "in_order ev q" "delivery_step x q = (ev', q')"
  shows "queue_ok q' \<and> in_order (ev @ ev') q'"
proof (cases x)
  case (Enqueue n a)
  then show ?thesis using enqueue_ok assms by fastforce
next
  case Cancel
  then show ?thesis using cancel_ok [OF assms(1,2)] assms(3) by auto
next
  case (Settle ok)
  then show ?thesis using settle_ok assms by fastforce
next
  case (WhenIdle w)
  then show ?thesis using assms
    by (auto simp: whenIdle_def queue_ok_def in_order_def in_hand_def split: if_splits option.splits)
qed

lemma delivery_run_ok:
  "queue_ok q \<Longrightarrow> in_order ev q \<Longrightarrow> delivery_run xs q = (ev', q') \<Longrightarrow> queue_ok q' \<and> in_order (ev @ ev') q'"
proof (induction xs arbitrary: q ev ev')
  case (Cons x xs)
  obtain e1 q1 where s: "delivery_step x q = (e1, q1)" by fastforce
  obtain e2 where r: "delivery_run xs q1 = (e2, q')" "ev' = e1 @ e2"
    using Cons.prems(3) s by (auto split: prod.splits)
  have "queue_ok q1 \<and> in_order (ev @ e1) q1" by (rule delivery_step_ok [OF Cons.prems(1,2) s])
  then have "queue_ok q' \<and> in_order ((ev @ e1) @ e2) q'" using Cons.IH r(1) by blast
  then show ?case using r(2) by simp
qed auto

lemma new_queue_ok: "0 \<le> m \<Longrightarrow> queue_ok (newDeliveryQueue m) \<and> in_order [] (newDeliveryQueue m)"
  by (simp add: newDeliveryQueue_def queue_ok_def in_order_def in_hand_def)

text \<open>
  C37. Whatever enqueues, settled frames, cancellations and waits happen, in any order: the bytes counted are those of
  the frames held and never exceed the bound, nor do the frames waiting; a frame starts only when the one before it has
  finished; frames start in the order they were accepted; and unless the queue was stopped none is lost.
\<close>

theorem delivery_in_order:
  assumes "0 \<le> m" and "delivery_run ops (newDeliveryQueue m) = (ev, q)"
  shows "queue_ok q \<and> dq_max q = m \<and> started ev = finished ev @ in_hand q
    \<and> (\<exists>dropped. accepted ev = started ev @ map snd (dq_pending q) @ dropped \<and> (dq_stopped q \<or> dropped = []))"
proof -
  have "queue_ok q \<and> in_order ([] @ ev) q" using delivery_run_ok new_queue_ok [OF assms(1)] assms(2) by blast
  moreover have "dq_max q = m"
  proof -
    have step: "dq_max (snd (delivery_step x p)) = dq_max p" for x and p :: "'a delivery_queue"
      by (cases x) (auto simp: enqueue_def settle_def whenIdle_def cancelQueue_def drain_next_def Let_def split: option.splits prod.splits)
    have "delivery_run xs p = (e, p') \<Longrightarrow> dq_max p' = dq_max p" for xs and p p' :: "'a delivery_queue" and e
    proof (induction xs arbitrary: p e)
      case (Cons x xs)
      then show ?case using step [of x p] by (auto split: prod.splits)
    qed simp
    then show ?thesis using assms(2) by (auto simp: newDeliveryQueue_def)
  qed
  ultimately show ?thesis unfolding in_order_def append_Nil by blast
qed

theorem delivery_in_order_witness:
  "\<exists>ev q. delivery_run [Enqueue (Fin 3) ''a'', Enqueue (Fin 4) ''b'', Settle True, WhenIdle 7, Enqueue (Fin 9) ''c''] (newDeliveryQueue 10) = (ev, q)
     \<and> queue_ok q \<and> started ev = finished ev @ in_hand q \<and> accepted ev = [''a'', ''b''] \<and> dq_stopped q"
proof -
  let ?run = "delivery_run [Enqueue (Fin 3) ''a'', Enqueue (Fin 4) ''b'', Settle True, WhenIdle 7, Enqueue (Fin 9) ''c''] (newDeliveryQueue 10)"
  have "(0 :: int) \<le> 10" by simp
  from delivery_in_order [OF this, of _ "fst ?run" "snd ?run"]
  have "queue_ok (snd ?run) \<and> started (fst ?run) = finished (fst ?run) @ in_hand (snd ?run)" by (metis prod.collapse)
  moreover have "accepted (fst ?run) = [''a'', ''b'']" "dq_stopped (snd ?run)"
    by (simp_all add: newDeliveryQueue_def enqueue_def settle_def whenIdle_def cancelQueue_def drain_next_def
        PANE_DELIVERY_MAX_FRAMES_def Let_def)
  ultimately show ?thesis by (metis prod.collapse)
qed

section \<open>A queue whose frames succeed runs dry\<close>

definition idled :: "'a delivery_event list \<Rightarrow> nat list" where
  "idled ev = List.map_filter (\<lambda>e. case e of Idle w \<Rightarrow> Some w | _ \<Rightarrow> None) ev"

lemma idled_simps [simp]:
  "idled [] = []" "idled (Accepted a # ev) = idled ev" "idled (Refused # ev) = idled ev" "idled (Started a # ev) = idled ev"
  "idled (Finished a # ev) = idled ev" "idled (Failed # ev) = idled ev" "idled (Idle w # ev) = w # idled ev"
  "idled (ev @ ev') = idled ev @ idled ev'" "idled (map Idle ws) = ws"
  by (simp_all add: idled_def map_filter_simps map_filter_def comp_def)

lemma settle_drains:
  "queue_ok q \<Longrightarrow> \<not> dq_stopped q \<Longrightarrow> dq_item q = Some p \<Longrightarrow> n = length (dq_pending q) \<Longrightarrow>
   \<exists>ev q'. delivery_run (replicate (Suc n) (Settle True)) q = (ev, q') \<and> finished ev = in_hand q @ map snd (dq_pending q)
     \<and> idled ev = dq_idle q \<and> dq_item q' = None \<and> dq_pending q' = [] \<and> \<not> dq_stopped q'"
proof (induction n arbitrary: q p)
  case 0
  then show ?case by (cases p) (simp add: settle_def drain_next_def in_hand_def)
next
  case (Suc n)
  obtain b a where p: "p = (b, a)" by fastforce
  obtain c ps where ps: "dq_pending q = c # ps" using Suc.prems(4) by (cases "dq_pending q") auto
  let ?q1 = "q\<lparr>dq_bytes := dq_bytes q - b, dq_running := True, dq_item := Some c, dq_pending := ps\<rparr>"
  have s: "delivery_step (Settle True) q = ([Finished a, Started (snd c)], ?q1)"
    using Suc.prems(2,3) ps p by (simp add: settle_def drain_next_def)
  have "queue_ok ?q1" using Suc.prems(1,2,3) ps p by (cases c) (auto simp: queue_ok_def)
  then obtain ev q' where r: "delivery_run (replicate (Suc n) (Settle True)) ?q1 = (ev, q')"
    "finished ev = in_hand ?q1 @ map snd ps" "idled ev = dq_idle q" "dq_item q' = None" "dq_pending q' = []" "\<not> dq_stopped q'"
    using Suc.IH [of ?q1 c] Suc.prems(2,4) ps by auto
  have "delivery_run (replicate (Suc (Suc n)) (Settle True)) q = ([Finished a, Started (snd c)] @ ev, q')"
    unfolding replicate_Suc [of "Suc n"] delivery_run.simps(2) [of _ _ q] s Let_def using r(1) by simp
  then show ?case using r Suc.prems(3) ps p by (cases c) (simp add: in_hand_def)
qed

text \<open>
  C38. After any operations that did not stop the queue, as soon as the frames held have run without an error every frame
  accepted has been delivered, no byte is counted any more, and everyone who waited for the queue is told.
\<close>

theorem delivery_drains:
  assumes "0 \<le> m" and run: "delivery_run ops (newDeliveryQueue m) = (ev, q)" and "\<not> dq_stopped q" "dq_running q"
  shows "\<exists>ev' q'. delivery_run (replicate (length (dq_pending q) + 1) (Settle True)) q = (ev', q')
    \<and> finished (ev @ ev') = accepted ev \<and> dq_bytes q' = 0 \<and> \<not> dq_running q' \<and> idled ev' = dq_idle q"
proof -
  have ok: "queue_ok q \<and> in_order ([] @ ev) q" using delivery_run_ok new_queue_ok [OF assms(1)] run by blast
  then obtain p where p: "dq_item q = Some p" using assms(4) by (auto simp: queue_ok_def)
  obtain ev' q' where r: "delivery_run (replicate (Suc (length (dq_pending q))) (Settle True)) q = (ev', q')"
    "finished ev' = in_hand q @ map snd (dq_pending q)" "idled ev' = dq_idle q" "dq_item q' = None" "dq_pending q' = []"
    using settle_drains [OF conjunct1 [OF ok] assms(3) p refl] by blast
  have "queue_ok q' \<and> in_order (([] @ ev) @ ev') q'" using delivery_run_ok ok r(1) by blast
  then have "dq_bytes q' = 0" "\<not> dq_running q'" using r by (simp_all add: queue_ok_def)
  moreover have "finished (ev @ ev') = accepted ev" using ok r(2) assms(3) by (auto simp: in_order_def)
  ultimately show ?thesis using r(1,3) by auto
qed

theorem delivery_drains_witness:
  "\<exists>ev q ev' q'. delivery_run [Enqueue (Fin 3) ''a'', Enqueue (Fin 4) ''b'', WhenIdle 7] (newDeliveryQueue 10) = (ev, q)
     \<and> delivery_run (replicate (length (dq_pending q) + 1) (Settle True)) q = (ev', q')
     \<and> finished (ev @ ev') = [''a'', ''b''] \<and> dq_bytes q' = 0 \<and> idled ev' = [7]"
proof -
  let ?run = "delivery_run [Enqueue (Fin 3) ''a'', Enqueue (Fin 4) ''b'', WhenIdle 7] (newDeliveryQueue 10)"
  have facts: "\<not> dq_stopped (snd ?run)" "dq_running (snd ?run)" "accepted (fst ?run) = [''a'', ''b'']" "dq_idle (snd ?run) = [7]"
    by (simp_all add: newDeliveryQueue_def enqueue_def whenIdle_def drain_next_def PANE_DELIVERY_MAX_FRAMES_def Let_def)
  have "(0 :: int) \<le> 10" "?run = (fst ?run, snd ?run)" by simp_all
  from delivery_drains [OF this facts(1,2)] facts(3,4) show ?thesis by (metis prod.collapse)
qed

end
