(* ===== verification/PaneIo.thy ===== *)
theory PaneIo
  imports PaneText
begin

text \<open>
  Small state machines between a terminal pane and its socket: one write per animation frame
  (\<open>PaneWriteBatcher\<close> of \<open>src/ui/components/shells/paneDeliveryQueue.ts\<close>), coalesced input
  (\<open>ptyInputCoalescer.ts\<close>), debounced resizes (\<open>terminalResizeDispatch.ts\<close>), the pause of hidden panes
  (\<open>paneVisibilityGate.ts\<close>) and the choice of transport (\<open>streamingMode.ts\<close>). Callbacks are events; animation
  frames and timers are operations.
\<close>

section \<open>Batched writes\<close>

definition PANE_WRITE_BATCH_MAX_CHARS :: nat where "PANE_WRITE_BATCH_MAX_CHARS = 512 * 1024"

record write_batcher =
  wb_pending :: units
  wb_scheduled :: bool
  wb_max :: nat

definition newBatcher :: "nat \<Rightarrow> write_batcher" where
  "newBatcher maxChars = \<lparr>wb_pending = [], wb_scheduled = False, wb_max = maxChars\<rparr>"

text \<open>The writes made, and the batcher after.\<close>

definition flushBatch :: "write_batcher \<Rightarrow> units list \<times> write_batcher" where
  "flushBatch b =
     (if wb_pending b = [] then ([], b\<lparr>wb_scheduled := False\<rparr>)
      else ([wb_pending b], b\<lparr>wb_scheduled := False, wb_pending := []\<rparr>))"

definition pushWrite :: "units \<Rightarrow> bool \<Rightarrow> write_batcher \<Rightarrow> units list \<times> write_batcher" where
  "pushWrite t startsRepaint b =
     (if t = [] then ([], b)
      else
        (let (w1, b1) = (if startsRepaint \<and> wb_pending b \<noteq> [] then flushBatch b else ([], b));
             b2 = b1\<lparr>wb_pending := wb_pending b1 @ t\<rparr>
         in if wb_max b \<le> length (wb_pending b2)
            then (let (w2, b3) = flushBatch b2 in (w1 @ w2, b3))
            else (w1, b2\<lparr>wb_scheduled := True\<rparr>)))"

definition resetBatch :: "write_batcher \<Rightarrow> write_batcher" where
  "resetBatch b = b\<lparr>wb_pending := [], wb_scheduled := False\<rparr>"

text \<open>Texts pushed, with the repaint mark; \<open>None\<close> is a flush, by a frame or a caller.\<close>

fun batch_run :: "(units \<times> bool) option list \<Rightarrow> write_batcher \<Rightarrow> units list \<times> write_batcher" where
  "batch_run [] b = ([], b)"
| "batch_run (x # xs) b =
     (let (w, b1) = (case x of None \<Rightarrow> flushBatch b | Some (t, r) \<Rightarrow> pushWrite t r b); (ws, b2) = batch_run xs b1
      in (w @ ws, b2))"

definition pushed :: "(units \<times> bool) option list \<Rightarrow> units" where
  "pushed xs = concat (map fst (List.map_filter id xs))"

definition batch_ok :: "nat \<Rightarrow> write_batcher \<Rightarrow> bool" where
  "batch_ok m b = (wb_max b = m \<and> length (wb_pending b) < m \<and> (wb_pending b \<noteq> [] \<longrightarrow> wb_scheduled b))"

lemma flushBatch_keeps:
  assumes "batch_ok m b" "flushBatch b = (w, b')"
  shows "batch_ok m b' \<and> concat w @ wb_pending b' = wb_pending b \<and> [] \<notin> set w \<and> wb_pending b' = []"
  using assms by (auto simp: flushBatch_def batch_ok_def split: if_splits)

lemma pushWrite_keeps:
  assumes "batch_ok m b" "pushWrite t r b = (w, b')"
  shows "batch_ok m b' \<and> concat w @ wb_pending b' = wb_pending b @ t \<and> [] \<notin> set w
    \<and> (r \<and> t \<noteq> [] \<longrightarrow> wb_pending b' = t \<or> wb_pending b' = [] \<and> w \<noteq> [] \<and> last w = t)"
  using assms by (cases "t = []"; cases "r \<and> wb_pending b \<noteq> []")
    (auto simp: pushWrite_def flushBatch_def batch_ok_def Let_def split: if_splits)

text \<open>
  Batching loses and reorders nothing: the writes, in order, followed by what is pending are the texts pushed; no
  write is empty, the batch stays below its bound, a flush is scheduled whenever something is pending, and a text that
  starts a repaint is never appended to earlier text.
\<close>

theorem batches_keep_text:
  assumes "0 < m" and "batch_run xs (newBatcher m) = (ws, b)"
  shows "concat ws @ wb_pending b = pushed xs \<and> [] \<notin> set ws \<and> length (wb_pending b) < m
    \<and> (wb_pending b = [] \<or> wb_scheduled b)
    \<and> (\<forall>t w b'. pushWrite t True b = (w, b') \<longrightarrow> t = [] \<or> wb_pending b' = t \<or> wb_pending b' = [] \<and> last w = t)"
proof -
  have run: "batch_ok m b0 \<Longrightarrow> batch_run xs b0 = (ws, b) \<Longrightarrow>
      batch_ok m b \<and> concat ws @ wb_pending b = wb_pending b0 @ pushed xs \<and> [] \<notin> set ws" for b0 ws
  proof (induction xs arbitrary: b0 ws)
    case Nil
    then show ?case by (simp add: pushed_def map_filter_simps)
  next
    case (Cons x xs)
    obtain w b1 where s: "(case x of None \<Rightarrow> flushBatch b0 | Some (t, r) \<Rightarrow> pushWrite t r b0) = (w, b1)" by fastforce
    obtain ws' where r: "batch_run xs b1 = (ws', b)" "ws = w @ ws'" using Cons.prems(2) s by (auto split: prod.splits)
    have step: "batch_ok m b1 \<and> concat w @ wb_pending b1 = wb_pending b0 @ (case x of None \<Rightarrow> [] | Some (t, r) \<Rightarrow> t) \<and> [] \<notin> set w"
      using s flushBatch_keeps [OF Cons.prems(1)] pushWrite_keeps [OF Cons.prems(1)]
      by (cases x) (fastforce split: prod.splits)+
    have "concat ws @ wb_pending b = concat w @ wb_pending b1 @ pushed xs"
      using Cons.IH [OF conjunct1 [OF step] r(1)] r(2) by simp
    also have "\<dots> = wb_pending b0 @ pushed (x # xs)"
      using step by (cases x) (auto simp: pushed_def map_filter_simps)
    finally show ?case using Cons.IH [OF conjunct1 [OF step] r(1)] r(2) step by simp
  qed
  have "batch_ok m (newBatcher m)" using assms(1) by (simp add: newBatcher_def batch_ok_def)
  from run [OF this assms(2)] have ok: "batch_ok m b" "concat ws @ wb_pending b = pushed xs" "[] \<notin> set ws"
    by (simp_all add: newBatcher_def)
  moreover have "t = [] \<or> wb_pending b' = t \<or> wb_pending b' = [] \<and> last w = t" if "pushWrite t True b = (w, b')" for t w b'
    using pushWrite_keeps [OF ok(1) that] by blast
  ultimately show ?thesis by (auto simp: batch_ok_def)
qed

theorem batches_keep_text_witness:
  "\<exists>ws b. batch_run [Some (ascii ''ab'', False), Some (ascii ''cd'', True), None, Some (ascii ''efgh'', False)] (newBatcher 4) = (ws, b)
     \<and> concat ws @ wb_pending b = ascii ''abcdefgh''"
proof -
  let ?xs = "[Some (ascii ''ab'', False), Some (ascii ''cd'', True), None, Some (ascii ''efgh'', False)]"
  have "(0 :: nat) < 4" "batch_run ?xs (newBatcher 4) = (fst (batch_run ?xs (newBatcher 4)), snd (batch_run ?xs (newBatcher 4)))"
    by simp_all
  from batches_keep_text [OF this] have "concat (fst (batch_run ?xs (newBatcher 4))) @ wb_pending (snd (batch_run ?xs (newBatcher 4))) = pushed ?xs"
    by blast
  moreover have "pushed ?xs = ascii ''abcdefgh''" by (simp add: pushed_def map_filter_simps ascii_def)
  ultimately show ?thesis by (metis prod.collapse)
qed

section \<open>Coalesced input\<close>

record input_coalescer =
  ic_pending :: units
  ic_scheduled :: bool

definition createInputCoalescer :: input_coalescer where
  "createInputCoalescer = \<lparr>ic_pending = [], ic_scheduled = False\<rparr>"

text \<open>The pieces sent, or \<open>None\<close> where the limit is refused; the pending input is gone in both cases.\<close>

definition coalescer_flush :: "jsnum \<Rightarrow> input_coalescer \<Rightarrow> units list option \<times> input_coalescer" where
  "coalescer_flush maxCodeUnits c =
     (if ic_pending c = [] then (Some [], c\<lparr>ic_scheduled := False\<rparr>)
      else (splitPaneInput (ic_pending c) maxCodeUnits, c\<lparr>ic_scheduled := False, ic_pending := []\<rparr>))"

definition coalescer_push :: "units \<Rightarrow> input_coalescer \<Rightarrow> input_coalescer" where
  "coalescer_push d c = (if d = [] then c else c\<lparr>ic_pending := ic_pending c @ d, ic_scheduled := True\<rparr>)"

definition coalescer_reset :: "input_coalescer \<Rightarrow> input_coalescer" where
  "coalescer_reset c = c\<lparr>ic_pending := [], ic_scheduled := False\<rparr>"

lemma coalescer_sends_input:
  assumes "safe_integer mx = Some m" "2 \<le> m"
  shows "\<exists>parts. fst (coalescer_flush mx (fold coalescer_push ds createInputCoalescer)) = Some parts \<and> concat parts = concat ds"
proof -
  have "ic_pending (fold coalescer_push ds c) = ic_pending c @ concat ds" for c
    by (induction ds arbitrary: c) (auto simp: coalescer_push_def)
  then have p: "ic_pending (fold coalescer_push ds createInputCoalescer) = concat ds" by (simp add: createInputCoalescer_def)
  have "2 \<le> nat m" using assms(2) by simp
  from pane_chunks_ok [OF this, of "concat ds"] show ?thesis using assms p
    by (auto simp: coalescer_flush_def splitPaneInput_def)
qed

section \<open>Debounced resizes\<close>

record resize_dispatcher =
  rd_timer :: bool
  rd_pending :: "(int \<times> int) option"

definition createTerminalResizeDispatcher :: resize_dispatcher where
  "createTerminalResizeDispatcher = \<lparr>rd_timer = False, rd_pending = None\<rparr>"

definition resize_schedule :: "int \<Rightarrow> int \<Rightarrow> resize_dispatcher \<Rightarrow> resize_dispatcher" where
  "resize_schedule rows cols d = d\<lparr>rd_pending := Some (rows, cols), rd_timer := True\<rparr>"

definition resize_cancel :: "resize_dispatcher \<Rightarrow> resize_dispatcher" where
  "resize_cancel d = d\<lparr>rd_timer := False, rd_pending := None\<rparr>"

text \<open>The timer fires: the geometry dispatched, if any.\<close>

definition resize_flush :: "resize_dispatcher \<Rightarrow> (int \<times> int) option \<times> resize_dispatcher" where
  "resize_flush d = (rd_pending d, d\<lparr>rd_timer := False, rd_pending := None\<rparr>)"

section \<open>Hidden panes\<close>

record visibility_gate =
  vg_timer :: bool
  vg_paused :: bool
  vg_disposed :: bool

definition createVisibilityGate :: visibility_gate where
  "createVisibilityGate = \<lparr>vg_timer = False, vg_paused = False, vg_disposed = False\<rparr>"

datatype gate_event = Pause | Resume

text \<open>The argument is \<open>isHidden()\<close> at that moment; a cleared timer does not fire.\<close>

definition gate_notify :: "bool \<Rightarrow> visibility_gate \<Rightarrow> gate_event list \<times> visibility_gate" where
  "gate_notify hidden g =
     (if vg_disposed g then ([], g)
      else if hidden then (if vg_paused g \<or> vg_timer g then ([], g) else ([], g\<lparr>vg_timer := True\<rparr>))
      else if vg_paused g then ([Resume], g\<lparr>vg_timer := False, vg_paused := False\<rparr>)
      else ([], g\<lparr>vg_timer := False\<rparr>))"

definition gate_timer :: "bool \<Rightarrow> visibility_gate \<Rightarrow> gate_event list \<times> visibility_gate" where
  "gate_timer hidden g =
     (if \<not> vg_timer g then ([], g)
      else if vg_disposed g \<or> vg_paused g \<or> \<not> hidden then ([], g\<lparr>vg_timer := False\<rparr>)
      else ([Pause], g\<lparr>vg_timer := False, vg_paused := True\<rparr>))"

definition gate_dispose :: "visibility_gate \<Rightarrow> visibility_gate" where
  "gate_dispose g = g\<lparr>vg_disposed := True, vg_timer := False\<rparr>"

datatype gate_op = Notify bool | Timer bool | Dispose

fun gate_step :: "gate_op \<Rightarrow> visibility_gate \<Rightarrow> gate_event list \<times> visibility_gate" where
  "gate_step (Notify h) g = gate_notify h g"
| "gate_step (Timer h) g = gate_timer h g"
| "gate_step Dispose g = ([], gate_dispose g)"

fun gate_run :: "gate_op list \<Rightarrow> visibility_gate \<Rightarrow> gate_event list \<times> visibility_gate" where
  "gate_run [] g = ([], g)"
| "gate_run (x # xs) g = (let (ev, g1) = gate_step x g; (evs, g2) = gate_run xs g1 in (ev @ evs, g2))"

text \<open>Pauses and resumes alternate, starting with a pause when the pane is not paused.\<close>

fun alternates :: "bool \<Rightarrow> gate_event list \<Rightarrow> bool" where
  "alternates paused [] = True"
| "alternates paused (Pause # ev) = (\<not> paused \<and> alternates True ev)"
| "alternates paused (Resume # ev) = (paused \<and> alternates False ev)"

definition paused_after :: "bool \<Rightarrow> gate_event list \<Rightarrow> bool" where
  "paused_after paused ev = (if ev = [] then paused else last ev = Pause)"

lemma gate_step_alternates:
  assumes "gate_step x g = (ev, g')"
  shows "alternates (vg_paused g) (ev @ evs) = alternates (vg_paused g') evs"
    and "alternates (vg_paused g) ev" "vg_paused g' = paused_after (vg_paused g) ev" "vg_disposed g \<longrightarrow> ev = [] \<and> vg_disposed g'"
  using assms by (cases x; auto simp: gate_notify_def gate_timer_def gate_dispose_def paused_after_def split: if_splits)+

text \<open>A gate asks for a pause and a reconnect in turns, whatever the page does, and nothing once it is disposed of.\<close>

lemma gate_alternates:
  "gate_run xs g = (ev, g') \<Longrightarrow>
   alternates (vg_paused g) ev \<and> vg_paused g' = paused_after (vg_paused g) ev \<and> (vg_disposed g \<longrightarrow> ev = [])"
proof (induction xs arbitrary: g ev)
  case Nil
  then show ?case by (simp add: paused_after_def)
next
  case (Cons x xs)
  obtain e1 g1 where s: "gate_step x g = (e1, g1)" by fastforce
  obtain e2 where r: "gate_run xs g1 = (e2, g')" "ev = e1 @ e2" using Cons.prems s by (auto split: prod.splits)
  show ?case using Cons.IH [OF r(1)] gate_step_alternates [OF s] r(2) by (auto simp: paused_after_def)
qed

section \<open>The transport of a shell pane\<close>

record render_mode =
  isStreamingActive :: bool
  isStreamEnabled :: bool

record streaming_mode = render_mode +
  isStreamTransportReady :: bool
  isPollingTransport :: bool
  isPolledRepaintOwner :: bool

definition resolveStreamRenderMode :: "bool \<Rightarrow> bool \<Rightarrow> render_mode" where
  "resolveStreamRenderMode experiment fallback =
     (let a = experiment \<and> \<not> fallback in \<lparr>isStreamingActive = a, isStreamEnabled = a\<rparr>)"

definition resolveStreamingMode :: "render_mode \<Rightarrow> bool \<Rightarrow> streaming_mode" where
  "resolveStreamingMode r streamConnected =
     (let ready = isStreamingActive r \<and> streamConnected
      in \<lparr>isStreamingActive = isStreamingActive r, isStreamEnabled = isStreamEnabled r, isStreamTransportReady = ready,
          isPollingTransport = (\<not> ready), isPolledRepaintOwner = (\<not> isStreamingActive r)\<rparr>)"

definition pollingSubscriptionSessionId :: "string option \<Rightarrow> streaming_mode \<Rightarrow> string option" where
  "pollingSubscriptionSessionId sessionId mode = (if isPolledRepaintOwner mode then sessionId else None)"

datatype 'a transport_call = OverStream 'a | OverHttp 'a

definition dispatchShellInput :: "streaming_mode \<Rightarrow> units \<Rightarrow> units transport_call" where
  "dispatchShellInput mode d = (if isStreamTransportReady mode then OverStream d else OverHttp d)"

definition dispatchShellResize :: "streaming_mode \<Rightarrow> int \<Rightarrow> int \<Rightarrow> (int \<times> int) transport_call" where
  "dispatchShellResize mode rows cols = (if isStreamTransportReady mode then OverStream (rows, cols) else OverHttp (rows, cols))"

text \<open>While the socket is down but not given up, input goes over HTTP and the polled capture does not touch the screen.\<close>

lemma reconnecting_pane:
  "let mode = resolveStreamingMode (resolveStreamRenderMode True False) False
   in dispatchShellInput mode d = OverHttp d \<and> dispatchShellResize mode rows cols = OverHttp (rows, cols)
      \<and> pollingSubscriptionSessionId s mode = None"
  by (simp add: resolveStreamingMode_def resolveStreamRenderMode_def dispatchShellInput_def dispatchShellResize_def
      pollingSubscriptionSessionId_def Let_def)

end
