(* ===== verification/TerminalRegistry.thy ===== *)
theory TerminalRegistry
  imports Utf8
begin

text \<open>
  The registry of terminal sessions (\<open>src/ui/components/shells/terminalSessionRegistry.ts\<close>): saved screens and the
  bytes that arrive while a session has no terminal. The clock and the serializer of a terminal are arguments. The two
  names the code gives one array (\<open>deltaBuffer\<close>, \<open>deltaChunks\<close>) are one field.
\<close>

section \<open>State\<close>

definition MAX_DELTA_BYTES :: nat where "MAX_DELTA_BYTES = 1024 * 1024"

record saved_terminal =
  st_snapshot :: utext
  st_scrollOffset :: int
  st_savedViewportY :: int
  st_deltas :: "bytes list"
  st_totalBytes :: nat
  st_truncated :: bool
  st_updatedAt :: int
  st_cols :: int
  st_rows :: int
  st_isSized :: bool

record 'a terminal_registry =
  tr_sessions :: "string \<Rightarrow> saved_terminal option"
  tr_active :: "string set"
  tr_addons :: "string \<Rightarrow> 'a option"

definition newRegistry :: "'a terminal_registry" where
  "newRegistry = \<lparr>tr_sessions = Map.empty, tr_active = {}, tr_addons = Map.empty\<rparr>"

text \<open>What a save is given: a text, or a terminal with its columns, rows and the viewport if it has a buffer.\<close>

datatype term_source = Snapshot utext | Term int int "int option"

text \<open>What is buffered: bytes, or a text that is encoded.\<close>

datatype delta_chunk = Raw bytes | Encoded utext

fun chunk_bytes :: "delta_chunk \<Rightarrow> bytes" where
  "chunk_bytes (Raw bs) = bs"
| "chunk_bytes (Encoded t) = encode_text t"

section \<open>Operations\<close>

definition or_else :: "'b option \<Rightarrow> 'b \<Rightarrow> 'b" where
  "or_else v d = (case v of None \<Rightarrow> d | Some x \<Rightarrow> x)"

text \<open>\<open>serialize\<close> is \<open>None\<close> where the serializer throws.\<close>

definition saveSessionState ::
  "('a \<Rightarrow> utext option) \<Rightarrow> string \<Rightarrow> term_source \<Rightarrow> int option \<Rightarrow> int option \<Rightarrow> int option \<Rightarrow> int
   \<Rightarrow> 'a terminal_registry \<Rightarrow> 'a terminal_registry" where
  "saveSessionState serialize i src scroll cols rows now R =
     (let (snapshot, y, c, r) =
        (case src of
           Snapshot s \<Rightarrow> (s, or_else scroll 0, or_else cols 80, or_else rows 24)
         | Term tc trows v \<Rightarrow>
             (case tr_addons R i of None \<Rightarrow> [] | Some a \<Rightarrow> or_else (serialize a) [],
              or_else scroll (or_else v 0), or_else cols tc, or_else rows trows));
          old = tr_sessions R i
      in R\<lparr>tr_sessions := (tr_sessions R)(i \<mapsto>
           \<lparr>st_snapshot = snapshot, st_scrollOffset = y, st_savedViewportY = y,
            st_deltas = (case old of None \<Rightarrow> [] | Some s \<Rightarrow> st_deltas s),
            st_totalBytes = (case old of None \<Rightarrow> 0 | Some s \<Rightarrow> st_totalBytes s),
            st_truncated = (case old of None \<Rightarrow> False | Some s \<Rightarrow> st_truncated s),
            st_updatedAt = now, st_cols = c, st_rows = r, st_isSized = True\<rparr>)\<rparr>)"

text \<open>The loop that drops the oldest chunks: chunks, held, and whether bytes were dropped.\<close>

fun prune_deltas :: "bytes list \<Rightarrow> nat \<Rightarrow> bool \<Rightarrow> bytes list \<times> nat \<times> bool" where
  "prune_deltas [] held gone = ([], held, gone)"
| "prune_deltas (c # cs) held gone =
     (if MAX_DELTA_BYTES < held then prune_deltas cs (held - length c) True else (c # cs, held, gone))"

definition bufferSessionDelta :: "string \<Rightarrow> delta_chunk \<Rightarrow> int \<Rightarrow> 'a terminal_registry \<Rightarrow> 'a terminal_registry" where
  "bufferSessionDelta i chunk now R =
     (let bs = chunk_bytes chunk in
      if bs = [] then R
      else
        (let dropped = MAX_DELTA_BYTES < length bs;
             safe = (if dropped then drop (length bs - MAX_DELTA_BYTES) bs else bs);
             s = (case tr_sessions R i of
                    None \<Rightarrow>
                      \<lparr>st_snapshot = [], st_scrollOffset = 0, st_savedViewportY = 0, st_deltas = [safe],
                       st_totalBytes = length safe, st_truncated = dropped, st_updatedAt = now, st_cols = 80, st_rows = 24,
                       st_isSized = False\<rparr>
                  | Some s \<Rightarrow>
                      (let (ds, held, gone) =
                         prune_deltas (st_deltas s @ [safe]) (st_totalBytes s + length safe) (st_truncated s \<or> dropped)
                       in s\<lparr>st_deltas := ds, st_totalBytes := held, st_truncated := gone, st_updatedAt := now\<rparr>))
         in R\<lparr>tr_sessions := (tr_sessions R)(i \<mapsto> s)\<rparr>))"

definition drainSessionDeltas :: "string \<Rightarrow> 'a terminal_registry \<Rightarrow> bytes list \<times> 'a terminal_registry" where
  "drainSessionDeltas i R =
     (case tr_sessions R i of
        None \<Rightarrow> ([], R)
      | Some s \<Rightarrow>
          (if st_truncated s then [] else st_deltas s,
           R\<lparr>tr_sessions := (tr_sessions R)(i \<mapsto> s\<lparr>st_deltas := [], st_totalBytes := 0, st_truncated := False\<rparr>)\<rparr>))"

record restoration_data =
  rs_snapshot :: utext
  rs_deltas :: "bytes list"
  rs_truncated :: bool
  rs_savedViewportY :: int
  rs_scrollOffset :: int
  rs_cols :: int
  rs_rows :: int

definition consumeRestorationData :: "string \<Rightarrow> 'a terminal_registry \<Rightarrow> restoration_data option \<times> 'a terminal_registry" where
  "consumeRestorationData i R =
     (case tr_sessions R i of
        None \<Rightarrow> (None, R)
      | Some s \<Rightarrow>
          (let (ds, R') = drainSessionDeltas i R in
           (Some \<lparr>rs_snapshot = st_snapshot s, rs_deltas = ds, rs_truncated = st_truncated s,
                  rs_savedViewportY = st_savedViewportY s, rs_scrollOffset = st_scrollOffset s,
                  rs_cols = st_cols s, rs_rows = st_rows s\<rparr>, R')))"

definition registerSerializeAddon :: "string \<Rightarrow> 'a \<Rightarrow> 'a terminal_registry \<Rightarrow> 'a terminal_registry" where
  "registerSerializeAddon i a R = R\<lparr>tr_addons := (tr_addons R)(i \<mapsto> a)\<rparr>"

definition unregisterSerializeAddon :: "string \<Rightarrow> 'a terminal_registry \<Rightarrow> 'a terminal_registry" where
  "unregisterSerializeAddon i R = R\<lparr>tr_addons := (tr_addons R)(i := None)\<rparr>"

definition registerActiveSession :: "string \<Rightarrow> 'a terminal_registry \<Rightarrow> 'a terminal_registry" where
  "registerActiveSession i R = R\<lparr>tr_active := insert i (tr_active R)\<rparr>"

definition unregisterActiveSession :: "string \<Rightarrow> 'a terminal_registry \<Rightarrow> 'a terminal_registry" where
  "unregisterActiveSession i R = R\<lparr>tr_active := tr_active R - {i}\<rparr>"

definition isSessionActive :: "string \<Rightarrow> 'a terminal_registry \<Rightarrow> bool" where
  "isSessionActive i R = (i \<in> tr_active R)"

definition hasSessionState :: "string \<Rightarrow> 'a terminal_registry \<Rightarrow> bool" where
  "hasSessionState i R = (tr_sessions R i \<noteq> None)"

definition getSessionState :: "string \<Rightarrow> 'a terminal_registry \<Rightarrow> saved_terminal option" where
  "getSessionState i R = tr_sessions R i"

definition clearSessionState :: "string \<Rightarrow> 'a terminal_registry \<Rightarrow> 'a terminal_registry" where
  "clearSessionState i R =
     R\<lparr>tr_sessions := (tr_sessions R)(i := None), tr_active := tr_active R - {i}, tr_addons := (tr_addons R)(i := None)\<rparr>"

definition clearAll :: "'a terminal_registry \<Rightarrow> 'a terminal_registry" where
  "clearAll R = R\<lparr>tr_sessions := Map.empty, tr_active := {}, tr_addons := Map.empty\<rparr>"

datatype 'a registry_op =
    Save string term_source "int option" "int option" "int option" int
  | Buffer string delta_chunk int
  | Drain string
  | Addon string "'a option"
  | Active string bool
  | Clear string
  | ClearAll

fun registry_step :: "('a \<Rightarrow> utext option) \<Rightarrow> 'a registry_op \<Rightarrow> 'a terminal_registry \<Rightarrow> 'a terminal_registry" where
  "registry_step ser (Save i src scroll cols rows now) R = saveSessionState ser i src scroll cols rows now R"
| "registry_step ser (Buffer i c now) R = bufferSessionDelta i c now R"
| "registry_step ser (Drain i) R = snd (drainSessionDeltas i R)"
| "registry_step ser (Addon i (Some a)) R = registerSerializeAddon i a R"
| "registry_step ser (Addon i None) R = unregisterSerializeAddon i R"
| "registry_step ser (Active i on) R = (if on then registerActiveSession i R else unregisterActiveSession i R)"
| "registry_step ser (Clear i) R = clearSessionState i R"
| "registry_step ser ClearAll R = clearAll R"

definition registry_run :: "('a \<Rightarrow> utext option) \<Rightarrow> 'a registry_op list \<Rightarrow> 'a terminal_registry \<Rightarrow> 'a terminal_registry" where
  "registry_run ser ops R = fold (registry_step ser) ops R"

section \<open>A replay is exact or empty\<close>

text \<open>The bytes that arrived for a session since it was last drained or cleared.\<close>

fun arrive :: "string \<Rightarrow> 'a registry_op \<Rightarrow> bytes \<Rightarrow> bytes" where
  "arrive i (Buffer j c now) acc = (if j = i then acc @ chunk_bytes c else acc)"
| "arrive i (Drain j) acc = (if j = i then [] else acc)"
| "arrive i (Clear j) acc = (if j = i then [] else acc)"
| "arrive i ClearAll acc = []"
| "arrive i _ acc = acc"

definition arrived :: "string \<Rightarrow> 'a registry_op list \<Rightarrow> bytes" where
  "arrived i ops = fold (arrive i) ops []"

definition session_ok :: "saved_terminal option \<Rightarrow> bytes \<Rightarrow> bool" where
  "session_ok v acc =
     (case v of
        None \<Rightarrow> acc = []
      | Some s \<Rightarrow>
          st_totalBytes s = length (concat (st_deltas s)) \<and> st_totalBytes s \<le> MAX_DELTA_BYTES
          \<and> (st_truncated s \<longleftrightarrow> MAX_DELTA_BYTES < length acc) \<and> (\<exists>lost. acc = lost @ concat (st_deltas s))
          \<and> (\<not> st_truncated s \<longrightarrow> acc = concat (st_deltas s)))"

lemma prune_ok:
  "prune_deltas cs held gone = (ds, n, t) \<Longrightarrow> held = length (concat cs) \<Longrightarrow>
   n = length (concat ds) \<and> n \<le> MAX_DELTA_BYTES \<and> (\<exists>lost. concat cs = lost @ concat ds)
   \<and> (t \<longleftrightarrow> gone \<or> MAX_DELTA_BYTES < held) \<and> (held \<le> MAX_DELTA_BYTES \<longrightarrow> ds = cs)"
proof (induction cs held gone rule: prune_deltas.induct)
  case (2 c cs held gone)
  show ?case
  proof (cases "MAX_DELTA_BYTES < held")
    case True
    have "n = length (concat ds) \<and> n \<le> MAX_DELTA_BYTES \<and> (\<exists>lost. concat cs = lost @ concat ds) \<and> t"
      using 2 True by auto
    then show ?thesis using True by (auto intro: exI [of _ "c @ _"])
  next
    case False
    then show ?thesis using 2 by auto
  qed
qed auto

lemma suffix_of: "a @ b = l @ d \<Longrightarrow> length d \<le> length b \<Longrightarrow> \<exists>k. b = k @ d"
  by (auto simp: append_eq_append_conv2)

lemma buffer_ok:
  assumes "session_ok (tr_sessions R i) acc"
  shows "session_ok (tr_sessions (bufferSessionDelta i c now R) i) (acc @ chunk_bytes c)"
proof (cases "chunk_bytes c = []")
  case True
  then show ?thesis using assms by (simp add: bufferSessionDelta_def)
next
  case False
  let ?bs = "chunk_bytes c"
  let ?dropped = "MAX_DELTA_BYTES < length ?bs"
  let ?safe = "if ?dropped then drop (length ?bs - MAX_DELTA_BYTES) ?bs else ?bs"
  have safe: "length ?safe \<le> MAX_DELTA_BYTES" "\<exists>lost. ?bs = lost @ ?safe" "\<not> ?dropped \<Longrightarrow> ?safe = ?bs"
    by (auto intro: exI [of _ "take (length ?bs - MAX_DELTA_BYTES) ?bs"] exI [of _ "[]"])
  show ?thesis
  proof (cases "tr_sessions R i")
    case None
    then have "acc = []" using assms by (simp add: session_ok_def)
    then show ?thesis using None False safe by (simp add: bufferSessionDelta_def session_ok_def Let_def)
  next
    case (Some s)
    obtain ds n t where p: "prune_deltas (st_deltas s @ [?safe]) (st_totalBytes s + length ?safe) (st_truncated s \<or> ?dropped) = (ds, n, t)"
      by (cases "prune_deltas (st_deltas s @ [?safe]) (st_totalBytes s + length ?safe) (st_truncated s \<or> ?dropped)") blast
    have ok: "st_totalBytes s = length (concat (st_deltas s))" "st_truncated s \<longleftrightarrow> MAX_DELTA_BYTES < length acc"
      "\<exists>lost. acc = lost @ concat (st_deltas s)" "\<not> st_truncated s \<longrightarrow> acc = concat (st_deltas s)"
      using assms Some by (simp_all add: session_ok_def)
    have "st_totalBytes s + length ?safe = length (concat (st_deltas s @ [?safe]))" using ok(1) by simp
    from prune_ok [OF p this]
    have pr: "n = length (concat ds)" "n \<le> MAX_DELTA_BYTES" "\<exists>lost. concat (st_deltas s @ [?safe]) = lost @ concat ds"
      "t \<longleftrightarrow> (st_truncated s \<or> ?dropped) \<or> MAX_DELTA_BYTES < st_totalBytes s + length ?safe"
      "st_totalBytes s + length ?safe \<le> MAX_DELTA_BYTES \<longrightarrow> ds = st_deltas s @ [?safe]"
      by blast+
    have new: "tr_sessions (bufferSessionDelta i c now R) i =
        Some (s\<lparr>st_deltas := ds, st_totalBytes := n, st_truncated := t, st_updatedAt := now\<rparr>)"
      using Some False p by (simp add: bufferSessionDelta_def Let_def)
    have t: "t \<longleftrightarrow> MAX_DELTA_BYTES < length (acc @ ?bs)"
    proof (cases "st_truncated s \<or> ?dropped")
      case True
      then show ?thesis using pr(4) ok(2) by auto
    next
      case False
      then have "st_totalBytes s + length ?safe = length (acc @ ?bs)" using ok(1,4) safe(3) by simp
      then show ?thesis using pr(4) False by simp
    qed
    have exact: "acc @ ?bs = concat ds" if "\<not> t"
    proof -
      have "\<not> st_truncated s" "\<not> ?dropped" "st_totalBytes s + length ?safe \<le> MAX_DELTA_BYTES" using pr(4) that by auto
      then have "ds = st_deltas s @ [?bs]" "acc = concat (st_deltas s)" using pr(5) safe(3) ok(4) by simp_all
      then show ?thesis by simp
    qed
    obtain l1 l2 l3 where l: "acc = l1 @ concat (st_deltas s)" "?bs = l2 @ ?safe" "concat (st_deltas s) @ ?safe = l3 @ concat ds"
      using ok(3) safe(2) pr(3) by auto
    have "\<exists>lost. acc @ ?bs = lost @ concat ds"
    proof (cases "?dropped")
      case False
      then show ?thesis using l safe(3) by (intro exI [of _ "l1 @ l3"]) simp
    next
      case True
      have "length (concat ds) \<le> length ?safe" using pr(1,2) True by simp
      from suffix_of [OF l(3) this] obtain k where k: "?safe = k @ concat ds" by (elim exE)
      have "acc @ ?bs = acc @ l2 @ ?safe" by (rule arg_cong [OF l(2)])
      also have "\<dots> = (acc @ l2 @ k) @ concat ds" unfolding k by (simp only: append.assoc)
      finally show ?thesis by (rule exI)
    qed
    then show ?thesis using new pr(1,2) t exact by (simp add: session_ok_def)
  qed
qed

lemma other_session:
  "j \<noteq> i \<Longrightarrow> tr_sessions (bufferSessionDelta j c now R) i = tr_sessions R i"
  "j \<noteq> i \<Longrightarrow> tr_sessions (snd (drainSessionDeltas j R)) i = tr_sessions R i"
  by (auto simp: bufferSessionDelta_def drainSessionDeltas_def Let_def split: option.splits prod.splits)

lemma registry_step_ok:
  assumes "session_ok (tr_sessions R i) acc"
  shows "session_ok (tr_sessions (registry_step ser x R) i) (arrive i x acc)"
proof (cases x)
  case (Save j src scroll cols rows now)
  then show ?thesis using assms
    by (cases "j = i") (auto simp: saveSessionState_def session_ok_def Let_def split: option.splits prod.splits)
next
  case (Buffer j c now)
  then show ?thesis using assms buffer_ok [OF assms] by (cases "j = i") (simp_all add: other_session(1))
next
  case (Drain j)
  then show ?thesis using assms
    by (cases "j = i") (simp_all add: other_session(2), auto simp: drainSessionDeltas_def session_ok_def split: option.splits)
next
  case (Addon j v)
  then show ?thesis using assms
    by (cases v) (simp_all add: registerSerializeAddon_def unregisterSerializeAddon_def)
next
  case (Active j on)
  then show ?thesis using assms by (simp add: registerActiveSession_def unregisterActiveSession_def)
next
  case (Clear j)
  then show ?thesis using assms by (auto simp: clearSessionState_def session_ok_def)
next
  case ClearAll
  then show ?thesis by (simp add: clearAll_def session_ok_def)
qed

lemma registry_run_ok: "session_ok (tr_sessions (registry_run ser ops newRegistry) i) (arrived i ops)"
proof -
  have "session_ok (tr_sessions R i) acc \<Longrightarrow> session_ok (tr_sessions (fold (registry_step ser) ops R) i) (fold (arrive i) ops acc)"
    for R acc
    by (induction ops arbitrary: R acc) (simp_all add: registry_step_ok)
  then show ?thesis by (simp add: registry_run_def arrived_def newRegistry_def session_ok_def)
qed

lemma restoration_exists:
  "session_ok (tr_sessions R i) acc \<Longrightarrow> acc \<noteq> [] \<Longrightarrow> \<exists>d R'. consumeRestorationData i R = (Some d, R')"
  by (cases "tr_sessions R i") (auto simp: session_ok_def consumeRestorationData_def split: prod.splits)

text \<open>
  C39. After any operations on any sessions, what a remounted terminal is given to replay is exactly the bytes that
  arrived since the last drain, when they fit the bound, and nothing otherwise, in which case the restoration says so;
  the session never holds more than the bound; and after the drain it holds nothing.
\<close>

theorem replay_exact:
  assumes "consumeRestorationData i (registry_run ser ops newRegistry) = (Some d, R')"
  shows "concat (rs_deltas d) = (if length (arrived i ops) \<le> MAX_DELTA_BYTES then arrived i ops else [])
    \<and> rs_truncated d = (MAX_DELTA_BYTES < length (arrived i ops))
    \<and> (case tr_sessions (registry_run ser ops newRegistry) i of
          None \<Rightarrow> False | Some s \<Rightarrow> length (concat (st_deltas s)) = st_totalBytes s \<and> st_totalBytes s \<le> MAX_DELTA_BYTES)
    \<and> fst (drainSessionDeltas i R') = []"
proof -
  obtain s where s: "tr_sessions (registry_run ser ops newRegistry) i = Some s"
    using assms by (auto simp: consumeRestorationData_def split: option.splits)
  have "session_ok (Some s) (arrived i ops)" using registry_run_ok [of ser ops i] s by simp
  moreover have "rs_deltas d = (if st_truncated s then [] else st_deltas s)" "rs_truncated d = st_truncated s"
    "tr_sessions R' i = Some (s\<lparr>st_deltas := [], st_totalBytes := 0, st_truncated := False\<rparr>)"
    using assms s by (auto simp: consumeRestorationData_def drainSessionDeltas_def)
  ultimately show ?thesis using s by (auto simp: session_ok_def drainSessionDeltas_def)
qed

theorem replay_exact_witness:
  "\<exists>d R'. consumeRestorationData ''s''
     (registry_run (\<lambda>a. None) [Buffer ''s'' (Raw [1, 2]) 0, Active ''s'' False, Buffer ''t'' (Raw [9]) 1,
        Save ''s'' (Snapshot [65]) None None None 2, Buffer ''s'' (Encoded [65]) 3 :: unit registry_op] newRegistry) = (Some d, R')
     \<and> concat (rs_deltas d) = [1, 2, 65] \<and> \<not> rs_truncated d"
proof -
  let ?ops = "[Buffer ''s'' (Raw [1, 2]) 0, Active ''s'' False, Buffer ''t'' (Raw [9]) 1,
        Save ''s'' (Snapshot [65]) None None None 2, Buffer ''s'' (Encoded [65]) 3 :: unit registry_op]"
  have arrived: "arrived ''s'' ?ops = [1, 2, 65]"
    by (simp add: arrived_def encode_text_def encode_scalar_def is_scalar_def byte_of_def)
  have "session_ok (tr_sessions (registry_run (\<lambda>a. None) ?ops newRegistry) ''s'') [1, 2, 65]"
    using registry_run_ok [of "\<lambda>a. None" ?ops "''s''"] unfolding arrived .
  from restoration_exists [OF this list.distinct(2)] obtain d R'
    where d: "consumeRestorationData ''s'' (registry_run (\<lambda>a. None) ?ops newRegistry) = (Some d, R')" by blast
  have "length [1, 2, 65 :: byte] \<le> MAX_DELTA_BYTES" by (simp add: MAX_DELTA_BYTES_def)
  then have "concat (rs_deltas d) = [1, 2, 65]" "\<not> rs_truncated d"
    using replay_exact [OF d] unfolding arrived by simp_all
  with d show ?thesis by blast
qed

end
