(* ===== verification/Spec2Isabelle.thy ===== *)
theory Spec2Isabelle
  imports WorkspaceProps SplitGroups ConversationUrl DragTarget AuxGuards VaultKeyring RecoveryWords VaultAad VaultWitness VaultChain VaultWrap PaneDelivery PaneIo TerminalRegistry
begin

text \<open>
  A verification library of the Heimdall agent manager's user interface (\<open>src/ui\<close>, TypeScript): the
  logic that decides what is on the screen, what is stored, what is sealed and who is believed. Rendering and I/O
  are left out; what the logic computes from a state and an event is translated function by function, under the
  names of the source, and proved to do what the component promises.

  \<^bold>\<open>The program.\<close> The workspace is a binary tree of panes whose leaves hold a target (an agent, a shell, or the
  picker). Its layout is named by the URL and persisted per set of open targets; next to it an auxiliary
  dock keeps one tab strip per target. Terminals stream encrypted frames through a WebSocket into panes, with a
  delivery queue, a replay guard and a registry that restores a terminal that was unmounted. The vault keeps
  the keys: a keyring of epoch keys, recovery words, tokens and envelopes, and an append-only directory of devices
  which every browser verifies from the root key it pinned, and from which it proves to a bridge who may act.

  \<^bold>\<open>Theories and sources.\<close> Paths are below \<open>src/ui\<close>.
  \<^item> Language: \<open>JsPrelude\<close> (numbers, objects, strings, parsed JSON), \<open>JsValue\<close> (number spelling),
    \<open>UrlCodec\<close> (percent encoding, form encoding), \<open>Utf8\<close> (\<open>TextEncoder\<close>, \<open>TextDecoder\<close>), \<open>Bytes\<close> (\<open>DataView\<close>, hex).
  \<^item> Tiling engine: \<open>PaneTree\<close> (\<open>tiling/types.ts\<close>, \<open>tiling/paneTreeState.ts\<close>), \<open>PaneLayout\<close>
    (\<open>tiling/calculatePaneLayout.ts\<close>), \<open>DragTarget\<close> (\<open>tiling/dragUtils.ts\<close>). A state is the record of the source
    with its object of panes; \<open>PaneTreeSpec\<close> is the inductive tree it stands for (\<open>represents\<close>), and
    \<open>PaneTreeRefine\<close> proves split, close, move, swap, resize, equalize and maximize to implement the tree operations.
  \<^item> Workspace: \<open>PaneTarget\<close> (\<open>utils/paneTarget.ts\<close>), \<open>Workspace\<close> (\<open>store/workspaceLayoutSlice.ts\<close>),
    \<open>WorkspaceTree\<close>, \<open>WorkspaceInv\<close>, \<open>WorkspaceUrl\<close>, \<open>WorkspaceSave\<close>, \<open>WorkspaceProps\<close> (its reducers on trees, their
    invariant, the URL and the sanitizer, the persisted form, the properties), \<open>SplitGroups\<close>
    (\<open>store/splitGroups.ts\<close>), \<open>ConversationUrl\<close> (\<open>utils/conversationUrl.ts\<close>).
  \<^item> Dock: \<open>AuxTab\<close>, \<open>AuxTabCodec\<close> (\<open>store/auxTabId.ts\<close>), \<open>AuxPanes\<close>, \<open>AuxPanesInv\<close>, \<open>AuxPanesProps\<close>
    (\<open>store/auxPanesSlice.ts\<close>), \<open>AuxGuards\<close> (\<open>store/auxTabGuards.ts\<close>).
  \<^item> Vault: \<open>VaultKeyring\<close> (\<open>utils/vaultKeyring.ts\<close>), \<open>Sha256\<close>, \<open>RecoveryWords\<close>, \<open>VaultToken\<close>, \<open>VaultSeal\<close>,
    \<open>VaultAad\<close> (\<open>utils/vaultCrypto.ts\<close>), \<open>RecoveryWordList\<close> (\<open>utils/bip39Words.ts\<close>), \<open>VaultStatements\<close>
    (\<open>utils/vaultStatements.ts\<close>), \<open>DeviceIdentity\<close> (\<open>utils/deviceIdentity.ts\<close>), \<open>VaultDirectory\<close>,
    \<open>VaultBridgeProof\<close> (\<open>utils/vaultDirectoryVerify.ts\<close>), \<open>VaultWrap\<close> (\<open>utils/vaultKeyringWrap.ts\<close>). \<open>VaultLog\<close>
    specifies the directory log without the walk's maps, \<open>VaultLogProps\<close> and \<open>VaultHonest\<close> draw the guarantees;
    \<open>VaultSample\<close>, \<open>VaultWitness\<close>, \<open>VaultChain\<close> are concrete vaults, the last with digests computed by \<open>ShaEval\<close>.
  \<^item> Terminals (\<open>components/shells\<close>): \<open>PtyWire\<close>, \<open>PtyReplay\<close>, \<open>PtyInput\<close> (\<open>ptyWire.ts\<close>), \<open>PaneText\<close>,
    \<open>PaneDelivery\<close> (\<open>paneDeliveryQueue.ts\<close>), \<open>PaneIo\<close> (batcher, coalescer, resize, visibility),
    \<open>TerminalRegistry\<close> (\<open>terminalSessionRegistry.ts\<close>).

  \<^bold>\<open>Interfaces.\<close> \<open>partial_codec\<close> is the contract of an encoder and its decoder, interpreted on pane targets,
  URI components, form fields, tab ids, fixed-width numbers, hex and text units. \<open>reducer\<close> (theory \<open>Reducer\<close>) is
  the contract of a store slice, whose admissible actions keep an invariant, so that every run does; it is interpreted on
  the workspace and on the dock.

  \<^bold>\<open>What the lemmas show.\<close> Tree operations refine an abstract tree and tile the container; every run of the
  workspace and of the dock keeps its invariant; the sanitizers accept only what the rest relies on, with the
  exception stated in \<open>sanitize_sound\<close>; URLs, ids, layouts, keyrings, words, tokens and statements are read back as they
  were written, and nothing else is read; opened content was sealed for exactly that purpose; the directory
  verifier accepts exactly the good logs, never forgets a revocation, and its proofs name signers the root vouches for;
  pins only advance; replayed or reordered frames are refused; the delivery queue loses nothing and drains; a
  remounted terminal replays what it missed. Each property of the manifest carries its claim id where it is
  stated, and each with hypotheses has a witness next to it or in a witness theory.

  \<^bold>\<open>Bounds and termination.\<close> Loops of the source that may not end are \<open>partial_function (option)\<close>
  (\<open>nearestResizeSplit\<close>) and are proved to end on represented trees; the others are total by structural recursion or a
  measure (\<open>sanitize_visit\<close> by its depth limit 64, \<open>issuer_walk\<close> by the ids not seen). No fuel is used.
  \<open>sha256Sync_correct\<close> is for messages below \<open>2 ^ 29\<close> bytes, the length the code stores; \<open>verifyLinks\<close> refuses more than
  sixteen links; the replay guard is exact while its tables hold all salts.

  \<^bold>\<open>Idealizations.\<close>
  \<^item> Finite doubles are rationals; decimal sequence numbers, epochs and pane-id counters are exact above \<open>2 ^ 53\<close>,
    where \<open>Number\<close> rounds; numbers from \<open>10 ^ 21\<close> on are printed in full.
  \<^item> Strings are lists of code units below 256 in the stores and URLs (a percent sequence of another code point is
    malformed there), lists of code points in texts and tokens, and UTF-16 code units in pane texts.
  \<^item> Reading a property of an object does not see \<open>Object.prototype\<close>, except in the sanitizer of persisted trees, where
    \<open>has_key\<close> does. A persisted focus or maximized id that is not a string names no pane.
  \<^item> A stored text is the value \<open>JSON.parse\<close> gives, or \<open>NotJson\<close>; writing to the store never fails.
  \<^item> The document, location, clock, nonces and entropy are arguments. WebCrypto is an argument with the documented
    behaviour of AES-GCM (\<open>aead_laws\<close>); signature checks, HMAC, key agreement and the JSON reader of the vault are
    arguments without laws. Zeroing of temporaries is left out. Collision-freeness of the hash is a named hypothesis on
    the two logs of \<open>pinned_directory_extends\<close>.
  \<^item> Key-value stores are maps and each operation on one is a single step: the asynchronous get and put of
    \<open>advancePins\<close> are not interleaved with another call's. The interleavings of terminal input
    (\<open>encrypt_begin\<close>, \<open>encrypt_resume\<close>) and of the delivery queue are modelled: promise settlement, timers and
    animation frames are operations, callbacks are events.
  \<^item> The dock's invariant assumes session and chain ids without a colon and whole ports in the actions.

  \<^bold>\<open>Not modelled.\<close> React components and hooks, the daemon's API client and cache tags, stores that only set
  fields, the orchestration of the vault (\<open>services/deviceVault.ts\<close>), the language server client, the Electron and
  bridge shells, theme and search: they render, forward to the browser or to a service outside the repository, and keep no
  invariant of their own.
\<close>

end
